(* ===== verification/Qorus_Prelude.thy ===== *)
theory Qorus_Prelude
  imports Main
begin

text \<open>
  The vocabulary shared by every component of the model.

  \<^item> Outcomes of C++ code: a value, a failed \<^verbatim>\<open>assert\<close> or undefined behaviour
    (\<open>fault\<close>, \<open>rbind\<close>, \<open>assert_that\<close>, \<open>deref\<close>, \<open>rfold\<close>).
  \<^item> The standard containers the code is written with: \<^verbatim>\<open>std::map\<close> as an association
    list sorted by key (\<open>om_*\<close>), \<^verbatim>\<open>std::multimap\<close> as a list of nodes sorted by key whose
    node numbers play the role of iterators (\<open>mm_*\<close>), \<^verbatim>\<open>std::deque\<close> as a list whose
    elements carry the one iterator to them that is still valid (\<open>dq_*\<close>).
  \<^item> Notifications of condition variables and the wait loops of blocking calls.
  \<^item> Narrowing of \<^verbatim>\<open>int64\<close> to \<^verbatim>\<open>int\<close> and the printing of integers.

  The 64-bit integers of the code (identifiers and epoch seconds) are HOL integers; the
  places where the code narrows one to a 32-bit \<^verbatim>\<open>int\<close> apply \<open>to_int32\<close>.
\<close>

section \<open>Outcomes\<close>

datatype fault = Assertion_failed | Undefined_behaviour

type_synonym 'a result = "fault + 'a"

definition rbind :: "'a result \<Rightarrow> ('a \<Rightarrow> 'b result) \<Rightarrow> 'b result" where
  "rbind r f = (case r of Inl e \<Rightarrow> Inl e | Inr x \<Rightarrow> f x)"

definition assert_that :: "bool \<Rightarrow> unit result" where
  "assert_that b = (if b then Inr () else Inl Assertion_failed)"

text \<open>Reading through an iterator or a pointer: \<open>None\<close> is one that is not valid.\<close>

definition deref :: "'a option \<Rightarrow> 'a result" where
  "deref x = (case x of None \<Rightarrow> Inl Undefined_behaviour | Some y \<Rightarrow> Inr y)"

fun rfold :: "('s \<Rightarrow> 'x \<Rightarrow> 's result) \<Rightarrow> 's \<Rightarrow> 'x list \<Rightarrow> 's result" where
  "rfold f s [] = Inr s"
| "rfold f s (x # xs) = rbind (f s x) (\<lambda>s'. rfold f s' xs)"

lemma rbind_simps [simp]:
  "rbind (Inl e) f = Inl e"
  "rbind (Inr x) f = f x"
  by (simp_all add: rbind_def)

lemma rbind_Inr_iff [simp]: "(rbind r f = Inr y) = (\<exists>x. r = Inr x \<and> f x = Inr y)"
  by (cases r) auto

lemma rbind_Inl_iff: "(rbind r f = Inl e) = (r = Inl e \<or> (\<exists>x. r = Inr x \<and> f x = Inl e))"
  by (cases r) auto

lemma rbind_assoc: "rbind (rbind r f) g = rbind r (\<lambda>x. rbind (f x) g)"
  by (cases r) auto

lemma rbind_cong [fundef_cong]:
  "r = r' \<Longrightarrow> (\<And>x. r' = Inr x \<Longrightarrow> f x = g x) \<Longrightarrow> rbind r f = rbind r' g"
  by (cases r') auto

lemma assert_that_simps [simp]:
  "assert_that True = Inr ()"
  "assert_that False = Inl Assertion_failed"
  "(assert_that b = Inr u) = b"
  "(assert_that b = Inl e) = (\<not> b \<and> e = Assertion_failed)"
  by (auto simp: assert_that_def)

lemma deref_simps [simp]:
  "deref None = Inl Undefined_behaviour"
  "deref (Some x) = Inr x"
  "(deref y = Inr x) = (y = Some x)"
  "(deref y = Inl e) = (y = None \<and> e = Undefined_behaviour)"
  by (auto simp: deref_def split: option.splits)

lemma rfold_invariant:
  assumes "rfold f s xs = Inr s'" and "P s"
    and "\<And>x u u'. x \<in> set xs \<Longrightarrow> P u \<Longrightarrow> f u x = Inr u' \<Longrightarrow> P u'"
  shows "P s'"
  using assms by (induction xs arbitrary: s) auto

lemma rfold_progress:
  assumes "P s" and "\<And>x u. x \<in> set xs \<Longrightarrow> P u \<Longrightarrow> \<exists>u'. f u x = Inr u' \<and> P u'"
  shows "\<exists>s'. rfold f s xs = Inr s' \<and> P s'"
  using assms
proof (induction xs arbitrary: s)
  case Nil
  then show ?case by simp
next
  case (Cons x xs)
  from Cons.prems(2)[of x s] Cons.prems(1) obtain u where u: "f s x = Inr u" "P u"
    by auto
  have "\<exists>s'. rfold f u xs = Inr s' \<and> P s'"
    by (rule Cons.IH) (use u Cons.prems(2) in auto)
  with u show ?case by simp
qed

lemma rfold_append: "rfold f s (xs @ ys) = rbind (rfold f s xs) (\<lambda>s'. rfold f s' ys)"
  by (induction xs arbitrary: s) (auto simp: rbind_assoc)

section \<open>Integers\<close>

text \<open>The conversion of an \<^verbatim>\<open>int64\<close> to a 32-bit \<^verbatim>\<open>int\<close> keeps the low 32 bits.\<close>

definition to_int32 :: "int \<Rightarrow> int" where
  "to_int32 i = signed_take_bit 31 i"

definition is_int32 :: "int \<Rightarrow> bool" where
  "is_int32 i \<longleftrightarrow> - (2 ^ 31) \<le> i \<and> i < 2 ^ 31"

lemma to_int32_id [simp]: "is_int32 i \<Longrightarrow> to_int32 i = i"
  unfolding to_int32_def is_int32_def by (rule signed_take_bit_int_eq_self) auto

lemma is_int32_to_int32: "is_int32 (to_int32 i)"
  unfolding to_int32_def is_int32_def
  using signed_take_bit_int_greater_eq_minus_exp[of 31 i] signed_take_bit_int_less_exp[of 31 i]
  by auto

lemma to_int32_idem [simp]: "to_int32 (to_int32 i) = to_int32 i"
  by (simp add: is_int32_to_int32)

lemma to_int32_0 [simp]: "to_int32 0 = 0"
  by (simp add: to_int32_def)

text \<open>\<^verbatim>\<open>%d\<close> and \<^verbatim>\<open>%lld\<close>.\<close>

definition digit :: "nat \<Rightarrow> char" where
  "digit d = char_of (48 + d)"

fun dec_nat :: "nat \<Rightarrow> string" where
  "dec_nat n = (if n < 10 then [digit n] else dec_nat (n div 10) @ [digit (n mod 10)])"

declare dec_nat.simps [simp del]

definition dec :: "int \<Rightarrow> string" where
  "dec i = (if i < 0 then CHR ''-'' # dec_nat (nat (- i)) else dec_nat (nat i))"

text \<open>A \<^verbatim>\<open>size_t\<close> printed with \<^verbatim>\<open>%d\<close>.\<close>

definition dec_size :: "nat \<Rightarrow> string" where
  "dec_size n = dec (to_int32 (int n))"

text \<open>\<^verbatim>\<open>str.terminate(str.strlen() - 2)\<close>\<close>

definition drop2 :: "string \<Rightarrow> string" where
  "drop2 s = take (length s - 2) s"

definition read_digits :: "string \<Rightarrow> nat" where
  "read_digits s = foldl (\<lambda>a c. a * 10 + (of_char c - 48)) 0 s"

lemma of_char_digit: "d < 10 \<Longrightarrow> of_char (digit d) = 48 + d"
  by (simp add: digit_def of_char_of)

lemma read_dec_nat: "read_digits (dec_nat n) = n"
proof (induction n rule: dec_nat.induct)
  case (1 n)
  show ?case
  proof (cases "n < 10")
    case True
    then show ?thesis
      by (subst dec_nat.simps) (simp add: read_digits_def of_char_digit)
  next
    case False
    have d: "of_char (digit (n mod 10)) = 48 + n mod 10"
      by (rule of_char_digit) simp
    from False 1 have "read_digits (dec_nat (n div 10)) = n div 10" by simp
    with False d show ?thesis
      by (subst dec_nat.simps) (simp add: read_digits_def)
  qed
qed

lemma dec_nat_inj: "dec_nat m = dec_nat n \<Longrightarrow> m = n"
  by (metis read_dec_nat)

lemma dec_nat_not_Nil [simp]: "dec_nat n \<noteq> []"
  by (subst dec_nat.simps) simp

lemma hd_dec_nat: "hd (dec_nat n) \<noteq> CHR ''-''"
proof (induction n rule: dec_nat.induct)
  case (1 n)
  show ?case
  proof (cases "n < 10")
    case True
    have "digit n \<noteq> CHR ''-''"
    proof
      assume "digit n = CHR ''-''"
      then have "(of_char (digit n) :: nat) = of_char (CHR ''-'')" by simp
      with True of_char_digit show False by simp
    qed
    with True show ?thesis by (subst dec_nat.simps) simp
  next
    case False
    with 1 show ?thesis by (subst dec_nat.simps) simp
  qed
qed

lemma dec_inj: "dec i = dec j \<Longrightarrow> i = j"
  using hd_dec_nat by (auto simp: dec_def split: if_splits dest: dec_nat_inj) (metis list.sel(1))+

end
