(* ===== verification/Std_Containers.thy ===== *)
theory Std_Containers
  imports Qorus_Prelude
begin

text \<open>
  The standard containers of the code.

  \<^item> \<open>om_*\<close>: a \<^verbatim>\<open>std::map\<close> is an association list sorted by key, so that
    iteration order is list order and \<open>map_of\<close> is the lookup.
  \<^item> \<open>mm_*\<close>: a \<^verbatim>\<open>std::multimap\<close> keyed by a time is a list of nodes
    \<open>(n, key, value)\<close> sorted by key; \<open>n\<close> identifies the node, as an iterator does.  A new
    node goes behind the nodes with an equal key, as the standard requires.  An iterator
    stays valid until its node is erased; its owner never uses a number again, so reading
    through an iterator to an erased node is a lookup that fails.
  \<^item> \<open>dq_*\<close>: a \<^verbatim>\<open>std::deque\<close> is a list of elements, each with the number of the iterator
    to it that is still valid, if there is one.  The standard makes an insertion at
    the end invalidate every iterator into the deque, and an erase invalidate every iterator
    unless the first or the last element is erased (then only the one to that element).
  \<^item> \<open>notify\<close>: what is sent to a condition variable; \<open>wait_loop\<close>: a handler that
    loops over an attempt and a wait, while other threads run during each wait.
\<close>

section \<open>Ordered maps\<close>

type_synonym ('k, 'v) omap = "('k \<times> 'v) list"

fun om_put :: "'k::linorder \<Rightarrow> 'v \<Rightarrow> ('k, 'v) omap \<Rightarrow> ('k, 'v) omap" where
  "om_put k v [] = [(k, v)]"
| "om_put k v (p # m) =
     (if k < fst p then (k, v) # p # m
      else if k = fst p then (k, v) # m else p # om_put k v m)"

definition om_del :: "'k \<Rightarrow> ('k, 'v) omap \<Rightarrow> ('k, 'v) omap" where
  "om_del k m = filter (\<lambda>p. fst p \<noteq> k) m"

definition om_ok :: "('k::linorder, 'v) omap \<Rightarrow> bool" where
  "om_ok m \<longleftrightarrow> sorted (map fst m) \<and> distinct (map fst m)"

lemma om_ok_Nil [simp]: "om_ok []"
  by (simp add: om_ok_def)

lemma om_ok_Cons: "om_ok (p # m) \<longleftrightarrow> om_ok m \<and> (\<forall>q\<in>set m. fst p < fst q)"
  by (auto simp: om_ok_def less_le image_iff)

lemma om_put_get [simp]: "map_of (om_put k v m) = (map_of m)(k \<mapsto> v)"
  by (induction m) auto

lemma om_del_get [simp]: "map_of (om_del k m) = (map_of m)(k := None)"
  by (induction m) (auto simp: om_del_def)

lemma set_om_put: "set (om_put k v m) \<subseteq> insert (k, v) (set m)"
  by (induction m) auto

lemma set_om_put_eq:
  "om_ok m \<Longrightarrow> set (om_put k v m) = insert (k, v) {q \<in> set m. fst q \<noteq> k}"
  by (induction m) (auto simp: om_ok_Cons)

lemma set_om_del [simp]: "set (om_del k m) = {q \<in> set m. fst q \<noteq> k}"
  by (auto simp: om_del_def)

lemma om_ok_put [intro]: "om_ok m \<Longrightarrow> om_ok (om_put k v m)"
  by (induction m) (auto simp: om_ok_Cons set_om_put_eq)

lemma om_ok_del [intro]: "om_ok m \<Longrightarrow> om_ok (om_del k m)"
  by (induction m) (auto simp: om_ok_Cons om_del_def)

lemma om_ok_tl: "om_ok (p # m) \<Longrightarrow> om_ok m"
  by (simp add: om_ok_Cons)

lemma om_get_in_set: "om_ok m \<Longrightarrow> (map_of m k = Some v) = ((k, v) \<in> set m)"
  by (simp add: om_ok_def)

lemma om_put_map_fst: "set (map fst (om_put k v m)) = insert k (set (map fst m))"
  by (induction m) auto

lemma om_put_not_Nil [simp]: "om_put k v m \<noteq> []"
  by (cases m) auto

section \<open>Multimaps keyed by time\<close>

type_synonym 'v nodes = "(nat \<times> int \<times> 'v) list"

fun mm_insert :: "nat \<Rightarrow> int \<Rightarrow> 'v \<Rightarrow> 'v nodes \<Rightarrow> 'v nodes" where
  "mm_insert n k v [] = [(n, k, v)]"
| "mm_insert n k v (x # xs) =
     (if k < fst (snd x) then (n, k, v) # x # xs else x # mm_insert n k v xs)"

definition mm_find :: "nat \<Rightarrow> 'v nodes \<Rightarrow> (int \<times> 'v) option" where
  "mm_find n xs = map_of xs n"

definition mm_erase :: "nat \<Rightarrow> 'v nodes \<Rightarrow> 'v nodes" where
  "mm_erase n xs = filter (\<lambda>x. fst x \<noteq> n) xs"

definition mm_update :: "nat \<Rightarrow> ('v \<Rightarrow> 'v) \<Rightarrow> 'v nodes \<Rightarrow> 'v nodes" where
  "mm_update n f xs = map (\<lambda>x. if fst x = n then (n, fst (snd x), f (snd (snd x))) else x) xs"

definition mm_keys :: "'v nodes \<Rightarrow> int list" where
  "mm_keys xs = map (\<lambda>x. fst (snd x)) xs"

definition mm_vals :: "'v nodes \<Rightarrow> 'v list" where
  "mm_vals xs = map (\<lambda>x. snd (snd x)) xs"

definition mm_ids :: "'v nodes \<Rightarrow> nat list" where
  "mm_ids xs = map fst xs"

text \<open>Well-formed below the next number to be handed out.\<close>

definition mm_ok :: "nat \<Rightarrow> 'v nodes \<Rightarrow> bool" where
  "mm_ok b xs \<longleftrightarrow> sorted (mm_keys xs) \<and> distinct (mm_ids xs) \<and> (\<forall>n\<in>set (mm_ids xs). n < b)"

lemma mm_simps [simp]:
  "mm_keys [] = []" "mm_vals [] = []" "mm_ids [] = []"
  "mm_keys (x # xs) = fst (snd x) # mm_keys xs"
  "mm_vals (x # xs) = snd (snd x) # mm_vals xs"
  "mm_ids (x # xs) = fst x # mm_ids xs"
  "mm_keys (xs @ ys) = mm_keys xs @ mm_keys ys"
  "mm_vals (xs @ ys) = mm_vals xs @ mm_vals ys"
  "mm_ids (xs @ ys) = mm_ids xs @ mm_ids ys"
  "mm_find n [] = None"
  "mm_find n (x # xs) = (if fst x = n then Some (snd x) else mm_find n xs)"
  "mm_erase n [] = []"
  "mm_erase n (x # xs) = (if fst x = n then mm_erase n xs else x # mm_erase n xs)"
  by (auto simp: mm_keys_def mm_vals_def mm_ids_def mm_find_def mm_erase_def)

lemma mm_ok_Nil [simp]: "mm_ok b []"
  by (simp add: mm_ok_def)

lemma set_mm_insert [simp]: "set (mm_insert n k v xs) = insert (n, k, v) (set xs)"
  by (induction xs) auto

lemma set_mm_ids_insert [simp]: "set (mm_ids (mm_insert n k v xs)) = insert n (set (mm_ids xs))"
  by (auto simp: mm_ids_def)

lemma set_mm_keys_insert [simp]: "set (mm_keys (mm_insert n k v xs)) = insert k (set (mm_keys xs))"
  by (auto simp: mm_keys_def)

lemma set_mm_vals_insert [simp]: "set (mm_vals (mm_insert n k v xs)) = insert v (set (mm_vals xs))"
  by (auto simp: mm_vals_def)

lemma set_mm_erase [simp]: "set (mm_erase n xs) = {x \<in> set xs. fst x \<noteq> n}"
  by (auto simp: mm_erase_def)

lemma length_mm_insert [simp]: "length (mm_insert n k v xs) = Suc (length xs)"
  by (induction xs) auto

lemma mm_insert_not_Nil [simp]: "mm_insert n k v xs \<noteq> []"
  by (cases xs) auto

lemma distinct_mm_insert:
  "distinct (mm_ids (mm_insert n k v xs)) = (n \<notin> set (mm_ids xs) \<and> distinct (mm_ids xs))"
  by (induction xs) auto

lemma sorted_mm_insert: "sorted (mm_keys xs) \<Longrightarrow> sorted (mm_keys (mm_insert n k v xs))"
  by (induction xs) (auto intro: order_trans)

lemma mm_ok_insert [intro]: "mm_ok b xs \<Longrightarrow> mm_ok (Suc b) (mm_insert b k v xs)"
  by (auto simp: mm_ok_def distinct_mm_insert sorted_mm_insert less_SucI)

lemma mm_ok_mono: "mm_ok b xs \<Longrightarrow> b \<le> c \<Longrightarrow> mm_ok c xs"
  by (auto simp: mm_ok_def)

lemma mm_ids_erase: "mm_ids (mm_erase n xs) = filter (\<lambda>m. m \<noteq> n) (mm_ids xs)"
  by (induction xs) auto

lemma mm_ok_erase [intro]: "mm_ok b xs \<Longrightarrow> mm_ok b (mm_erase n xs)"
proof -
  assume ok: "mm_ok b xs"
  then have "sorted (mm_keys (mm_erase n xs))"
    unfolding mm_ok_def mm_keys_def mm_erase_def by (auto intro: sorted_filter)
  with ok show ?thesis
    by (auto simp: mm_ok_def mm_ids_erase)
qed

lemma mm_ok_Cons:
  "mm_ok b (x # xs) \<longleftrightarrow>
     mm_ok b xs \<and> (\<forall>y\<in>set xs. fst (snd x) \<le> fst (snd y)) \<and> fst x \<notin> fst ` set xs \<and> fst x < b"
  by (auto simp: mm_ok_def mm_keys_def mm_ids_def)

lemma mm_find_in_set: "distinct (mm_ids xs) \<Longrightarrow> (mm_find n xs = Some p) = ((n, p) \<in> set xs)"
  by (simp add: mm_find_def mm_ids_def)

lemma mm_node_unique:
  "distinct (mm_ids xs) \<Longrightarrow> (n, p) \<in> set xs \<Longrightarrow> (n, p') \<in> set xs \<Longrightarrow> p = p'"
  unfolding mm_ids_def by (rule eq_key_imp_eq_value)

lemma mm_find_ok: "mm_ok b xs \<Longrightarrow> (mm_find n xs = Some p) = ((n, p) \<in> set xs)"
  by (simp add: mm_find_in_set mm_ok_def)

lemma mm_find_Some_iff: "(\<exists>p. mm_find n xs = Some p) = (n \<in> set (mm_ids xs))"
  by (induction xs) auto

lemma mm_find_None_iff: "(mm_find n xs = None) = (n \<notin> set (mm_ids xs))"
  by (induction xs) auto

lemma mm_update_ids [simp]: "mm_ids (mm_update n f xs) = mm_ids xs"
  by (auto simp: mm_ids_def mm_update_def)

lemma mm_update_keys [simp]: "mm_keys (mm_update n f xs) = mm_keys xs"
  by (auto simp: mm_keys_def mm_update_def)

lemma mm_update_Nil_iff [simp]: "mm_update n f xs = [] \<longleftrightarrow> xs = []"
  by (simp add: mm_update_def)

lemma in_mm_update:
  "(m, t, e) \<in> set (mm_update n f xs) \<longleftrightarrow>
     (\<exists>e'. (m, t, e') \<in> set xs \<and> e = (if m = n then f e' else e'))"
  by (induction xs) (auto simp: mm_update_def)

lemma ex_mm_update:
  "(\<exists>t e. (m, t, e) \<in> set (mm_update n f xs) \<and> P e) \<longleftrightarrow>
     (\<exists>t e. (m, t, e) \<in> set xs \<and> P (if m = n then f e else e))"
  unfolding in_mm_update by blast

lemma mm_ok_update [simp]: "mm_ok b (mm_update n f xs) = mm_ok b xs"
  by (simp add: mm_ok_def)

text \<open>A new node is behind all nodes that are not later, and before all later ones.\<close>

lemma mm_insert_split:
  assumes "sorted (mm_keys xs)"
  shows "mm_insert n k v xs =
    takeWhile (\<lambda>x. fst (snd x) \<le> k) xs @ (n, k, v) # dropWhile (\<lambda>x. fst (snd x) \<le> k) xs"
  using assms by (induction xs) auto

text \<open>A map from keys to iterators that holds exactly the nodes, at most one per key.\<close>

definition mm_indexed :: "('v \<Rightarrow> 'k) \<Rightarrow> ('k \<Rightarrow> nat option) \<Rightarrow> nat \<Rightarrow> 'v nodes \<Rightarrow> bool" where
  "mm_indexed key idx b xs \<longleftrightarrow> mm_ok b xs \<and>
     (\<forall>k n. idx k = Some n \<longleftrightarrow> (\<exists>t e. (n, t, e) \<in> set xs \<and> key e = k))"

lemma mm_indexed_Nil [simp]: "mm_indexed key Map.empty b []"
  by (simp add: mm_indexed_def)

lemma mm_indexed_Some:
  "mm_indexed key idx b xs \<Longrightarrow> idx k = Some n \<longleftrightarrow> (\<exists>t e. (n, t, e) \<in> set xs \<and> key e = k)"
  by (simp add: mm_indexed_def)

lemma mm_indexed_find:
  assumes "mm_indexed key idx b xs" "idx k = Some n"
  shows "\<exists>t e. mm_find n xs = Some (t, e) \<and> (n, t, e) \<in> set xs \<and> key e = k"
proof -
  from assms obtain t e where te: "(n, t, e) \<in> set xs" "key e = k"
    by (auto simp: mm_indexed_def)
  moreover have "mm_ok b xs" using assms(1) by (simp add: mm_indexed_def)
  ultimately show ?thesis using mm_find_ok[of b xs n "(t, e)"] by blast
qed

lemma mm_indexed_unique:
  assumes ix: "mm_indexed key idx b xs"
    and x: "(n, t, e) \<in> set xs" "(n', t', e') \<in> set xs" "key e = key e'"
  shows "n = n' \<and> t = t' \<and> e = e'"
proof -
  have "idx (key e) = Some n" using mm_indexed_Some[OF ix, of "key e" n] x(1) by blast
  moreover have "idx (key e) = Some n'" using mm_indexed_Some[OF ix, of "key e" n'] x(2,3) by metis
  ultimately have "n = n'" by simp
  moreover have "distinct (mm_ids xs)" using ix by (simp add: mm_indexed_def mm_ok_def)
  ultimately show ?thesis using mm_node_unique[of xs n "(t, e)" "(t', e')"] x by simp
qed

lemma mm_indexed_none:
  assumes "mm_indexed key idx b xs" "idx k = None" "(n, t, e) \<in> set xs"
  shows "key e \<noteq> k"
  using mm_indexed_Some[OF assms(1), of k n] assms(2,3) by auto

lemma mm_indexed_insert:
  assumes ix: "mm_indexed key idx b xs" and new: "idx (key e) = None"
  shows "mm_indexed key (idx(key e \<mapsto> b)) (Suc b) (mm_insert b t e xs)"
  unfolding mm_indexed_def
proof (intro conjI allI)
  have ok: "mm_ok b xs" using ix by (simp add: mm_indexed_def)
  then show "mm_ok (Suc b) (mm_insert b t e xs)" by auto
  have below: "(m, t', e') \<in> set xs \<Longrightarrow> m < b" for m t' e'
    using ok by (force simp: mm_ok_def mm_ids_def)
  fix k n
  show "(idx(key e \<mapsto> b)) k = Some n \<longleftrightarrow>
      (\<exists>t' e'. (n, t', e') \<in> set (mm_insert b t e xs) \<and> key e' = k)"
    using mm_indexed_Some[OF ix, of k n] mm_indexed_none[OF ix new] below by auto
qed

lemma mm_indexed_erase:
  assumes ix: "mm_indexed key idx b xs" and x: "(n, t, e) \<in> set xs"
  shows "mm_indexed key (idx(key e := None)) b (mm_erase n xs)"
  unfolding mm_indexed_def
proof (intro conjI allI)
  have ok: "mm_ok b xs" using ix by (simp add: mm_indexed_def)
  then show "mm_ok b (mm_erase n xs)" by auto
  have uniq: "m = n \<longleftrightarrow> key e' = key e" if "(m, t', e') \<in> set xs" for m t' e'
    using mm_indexed_unique[OF ix that x] mm_node_unique[of xs n "(t, e)" "(t', e')"] ok x that
    by (auto simp: mm_ok_def)
  fix k m
  show "(idx(key e := None)) k = Some m \<longleftrightarrow>
      (\<exists>t e. (m, t, e) \<in> set (mm_erase n xs) \<and> key e = k)"
  proof (cases "k = key e")
    case True
    with uniq show ?thesis by auto
  next
    case False
    with uniq have "(m, t', e') \<in> set xs \<Longrightarrow> key e' = k \<Longrightarrow> m \<noteq> n" for t' e' by metis
    then have "(\<exists>t e. (m, t, e) \<in> set (mm_erase n xs) \<and> key e = k) \<longleftrightarrow>
        (\<exists>t e. (m, t, e) \<in> set xs \<and> key e = k)" by auto
    with False mm_indexed_Some[OF ix, of k m] show ?thesis by simp
  qed
qed

section \<open>Deques\<close>

type_synonym 'e deque = "(nat option \<times> 'e) list"

definition dq_forget :: "'e deque \<Rightarrow> 'e deque" where
  "dq_forget d = map (\<lambda>x. (None, snd x)) d"

definition dq_push :: "nat \<Rightarrow> 'e \<Rightarrow> 'e deque \<Rightarrow> 'e deque" where
  "dq_push h e d = dq_forget d @ [(Some h, e)]"

definition dq_at :: "nat \<Rightarrow> 'e deque \<Rightarrow> 'e option" where
  "dq_at h d = map_of d (Some h)"

definition dq_erase :: "nat \<Rightarrow> 'e deque \<Rightarrow> 'e deque" where
  "dq_erase h d =
     (if d \<noteq> [] \<and> fst (hd d) = Some h then tl d
      else if d \<noteq> [] \<and> fst (last d) = Some h then butlast d
      else dq_forget (filter (\<lambda>x. fst x \<noteq> Some h) d))"

definition dq_elems :: "'e deque \<Rightarrow> 'e list" where
  "dq_elems d = map snd d"

lemma dq_elems_simps [simp]:
  "dq_elems [] = []"
  "dq_elems (x # d) = snd x # dq_elems d"
  "dq_elems (d @ d') = dq_elems d @ dq_elems d'"
  "dq_elems (dq_forget d) = dq_elems d"
  "dq_elems (dq_push h e d) = dq_elems d @ [e]"
  by (auto simp: dq_elems_def dq_forget_def dq_push_def)

lemma dq_forget_no_handle [simp]: "(Some h, e) \<notin> set (dq_forget d)"
  by (auto simp: dq_forget_def)

lemma dq_push_not_Nil [simp]: "dq_push h e d \<noteq> []"
  by (simp add: dq_push_def)

lemma dq_push_handle [simp]: "(Some h', e') \<in> set (dq_push h e d) \<longleftrightarrow> h' = h \<and> e' = e"
  by (auto simp: dq_push_def)

lemma set_dq_elems: "e \<in> set (dq_elems d) \<longleftrightarrow> (\<exists>h. (h, e) \<in> set d)"
  by (force simp: dq_elems_def)

section \<open>Condition variables and wait loops\<close>

datatype notify = Signal | Broadcast

text \<open>
  One attempt of a blocking handler ends with a result, or in a wait that carries what the
  handler keeps across the wait.  A round of the loop is the data the attempt reads from
  outside (the time, the options) and what the other threads do to the state during the wait.
  A run over finitely many rounds returns \<open>None\<close> while the handler is still waiting.
\<close>

datatype ('w, 'r) attempt = Finished 'r | Waiting 'w

fun wait_loop :: "('t \<Rightarrow> 's \<Rightarrow> (('w, 'r) attempt \<times> 's) result) \<Rightarrow> ('w \<Rightarrow> 's \<Rightarrow> 's)
    \<Rightarrow> ('t \<times> ('s \<Rightarrow> 's)) list \<Rightarrow> 's \<Rightarrow> ('r option \<times> 's) result" where
  "wait_loop att resume [] s = Inr (None, s)"
| "wait_loop att resume (r # rs) s =
     rbind (att (fst r) s) (\<lambda>p. case fst p of
         Finished x \<Rightarrow> Inr (Some x, snd p)
       | Waiting w \<Rightarrow> wait_loop att resume rs (resume w (snd r (snd p))))"

text \<open>
  An invariant of the attempts, the resumptions and the other threads holds when the loop
  ends, and what every finished attempt guarantees holds for the result.
\<close>

lemma wait_loop_rule:
  assumes "wait_loop att resume rs s = Inr (x, s')" and "I s"
    and "\<And>t u a u'. I u \<Longrightarrow> att t u = Inr (a, u') \<Longrightarrow> I u'"
    and "\<And>t env u. (t, env) \<in> set rs \<Longrightarrow> I u \<Longrightarrow> I (env u)"
    and "\<And>w u. I u \<Longrightarrow> I (resume w u)"
  shows "I s'"
  using assms
proof (induction rs arbitrary: s)
  case Nil
  then show ?case by simp
next
  case (Cons r rs)
  from Cons.prems(1) obtain p where p: "att (fst r) s = Inr p"
    and rest: "(case fst p of Finished y \<Rightarrow> Inr (Some y, snd p)
       | Waiting w \<Rightarrow> wait_loop att resume rs (resume w (snd r (snd p)))) = Inr (x, s')"
    by auto
  have u: "I (snd p)" using Cons.prems(2,3) p by (metis prod.collapse)
  show ?case
  proof (cases "fst p")
    case (Finished y)
    with rest u show ?thesis by simp
  next
    case (Waiting w)
    have env: "I (snd r (snd p))" by (rule Cons.prems(4)[of "fst r"]) (use u in auto)
    have envs: "\<And>t env u. (t, env) \<in> set rs \<Longrightarrow> I u \<Longrightarrow> I (env u)"
      by (rule Cons.prems(4)) auto
    have loop: "wait_loop att resume rs (resume w (snd r (snd p))) = Inr (x, s')"
      using Waiting rest by simp
    show ?thesis
    proof (rule Cons.IH[OF loop])
      show "I (resume w (snd r (snd p)))" by (rule Cons.prems(5)) (rule env)
    next
      fix t u a u'
      assume "I u" "att t u = Inr (a, u')"
      then show "I u'" by (rule Cons.prems(3))
    next
      fix t env u
      assume "(t, env) \<in> set rs" "I u"
      then show "I (env u)" by (rule envs)
    next
      fix w u
      assume "I u"
      then show "I (resume w u)" by (rule Cons.prems(5))
    qed
  qed
qed

end
