(* ===== verification/Parent_Info.thy ===== *)
theory Parent_Info
  imports Std_Containers
begin

text \<open>
  The values that cross the boundary to the Qore code, and the record of a parent workflow.

  \<^item> \<open>qval\<close>: the Qore values the queues read and build.  A hash keeps its keys in
    the order of insertion.  Conversions of a value to an integer or a Boolean are done by
    the Qore library (\<^verbatim>\<open>getKeyAsBigInt\<close>, \<^verbatim>\<open>getKeyAsBool\<close>), as are the
    text of a value and of a date: they are the parameter
    \<open>qore_api\<close>, of which \<open>qore_conversions\<close> states what is documented for the value's
    own type and for a missing key.
  \<^item> \<open>parent_info\<close>: \<^verbatim>\<open>struct ParentInfo\<close> of \<^verbatim>\<open>SegmentEventQueue.h\<close>, its
    rendering as a hash and as a string, and the reading of a hash back
    (\<^verbatim>\<open>get_parent_info\<close>, \<^verbatim>\<open>get_event_info\<close>, \<^verbatim>\<open>get_backend_event_info\<close> of
    \<^verbatim>\<open>SegmentEventQueue.cpp\<close>).
\<close>

section \<open>Qore values\<close>

datatype qval =
    QNothing
  | QNull
  | QBool bool
  | QInt int
  | QString string
  | QDate int
  | QList "qval list"
  | QHash "(string \<times> qval) list"

type_synonym qhash = "(string \<times> qval) list"

record qore_api =
  getAsBigInt :: "qval \<Rightarrow> int"
  getAsBool :: "qval \<Rightarrow> bool"
  getAsString :: "qval \<Rightarrow> string"
  formatDate :: "int \<Rightarrow> string"

definition qore_conversions :: "qore_api \<Rightarrow> bool" where
  "qore_conversions q \<longleftrightarrow>
     (\<forall>i. getAsBigInt q (QInt i) = i) \<and> getAsBigInt q QNothing = 0 \<and>
     (\<forall>b. getAsBool q (QBool b) = b) \<and> getAsBool q QNothing = False"

text \<open>One instance of the parameter, for evaluating the model.\<close>

definition plain_api :: qore_api where
  "plain_api = \<lparr>getAsBigInt = (\<lambda>v. case v of QInt i \<Rightarrow> i | QBool b \<Rightarrow> (if b then 1 else 0) | _ \<Rightarrow> 0),
     getAsBool = (\<lambda>v. case v of QBool b \<Rightarrow> b | QInt i \<Rightarrow> i \<noteq> 0 | _ \<Rightarrow> False),
     getAsString = (\<lambda>v. case v of QString s \<Rightarrow> s | QInt i \<Rightarrow> dec i | _ \<Rightarrow> []),
     formatDate = dec\<rparr>"

lemma plain_api_conversions [simp]: "qore_conversions plain_api"
  by (simp add: qore_conversions_def plain_api_def)

fun hash_set :: "string \<Rightarrow> qval \<Rightarrow> qhash \<Rightarrow> qhash" where
  "hash_set k v [] = [(k, v)]"
| "hash_set k v (p # h) = (if fst p = k then (k, v) # h else p # hash_set k v h)"

definition hash_get :: "string \<Rightarrow> qhash \<Rightarrow> qval" where
  "hash_get k h = (case map_of h k of None \<Rightarrow> QNothing | Some v \<Rightarrow> v)"

lemma map_of_hash_set [simp]: "map_of (hash_set k v h) = (map_of h)(k \<mapsto> v)"
  by (induction h) auto

lemma hash_get_set [simp]: "hash_get k' (hash_set k v h) = (if k' = k then v else hash_get k' h)"
  by (simp add: hash_get_def)

lemma hash_get_simps [simp]:
  "hash_get k [] = QNothing"
  "hash_get k (p # h) = (if fst p = k then snd p else hash_get k h)"
  by (auto simp: hash_get_def)

definition key_found :: "string \<Rightarrow> qhash \<Rightarrow> bool" where
  "key_found k h \<longleftrightarrow> map_of h k \<noteq> None"

lemma key_found_set [simp]: "key_found k' (hash_set k v h) \<longleftrightarrow> k' = k \<or> key_found k' h"
  by (simp add: key_found_def)

lemma key_found_simps [simp]:
  "\<not> key_found k []"
  "key_found k (p # h) \<longleftrightarrow> fst p = k \<or> key_found k h"
  by (auto simp: key_found_def)

section \<open>Parent workflow information\<close>

record parent_info =
  pi_wfiid :: int
  pi_stepid :: int
  pi_ind :: int
  pi_subworkflow :: bool

definition ParentInfo :: parent_info where
  "ParentInfo = \<lparr>pi_wfiid = 0, pi_stepid = 0, pi_ind = 0, pi_subworkflow = False\<rparr>"

definition parent_toString :: "parent_info \<Rightarrow> string" where
  "parent_toString p =
     (if pi_wfiid p \<noteq> 0 then
        '', parent=(subworkflow: '' @ (if pi_subworkflow p then ''true'' else ''false'')
          @ '', wfiid: '' @ dec (pi_wfiid p)
          @ (if pi_stepid p \<noteq> 0
             then '', stepid: '' @ dec (pi_stepid p) @ '', ind: '' @ dec (pi_ind p) else [])
          @ '')''
      else [])"

definition doHash :: "parent_info \<Rightarrow> qhash \<Rightarrow> qhash" where
  "doHash p h =
     (if pi_wfiid p \<noteq> 0 then
        let i1 = hash_set ''subworkflow'' (QBool (pi_subworkflow p)) [];
            i2 = hash_set ''parent_workflow_instanceid'' (QInt (pi_wfiid p)) i1;
            i3 = (if pi_stepid p \<noteq> 0
                  then hash_set ''parent_ind'' (QInt (pi_ind p))
                         (hash_set ''parent_stepid'' (QInt (pi_stepid p)) i2)
                  else i2)
        in hash_set ''parent_info'' (QHash i3) h
      else h)"

definition get_parent_info :: "qore_api \<Rightarrow> qhash \<Rightarrow> parent_info \<Rightarrow> parent_info" where
  "get_parent_info q h p =
     (let val = getAsBigInt q (hash_get ''parent_workflow_instanceid'' h) in
      if val = 0 then p
      else
        let p1 = p\<lparr>pi_wfiid := val,
                   pi_subworkflow := getAsBool q (hash_get ''subworkflow'' h)\<rparr>;
            val2 = getAsBigInt q (hash_get ''parent_stepid'' h) in
        if val2 = 0 then p1
        else
          let p2 = p1\<lparr>pi_stepid := to_int32 val2\<rparr>;
              val3 = getAsBigInt q (hash_get ''parent_ind'' h) in
          if val3 = 0 then p2 else p2\<lparr>pi_ind := to_int32 val3\<rparr>)"

text \<open>The optional hash argument of the \<^verbatim>\<open>queue_*\<close> methods.\<close>

definition opt_parent_info :: "qore_api \<Rightarrow> qhash option \<Rightarrow> parent_info" where
  "opt_parent_info q h =
     (case h of None \<Rightarrow> ParentInfo | Some h' \<Rightarrow> get_parent_info q h' ParentInfo)"

definition get_event_info :: "qore_api \<Rightarrow> qhash \<Rightarrow> (int \<times> parent_info) result" where
  "get_event_info q h =
     (let wfiid = getAsBigInt q (hash_get ''workflow_instanceid'' h);
          n = hash_get ''parent_info'' h in
      rbind (assert_that (wfiid \<noteq> 0)) (\<lambda>_.
        case n of
          QNothing \<Rightarrow> Inr (wfiid, ParentInfo)
        | QHash ph \<Rightarrow> Inr (wfiid, get_parent_info q ph ParentInfo)
        | _ \<Rightarrow> Inl Assertion_failed))"

record backend_event_info =
  ei_wfiid :: int
  ei_pi :: parent_info
  ei_ind :: int
  ei_prio :: int
  ei_mod :: int

definition get_backend_event_info :: "qore_api \<Rightarrow> qhash \<Rightarrow> backend_event_info result" where
  "get_backend_event_info q h =
     rbind (get_event_info q h) (\<lambda>(wfiid, p).
     rbind (assert_that (key_found ''ind'' h)) (\<lambda>_.
     rbind (assert_that (key_found ''priority'' h)) (\<lambda>_.
       case hash_get ''modified'' h of
         QDate m \<Rightarrow> Inr \<lparr>ei_wfiid = wfiid, ei_pi = p,
             ei_ind = to_int32 (getAsBigInt q (hash_get ''ind'' h)),
             ei_prio = to_int32 (getAsBigInt q (hash_get ''priority'' h)), ei_mod = m\<rparr>
       | _ \<Rightarrow> Inl Assertion_failed)))"

section \<open>Reading back what was rendered\<close>

text \<open>
  The step index is rendered only with a step, so the records that survive the round trip
  are those with no index when there is no step, and no other field when there is no parent.
\<close>

definition parent_ok :: "parent_info \<Rightarrow> bool" where
  "parent_ok p \<longleftrightarrow> is_int32 (pi_stepid p) \<and> is_int32 (pi_ind p) \<and>
     (pi_stepid p = 0 \<longrightarrow> pi_ind p = 0) \<and> (pi_wfiid p = 0 \<longrightarrow> p = ParentInfo)"

lemma parent_ok_default [simp]: "parent_ok ParentInfo"
  by (simp add: parent_ok_def ParentInfo_def is_int32_def)

lemma get_parent_info_ok:
  assumes "is_int32 (getAsBigInt q (hash_get ''parent_stepid'' h))"
  shows "parent_ok (get_parent_info q h ParentInfo)"
  using assms is_int32_to_int32[of "getAsBigInt q (hash_get ''parent_ind'' h)"]
  by (simp add: parent_ok_def get_parent_info_def ParentInfo_def Let_def is_int32_def)

lemma get_parent_info_doHash:
  assumes q: "qore_conversions q" and p: "parent_ok p" and w: "pi_wfiid p \<noteq> 0"
  shows "\<exists>ph. hash_get ''parent_info'' (doHash p h) = QHash ph \<and>
    get_parent_info q ph ParentInfo = p"
proof (cases "pi_stepid p = 0")
  case True
  with p have "pi_ind p = 0" by (simp add: parent_ok_def)
  with True w q show ?thesis
    by (simp add: doHash_def get_parent_info_def ParentInfo_def Let_def qore_conversions_def)
next
  case False
  have "is_int32 (pi_stepid p)" "is_int32 (pi_ind p)"
    using p by (simp_all add: parent_ok_def)
  with False w q show ?thesis
    by (simp add: doHash_def get_parent_info_def ParentInfo_def Let_def qore_conversions_def)
qed

lemma doHash_other_keys: "k \<noteq> ''parent_info'' \<Longrightarrow> hash_get k (doHash p h) = hash_get k h"
  by (simp add: doHash_def Let_def)

lemma get_event_info_doHash:
  assumes q: "qore_conversions q" and p: "parent_ok p" and w: "w \<noteq> 0"
    and h: "hash_get ''parent_info'' h = QNothing"
      "hash_get ''workflow_instanceid'' h = QInt w"
  shows "get_event_info q (doHash p h) = Inr (w, p)"
proof -
  have wv: "getAsBigInt q (hash_get ''workflow_instanceid'' (doHash p h)) = w"
    using q h by (simp add: doHash_other_keys qore_conversions_def)
  show ?thesis
  proof (cases "pi_wfiid p = 0")
    case True
    with p have "p = ParentInfo" by (simp add: parent_ok_def)
    with True w h wv show ?thesis by (simp add: get_event_info_def doHash_def)
  next
    case False
    from get_parent_info_doHash[OF q p False, of h] obtain ph where
      "hash_get ''parent_info'' (doHash p h) = QHash ph" "get_parent_info q ph ParentInfo = p"
      by blast
    with w wv show ?thesis by (simp add: get_event_info_def)
  qed
qed

end
