(* ===== verification/Primary_Queue.thy ===== *)
theory Primary_Queue
  imports Parent_Info
begin

text \<open>
  The queue of new workflow orders, \<^verbatim>\<open>class PrimaryQueue\<close> of
  \<^verbatim>\<open>exec/SegmentEventQueue.h\<close>.

  Orders that are ready are in a \<^verbatim>\<open>std::deque\<close> per priority (\<open>pq\<close>); an order that is
  scheduled for later is in a multimap keyed by its trigger time (\<open>psq\<close>) until
  \<open>activate\<close> moves it.  \<open>pmap\<close> and \<open>psmap\<close> map a workflow instance to the
  iterator of its order in the one or the other.  \<open>pq_next\<close> numbers the iterators.
  The current time, \<^verbatim>\<open>q_epoch()\<close>, is an argument.
\<close>

section \<open>State\<close>

record primary_event =
  pe_wfiid :: int
  pe_prio :: int
  pe_pi :: parent_info

definition primary_get_hash :: "primary_event \<Rightarrow> qhash" where
  "primary_get_hash e = doHash (pe_pi e) (hash_set ''workflow_instanceid'' (QInt (pe_wfiid e)) [])"

record primary_queue =
  pq :: "(int, primary_event deque) omap"
  pmap :: "int \<Rightarrow> nat option"
  psq :: "primary_event nodes"
  psmap :: "int \<Rightarrow> nat option"
  pq_next :: nat
  pq_waiting :: int
  pq_cond :: "notify list"

definition new_PrimaryQueue :: primary_queue where
  "new_PrimaryQueue = \<lparr>pq = [], pmap = Map.empty, psq = [], psmap = Map.empty,
     pq_next = 0, pq_waiting = 0, pq_cond = []\<rparr>"

definition primary_size :: "primary_queue \<Rightarrow> nat" where
  "primary_size q = length (pq q)"

definition primary_empty :: "primary_queue \<Rightarrow> bool" where
  "primary_empty q = (pq q = [])"

definition scheduledSize :: "primary_queue \<Rightarrow> nat" where
  "scheduledSize q = length (psq q)"

definition scheduledEmpty :: "primary_queue \<Rightarrow> bool" where
  "scheduledEmpty q = (psq q = [])"

definition primary_del :: "primary_queue \<Rightarrow> primary_queue" where
  "primary_del q = q\<lparr>pq := [], psq := [], pmap := Map.empty, psmap := Map.empty\<rparr>"

section \<open>Adding\<close>

definition pq_broadcast :: "primary_queue \<Rightarrow> primary_queue" where
  "pq_broadcast q = q\<lparr>pq_cond := pq_cond q @ [Broadcast]\<rparr>"

definition pq_signal :: "primary_queue \<Rightarrow> primary_queue" where
  "pq_signal q = q\<lparr>pq_cond := pq_cond q @ [Signal]\<rparr>"

definition primary_wakeup :: "primary_queue \<Rightarrow> primary_queue" where
  "primary_wakeup q = (if pq_waiting q \<noteq> 0 then pq_broadcast q else q)"

text \<open>\<^verbatim>\<open>pq[prio]\<close>\<close>

definition prio_deque :: "int \<Rightarrow> primary_queue \<Rightarrow> primary_event deque" where
  "prio_deque prio q = (case map_of (pq q) prio of None \<Rightarrow> [] | Some d \<Rightarrow> d)"

definition addToScheduled :: "int \<Rightarrow> primary_event \<Rightarrow> primary_queue
    \<Rightarrow> (bool \<times> primary_queue) result" where
  "addToScheduled trigger event q =
     (if psmap q (pe_wfiid event) = None then
        let n = pq_next q; ns = mm_insert n trigger event (psq q) in
        rbind (assert_that (pmap q (pe_wfiid event) = None)) (\<lambda>_.
          Inr (pq q = [] \<and> fst (hd ns) = n,
            q\<lparr>psq := ns, psmap := (psmap q)(pe_wfiid event \<mapsto> n), pq_next := Suc n\<rparr>))
      else Inr (False, q))"

definition addToPrimary :: "primary_event \<Rightarrow> primary_queue \<Rightarrow> primary_queue result" where
  "addToPrimary event q =
     (if pmap q (pe_wfiid event) = None then
        let h = pq_next q in
        rbind (assert_that (psmap q (pe_wfiid event) = None)) (\<lambda>_.
          Inr (q\<lparr>pq := om_put (pe_prio event) (dq_push h event (prio_deque (pe_prio event) q)) (pq q),
                 pmap := (pmap q)(pe_wfiid event \<mapsto> h), pq_next := Suc h\<rparr>))
      else Inr q)"

definition primary_add :: "int \<Rightarrow> int \<Rightarrow> parent_info \<Rightarrow> int option \<Rightarrow> int \<Rightarrow> bool
    \<Rightarrow> primary_queue \<Rightarrow> primary_queue result" where
  "primary_add wfiid prio p scheduled now sig q =
     rbind (assert_that (wfiid \<noteq> 0)) (\<lambda>_.
       let event = \<lparr>pe_wfiid = wfiid, pe_prio = prio, pe_pi = p\<rparr>;
           later = (case scheduled of None \<Rightarrow> None | Some t \<Rightarrow> if t > now then Some t else None) in
       case later of
         Some trigger \<Rightarrow> rbind (addToScheduled trigger event q) (\<lambda>(first, q').
           Inr (if first \<and> sig \<and> pq_waiting q' \<noteq> 0 then pq_broadcast q' else q'))
       | None \<Rightarrow> rbind (addToPrimary event q) (\<lambda>q'.
           Inr (if sig \<and> pq_waiting q' \<noteq> 0 then pq_signal q' else q')))"

section \<open>Delivering\<close>

text \<open>
  \<^verbatim>\<open>wait\<close> up to the wait on the condition variable: the result is the time-out in
  milliseconds, if there is one.
\<close>

definition primary_wait_begin :: "int \<Rightarrow> primary_queue \<Rightarrow> (int option \<times> primary_queue) result" where
  "primary_wait_begin now q =
     rbind (assert_that (pq q = [])) (\<lambda>_.
       let q' = q\<lparr>pq_waiting := pq_waiting q + 1\<rparr> in
       case psq q of
         [] \<Rightarrow> Inr (None, q')
       | x # _ \<Rightarrow> rbind (assert_that (fst (snd x) - now > 0)) (\<lambda>_.
           Inr (Some ((fst (snd x) - now) * 1000), q')))"

definition primary_wait_end :: "primary_queue \<Rightarrow> primary_queue" where
  "primary_wait_end q = q\<lparr>pq_waiting := pq_waiting q - 1\<rparr>"

text \<open>The loop of \<^verbatim>\<open>activate\<close> over the scheduled orders, the earliest first.\<close>

fun activate_from :: "int \<Rightarrow> primary_event nodes \<Rightarrow> primary_queue \<Rightarrow> primary_queue result" where
  "activate_from now [] q = Inr (q\<lparr>psq := []\<rparr>)"
| "activate_from now (x # xs) q =
     (if fst (snd x) > now then Inr (q\<lparr>psq := x # xs\<rparr>)
      else rbind (addToPrimary (snd (snd x))
                    (q\<lparr>psmap := (psmap q)(pe_wfiid (snd (snd x)) := None)\<rparr>))
             (activate_from now xs))"

definition activate :: "int \<Rightarrow> primary_queue \<Rightarrow> primary_queue result" where
  "activate now q = activate_from now (psq q) q"

definition checkEvent :: "int \<Rightarrow> primary_queue \<Rightarrow> (bool \<times> primary_queue) result" where
  "checkEvent now q = rbind (activate now q) (\<lambda>q'. Inr (pq q' \<noteq> [], q'))"

definition getEvent :: "primary_queue \<Rightarrow> (qhash \<times> primary_queue) result" where
  "getEvent q =
     (case pq q of
        [] \<Rightarrow> Inl Assertion_failed
      | (prio, []) # m \<Rightarrow> Inl Undefined_behaviour
      | (prio, x # d) # m \<Rightarrow>
          Inr (primary_get_hash (snd x),
            q\<lparr>pmap := (pmap q)(pe_wfiid (snd x) := None),
              pq := (if d = [] then m else (prio, d) # m)\<rparr>))"

section \<open>Changing and removing\<close>

text \<open>What an iterator of \<open>pmap\<close> points to, when it is still valid.\<close>

definition pq_at :: "nat \<Rightarrow> primary_queue \<Rightarrow> primary_event option" where
  "pq_at h q = dq_at h (concat (map snd (pq q)))"

text \<open>
  \<^verbatim>\<open>q = pq[prio]; q.erase(qi); if (q.empty()) pq.erase(prio)\<close>
\<close>

definition erase_at :: "int \<Rightarrow> nat \<Rightarrow> primary_queue \<Rightarrow> primary_queue result" where
  "erase_at prio h q =
     (let d = prio_deque prio q; d' = dq_erase h d in
      rbind (deref (dq_at h d)) (\<lambda>_.
        Inr (q\<lparr>pq := (if d' = [] then om_del prio (pq q) else om_put prio d' (pq q))\<rparr>)))"

definition removeIntern :: "int \<Rightarrow> nat \<Rightarrow> primary_queue \<Rightarrow> primary_queue result" where
  "removeIntern wfiid h q =
     rbind (deref (pq_at h q)) (\<lambda>e.
       erase_at (pe_prio e) h (q\<lparr>pmap := (pmap q)(wfiid := None)\<rparr>))"

definition primary_reprioritize :: "int \<Rightarrow> int \<Rightarrow> int \<Rightarrow> primary_queue
    \<Rightarrow> (bool \<times> primary_queue) result" where
  "primary_reprioritize wfiid prio now q =
     (case psmap q wfiid of
        Some n \<Rightarrow> rbind (deref (mm_find n (psq q))) (\<lambda>_.
          Inr (True, q\<lparr>psq := mm_update n (\<lambda>e. e\<lparr>pe_prio := prio\<rparr>) (psq q)\<rparr>))
      | None \<Rightarrow>
        (case pmap q wfiid of
           None \<Rightarrow> Inr (False, q)
         | Some h \<Rightarrow> rbind (deref (pq_at h q)) (\<lambda>e.
             rbind (removeIntern wfiid h q) (\<lambda>q1.
             rbind (primary_add wfiid prio (pe_pi e) None now True q1) (\<lambda>q2.
               Inr (True, q2))))))"

definition reschedIntern :: "int \<Rightarrow> int option \<Rightarrow> int \<Rightarrow> primary_queue
    \<Rightarrow> (bool \<times> primary_queue) result" where
  "reschedIntern wfiid scheduled now q =
     (case psmap q wfiid of
        Some n \<Rightarrow> rbind (deref (mm_find n (psq q))) (\<lambda>x.
          rbind (primary_add wfiid (pe_prio (snd x)) (pe_pi (snd x)) scheduled now True
                   (q\<lparr>psmap := (psmap q)(wfiid := None), psq := mm_erase n (psq q)\<rparr>)) (\<lambda>q'.
            Inr (True, q')))
      | None \<Rightarrow>
        (case pmap q wfiid of
           None \<Rightarrow> Inr (False, q)
         | Some h \<Rightarrow> rbind (deref (pq_at h q)) (\<lambda>e.
             rbind (erase_at (pe_prio e) h (q\<lparr>pmap := (pmap q)(wfiid := None)\<rparr>)) (\<lambda>q1.
             rbind (primary_add wfiid (pe_prio e) (pe_pi e) scheduled now True q1) (\<lambda>q2.
               Inr (True, q2))))))"

definition resched :: "int \<Rightarrow> int option \<Rightarrow> int \<Rightarrow> primary_queue
    \<Rightarrow> (bool \<times> primary_queue) result" where
  "resched wfiid scheduled now q =
     rbind (reschedIntern wfiid scheduled now q) (\<lambda>(rc, q').
       Inr (rc, if rc then primary_wakeup q' else q'))"

definition primary_removeWorkflowOrder :: "int \<Rightarrow> primary_queue \<Rightarrow> (bool \<times> primary_queue) result" where
  "primary_removeWorkflowOrder wfiid q =
     (if psmap q wfiid \<noteq> None then Inr (True, q\<lparr>psmap := (psmap q)(wfiid := None)\<rparr>)
      else
        (case pmap q wfiid of
           None \<Rightarrow> Inr (False, q)
         | Some h \<Rightarrow> rbind (removeIntern wfiid h q) (\<lambda>q'. Inr (True, q'))))"

section \<open>Text\<close>

definition primary_summary :: "primary_queue \<Rightarrow> string" where
  "primary_summary q =
     ''waiting: '' @ dec (pq_waiting q)
       @ concat (map (\<lambda>x. '', prio '' @ dec (fst x) @ '' -> len: '' @ dec_size (length (snd x))) (pq q))"

definition primary_toString :: "qore_api \<Rightarrow> primary_queue \<Rightarrow> string" where
  "primary_toString a q =
     (let s1 = ''primary len: (waiting: '' @ dec (pq_waiting q) @ '') '' @ dec_size (length (pq q)) @ '': ['';
          s2 = s1 @ concat (map (\<lambda>x.
                 ''prio '' @ dec (fst x) @ '' -> len: '' @ dec_size (length (snd x)) @ '': [''
                 @ concat (map (\<lambda>e. ''wfiid: '' @ dec (pe_wfiid e) @ parent_toString (pe_pi e) @ '', '')
                     (dq_elems (snd x)))
                 @ ''], '') (pq q));
          s3 = (if pq q \<noteq> [] then drop2 s2 else s2);
          s4 = s3 @ ''], scheduled len: '' @ dec_size (length (psq q)) @ '': [''
      in if psq q \<noteq> [] then
           drop2 (s4 @ concat (map (\<lambda>x.
             ''sched: '' @ formatDate a (fst (snd x)) @ '', wfiid: '' @ dec (pe_wfiid (snd (snd x)))
               @ '' prio: '' @ dec (pe_prio (snd (snd x))) @ parent_toString (pe_pi (snd (snd x)))
               @ '', '') (psq q)))
         else s4)"

end
