(* ===== verification/Primary_Laws.thy ===== *)
theory Primary_Laws
  imports Primary_Queue "HOL-Library.Multiset"
begin

text \<open>
  What the queue of new orders promises.

  \<^item> \<open>order_spec\<close> is the abstract queue: the orders that are ready, in the order of their
    delivery, and the orders that are scheduled, in the order of their trigger times.
  \<^item> \<open>pq_inv\<close> is the invariant of the code's queue and \<open>pq_abs\<close> its abstract queue;
    every operation is shown to compute the abstract one.
  \<^item> \<open>pq_live\<close> says that the iterator of an order is still valid.
\<close>

section \<open>The abstract queue\<close>

record order_spec =
  os_ready :: "primary_event list"
  os_later :: "(int \<times> primary_event) list"

definition stable_insert :: "('a \<Rightarrow> int) \<Rightarrow> 'a \<Rightarrow> 'a list \<Rightarrow> 'a list" where
  "stable_insert f e xs = takeWhile (\<lambda>x. f x \<le> f e) xs @ e # dropWhile (\<lambda>x. f x \<le> f e) xs"

definition ready_ids :: "order_spec \<Rightarrow> int set" where
  "ready_ids s = pe_wfiid ` set (os_ready s)"

definition later_ids :: "order_spec \<Rightarrow> int set" where
  "later_ids s = (\<lambda>x. pe_wfiid (snd x)) ` set (os_later s)"

definition spec_ready :: "primary_event \<Rightarrow> order_spec \<Rightarrow> order_spec result" where
  "spec_ready e s =
     (if pe_wfiid e \<in> ready_ids s then Inr s
      else if pe_wfiid e \<in> later_ids s then Inl Assertion_failed
      else Inr (s\<lparr>os_ready := stable_insert pe_prio e (os_ready s)\<rparr>))"

definition spec_later :: "int \<Rightarrow> primary_event \<Rightarrow> order_spec \<Rightarrow> order_spec result" where
  "spec_later t e s =
     (if pe_wfiid e \<in> later_ids s then Inr s
      else if pe_wfiid e \<in> ready_ids s then Inl Assertion_failed
      else Inr (s\<lparr>os_later := stable_insert fst (t, e) (os_later s)\<rparr>))"

definition spec_add :: "primary_event \<Rightarrow> int option \<Rightarrow> int \<Rightarrow> order_spec \<Rightarrow> order_spec result" where
  "spec_add e scheduled now s =
     (case scheduled of Some t \<Rightarrow> if t > now then spec_later t e s else spec_ready e s
      | None \<Rightarrow> spec_ready e s)"

definition spec_activate :: "int \<Rightarrow> order_spec \<Rightarrow> order_spec" where
  "spec_activate now s =
     \<lparr>os_ready = foldl (\<lambda>xs x. stable_insert pe_prio (snd x) xs) (os_ready s)
        (takeWhile (\<lambda>x. fst x \<le> now) (os_later s)),
      os_later = dropWhile (\<lambda>x. fst x \<le> now) (os_later s)\<rparr>"

lemma set_stable_insert [simp]: "set (stable_insert f e xs) = insert e (set xs)"
proof -
  have "set xs = set (takeWhile (\<lambda>x. f x \<le> f e) xs @ dropWhile (\<lambda>x. f x \<le> f e) xs)" by simp
  then show ?thesis unfolding stable_insert_def set_append by auto
qed

lemma mset_stable_insert [simp]: "mset (stable_insert f e xs) = add_mset e (mset xs)"
proof -
  have "mset xs = mset (takeWhile (\<lambda>x. f x \<le> f e) xs @ dropWhile (\<lambda>x. f x \<le> f e) xs)" by simp
  then show ?thesis unfolding stable_insert_def mset_append by simp
qed

lemma stable_insert_Cons:
  "stable_insert f e (x # xs) = (if f x \<le> f e then x # stable_insert f e xs else e # x # xs)"
  by (simp add: stable_insert_def)

lemma stable_insert_Nil [simp]: "stable_insert f e [] = [e]"
  by (simp add: stable_insert_def)

lemma sorted_stable_insert:
  "sorted (map f xs) \<Longrightarrow> sorted (map f (stable_insert f e xs))"
  by (induction xs) (auto simp: stable_insert_Cons intro: order_trans)

lemma filter_stable_insert:
  "sorted (map f xs) \<Longrightarrow>
     filter (\<lambda>x. f x = k) (stable_insert f e xs) =
       filter (\<lambda>x. f x = k) xs @ (if f e = k then [e] else [])"
proof (induction xs)
  case Nil
  then show ?case by simp
next
  case (Cons x xs)
  show ?case
  proof (cases "f x \<le> f e")
    case True
    with Cons show ?thesis by (simp add: stable_insert_Cons)
  next
    case False
    with Cons.prems have "filter (\<lambda>x. f x = f e) (x # xs) = []"
      by (force simp: filter_empty_conv)
    with False show ?thesis by (auto simp: stable_insert_Cons)
  qed
qed

lemma dropWhile_later:
  fixes now :: int
  shows "sorted (map fst xs) \<Longrightarrow> \<forall>x\<in>set (dropWhile (\<lambda>x. fst x \<le> now) xs). now < fst x"
  by (induction xs) auto

text \<open>Inserting one order after the other is the stable sort by priority.\<close>

lemma foldl_stable_insert_sort:
  "foldl (\<lambda>xs x. stable_insert f x xs) [] ys = sort_key f ys"
proof (rule sym, rule properties_for_sort_key)
  have "mset (foldl (\<lambda>xs x. stable_insert f x xs) zs ys) = mset zs + mset ys" for zs
    by (induction ys arbitrary: zs) auto
  then show "mset (foldl (\<lambda>xs x. stable_insert f x xs) [] ys) = mset ys" by simp
  have sorted: "sorted (map f (foldl (\<lambda>xs x. stable_insert f x xs) zs ys))"
    if "sorted (map f zs)" for zs
    using that by (induction ys arbitrary: zs) (auto simp: sorted_stable_insert)
  then show "sorted (map f (foldl (\<lambda>xs x. stable_insert f x xs) [] ys))" by simp
  have filter: "filter (\<lambda>x. f x = k) (foldl (\<lambda>xs x. stable_insert f x xs) zs ys) =
      filter (\<lambda>x. f x = k) zs @ filter (\<lambda>x. f x = k) ys" if "sorted (map f zs)" for zs k
    using that by (induction ys arbitrary: zs) (auto simp: sorted_stable_insert filter_stable_insert)
  fix k
  show "filter (\<lambda>x. f k = f x) (foldl (\<lambda>xs x. stable_insert f x xs) [] ys) = filter (\<lambda>x. f k = f x) ys"
    using filter[of "[]" "f k"] by (simp add: eq_commute)
qed

section \<open>Deques with at most one valid iterator\<close>

text \<open>
  The code takes an iterator only when it inserts at the end, so an iterator that is still
  valid points to the last element.
\<close>

definition dq_tail :: "'e deque \<Rightarrow> bool" where
  "dq_tail d \<longleftrightarrow> (\<forall>y\<in>set (butlast d). fst y = None)"

lemma dq_tail_push [simp]: "dq_tail (dq_push h e d)"
  by (auto simp: dq_tail_def dq_push_def dq_forget_def)

lemma dq_tail_tl: "dq_tail (x # d) \<Longrightarrow> dq_tail d"
  by (cases d) (auto simp: dq_tail_def)

lemma dq_tail_butlast: "dq_tail d \<Longrightarrow> dq_tail (butlast d)"
  by (auto simp: dq_tail_def dest: in_set_butlastD)

lemma dq_at_Some_last:
  assumes "dq_tail d" and "dq_at h d = Some e"
  shows "d = butlast d @ [(Some h, e)]"
proof -
  from assms(2) have in_d: "(Some h, e) \<in> set d"
    unfolding dq_at_def by (rule map_of_SomeD)
  show ?thesis
  proof (cases d rule: rev_cases)
    case Nil
    with in_d show ?thesis by simp
  next
    case (snoc ys y)
    with assms(1) have "(Some h, e) \<notin> set ys" by (auto simp: dq_tail_def)
    with snoc in_d show ?thesis by simp
  qed
qed

lemma dq_erase_last:
  assumes "dq_tail d" and "dq_at h d = Some e"
  shows "dq_erase h d = butlast d"
proof (cases "butlast d")
  case Nil
  with dq_at_Some_last[OF assms] have "d = [(Some h, e)]" by simp
  then show ?thesis by (simp add: dq_erase_def)
next
  case (Cons y ys)
  then have "y \<in> set (butlast d)" by simp
  with assms(1) have "fst y = None" by (simp add: dq_tail_def)
  moreover have d: "d = y # ys @ [(Some h, e)]"
    using dq_at_Some_last[OF assms] Cons by simp
  ultimately show ?thesis by (simp add: dq_erase_def butlast_append)
qed

section \<open>The map from priorities to deques\<close>

abbreviation map_items :: "(int, primary_event deque) omap \<Rightarrow> primary_event deque" where
  "map_items m \<equiv> concat (map snd m)"

definition pq_shape :: "(int, primary_event deque) omap \<Rightarrow> bool" where
  "pq_shape m \<longleftrightarrow> om_ok m \<and>
     (\<forall>x\<in>set m. snd x \<noteq> [] \<and> dq_tail (snd x) \<and> (\<forall>y\<in>set (snd x). pe_prio (snd y) = fst x))"

abbreviation lookup_deque :: "int \<Rightarrow> (int, primary_event deque) omap \<Rightarrow> primary_event deque" where
  "lookup_deque p m \<equiv> (case map_of m p of None \<Rightarrow> [] | Some d \<Rightarrow> d)"

lemma pq_shape_Nil [simp]: "pq_shape []"
  by (simp add: pq_shape_def)

lemma pq_shape_Cons:
  "pq_shape (x # m) \<longleftrightarrow> pq_shape m \<and> (\<forall>y\<in>set m. fst x < fst y) \<and>
     snd x \<noteq> [] \<and> dq_tail (snd x) \<and> (\<forall>y\<in>set (snd x). pe_prio (snd y) = fst x)"
  by (auto simp: pq_shape_def om_ok_Cons)

lemma pq_shape_put:
  assumes "pq_shape m" "d \<noteq> []" "dq_tail d" "\<forall>y\<in>set d. pe_prio (snd y) = p"
  shows "pq_shape (om_put p d m)"
proof -
  have "om_ok m" using assms(1) by (simp add: pq_shape_def)
  then show ?thesis
    using assms by (auto simp: pq_shape_def om_ok_put set_om_put_eq)
qed

lemma pq_shape_del: "pq_shape m \<Longrightarrow> pq_shape (om_del p m)"
  by (auto simp: pq_shape_def om_ok_del)

lemma pq_shape_lookup:
  assumes "pq_shape m"
  shows "dq_tail (lookup_deque p m) \<and> (\<forall>y\<in>set (lookup_deque p m). pe_prio (snd y) = p)"
  using assms by (force simp: pq_shape_def dq_tail_def split: option.splits dest: map_of_SomeD)

lemma in_map_items: "y \<in> set (map_items m) \<longleftrightarrow> (\<exists>x\<in>set m. y \<in> set (snd x))"
  by auto

lemma map_items_lookup:
  assumes "pq_shape m"
  shows "y \<in> set (map_items m) \<and> pe_prio (snd y) = p \<longleftrightarrow> y \<in> set (lookup_deque p m)"
proof
  assume y: "y \<in> set (map_items m) \<and> pe_prio (snd y) = p"
  then obtain x where x: "x \<in> set m" "y \<in> set (snd x)" by auto
  with assms y have "fst x = p" by (force simp: pq_shape_def)
  moreover have "om_ok m" using assms by (simp add: pq_shape_def)
  ultimately have "map_of m p = Some (snd x)"
    using x(1) by (metis om_get_in_set prod.collapse)
  with x(2) show "y \<in> set (lookup_deque p m)" by simp
next
  assume y: "y \<in> set (lookup_deque p m)"
  then obtain d where "map_of m p = Some d" "y \<in> set d" by (cases "map_of m p") auto
  with y pq_shape_lookup[OF assms, of p] show "y \<in> set (map_items m) \<and> pe_prio (snd y) = p"
    by (force dest: map_of_SomeD)
qed

text \<open>A push at the end of the deque of a priority is the stable insertion in the whole.\<close>

lemma stable_insert_behind:
  "\<forall>y\<in>set xs. f y \<le> f e \<Longrightarrow> stable_insert f e (xs @ ys) = xs @ stable_insert f e ys"
  by (induction xs) (auto simp: stable_insert_Cons)

lemma stable_insert_before:
  "\<forall>y\<in>set ys. f e < f y \<Longrightarrow> stable_insert f e ys = e # ys"
  by (cases ys) (auto simp: stable_insert_Cons)

lemma map_items_push:
  assumes "pq_shape m"
  shows "dq_elems (map_items (om_put (pe_prio e) (dq_push h e (lookup_deque (pe_prio e) m)) m))
    = stable_insert pe_prio e (dq_elems (map_items m))"
  using assms
proof (induction m)
  case Nil
  then show ?case by (simp add: dq_elems_def dq_push_def dq_forget_def)
next
  case (Cons x m)
  have el: "y \<in> set (dq_elems (snd x)) \<Longrightarrow> pe_prio y = fst x" for y
    using Cons.prems by (auto simp: pq_shape_Cons dq_elems_def)
  have later: "fst x < pe_prio y" if y: "y \<in> set (dq_elems (map_items m))" for y
  proof -
    from y obtain z h' where z: "z \<in> set m" "(h', y) \<in> set (snd z)"
      by (auto simp: dq_elems_def)
    from Cons.prems z(1) have "fst x < fst z" by (simp add: pq_shape_Cons)
    moreover from Cons.prems z have "pe_prio (snd (h', y)) = fst z"
      unfolding pq_shape_def by (meson list.set_intros(2))
    ultimately show ?thesis by simp
  qed
  consider "pe_prio e < fst x" | "pe_prio e = fst x" | "fst x < pe_prio e" by linarith
  then show ?case
  proof cases
    case 1
    then have "map_of m (pe_prio e) = None"
      using Cons.prems by (force simp: pq_shape_Cons map_of_eq_None_iff)
    moreover have "stable_insert pe_prio e (dq_elems (snd x) @ dq_elems (map_items m)) =
        e # dq_elems (snd x) @ dq_elems (map_items m)"
      by (rule stable_insert_before) (use 1 el later in fastforce)
    ultimately show ?thesis using 1 by (simp add: dq_push_def)
  next
    case 2
    have "stable_insert pe_prio e (dq_elems (snd x) @ dq_elems (map_items m)) =
        dq_elems (snd x) @ stable_insert pe_prio e (dq_elems (map_items m))"
      by (rule stable_insert_behind) (use 2 el in auto)
    moreover have "stable_insert pe_prio e (dq_elems (map_items m)) = e # dq_elems (map_items m)"
      by (rule stable_insert_before) (use 2 later in auto)
    ultimately show ?thesis using 2 by simp
  next
    case 3
    have "stable_insert pe_prio e (dq_elems (snd x) @ dq_elems (map_items m)) =
        dq_elems (snd x) @ stable_insert pe_prio e (dq_elems (map_items m))"
      by (rule stable_insert_behind) (use 3 el in auto)
    with 3 Cons show ?thesis by (simp add: pq_shape_Cons)
  qed
qed

text \<open>Erasing the last element of a deque.\<close>

lemma map_items_replace:
  assumes "pq_shape m" and "map_of m p = Some d" and "d' \<noteq> []"
  obtains m1 m2 where "m = m1 @ (p, d) # m2" "om_put p d' m = m1 @ (p, d') # m2"
    "om_del p m = m1 @ m2"
proof -
  have "om_ok m" using assms(1) by (simp add: pq_shape_def)
  with assms(2) have "\<exists>m1 m2. m = m1 @ (p, d) # m2 \<and> om_put p d' m = m1 @ (p, d') # m2 \<and>
      om_del p m = m1 @ m2"
  proof (induction m)
    case Nil
    then show ?case by simp
  next
    case (Cons x m)
    show ?case
    proof (cases "fst x = p")
      case True
      with Cons.prems have x: "x = (p, d)" by (cases x) auto
      from Cons.prems(2) True have "\<forall>y\<in>set m. fst y \<noteq> p" by (auto simp: om_ok_Cons)
      then have "om_del p m = m" by (simp add: om_del_def)
      with x have "x # m = [] @ (p, d) # m" "om_put p d' (x # m) = [] @ (p, d') # m"
        "om_del p (x # m) = [] @ m" by (simp_all add: om_del_def)
      then show ?thesis by blast
    next
      case False
      with Cons.prems(1) have mp: "map_of m p = Some d" by (cases x) auto
      then have "(p, d) \<in> set m" by (rule map_of_SomeD)
      with Cons.prems(2) have lt: "fst x < p" by (auto simp: om_ok_Cons)
      from Cons.IH[OF mp] Cons.prems(2) obtain m1 m2 where
        "m = m1 @ (p, d) # m2" "om_put p d' m = m1 @ (p, d') # m2" "om_del p m = m1 @ m2"
        by (auto simp: om_ok_Cons)
      with lt have "x # m = (x # m1) @ (p, d) # m2" "om_put p d' (x # m) = (x # m1) @ (p, d') # m2"
        "om_del p (x # m) = (x # m1) @ m2" by (simp_all add: om_del_def)
      then show ?thesis by blast
    qed
  qed
  with that show ?thesis by blast
qed

section \<open>The invariant\<close>

definition pq_items :: "primary_queue \<Rightarrow> primary_event deque" where
  "pq_items q = map_items (pq q)"

definition pq_ready :: "primary_queue \<Rightarrow> primary_event list" where
  "pq_ready q = dq_elems (pq_items q)"

definition pq_abs :: "primary_queue \<Rightarrow> order_spec" where
  "pq_abs q = \<lparr>os_ready = pq_ready q, os_later = map snd (psq q)\<rparr>"

definition pq_inv :: "primary_queue \<Rightarrow> bool" where
  "pq_inv q \<longleftrightarrow> pq_shape (pq q) \<and> mm_ok (pq_next q) (psq q) \<and>
     distinct (map pe_wfiid (pq_ready q)) \<and>
     (\<forall>w. pmap q w \<noteq> None \<longleftrightarrow> w \<in> pe_wfiid ` set (pq_ready q)) \<and>
     (\<forall>h e. (Some h, e) \<in> set (pq_items q) \<longrightarrow> pmap q (pe_wfiid e) = Some h) \<and>
     (\<forall>w h. pmap q w = Some h \<longrightarrow> h < pq_next q) \<and>
     (\<forall>w w' h. pmap q w = Some h \<longrightarrow> pmap q w' = Some h \<longrightarrow> w = w') \<and>
     (\<forall>w n. psmap q w = Some n \<longleftrightarrow> (\<exists>t e. (n, t, e) \<in> set (psq q) \<and> pe_wfiid e = w)) \<and>
     (\<forall>w. pmap q w = None \<or> psmap q w = None) \<and>
     pmap q 0 = None \<and> psmap q 0 = None"

lemma pq_inv_parts:
  assumes "pq_inv q"
  shows "pq_shape (pq q)" "mm_ok (pq_next q) (psq q)" "distinct (map pe_wfiid (pq_ready q))"
    "\<And>w. pmap q w \<noteq> None \<longleftrightarrow> w \<in> pe_wfiid ` set (pq_ready q)"
    "\<And>h e. (Some h, e) \<in> set (pq_items q) \<Longrightarrow> pmap q (pe_wfiid e) = Some h"
    "\<And>w h. pmap q w = Some h \<Longrightarrow> h < pq_next q"
    "\<And>w w' h. pmap q w = Some h \<Longrightarrow> pmap q w' = Some h \<Longrightarrow> w = w'"
    "\<And>w n. psmap q w = Some n \<longleftrightarrow> (\<exists>t e. (n, t, e) \<in> set (psq q) \<and> pe_wfiid e = w)"
    "\<And>w. pmap q w = None \<or> psmap q w = None"
    "pmap q 0 = None" "psmap q 0 = None"
proof -
  note inv = assms[unfolded pq_inv_def]
  show "pq_shape (pq q)" "mm_ok (pq_next q) (psq q)" "distinct (map pe_wfiid (pq_ready q))"
    "pmap q 0 = None" "psmap q 0 = None"
    using inv by simp_all
  show "\<And>w. pmap q w \<noteq> None \<longleftrightarrow> w \<in> pe_wfiid ` set (pq_ready q)" using inv by simp
  show "\<And>h e. (Some h, e) \<in> set (pq_items q) \<Longrightarrow> pmap q (pe_wfiid e) = Some h" using inv by simp
  show "\<And>w h. pmap q w = Some h \<Longrightarrow> h < pq_next q" using inv by simp
  show "\<And>w w' h. pmap q w = Some h \<Longrightarrow> pmap q w' = Some h \<Longrightarrow> w = w'" using inv by (elim conjE) metis
  show "\<And>w n. psmap q w = Some n \<longleftrightarrow> (\<exists>t e. (n, t, e) \<in> set (psq q) \<and> pe_wfiid e = w)" using inv by simp
  show "\<And>w. pmap q w = None \<or> psmap q w = None" using inv by simp
qed

lemma pq_inv_new: "pq_inv new_PrimaryQueue"
  by (simp add: pq_inv_def new_PrimaryQueue_def pq_ready_def pq_items_def)

lemma ready_ids_abs: "pq_inv q \<Longrightarrow> w \<in> ready_ids (pq_abs q) \<longleftrightarrow> pmap q w \<noteq> None"
  using pq_inv_parts(4)[of q w] by (simp add: ready_ids_def pq_abs_def)

lemma later_ids_abs: "pq_inv q \<Longrightarrow> w \<in> later_ids (pq_abs q) \<longleftrightarrow> psmap q w \<noteq> None"
proof -
  assume inv: "pq_inv q"
  have "w \<in> later_ids (pq_abs q) \<longleftrightarrow> (\<exists>n t e. (n, t, e) \<in> set (psq q) \<and> pe_wfiid e = w)"
    by (force simp: later_ids_def pq_abs_def image_iff)
  then show ?thesis using pq_inv_parts(8)[OF inv, of w] by auto
qed

text \<open>The condition variable and the waiters do not matter.\<close>

lemma pq_notify_simps [simp]:
  "pq (pq_broadcast q) = pq q" "pq (pq_signal q) = pq q" "pq (primary_wakeup q) = pq q"
  "psq (pq_broadcast q) = psq q" "psq (pq_signal q) = psq q" "psq (primary_wakeup q) = psq q"
  "pmap (pq_broadcast q) = pmap q" "pmap (pq_signal q) = pmap q" "pmap (primary_wakeup q) = pmap q"
  "psmap (pq_broadcast q) = psmap q" "psmap (pq_signal q) = psmap q" "psmap (primary_wakeup q) = psmap q"
  "pq_next (pq_broadcast q) = pq_next q" "pq_next (pq_signal q) = pq_next q"
  "pq_next (primary_wakeup q) = pq_next q"
  "pq_waiting (pq_broadcast q) = pq_waiting q" "pq_waiting (pq_signal q) = pq_waiting q"
  "pq_waiting (primary_wakeup q) = pq_waiting q"
  by (simp_all add: pq_broadcast_def pq_signal_def primary_wakeup_def)

lemma pq_inv_cong:
  assumes "pq q' = pq q" "psq q' = psq q" "pmap q' = pmap q" "psmap q' = psmap q"
    "pq_next q' = pq_next q"
  shows "pq_inv q' = pq_inv q" and "pq_abs q' = pq_abs q"
  using assms by (simp_all add: pq_inv_def pq_abs_def pq_ready_def pq_items_def)

lemma pq_inv_notify [simp]:
  "pq_inv (pq_broadcast q) = pq_inv q" "pq_abs (pq_broadcast q) = pq_abs q"
  "pq_inv (pq_signal q) = pq_inv q" "pq_abs (pq_signal q) = pq_abs q"
  "pq_inv (primary_wakeup q) = pq_inv q" "pq_abs (primary_wakeup q) = pq_abs q"
  by (rule pq_inv_cong; simp)+

section \<open>Adding\<close>

lemma distinct_map_stable_insert:
  "distinct (map f (stable_insert g e xs)) \<longleftrightarrow> f e \<notin> f ` set xs \<and> distinct (map f xs)"
proof -
  have "mset (map f (stable_insert g e xs)) = mset (map f (e # xs))"
    by simp
  then have "distinct (map f (stable_insert g e xs)) = distinct (map f (e # xs))"
    by (rule mset_eq_imp_distinct_iff)
  then show ?thesis by simp
qed

lemma set_map_items_put: "set (map_items (om_put p d m)) \<subseteq> set d \<union> set (map_items m)"
  using set_om_put[of p d m] by fastforce

lemma addToPrimary_spec:
  assumes inv: "pq_inv q" and w: "pe_wfiid e \<noteq> 0"
  shows "(case spec_ready e (pq_abs q) of
      Inl f \<Rightarrow> addToPrimary e q = Inl f
    | Inr s \<Rightarrow> \<exists>q'. addToPrimary e q = Inr q' \<and> pq_inv q' \<and> pq_abs q' = s \<and>
        psq q' = psq q \<and> psmap q' = psmap q \<and> pq_waiting q' = pq_waiting q)"
proof (cases "pmap q (pe_wfiid e) = None \<and> psmap q (pe_wfiid e) = None")
  case False
  with inv show ?thesis
    by (auto simp: spec_ready_def ready_ids_abs later_ids_abs addToPrimary_def Let_def)
next
  case True
  note inv' = pq_inv_parts[OF inv]
  let ?d = "prio_deque (pe_prio e) q" and ?h = "pq_next q"
  let ?q' = "q\<lparr>pq := om_put (pe_prio e) (dq_push ?h e ?d) (pq q),
    pmap := (pmap q)(pe_wfiid e \<mapsto> ?h), pq_next := Suc ?h\<rparr>"
  have d: "\<forall>y\<in>set ?d. pe_prio (snd y) = pe_prio e"
    using pq_shape_lookup[OF inv'(1)] by (simp add: prio_deque_def)
  then have "\<forall>y\<in>set (dq_push ?h e ?d). pe_prio (snd y) = pe_prio e"
    by (auto simp: dq_push_def dq_forget_def)
  with pq_shape_put[OF inv'(1), of "dq_push ?h e ?d" "pe_prio e"] have shape: "pq_shape (pq ?q')"
    by simp
  have ready: "pq_ready ?q' = stable_insert pe_prio e (pq_ready q)"
    using map_items_push[OF inv'(1)] by (simp add: pq_ready_def pq_items_def prio_deque_def)
  have items: "(Some h', e') \<in> set (pq_items ?q') \<Longrightarrow>
      h' = ?h \<and> e' = e \<or> (Some h', e') \<in> set (pq_items q)" for h' e'
    using set_map_items_put[of "pe_prio e" "dq_push ?h e ?d" "pq q"] by (auto simp: pq_items_def)
  have new: "pe_wfiid e \<notin> pe_wfiid ` set (pq_ready q)" using inv'(4) True by blast
  have "pq_inv ?q'"
    unfolding pq_inv_def ready
  proof (intro conjI)
    show "mm_ok (pq_next ?q') (psq ?q')" using mm_ok_mono[OF inv'(2), of "Suc ?h"] by simp
    show "distinct (map pe_wfiid (stable_insert pe_prio e (pq_ready q)))"
      using new inv'(3) by (simp add: distinct_map_stable_insert)
    show "\<forall>w. pmap ?q' w \<noteq> None \<longleftrightarrow> w \<in> pe_wfiid ` set (stable_insert pe_prio e (pq_ready q))"
      using inv'(4) by auto
    show "\<forall>h' e'. (Some h', e') \<in> set (pq_items ?q') \<longrightarrow> pmap ?q' (pe_wfiid e') = Some h'"
    proof (intro allI impI)
      fix h' e'
      assume "(Some h', e') \<in> set (pq_items ?q')"
      from items[OF this] inv'(5) True show "pmap ?q' (pe_wfiid e') = Some h'" by fastforce
    qed
    show "\<forall>w h'. pmap ?q' w = Some h' \<longrightarrow> h' < pq_next ?q'" using inv'(6) by (auto intro: less_SucI)
    show "\<forall>w w' h'. pmap ?q' w = Some h' \<longrightarrow> pmap ?q' w' = Some h' \<longrightarrow> w = w'"
    proof (intro allI impI)
      fix w w' h'
      assume "pmap ?q' w = Some h'" "pmap ?q' w' = Some h'"
      then show "w = w'" using inv'(6)[of w h'] inv'(6)[of w' h'] inv'(7)[of w h' w']
        by (auto split: if_splits)
    qed
    show "\<forall>w n. psmap ?q' w = Some n \<longleftrightarrow> (\<exists>t e. (n, t, e) \<in> set (psq ?q') \<and> pe_wfiid e = w)"
      using inv'(8) by simp
    show "\<forall>w. pmap ?q' w = None \<or> psmap ?q' w = None" using inv'(9) True by simp
    show "pmap ?q' 0 = None" "psmap ?q' 0 = None" using inv'(10,11) w by simp_all
  qed (rule shape)
  moreover have "pq_abs ?q' = (pq_abs q)\<lparr>os_ready := stable_insert pe_prio e (os_ready (pq_abs q))\<rparr>"
    using ready by (simp add: pq_abs_def)
  ultimately show ?thesis
    using True inv by (simp add: spec_ready_def ready_ids_abs later_ids_abs addToPrimary_def Let_def)
qed

lemma map_snd_mm_insert:
  "sorted (mm_keys ns) \<Longrightarrow> map snd (mm_insert n t e ns) = stable_insert fst (t, e) (map snd ns)"
  by (induction ns) (auto simp: stable_insert_Cons)

lemma addToScheduled_spec:
  assumes inv: "pq_inv q" and w: "pe_wfiid e \<noteq> 0"
  shows "(case spec_later t e (pq_abs q) of
      Inl f \<Rightarrow> addToScheduled t e q = Inl f
    | Inr s \<Rightarrow> \<exists>b q'. addToScheduled t e q = Inr (b, q') \<and> pq_inv q' \<and> pq_abs q' = s \<and>
        pq_waiting q' = pq_waiting q)"
proof (cases "pmap q (pe_wfiid e) = None \<and> psmap q (pe_wfiid e) = None")
  case False
  with inv show ?thesis
    by (auto simp: spec_later_def ready_ids_abs later_ids_abs addToScheduled_def Let_def)
next
  case True
  note inv' = pq_inv_parts[OF inv]
  let ?n = "pq_next q"
  let ?q' = "q\<lparr>psq := mm_insert ?n t e (psq q), psmap := (psmap q)(pe_wfiid e \<mapsto> ?n), pq_next := Suc ?n\<rparr>"
  have below: "(m, t', e') \<in> set (psq q) \<Longrightarrow> m < ?n" for m t' e'
    using inv'(2) by (force simp: mm_ok_def mm_ids_def)
  have none: "(m, t', e') \<in> set (psq q) \<Longrightarrow> pe_wfiid e' \<noteq> pe_wfiid e" for m t' e'
    using inv'(8)[of "pe_wfiid e" m] True by auto
  have "pq_inv ?q'"
    unfolding pq_inv_def
  proof (intro conjI)
    show "mm_ok (pq_next ?q') (psq ?q')" using inv'(2) by auto
    show "\<forall>w n. psmap ?q' w = Some n \<longleftrightarrow> (\<exists>t e. (n, t, e) \<in> set (psq ?q') \<and> pe_wfiid e = w)"
    proof (intro allI)
      fix w m
      show "psmap ?q' w = Some m \<longleftrightarrow> (\<exists>t e. (m, t, e) \<in> set (psq ?q') \<and> pe_wfiid e = w)"
        using inv'(8)[of w m] below none by auto
    qed
    show "\<forall>w h'. pmap ?q' w = Some h' \<longrightarrow> h' < pq_next ?q'" using inv'(6) by (auto intro: less_SucI)
    show "\<forall>w w' h'. pmap ?q' w = Some h' \<longrightarrow> pmap ?q' w' = Some h' \<longrightarrow> w = w'"
      using inv'(7) by auto
    show "\<forall>w. pmap ?q' w = None \<or> psmap ?q' w = None" using inv'(9) True by simp
    show "\<forall>w. (pmap ?q' w \<noteq> None) = (w \<in> pe_wfiid ` set (pq_ready ?q'))"
      using inv'(4) by (simp add: pq_ready_def pq_items_def)
  qed (use inv' w in \<open>simp_all add: pq_ready_def pq_items_def\<close>)
  moreover have "pq_abs ?q' = (pq_abs q)\<lparr>os_later := stable_insert fst (t, e) (os_later (pq_abs q))\<rparr>"
    using map_snd_mm_insert[of "psq q"] inv'(2)
    by (simp add: pq_abs_def pq_ready_def pq_items_def mm_ok_def)
  ultimately show ?thesis
    using True inv by (simp add: spec_later_def ready_ids_abs later_ids_abs addToScheduled_def Let_def)
qed

text \<open>\<open>add\<close> computes the abstract addition; what it fails with is what the abstract one fails with.\<close>

lemma primary_add_spec:
  assumes inv: "pq_inv q" and w: "w \<noteq> 0"
  shows "(case spec_add \<lparr>pe_wfiid = w, pe_prio = prio, pe_pi = p\<rparr> scheduled now (pq_abs q) of
      Inl f \<Rightarrow> primary_add w prio p scheduled now sig q = Inl f
    | Inr s \<Rightarrow> \<exists>q'. primary_add w prio p scheduled now sig q = Inr q' \<and> pq_inv q' \<and> pq_abs q' = s \<and>
        pq_waiting q' = pq_waiting q)"
proof -
  let ?e = "\<lparr>pe_wfiid = w, pe_prio = prio, pe_pi = p\<rparr>"
  have e: "pe_wfiid ?e \<noteq> 0" using w by simp
  consider (later) t where "scheduled = Some t" "t > now"
    | (now) "\<forall>t. scheduled = Some t \<longrightarrow> \<not> t > now" by blast
  then show ?thesis
  proof cases
    case later
    then have spec: "spec_add ?e scheduled now (pq_abs q) = spec_later t ?e (pq_abs q)"
      and add: "primary_add w prio p scheduled now sig q = rbind (addToScheduled t ?e q) (\<lambda>(first, q').
        Inr (if first \<and> sig \<and> pq_waiting q' \<noteq> 0 then pq_broadcast q' else q'))"
      using w by (simp_all add: spec_add_def primary_add_def)
    show ?thesis
    proof (cases "spec_later t ?e (pq_abs q)")
      case (Inl f)
      with addToScheduled_spec[OF inv e, of t] show ?thesis by (simp add: spec add)
    next
      case (Inr s)
      with addToScheduled_spec[OF inv e, of t] obtain b q' where
        q': "addToScheduled t ?e q = Inr (b, q')" "pq_inv q'" "pq_abs q' = s" "pq_waiting q' = pq_waiting q"
        by auto
      with Inr show ?thesis unfolding spec add by simp
    qed
  next
    case now
    then have "spec_add ?e scheduled now (pq_abs q) = spec_ready ?e (pq_abs q)"
      "(case scheduled of None \<Rightarrow> None | Some t \<Rightarrow> if t > now then Some t else None) = None"
      by (auto simp: spec_add_def split: option.splits)
    then have spec: "spec_add ?e scheduled now (pq_abs q) = spec_ready ?e (pq_abs q)"
      and add: "primary_add w prio p scheduled now sig q = rbind (addToPrimary ?e q) (\<lambda>q'.
        Inr (if sig \<and> pq_waiting q' \<noteq> 0 then pq_signal q' else q'))"
      using w by (simp_all add: primary_add_def)
    show ?thesis
    proof (cases "spec_ready ?e (pq_abs q)")
      case (Inl f)
      with addToPrimary_spec[OF inv e] show ?thesis by (simp add: spec add)
    next
      case (Inr s)
      with addToPrimary_spec[OF inv e] obtain q' where
        q': "addToPrimary ?e q = Inr q'" "pq_inv q'" "pq_abs q' = s" "pq_waiting q' = pq_waiting q"
        by auto
      with Inr show ?thesis unfolding spec add by simp
    qed
  qed
qed

section \<open>Delivering\<close>

lemma addToPrimary_psq:
  "addToPrimary e (q\<lparr>psq := z\<rparr>) = rbind (addToPrimary e q) (\<lambda>q'. Inr (q'\<lparr>psq := z\<rparr>))"
  by (simp add: addToPrimary_def Let_def prio_deque_def rbind_def assert_that_def)

lemma pq_inv_drop_scheduled:
  assumes inv: "pq_inv q" and x: "(n, t, e) \<in> set (psq q)"
  shows "pq_inv (q\<lparr>psmap := (psmap q)(pe_wfiid e := None), psq := mm_erase n (psq q)\<rparr>)"
    (is "pq_inv ?q'")
proof -
  note inv' = pq_inv_parts[OF inv]
  have w: "psmap q (pe_wfiid e) = Some n" using inv'(8) x by blast
  have dist: "distinct (mm_ids (psq q))" using inv'(2) by (simp add: mm_ok_def)
  show ?thesis
    unfolding pq_inv_def
  proof (intro conjI)
    show "mm_ok (pq_next ?q') (psq ?q')" using inv'(2) by auto
    show "\<forall>w n'. psmap ?q' w = Some n' \<longleftrightarrow> (\<exists>t e. (n', t, e) \<in> set (psq ?q') \<and> pe_wfiid e = w)"
    proof (intro allI)
      fix v m
      have "m \<noteq> n" if "(m, t', e') \<in> set (psq q)" "pe_wfiid e' \<noteq> pe_wfiid e" for t' e'
        using mm_node_unique[OF dist x, of "(t', e')"] that by auto
      moreover have "m = n" if "(m, t', e') \<in> set (psq q)" "pe_wfiid e' = pe_wfiid e" for t' e'
        using inv'(8)[of "pe_wfiid e" m] w that by auto
      ultimately show "psmap ?q' v = Some m \<longleftrightarrow> (\<exists>t e. (m, t, e) \<in> set (psq ?q') \<and> pe_wfiid e = v)"
        using inv'(8)[of v m] by auto
    qed
    show "\<forall>w w' h'. pmap ?q' w = Some h' \<longrightarrow> pmap ?q' w' = Some h' \<longrightarrow> w = w'"
      using inv'(7) by auto
    show "\<forall>w. pmap ?q' w = None \<or> psmap ?q' w = None" using inv'(9) by simp
    show "\<forall>w. (pmap ?q' w \<noteq> None) = (w \<in> pe_wfiid ` set (pq_ready ?q'))"
      using inv'(4) by (simp add: pq_ready_def pq_items_def)
  qed (use inv' in \<open>simp_all add: pq_ready_def pq_items_def\<close>)
qed

lemma mm_erase_hd: "distinct (mm_ids (x # xs)) \<Longrightarrow> mm_erase (fst x) (x # xs) = xs"
  by (induction xs) auto

lemma activate_from_spec:
  assumes "pq_inv (q\<lparr>psq := ns\<rparr>)"
  shows "\<exists>q'. activate_from now ns q = Inr q' \<and> pq_inv q' \<and>
    pq_abs q' = spec_activate now (pq_abs (q\<lparr>psq := ns\<rparr>)) \<and> pq_waiting q' = pq_waiting q"
  using assms
proof (induction ns arbitrary: q)
  case Nil
  then show ?case by (simp add: spec_activate_def pq_abs_def pq_ready_def pq_items_def)
next
  case (Cons x xs)
  obtain n t e where x: "x = (n, t, e)" by (cases x) auto
  show ?case
  proof (cases "t > now")
    case True
    with Cons.prems x show ?thesis
      by (simp add: spec_activate_def pq_abs_def pq_ready_def pq_items_def)
  next
    case False
    let ?Q = "q\<lparr>psq := x # xs\<rparr>" and ?q1 = "q\<lparr>psmap := (psmap q)(pe_wfiid e := None)\<rparr>"
    note parts = pq_inv_parts[OF Cons.prems]
    have "distinct (mm_ids (x # xs))" using parts(2) by (simp add: mm_ok_def)
    from mm_erase_hd[OF this] have er: "mm_erase n (x # xs) = xs" using x by simp
    have inv1: "pq_inv (?q1\<lparr>psq := xs\<rparr>)"
      using pq_inv_drop_scheduled[OF Cons.prems, of n t e] x er by simp
    have sched: "psmap q (pe_wfiid e) = Some n" using parts(8)[of "pe_wfiid e" n] x by auto
    then have none: "pmap q (pe_wfiid e) = None" "pe_wfiid e \<noteq> 0"
      using parts(9)[of "pe_wfiid e"] parts(11) by auto
    have rd: "os_ready (pq_abs (?q1\<lparr>psq := xs\<rparr>)) = pq_ready q"
      by (simp add: pq_abs_def pq_ready_def pq_items_def)
    have "spec_ready e (pq_abs (?q1\<lparr>psq := xs\<rparr>)) = Inr ((pq_abs (?q1\<lparr>psq := xs\<rparr>))
        \<lparr>os_ready := stable_insert pe_prio e (pq_ready q)\<rparr>)"
      using none ready_ids_abs[OF inv1, of "pe_wfiid e"] later_ids_abs[OF inv1, of "pe_wfiid e"]
      by (simp add: spec_ready_def rd)
    with addToPrimary_spec[OF inv1 none(2)] obtain q2 where
      "addToPrimary e (?q1\<lparr>psq := xs\<rparr>) = Inr q2" and inv2: "pq_inv q2"
      and abs2: "pq_abs q2 = (pq_abs (?q1\<lparr>psq := xs\<rparr>))\<lparr>os_ready := stable_insert pe_prio e (pq_ready q)\<rparr>"
      and w2: "pq_waiting q2 = pq_waiting q" by auto
    then obtain q3 where q3: "addToPrimary e ?q1 = Inr q3" "q2 = q3\<lparr>psq := xs\<rparr>"
      by (auto simp: addToPrimary_psq)
    from Cons.IH[of q3] inv2 q3 obtain q' where q': "activate_from now xs q3 = Inr q'" "pq_inv q'"
      "pq_abs q' = spec_activate now (pq_abs q2)" "pq_waiting q' = pq_waiting q3" by auto
    have "spec_activate now (pq_abs q2) = spec_activate now (pq_abs ?Q)"
      using abs2 False x by (simp add: spec_activate_def pq_abs_def pq_ready_def pq_items_def)
    with q' q3 w2 False x show ?thesis by simp
  qed
qed

lemma checkEvent_spec:
  assumes "pq_inv q"
  shows "\<exists>q'. checkEvent now q = Inr (os_ready (spec_activate now (pq_abs q)) \<noteq> [], q') \<and>
    pq_inv q' \<and> pq_abs q' = spec_activate now (pq_abs q) \<and> pq_waiting q' = pq_waiting q"
proof -
  from assms activate_from_spec[of "psq q" q now] obtain q' where q':
    "activate now q = Inr q'" "pq_inv q'" "pq_abs q' = spec_activate now (pq_abs q)"
    "pq_waiting q' = pq_waiting q" by (auto simp: activate_def)
  have "pq_ready q' = [] \<longleftrightarrow> pq q' = []"
    using pq_inv_parts(1)[OF q'(2)] by (cases "pq q'")
      (auto simp: pq_ready_def pq_items_def pq_shape_Cons dq_elems_def)
  then have "os_ready (spec_activate now (pq_abs q)) = [] \<longleftrightarrow> pq q' = []"
    using q'(3)[symmetric] by (simp add: pq_abs_def)
  with q' show ?thesis by (simp add: checkEvent_def)
qed

section \<open>Taking orders out\<close>

lemma pq_inv_remove:
  assumes inv: "pq_inv q" and m: "pq_shape m"
    and ready: "dq_elems (map_items m) = filter (\<lambda>e. pe_wfiid e \<noteq> w) (pq_ready q)"
    and items: "set (map_items m) \<subseteq> set (pq_items q)"
  shows "pq_inv (q\<lparr>pmap := (pmap q)(w := None), pq := m\<rparr>)" (is "pq_inv ?q'")
proof -
  note inv' = pq_inv_parts[OF inv]
  have r: "pq_ready ?q' = filter (\<lambda>e. pe_wfiid e \<noteq> w) (pq_ready q)"
    using ready by (simp add: pq_ready_def pq_items_def)
  show ?thesis
    unfolding pq_inv_def r
  proof (intro conjI)
    show "distinct (map pe_wfiid (filter (\<lambda>e. pe_wfiid e \<noteq> w) (pq_ready q)))"
      using inv'(3) by (rule distinct_map_filter)
    show "\<forall>v. pmap ?q' v \<noteq> None \<longleftrightarrow> v \<in> pe_wfiid ` set (filter (\<lambda>e. pe_wfiid e \<noteq> w) (pq_ready q))"
      using inv'(4) by auto
    show "\<forall>h e. (Some h, e) \<in> set (pq_items ?q') \<longrightarrow> pmap ?q' (pe_wfiid e) = Some h"
    proof (intro allI impI)
      fix h e
      assume a: "(Some h, e) \<in> set (pq_items ?q')"
      then have "e \<in> set (dq_elems (map_items m))" unfolding set_dq_elems by (auto simp: pq_items_def)
      then have "pe_wfiid e \<noteq> w" unfolding ready by simp
      with a items inv'(5)[of h e] show "pmap ?q' (pe_wfiid e) = Some h" by (auto simp: pq_items_def)
    qed
    show "\<forall>v v' h'. pmap ?q' v = Some h' \<longrightarrow> pmap ?q' v' = Some h' \<longrightarrow> v = v'"
      using inv'(7) by auto
    show "\<forall>v n. psmap ?q' v = Some n \<longleftrightarrow> (\<exists>t e. (n, t, e) \<in> set (psq ?q') \<and> pe_wfiid e = v)"
      using inv'(8) by simp
    show "\<forall>w. pmap ?q' w = None \<or> psmap ?q' w = None" using inv'(9) by simp
  qed (use inv' m in simp_all)
qed

lemma filter_ids_hd:
  "distinct (map f (x # xs)) \<Longrightarrow> filter (\<lambda>y. f y \<noteq> f x) (x # xs) = xs"
  by (auto simp: filter_id_conv image_iff)

lemma getEvent_spec:
  assumes inv: "pq_inv q"
  shows "(case os_ready (pq_abs q) of
      [] \<Rightarrow> getEvent q = Inl Assertion_failed
    | e # es \<Rightarrow> \<exists>q'. getEvent q = Inr (primary_get_hash e, q') \<and> pq_inv q' \<and>
        pq_abs q' = (pq_abs q)\<lparr>os_ready := es\<rparr> \<and> pq_waiting q' = pq_waiting q)"
proof (cases "pq q")
  case Nil
  then show ?thesis by (simp add: pq_abs_def pq_ready_def pq_items_def getEvent_def)
next
  case (Cons y m)
  note inv' = pq_inv_parts[OF inv]
  obtain p d0 where y: "y = (p, d0)" by (cases y)
  with inv'(1) Cons obtain x d where d0: "d0 = x # d"
    by (cases d0) (auto simp: pq_shape_Cons)
  let ?m = "if d = [] then m else (p, d) # m"
  let ?q' = "q\<lparr>pmap := (pmap q)(pe_wfiid (snd x) := None), pq := ?m\<rparr>"
  have ready: "pq_ready q = snd x # dq_elems (map_items ?m)"
    using Cons y d0 by (simp add: pq_ready_def pq_items_def)
  have shape: "pq_shape ?m"
    using inv'(1) Cons y d0 by (auto simp: pq_shape_Cons dest: dq_tail_tl)
  have "dq_elems (map_items ?m) = filter (\<lambda>e. pe_wfiid e \<noteq> pe_wfiid (snd x)) (pq_ready q)"
    using filter_ids_hd[of pe_wfiid "snd x"] inv'(3) unfolding ready by metis
  moreover have "set (map_items ?m) \<subseteq> set (pq_items q)"
    using Cons y d0 by (auto simp: pq_items_def)
  ultimately have "pq_inv ?q'" by (rule pq_inv_remove[OF inv shape])
  moreover have "getEvent q = Inr (primary_get_hash (snd x), ?q')"
    using Cons y d0 by (simp add: getEvent_def)
  moreover have "pq_abs ?q' = (pq_abs q)\<lparr>os_ready := dq_elems (map_items ?m)\<rparr>"
    by (simp add: pq_abs_def pq_ready_def pq_items_def)
  moreover have "os_ready (pq_abs q) = snd x # dq_elems (map_items ?m)"
    using ready by (simp add: pq_abs_def)
  ultimately show ?thesis by simp
qed

text \<open>An iterator that is still valid leads to the order of its workflow.\<close>

definition pq_live :: "int \<Rightarrow> primary_queue \<Rightarrow> bool" where
  "pq_live w q \<longleftrightarrow> (\<exists>h. pmap q w = Some h \<and> pq_at h q \<noteq> None)"

lemma pq_at_items: "pq_at h q = Some e \<Longrightarrow> (Some h, e) \<in> set (pq_items q)"
  unfolding pq_at_def dq_at_def pq_items_def by (rule map_of_SomeD)

lemma pq_at_wfiid:
  assumes inv: "pq_inv q" and "pmap q w = Some h" "pq_at h q = Some e"
  shows "pe_wfiid e = w"
  using pq_inv_parts(5)[OF inv pq_at_items[OF assms(3)]] pq_inv_parts(7)[OF inv _ assms(2)] by blast

lemma handle_unique:
  assumes inv: "pq_inv q" and "(Some h, e) \<in> set (pq_items q)" "(Some h, e') \<in> set (pq_items q)"
  shows "e = e'"
proof -
  note inv' = pq_inv_parts[OF inv]
  have "pe_wfiid e = pe_wfiid e'"
    using inv'(5)[OF assms(2)] inv'(5)[OF assms(3)] inv'(7) by blast
  moreover have "e \<in> set (pq_ready q)" "e' \<in> set (pq_ready q)"
    unfolding pq_ready_def set_dq_elems using assms(2,3) by blast+
  ultimately show ?thesis
    using inv'(3) by (simp add: distinct_map inj_on_def)
qed

lemma filter_ids_last:
  assumes "distinct (map f (xs @ x # ys))"
  shows "filter (\<lambda>y. f y \<noteq> f x) (xs @ x # ys) = xs @ ys"
proof -
  from assms have "\<forall>y\<in>set xs. f y \<noteq> f x" "\<forall>y\<in>set ys. f y \<noteq> f x"
    by (auto simp: image_iff)
  then show ?thesis by (simp add: filter_id_conv)
qed

lemma erase_at_spec:
  assumes inv: "pq_inv q" and h: "pmap q w = Some h" and e: "pq_at h q = Some e"
  shows "\<exists>q'. erase_at (pe_prio e) h (q\<lparr>pmap := (pmap q)(w := None)\<rparr>) = Inr q' \<and> pq_inv q' \<and>
    pq_abs q' = (pq_abs q)\<lparr>os_ready := filter (\<lambda>e. pe_wfiid e \<noteq> w) (os_ready (pq_abs q))\<rparr> \<and>
    pq_waiting q' = pq_waiting q"
proof -
  note inv' = pq_inv_parts[OF inv]
  let ?p = "pe_prio e"
  let ?d = "lookup_deque ?p (pq q)"
  have w: "pe_wfiid e = w" by (rule pq_at_wfiid[OF inv h e])
  have in_d: "(Some h, e) \<in> set ?d"
    using map_items_lookup[OF inv'(1), of "(Some h, e)" ?p] pq_at_items[OF e]
    by (simp add: pq_items_def)
  then obtain d where d: "map_of (pq q) ?p = Some d" "(Some h, e) \<in> set d"
    by (cases "map_of (pq q) ?p") auto
  have at: "dq_at h d = Some e"
  proof -
    from d(2) obtain e' where e': "dq_at h d = Some e'"
      unfolding dq_at_def using weak_map_of_SomeI by fast
    then have "(Some h, e') \<in> set d" unfolding dq_at_def by (rule map_of_SomeD)
    then have "(Some h, e') \<in> set (pq_items q)"
      using d(1) by (force simp: pq_items_def dest: map_of_SomeD)
    with handle_unique[OF inv _ pq_at_items[OF e]] e' show ?thesis by blast
  qed
  have tail: "dq_tail d" using pq_shape_lookup[OF inv'(1), of ?p] d(1) by simp
  have er: "dq_erase h d = butlast d" by (rule dq_erase_last[OF tail at])
  have dl: "d = butlast d @ [(Some h, e)]" by (rule dq_at_Some_last[OF tail at])
  let ?d' = "if butlast d = [] then d else butlast d"
  have ne: "?d' \<noteq> []" using d(2) by auto
  obtain m1 m2 where sp: "pq q = m1 @ (?p, d) # m2" "om_put ?p ?d' (pq q) = m1 @ (?p, ?d') # m2"
    "om_del ?p (pq q) = m1 @ m2"
    by (rule map_items_replace[OF inv'(1) d(1) ne])
  let ?m = "if butlast d = [] then om_del ?p (pq q) else om_put ?p (butlast d) (pq q)"
  let ?q' = "q\<lparr>pmap := (pmap q)(w := None), pq := ?m\<rparr>"
  have items: "map_items ?m = map_items m1 @ butlast d @ map_items m2"
    using sp by (auto split: if_splits)
  have "pq_items q = map_items m1 @ (butlast d @ [(Some h, e)]) @ map_items m2"
    using sp(1) dl by (simp add: pq_items_def)
  then have ready: "pq_ready q =
      (dq_elems (map_items m1) @ dq_elems (butlast d)) @ e # dq_elems (map_items m2)"
    and sub: "set (map_items ?m) \<subseteq> set (pq_items q)"
    by (auto simp: pq_ready_def items)
  have "dq_elems (map_items ?m) = filter (\<lambda>e. pe_wfiid e \<noteq> w) (pq_ready q)"
    using filter_ids_last[of pe_wfiid "dq_elems (map_items m1) @ dq_elems (butlast d)" e]
      inv'(3) w unfolding ready items by simp
  moreover have shape: "pq_shape ?m"
  proof -
    have "\<forall>y\<in>set (butlast d). pe_prio (snd y) = ?p"
      using pq_shape_lookup[OF inv'(1), of ?p] d(1) by (auto dest: in_set_butlastD)
    then show ?thesis
      using pq_shape_del[OF inv'(1)] pq_shape_put[OF inv'(1) _ dq_tail_butlast[OF tail]] by auto
  qed
  ultimately have "pq_inv ?q'" by (intro pq_inv_remove[OF inv shape _ sub])
  moreover have "erase_at ?p h (q\<lparr>pmap := (pmap q)(w := None)\<rparr>) = Inr ?q'"
    using d(1) at er by (simp add: erase_at_def prio_deque_def Let_def)
  moreover have "pq_abs ?q' = (pq_abs q)\<lparr>os_ready := filter (\<lambda>e. pe_wfiid e \<noteq> w) (os_ready (pq_abs q))\<rparr>"
    using \<open>dq_elems (map_items ?m) = _\<close> by (simp add: pq_abs_def pq_ready_def pq_items_def)
  ultimately show ?thesis by auto
qed

section \<open>Changing and removing an order\<close>

definition spec_event :: "int \<Rightarrow> order_spec \<Rightarrow> primary_event option" where
  "spec_event w s = find (\<lambda>e. pe_wfiid e = w) (os_ready s @ map snd (os_later s))"

definition spec_remove :: "int \<Rightarrow> order_spec \<Rightarrow> order_spec" where
  "spec_remove w s = \<lparr>os_ready = filter (\<lambda>e. pe_wfiid e \<noteq> w) (os_ready s),
     os_later = filter (\<lambda>x. pe_wfiid (snd x) \<noteq> w) (os_later s)\<rparr>"

definition spec_reprioritize :: "int \<Rightarrow> int \<Rightarrow> order_spec \<Rightarrow> order_spec" where
  "spec_reprioritize w prio s =
     (if w \<in> later_ids s then
        s\<lparr>os_later := map (\<lambda>x. if pe_wfiid (snd x) = w then (fst x, (snd x)\<lparr>pe_prio := prio\<rparr>) else x)
            (os_later s)\<rparr>
      else case spec_event w s of None \<Rightarrow> s
        | Some e \<Rightarrow> (spec_remove w s)
            \<lparr>os_ready := stable_insert pe_prio (e\<lparr>pe_prio := prio\<rparr>) (os_ready (spec_remove w s))\<rparr>)"

definition spec_resched :: "int \<Rightarrow> int option \<Rightarrow> int \<Rightarrow> order_spec \<Rightarrow> order_spec result" where
  "spec_resched w scheduled now s =
     (case spec_event w s of None \<Rightarrow> Inr s
      | Some e \<Rightarrow> spec_add e scheduled now (spec_remove w s))"

lemma spec_remove_ids [simp]:
  "ready_ids (spec_remove w s) = ready_ids s - {w}" "later_ids (spec_remove w s) = later_ids s - {w}"
  by (auto simp: spec_remove_def ready_ids_def later_ids_def)

lemma find_unique_id:
  assumes "distinct (map f xs)" "e \<in> set xs"
  shows "find (\<lambda>x. f x = f e) xs = Some e"
  using assms by (induction xs) auto

lemma find_append: "find P (xs @ ys) = (case find P xs of None \<Rightarrow> find P ys | Some x \<Rightarrow> Some x)"
  by (induction xs) auto

lemma spec_event_ready:
  assumes inv: "pq_inv q" and e: "e \<in> set (pq_ready q)"
  shows "spec_event (pe_wfiid e) (pq_abs q) = Some e"
  using find_unique_id[OF pq_inv_parts(3)[OF inv] e] by (simp add: spec_event_def find_append pq_abs_def)

lemma not_ready_id: "pq_inv q \<Longrightarrow> pmap q w = None \<Longrightarrow> \<forall>e\<in>set (pq_ready q). pe_wfiid e \<noteq> w"
  using pq_inv_parts(4)[of q w] by auto

lemma not_later_id:
  assumes "pq_inv q" "psmap q w = None" "(n, t, e) \<in> set (psq q)"
  shows "pe_wfiid e \<noteq> w"
  using pq_inv_parts(8)[OF assms(1), of w n] assms(2,3) by auto

lemma not_later_ids:
  "pq_inv q \<Longrightarrow> psmap q w = None \<Longrightarrow> \<forall>x\<in>set (psq q). pe_wfiid (snd (snd x)) \<noteq> w"
  using not_later_id[of q w] by (metis prod.collapse)

lemma psq_find:
  assumes inv: "pq_inv q" and n: "psmap q w = Some n"
  obtains t e where "mm_find n (psq q) = Some (t, e)" "(n, t, e) \<in> set (psq q)" "pe_wfiid e = w"
proof -
  from pq_inv_parts(8)[OF inv, of w n] n obtain t e where
    te: "(n, t, e) \<in> set (psq q)" "pe_wfiid e = w" by blast
  moreover have "mm_find n (psq q) = Some (t, e)"
    using mm_find_ok[OF pq_inv_parts(2)[OF inv]] te(1) by blast
  ultimately show ?thesis using that by blast
qed

lemma spec_event_later:
  assumes inv: "pq_inv q" and n: "psmap q w = Some n" "(n, t, e) \<in> set (psq q)"
  shows "spec_event w (pq_abs q) = Some e"
proof -
  note inv' = pq_inv_parts[OF inv]
  have w: "pe_wfiid e' = w \<Longrightarrow> (n', t', e') \<in> set (psq q) \<Longrightarrow> e' = e" for n' t' e'
  proof -
    assume a: "pe_wfiid e' = w" "(n', t', e') \<in> set (psq q)"
    then have "n' = n" using inv'(8)[of w n'] n(1) by auto
    with a n(2) inv'(2) mm_node_unique[of "psq q" n "(t, e)" "(t', e')"] show "e' = e"
      by (simp add: mm_ok_def)
  qed
  have "pmap q w = None" using inv'(9)[of w] n(1) by simp
  with not_ready_id[OF inv] have "find (\<lambda>e. pe_wfiid e = w) (pq_ready q) = None"
    by (simp add: find_None_iff)
  moreover have "find (\<lambda>e. pe_wfiid e = w) (map snd (map snd (psq q))) = Some e"
  proof (cases "find (\<lambda>e. pe_wfiid e = w) (map snd (map snd (psq q)))")
    case None
    moreover have "e \<in> set (map snd (map snd (psq q)))" using n(2) by force
    moreover have "pe_wfiid e = w" using inv'(8)[of w n] n inv'(2) mm_node_unique[of "psq q" n "(t, e)"]
      by (fastforce simp: mm_ok_def)
    ultimately show ?thesis by (auto simp: find_None_iff)
  next
    case (Some e')
    then have "e' \<in> set (map snd (map snd (psq q)))" "pe_wfiid e' = w"
      by (auto simp: find_Some_iff)
    with w Some show ?thesis by auto
  qed
  ultimately show ?thesis by (simp add: spec_event_def find_append pq_abs_def)
qed

lemma drop_scheduled_abs:
  assumes inv: "pq_inv q" and n: "psmap q w = Some n"
  shows "pq_abs (q\<lparr>psmap := (psmap q)(w := None), psq := mm_erase n (psq q)\<rparr>) = spec_remove w (pq_abs q)"
proof -
  note inv' = pq_inv_parts[OF inv]
  have "pmap q w = None" using inv'(9)[of w] n by simp
  with not_ready_id[OF inv] have "filter (\<lambda>e. pe_wfiid e \<noteq> w) (pq_ready q) = pq_ready q"
    by (simp add: filter_id_conv)
  moreover have "map snd (mm_erase n (psq q)) = filter (\<lambda>x. pe_wfiid (snd x) \<noteq> w) (map snd (psq q))"
  proof -
    obtain t0 e0 where e0: "(n, t0, e0) \<in> set (psq q)" "pe_wfiid e0 = w"
      using psq_find[OF inv n] by blast
    have "fst y \<noteq> n \<longleftrightarrow> pe_wfiid (snd (snd y)) \<noteq> w" if "y \<in> set (psq q)" for y
    proof -
      obtain m t e where y: "y = (m, t, e)" by (cases y) auto
      show ?thesis
        using inv'(8)[of w m] n that y e0 inv'(2) mm_node_unique[of "psq q" n "(t0, e0)" "(t, e)"]
        by (auto simp: mm_ok_def)
    qed
    then have "filter (\<lambda>y. fst y \<noteq> n) (psq q) = filter (\<lambda>y. pe_wfiid (snd (snd y)) \<noteq> w) (psq q)"
      by (intro filter_cong) auto
    then show ?thesis by (simp add: mm_erase_def filter_map comp_def)
  qed
  ultimately show ?thesis by (simp add: pq_abs_def spec_remove_def pq_ready_def pq_items_def)
qed

end
