(* ===== verification/Primary_Changes.thy ===== *)
theory Primary_Changes
  imports Primary_Laws
begin

text \<open>
  Rescheduling, reprioritizing and removing an order of the queue of new orders.

  Each operation is shown to compute the operation of the abstract queue when the iterator
  kept for the order is still valid (\<open>pq_live\<close>), and to be undefined behaviour when it is
  not; \<open>not_last_dead\<close> says which orders have lost their iterator.
\<close>

section \<open>Defined behaviour\<close>

lemma removeIntern_erase:
  assumes "pq_at h q = Some e"
  shows "removeIntern w h q = erase_at (pe_prio e) h (q\<lparr>pmap := (pmap q)(w := None)\<rparr>)"
  using assms by (simp add: removeIntern_def)

lemma live_obtain:
  assumes inv: "pq_inv q" and l: "pq_live w q"
  obtains h e where "pmap q w = Some h" "pq_at h q = Some e" "pe_wfiid e = w" "e \<in> set (pq_ready q)"
    "psmap q w = None" "spec_event w (pq_abs q) = Some e" "w \<noteq> 0"
proof -
  from l obtain h e where h: "pmap q w = Some h" "pq_at h q = Some e" by (auto simp: pq_live_def)
  note inv' = pq_inv_parts[OF inv]
  have w: "pe_wfiid e = w" by (rule pq_at_wfiid[OF inv h])
  have r: "e \<in> set (pq_ready q)"
    unfolding pq_ready_def set_dq_elems using pq_at_items[OF h(2)] by blast
  show ?thesis
    using that[OF h w r] inv'(9)[of w] inv'(10) spec_event_ready[OF inv r] h w by fastforce
qed

lemma live_remove:
  assumes inv: "pq_inv q" and h: "pmap q w = Some h" "pq_at h q = Some e"
  shows "\<exists>q'. removeIntern w h q = Inr q' \<and> pq_inv q' \<and> pq_abs q' = spec_remove w (pq_abs q) \<and>
    pq_waiting q' = pq_waiting q"
proof -
  from erase_at_spec[OF inv h] obtain q' where q': "removeIntern w h q = Inr q'" "pq_inv q'"
    "pq_abs q' = (pq_abs q)\<lparr>os_ready := filter (\<lambda>e. pe_wfiid e \<noteq> w) (os_ready (pq_abs q))\<rparr>"
    "pq_waiting q' = pq_waiting q"
    unfolding removeIntern_erase[OF h(2)] by blast
  have "psmap q w = None" using pq_inv_parts(9)[OF inv, of w] h(1) by simp
  then have "\<forall>x\<in>set (psq q). pe_wfiid (snd (snd x)) \<noteq> w"
    by (rule not_later_ids[OF inv])
  then have "filter (\<lambda>x. pe_wfiid (snd x) \<noteq> w) (map snd (psq q)) = map snd (psq q)"
    by (simp add: filter_id_conv)
  with q' show ?thesis by (simp add: spec_remove_def pq_abs_def)
qed

lemma spec_add_removed:
  assumes "pe_wfiid e = w"
  shows "\<exists>s'. spec_add e scheduled now (spec_remove w s) = Inr s'"
  using assms by (auto simp: spec_add_def spec_ready_def spec_later_def split: option.splits)

lemma primary_add_again:
  assumes inv: "pq_inv q" and abs: "pq_abs q = spec_remove w s" and w: "pe_wfiid e = w" "w \<noteq> 0"
  shows "\<exists>q'. primary_add w (pe_prio e) (pe_pi e) scheduled now sig q = Inr q' \<and> pq_inv q' \<and>
    spec_add e scheduled now (spec_remove w s) = Inr (pq_abs q') \<and> pq_waiting q' = pq_waiting q"
proof -
  have e: "\<lparr>pe_wfiid = w, pe_prio = pe_prio e, pe_pi = pe_pi e\<rparr> = e" using w(1) by (cases e) simp
  obtain s' where s': "spec_add e scheduled now (spec_remove w s) = Inr s'"
    using spec_add_removed[OF w(1)] by blast
  with primary_add_spec[OF inv w(2), of "pe_prio e" "pe_pi e" scheduled now sig, unfolded e abs]
  show ?thesis by auto
qed

lemma reschedIntern_spec:
  assumes inv: "pq_inv q" and live: "pmap q w \<noteq> None \<Longrightarrow> pq_live w q"
  shows "\<exists>q'. reschedIntern w scheduled now q = Inr (spec_event w (pq_abs q) \<noteq> None, q') \<and> pq_inv q' \<and>
    spec_resched w scheduled now (pq_abs q) = Inr (pq_abs q') \<and> pq_waiting q' = pq_waiting q"
proof (cases "psmap q w")
  case (Some n)
  from psq_find[OF inv Some] obtain t e where
    e: "mm_find n (psq q) = Some (t, e)" "(n, t, e) \<in> set (psq q)" "pe_wfiid e = w" by blast
  let ?q1 = "q\<lparr>psmap := (psmap q)(w := None), psq := mm_erase n (psq q)\<rparr>"
  have inv1: "pq_inv ?q1" using pq_inv_drop_scheduled[OF inv e(2)] e(3) by simp
  have w: "w \<noteq> 0" using pq_inv_parts(11)[OF inv] Some by auto
  from primary_add_again[OF inv1 drop_scheduled_abs[OF inv Some] e(3) w, of scheduled now True]
  obtain q' where "primary_add w (pe_prio e) (pe_pi e) scheduled now True ?q1 = Inr q'" "pq_inv q'"
    "spec_add e scheduled now (spec_remove w (pq_abs q)) = Inr (pq_abs q')" "pq_waiting q' = pq_waiting q"
    by auto
  with Some e spec_event_later[OF inv Some e(2)] show ?thesis
    by (simp add: reschedIntern_def spec_resched_def)
next
  case None
  show ?thesis
  proof (cases "pmap q w")
    case h: None
    have "spec_event w (pq_abs q) = None"
      using not_ready_id[OF inv h] not_later_ids[OF inv None]
      by (auto simp: spec_event_def find_None_iff pq_abs_def)
    with inv None h show ?thesis by (simp add: reschedIntern_def spec_resched_def)
  next
    case (Some h0)
    with live obtain h e where h: "pmap q w = Some h" "pq_at h q = Some e" "pe_wfiid e = w"
      "spec_event w (pq_abs q) = Some e" "w \<noteq> 0"
      using live_obtain[OF inv] by blast
    from live_remove[OF inv h(1,2)] obtain q1 where
      q1: "erase_at (pe_prio e) h (q\<lparr>pmap := (pmap q)(w := None)\<rparr>) = Inr q1" "pq_inv q1"
        "pq_abs q1 = spec_remove w (pq_abs q)" "pq_waiting q1 = pq_waiting q"
      unfolding removeIntern_erase[OF h(2)] by blast
    from primary_add_again[OF q1(2,3) h(3,5), of scheduled now True]
    obtain q' where "primary_add w (pe_prio e) (pe_pi e) scheduled now True q1 = Inr q'" "pq_inv q'"
      "spec_add e scheduled now (spec_remove w (pq_abs q)) = Inr (pq_abs q')"
      "pq_waiting q' = pq_waiting q" using q1(4) by auto
    with None h q1 show ?thesis
      by (simp add: reschedIntern_def spec_resched_def)
  qed
qed

lemma resched_spec:
  assumes "pq_inv q" "pmap q w \<noteq> None \<Longrightarrow> pq_live w q"
  shows "\<exists>q'. resched w scheduled now q = Inr (spec_event w (pq_abs q) \<noteq> None, q') \<and> pq_inv q' \<and>
    spec_resched w scheduled now (pq_abs q) = Inr (pq_abs q')"
proof -
  from reschedIntern_spec[OF assms, of scheduled now] obtain q1 where q1:
    "reschedIntern w scheduled now q = Inr (spec_event w (pq_abs q) \<noteq> None, q1)" "pq_inv q1"
    "spec_resched w scheduled now (pq_abs q) = Inr (pq_abs q1)" by blast
  then show ?thesis by (cases "spec_event w (pq_abs q)") (auto simp: resched_def)
qed

lemma primary_reprioritize_spec:
  assumes inv: "pq_inv q" and live: "pmap q w \<noteq> None \<Longrightarrow> pq_live w q"
  shows "\<exists>q'. primary_reprioritize w prio now q = Inr (spec_event w (pq_abs q) \<noteq> None, q') \<and> pq_inv q' \<and>
    pq_abs q' = spec_reprioritize w prio (pq_abs q) \<and> pq_waiting q' = pq_waiting q"
proof (cases "psmap q w")
  case (Some n)
  note inv' = pq_inv_parts[OF inv]
  from psq_find[OF inv Some] obtain t e where
    e: "mm_find n (psq q) = Some (t, e)" "(n, t, e) \<in> set (psq q)" "pe_wfiid e = w" by blast
  let ?f = "\<lambda>e. e\<lparr>pe_prio := prio\<rparr>"
  let ?q' = "q\<lparr>psq := mm_update n ?f (psq q)\<rparr>"
  have dist: "distinct (mm_ids (psq q))" using inv'(2) by (simp add: mm_ok_def)
  have ids: "(\<exists>t e. (m, t, e) \<in> set (mm_update n ?f (psq q)) \<and> pe_wfiid e = v) \<longleftrightarrow>
      (\<exists>t e. (m, t, e) \<in> set (psq q) \<and> pe_wfiid e = v)" for m v
    unfolding ex_mm_update by (cases "m = n") simp_all
  have "pq_inv ?q'"
    using inv by (simp add: pq_inv_def pq_ready_def pq_items_def ids)
  moreover have "pq_abs ?q' = spec_reprioritize w prio (pq_abs q)"
  proof -
    have "map snd (mm_update n ?f (psq q)) =
        map (\<lambda>x. if pe_wfiid (snd x) = w then (fst x, ?f (snd x)) else x) (map snd (psq q))"
    proof -
      have "fst y = n \<longleftrightarrow> pe_wfiid (snd (snd y)) = w" if "y \<in> set (psq q)" for y
      proof -
        obtain m t' e' where y: "y = (m, t', e')" by (cases y) auto
        show ?thesis
          using inv'(8)[of w m] Some that y e mm_node_unique[OF dist e(2), of "(t', e')"] by auto
      qed
      then show ?thesis by (auto simp: mm_update_def)
    qed
    moreover have "w \<in> later_ids (pq_abs q)" using later_ids_abs[OF inv] Some by simp
    ultimately show ?thesis
      by (simp add: spec_reprioritize_def pq_abs_def pq_ready_def pq_items_def)
  qed
  ultimately show ?thesis
    using Some e spec_event_later[OF inv Some e(2)] by (simp add: primary_reprioritize_def)
next
  case None
  then have nl: "w \<notin> later_ids (pq_abs q)" using later_ids_abs[OF inv] by simp
  show ?thesis
  proof (cases "pmap q w")
    case h: None
    have "spec_event w (pq_abs q) = None"
      using not_ready_id[OF inv h] not_later_ids[OF inv None]
      by (auto simp: spec_event_def find_None_iff pq_abs_def)
    with inv None h nl show ?thesis by (simp add: primary_reprioritize_def spec_reprioritize_def)
  next
    case (Some h0)
    with live obtain h e where h: "pmap q w = Some h" "pq_at h q = Some e" "pe_wfiid e = w"
      "spec_event w (pq_abs q) = Some e" "w \<noteq> 0"
      using live_obtain[OF inv] by blast
    from live_remove[OF inv h(1,2)] obtain q1 where
      q1: "removeIntern w h q = Inr q1" "pq_inv q1" "pq_abs q1 = spec_remove w (pq_abs q)"
        "pq_waiting q1 = pq_waiting q" by blast
    have w': "pe_wfiid (e\<lparr>pe_prio := prio\<rparr>) = w" using h(3) by simp
    from primary_add_again[OF q1(2,3) w' h(5), of None now True]
    obtain q' where "primary_add w prio (pe_pi e) None now True q1 = Inr q'" "pq_inv q'"
      "spec_add (e\<lparr>pe_prio := prio\<rparr>) None now (spec_remove w (pq_abs q)) = Inr (pq_abs q')"
      "pq_waiting q' = pq_waiting q" using q1(4) by auto
    with None h q1 nl show ?thesis
      by (simp add: primary_reprioritize_def spec_reprioritize_def spec_add_def spec_ready_def)
  qed
qed

lemma primary_remove_spec:
  assumes inv: "pq_inv q" and live: "pmap q w \<noteq> None \<Longrightarrow> pq_live w q" and n: "psmap q w = None"
  shows "\<exists>q'. primary_removeWorkflowOrder w q = Inr (pmap q w \<noteq> None, q') \<and> pq_inv q' \<and>
    pq_abs q' = spec_remove w (pq_abs q) \<and> pq_waiting q' = pq_waiting q"
proof (cases "pmap q w")
  case None
  have "filter (\<lambda>e. pe_wfiid e \<noteq> w) (pq_ready q) = pq_ready q"
    using not_ready_id[OF inv None] by (simp add: filter_id_conv)
  moreover have "filter (\<lambda>x. pe_wfiid (snd x) \<noteq> w) (map snd (psq q)) = map snd (psq q)"
    using not_later_ids[OF inv n] by (simp add: filter_id_conv)
  ultimately have "spec_remove w (pq_abs q) = pq_abs q" by (simp add: spec_remove_def pq_abs_def)
  with None n inv show ?thesis by (simp add: primary_removeWorkflowOrder_def)
next
  case (Some h0)
  with live obtain h e where h: "pmap q w = Some h" "pq_at h q = Some e"
    using live_obtain[OF inv] by blast
  with live_remove[OF inv h] n show ?thesis by (auto simp: primary_removeWorkflowOrder_def)
qed

section \<open>Iterators that are no longer valid\<close>

lemma dead_undefined:
  assumes inv: "pq_inv q" and w: "pmap q w \<noteq> None" and dead: "\<not> pq_live w q"
  shows "primary_reprioritize w prio now q = Inl Undefined_behaviour"
    and "reschedIntern w scheduled now q = Inl Undefined_behaviour"
    and "primary_removeWorkflowOrder w q = Inl Undefined_behaviour"
proof -
  from w obtain h where h: "pmap q w = Some h" by auto
  with dead have at: "pq_at h q = None" by (simp add: pq_live_def)
  have n: "psmap q w = None" using pq_inv_parts(9)[OF inv, of w] h by simp
  from h at n show "primary_reprioritize w prio now q = Inl Undefined_behaviour"
    "reschedIntern w scheduled now q = Inl Undefined_behaviour"
    "primary_removeWorkflowOrder w q = Inl Undefined_behaviour"
    by (simp_all add: primary_reprioritize_def reschedIntern_def primary_removeWorkflowOrder_def
        removeIntern_def)
qed

text \<open>An order with another one of the same priority behind it has lost its iterator.\<close>

lemma distinct_order:
  assumes "distinct (xs @ e # ys)" "xs @ e # ys = us @ e # vs"
  shows "xs = us \<and> ys = vs"
proof -
  have "e \<notin> set xs" "e \<notin> set us"
    using assms(1) assms(1)[unfolded assms(2)] by auto
  with assms(2) show ?thesis
    by (metis append_Cons_eq_iff assms(1) distinct.simps(2) distinct_append)
qed

lemma not_last_dead:
  assumes inv: "pq_inv q" and r: "pq_ready q = xs @ e # ys"
    and behind: "e' \<in> set ys" "pe_prio e' = pe_prio e"
  shows "\<not> pq_live (pe_wfiid e) q"
proof
  assume live: "pq_live (pe_wfiid e) q"
  note inv' = pq_inv_parts[OF inv]
  have dist: "distinct (pq_ready q)" using inv'(3) by (simp add: distinct_map)
  from live_obtain[OF inv live] obtain h e1 where h: "pmap q (pe_wfiid e) = Some h"
    "pq_at h q = Some e1" "pe_wfiid e1 = pe_wfiid e" "e1 \<in> set (pq_ready q)" by blast
  moreover have "e \<in> set (pq_ready q)" using r by simp
  ultimately have "e1 = e" using inv'(3) by (simp add: distinct_map inj_on_def)
  with h have at: "pq_at h q = Some e" by simp
  let ?d = "lookup_deque (pe_prio e) (pq q)"
  have "(Some h, e) \<in> set ?d"
    using map_items_lookup[OF inv'(1), of "(Some h, e)" "pe_prio e"] pq_at_items[OF at]
    by (simp add: pq_items_def)
  then obtain d where d: "map_of (pq q) (pe_prio e) = Some d" "(Some h, e) \<in> set d"
    by (cases "map_of (pq q) (pe_prio e)") auto
  have tail: "dq_tail d" using pq_shape_lookup[OF inv'(1), of "pe_prio e"] d(1) by simp
  have dl: "d = butlast d @ [(Some h, e)]"
  proof (cases d rule: rev_cases)
    case Nil
    with d(2) show ?thesis by simp
  next
    case (snoc zs y)
    with tail have "(Some h, e) \<notin> set zs" by (auto simp: dq_tail_def)
    with snoc d(2) show ?thesis by simp
  qed
  obtain m1 m2 where sp: "pq q = m1 @ (pe_prio e, d) # m2"
    using map_items_replace[OF inv'(1) d(1), of d] d(2) by (metis empty_iff empty_set)
  let ?us = "dq_elems (map_items m1) @ dq_elems (butlast d)" and ?vs = "dq_elems (map_items m2)"
  have "dq_elems d = dq_elems (butlast d) @ [e]" by (subst dl) simp
  then have r2: "pq_ready q = ?us @ e # ?vs" by (simp add: pq_ready_def pq_items_def sp)
  have "distinct (xs @ e # ys)" "xs @ e # ys = ?us @ e # ?vs" using dist r r2 by argo+
  from distinct_order[OF this] have "ys = ?vs" by blast
  with behind(1) obtain h' where "(h', e') \<in> set (map_items m2)" by (auto simp: set_dq_elems)
  then obtain z where z: "z \<in> set m2" "(h', e') \<in> set (snd z)" by auto
  then have "pe_prio e' = fst z" using inv'(1) sp by (fastforce simp: pq_shape_def)
  moreover have "pe_prio e < fst z" using inv'(1) sp z(1)
    by (auto simp: pq_shape_def om_ok_def sorted_append distinct_append less_le image_iff)
  ultimately show False using behind(2) by simp
qed

end
