(* ===== verification/Primary_Clients.thy ===== *)
theory Primary_Clients
  imports Primary_Changes
begin

text \<open>
  The interface of the queue of new orders to its clients, \<^verbatim>\<open>init_primary_queue\<close>,
  \<^verbatim>\<open>queue_primary_event\<close> and \<^verbatim>\<open>get_primary_event\<close>.

  \<open>order_buffer\<close> is a queue with an abstract queue (\<open>order_spec\<close>) that its three
  operations compute.  What a client observes is proved from these laws alone: a batch of
  orders is delivered in stable priority order, an order is not delivered before its time,
  and one whose time has come is not passed over.  The interpretation \<open>pqb\<close> is the code's queue.
\<close>

section \<open>The interface\<close>

text \<open>One round of the loop of \<^verbatim>\<open>get_primary_event\<close>, and a sequence of requests.\<close>

definition take_step :: "(int \<Rightarrow> 'q \<Rightarrow> (bool \<times> 'q) result) \<Rightarrow> ('q \<Rightarrow> (qhash \<times> 'q) result)
    \<Rightarrow> int \<Rightarrow> 'q \<Rightarrow> (qhash option \<times> 'q) result" where
  "take_step chk get now q = rbind (chk now q) (\<lambda>c.
     if fst c then rbind (get (snd c)) (\<lambda>r. Inr (Some (fst r), snd r)) else Inr (None, snd c))"

fun take_steps :: "(int \<Rightarrow> 'q \<Rightarrow> (bool \<times> 'q) result) \<Rightarrow> ('q \<Rightarrow> (qhash \<times> 'q) result)
    \<Rightarrow> int list \<Rightarrow> 'q \<Rightarrow> (qhash option list \<times> 'q) result" where
  "take_steps chk get [] q = Inr ([], q)"
| "take_steps chk get (now # nows) q = rbind (take_step chk get now q) (\<lambda>r.
     rbind (take_steps chk get nows (snd r)) (\<lambda>rs. Inr (fst r # fst rs, snd rs)))"

locale order_buffer =
  fixes add :: "primary_event \<Rightarrow> int option \<Rightarrow> int \<Rightarrow> 'q \<Rightarrow> 'q result"
    and chk :: "int \<Rightarrow> 'q \<Rightarrow> (bool \<times> 'q) result"
    and get :: "'q \<Rightarrow> (qhash \<times> 'q) result"
    and inv :: "'q \<Rightarrow> bool"
    and abs :: "'q \<Rightarrow> order_spec"
  assumes add_law: "inv q \<Longrightarrow> pe_wfiid e \<noteq> 0 \<Longrightarrow>
      (case spec_add e sched now (abs q) of Inl f \<Rightarrow> add e sched now q = Inl f
       | Inr s \<Rightarrow> \<exists>q'. add e sched now q = Inr q' \<and> inv q' \<and> abs q' = s)"
    and chk_law: "inv q \<Longrightarrow> \<exists>q'. chk now q = Inr (os_ready (spec_activate now (abs q)) \<noteq> [], q') \<and>
      inv q' \<and> abs q' = spec_activate now (abs q)"
    and get_law: "inv q \<Longrightarrow> os_ready (abs q) = e # es \<Longrightarrow>
      \<exists>q'. get q = Inr (primary_get_hash e, q') \<and> inv q' \<and> abs q' = (abs q)\<lparr>os_ready := es\<rparr>"
    and later_sorted: "inv q \<Longrightarrow> sorted (map fst (os_later (abs q)))"
begin

lemma add_batch:
  assumes "inv q" and "\<forall>e\<in>set evs. pe_wfiid e \<noteq> 0" and "distinct (map pe_wfiid evs)"
    and "pe_wfiid ` set evs \<inter> (ready_ids (abs q) \<union> later_ids (abs q)) = {}"
  shows "\<exists>q'. rfold (\<lambda>q e. add e None now q) q evs = Inr q' \<and> inv q' \<and>
    abs q' = (abs q)\<lparr>os_ready := foldl (\<lambda>xs e. stable_insert pe_prio e xs) (os_ready (abs q)) evs\<rparr>"
  using assms
proof (induction evs arbitrary: q)
  case Nil
  then show ?case by simp
next
  case (Cons e evs)
  have spec: "spec_add e None now (abs q) = Inr ((abs q)\<lparr>os_ready := stable_insert pe_prio e (os_ready (abs q))\<rparr>)"
    using Cons.prems(4) by (simp add: spec_add_def spec_ready_def)
  have "pe_wfiid e \<noteq> 0" using Cons.prems(2) by simp
  from add_law[OF Cons.prems(1) this, of None now] spec obtain q1 where
    q1: "add e None now q = Inr q1" "inv q1"
      "abs q1 = (abs q)\<lparr>os_ready := stable_insert pe_prio e (os_ready (abs q))\<rparr>" by auto
  have "ready_ids (abs q1) = insert (pe_wfiid e) (ready_ids (abs q))" "later_ids (abs q1) = later_ids (abs q)"
    by (simp_all add: q1(3) ready_ids_def later_ids_def)
  with Cons.IH[OF q1(2)] Cons.prems q1 show ?case by auto
qed

lemma take_one:
  assumes "inv q"
  shows "\<exists>q'. inv q' \<and> (case os_ready (spec_activate now (abs q)) of
      [] \<Rightarrow> take_step chk get now q = Inr (None, q') \<and> abs q' = spec_activate now (abs q)
    | e # es \<Rightarrow> take_step chk get now q = Inr (Some (primary_get_hash e), q') \<and>
        abs q' = (spec_activate now (abs q))\<lparr>os_ready := es\<rparr>)"
proof -
  from chk_law[OF assms] obtain q1 where q1:
    "chk now q = Inr (os_ready (spec_activate now (abs q)) \<noteq> [], q1)" "inv q1"
    "abs q1 = spec_activate now (abs q)" by blast
  show ?thesis
  proof (cases "os_ready (spec_activate now (abs q))")
    case Nil
    with q1 show ?thesis by (auto simp: take_step_def)
  next
    case (Cons e es)
    with q1 get_law[OF q1(2), of e es] show ?thesis by (auto simp: take_step_def)
  qed
qed

text \<open>Without scheduled orders, the ready orders are delivered in their order.\<close>

lemma take_ready_all:
  assumes "inv q" "os_later (abs q) = []" "length nows = length (os_ready (abs q))"
  shows "\<exists>q'. take_steps chk get nows q = Inr (map (\<lambda>e. Some (primary_get_hash e)) (os_ready (abs q)), q') \<and>
    inv q' \<and> os_ready (abs q') = [] \<and> os_later (abs q') = []"
  using assms
proof (induction nows arbitrary: q)
  case Nil
  then show ?case by simp
next
  case (Cons now nows)
  then obtain e es where e: "os_ready (abs q) = e # es" by (cases "os_ready (abs q)") auto
  have act: "spec_activate now (abs q) = abs q"
    using Cons.prems(2) by (simp add: spec_activate_def)
  from take_one[OF Cons.prems(1), of now] e act obtain q1 where q1:
    "take_step chk get now q = Inr (Some (primary_get_hash e), q1)" "inv q1"
    "abs q1 = (abs q)\<lparr>os_ready := es\<rparr>" by auto
  from Cons.IH[OF q1(2)] q1(3) Cons.prems e obtain q' where
    "take_steps chk get nows q1 = Inr (map (\<lambda>e. Some (primary_get_hash e)) es, q')" "inv q'"
    "os_ready (abs q') = []" "os_later (abs q') = []" by auto
  with q1 e show ?case by simp
qed

lemma batch_delivered:
  assumes "inv q" "os_ready (abs q) = []" "os_later (abs q) = []"
    and "\<forall>e\<in>set evs. pe_wfiid e \<noteq> 0" and "distinct (map pe_wfiid evs)"
    and "length nows = length evs"
  shows "\<exists>q'. rbind (rfold (\<lambda>q e. add e None now q) q evs) (take_steps chk get nows) =
    Inr (map (\<lambda>e. Some (primary_get_hash e)) (sort_key pe_prio evs), q') \<and> inv q' \<and>
    os_ready (abs q') = []"
proof -
  have "pe_wfiid ` set evs \<inter> (ready_ids (abs q) \<union> later_ids (abs q)) = {}"
    using assms(2,3) by (simp add: ready_ids_def later_ids_def)
  from add_batch[OF assms(1,4,5) this, of now] obtain q1 where q1:
    "rfold (\<lambda>q e. add e None now q) q evs = Inr q1" "inv q1"
    "abs q1 = (abs q)\<lparr>os_ready := sort_key pe_prio evs\<rparr>"
    using assms(2) by (auto simp: foldl_stable_insert_sort)
  from take_ready_all[OF q1(2), of nows] q1 assms(3,6) show ?thesis by auto
qed

text \<open>An order whose time has not come is not delivered, and none stays whose time has come.\<close>

lemma take_not_early:
  assumes "inv q" and "take_step chk get now q = Inr (Some h, q')"
  shows "\<exists>e. h = primary_get_hash e \<and>
    (e \<in> set (os_ready (abs q)) \<or> (\<exists>t. (t, e) \<in> set (os_later (abs q)) \<and> t \<le> now))"
proof -
  have set_foldl: "set (foldl (\<lambda>xs x. stable_insert pe_prio (snd x) xs) zs ys) = set zs \<union> snd ` set ys"
    for zs and ys :: "(int \<times> primary_event) list"
    by (induction ys arbitrary: zs) auto
  from take_one[OF assms(1), of now] assms(2) obtain e es where e:
    "os_ready (spec_activate now (abs q)) = e # es" "h = primary_get_hash e"
    by (cases "os_ready (spec_activate now (abs q))") auto
  then have "e \<in> set (os_ready (spec_activate now (abs q)))" by simp
  then have "e \<in> set (os_ready (abs q)) \<or> e \<in> snd ` set (takeWhile (\<lambda>x. fst x \<le> now) (os_later (abs q)))"
    unfolding spec_activate_def by (simp add: set_foldl)
  with e(2) show ?thesis by (force dest: set_takeWhileD)
qed

lemma take_leaves_later:
  assumes "inv q" and "take_step chk get now q = Inr (r, q')"
  shows "inv q' \<and> (\<forall>x\<in>set (os_later (abs q')). now < fst x)"
proof -
  have "\<forall>x\<in>set (os_later (spec_activate now (abs q))). now < fst x"
    using dropWhile_later[OF later_sorted[OF assms(1)]] by (simp add: spec_activate_def)
  with take_one[OF assms(1), of now] assms(2) show ?thesis
    by (cases "os_ready (spec_activate now (abs q))") auto
qed

end

section \<open>The code's queue\<close>

definition pq_add :: "primary_event \<Rightarrow> int option \<Rightarrow> int \<Rightarrow> primary_queue \<Rightarrow> primary_queue result" where
  "pq_add e sched now q = primary_add (pe_wfiid e) (pe_prio e) (pe_pi e) sched now True q"

lemma primary_event_eta: "\<lparr>pe_wfiid = pe_wfiid e, pe_prio = pe_prio e, pe_pi = pe_pi e\<rparr> = e"
  by (cases e) simp

interpretation pqb: order_buffer pq_add checkEvent getEvent pq_inv pq_abs
proof unfold_locales
  fix q sched now and e :: primary_event
  assume "pq_inv q" "pe_wfiid e \<noteq> 0"
  from primary_add_spec[OF this, of "pe_prio e" "pe_pi e" sched now True]
  show "case spec_add e sched now (pq_abs q) of Inl f \<Rightarrow> pq_add e sched now q = Inl f
     | Inr s \<Rightarrow> \<exists>q'. pq_add e sched now q = Inr q' \<and> pq_inv q' \<and> pq_abs q' = s"
    unfolding primary_event_eta pq_add_def by (auto split: sum.splits)
next
  fix q now
  assume "pq_inv q"
  from checkEvent_spec[OF this]
  show "\<exists>q'. checkEvent now q = Inr (os_ready (spec_activate now (pq_abs q)) \<noteq> [], q') \<and>
      pq_inv q' \<and> pq_abs q' = spec_activate now (pq_abs q)" by blast
next
  fix q e es
  assume "pq_inv q" "os_ready (pq_abs q) = e # es"
  with getEvent_spec[OF this(1)]
  show "\<exists>q'. getEvent q = Inr (primary_get_hash e, q') \<and> pq_inv q' \<and>
      pq_abs q' = (pq_abs q)\<lparr>os_ready := es\<rparr>" by auto
next
  fix q
  assume "pq_inv q"
  from pq_inv_parts(2)[OF this] show "sorted (map fst (os_later (pq_abs q)))"
    by (simp add: mm_ok_def mm_keys_def pq_abs_def comp_def)
qed

end
