(* ===== verification/Primary_Properties.thy ===== *)
theory Primary_Properties
  imports Primary_Clients Primary_Changes
begin

text \<open>
  What the queue of new workflow orders does: the properties of \<^verbatim>\<open>PrimaryQueue\<close>,
  over the laws of \<open>Primary_Laws\<close>, \<open>Primary_Changes\<close> and the interface
  \<open>order_buffer\<close>.
\<close>

text \<open>A queue with one scheduled order, for the examples.\<close>

definition one_scheduled :: primary_queue where
  "one_scheduled = new_PrimaryQueue\<lparr>psq := [(0, 20, \<lparr>pe_wfiid = 7, pe_prio = 500, pe_pi = ParentInfo\<rparr>)],
     psmap := [7 \<mapsto> 0], pq_next := 1\<rparr>"

lemma one_scheduled_laws:
  "pq_inv one_scheduled"
  "pq_abs one_scheduled = \<lparr>os_ready = [], os_later = [(20, \<lparr>pe_wfiid = 7, pe_prio = 500, pe_pi = ParentInfo\<rparr>)]\<rparr>"
  "pmap one_scheduled 7 = None"
proof -
  let ?e = "\<lparr>pe_wfiid = 7, pe_prio = 500, pe_pi = ParentInfo\<rparr>"
  have add: "primary_add 7 500 ParentInfo (Some 20) 10 True new_PrimaryQueue = Inr one_scheduled"
    by (simp add: primary_add_def addToScheduled_def new_PrimaryQueue_def one_scheduled_def)
  have s: "spec_add ?e (Some 20) 10 (pq_abs new_PrimaryQueue) = Inr \<lparr>os_ready = [], os_later = [(20, ?e)]\<rparr>"
    by (simp add: spec_add_def spec_later_def later_ids_def ready_ids_def pq_abs_def pq_ready_def
      pq_items_def new_PrimaryQueue_def)
  from primary_add_spec[OF pq_inv_new, of 7 500 ParentInfo "Some 20" 10 True] add s
  show "pq_inv one_scheduled" "pq_abs one_scheduled = \<lparr>os_ready = [], os_later = [(20, ?e)]\<rparr>" by simp_all
  show "pmap one_scheduled 7 = None" by (simp add: one_scheduled_def new_PrimaryQueue_def)
qed

text \<open>A queue with two ready orders, for the examples.\<close>

definition two_ready :: primary_queue where
  "two_ready = new_PrimaryQueue\<lparr>
     pq := [(400, [(Some 1, \<lparr>pe_wfiid = 8, pe_prio = 400, pe_pi = ParentInfo\<rparr>)]),
            (500, [(Some 0, \<lparr>pe_wfiid = 7, pe_prio = 500, pe_pi = ParentInfo\<rparr>)])],
     pmap := [7 \<mapsto> 0, 8 \<mapsto> 1], pq_next := 2\<rparr>"

lemma two_ready_laws:
  "pq_inv two_ready" "pq_live 7 two_ready"
  "pq_abs two_ready = \<lparr>os_ready = [\<lparr>pe_wfiid = 8, pe_prio = 400, pe_pi = ParentInfo\<rparr>,
     \<lparr>pe_wfiid = 7, pe_prio = 500, pe_pi = ParentInfo\<rparr>], os_later = []\<rparr>"
proof -
  show "pq_inv two_ready"
    by (auto simp: pq_inv_def two_ready_def new_PrimaryQueue_def pq_ready_def pq_items_def pq_shape_def
      om_ok_def dq_tail_def split: if_splits)
  show "pq_live 7 two_ready"
    by (simp add: pq_live_def pq_at_def dq_at_def two_ready_def new_PrimaryQueue_def)
  show "pq_abs two_ready = \<lparr>os_ready = [\<lparr>pe_wfiid = 8, pe_prio = 400, pe_pi = ParentInfo\<rparr>,
     \<lparr>pe_wfiid = 7, pe_prio = 500, pe_pi = ParentInfo\<rparr>], os_later = []\<rparr>"
    by (simp add: pq_abs_def pq_ready_def pq_items_def two_ready_def new_PrimaryQueue_def)
qed

text \<open>
  C1.  Delivery order: if orders with distinct identifiers are added to an empty queue and
  then taken one by one, they come out as their stable sort by priority: lower priority values first,
  and orders of the same priority in the order of their submission.
\<close>

theorem orders_delivered_by_priority:
  assumes "pq_inv q" "os_ready (pq_abs q) = []" "os_later (pq_abs q) = []"
    and "\<forall>e\<in>set evs. pe_wfiid e \<noteq> 0" and "distinct (map pe_wfiid evs)"
    and "length nows = length evs"
  shows "\<exists>q'. rbind (rfold (\<lambda>q e. pq_add e None now q) q evs) (take_steps checkEvent getEvent nows) =
    Inr (map (\<lambda>e. Some (primary_get_hash e)) (sort_key pe_prio evs), q') \<and> pq_inv q' \<and>
    os_ready (pq_abs q') = []"
  by (rule pqb.batch_delivered[OF assms])

theorem orders_delivered_by_priority_witness:
  "\<exists>q'. rbind (rfold (\<lambda>q e. pq_add e None 100 q) new_PrimaryQueue
        [\<lparr>pe_wfiid = 1, pe_prio = 500, pe_pi = ParentInfo\<rparr>, \<lparr>pe_wfiid = 2, pe_prio = 10, pe_pi = ParentInfo\<rparr>,
         \<lparr>pe_wfiid = 3, pe_prio = 500, pe_pi = ParentInfo\<rparr>])
      (take_steps checkEvent getEvent [100, 101, 102]) =
    Inr ([Some (primary_get_hash \<lparr>pe_wfiid = 2, pe_prio = 10, pe_pi = ParentInfo\<rparr>),
          Some (primary_get_hash \<lparr>pe_wfiid = 1, pe_prio = 500, pe_pi = ParentInfo\<rparr>),
          Some (primary_get_hash \<lparr>pe_wfiid = 3, pe_prio = 500, pe_pi = ParentInfo\<rparr>)], q') \<and> pq_inv q' \<and>
    os_ready (pq_abs q') = []"
proof -
  have empty: "os_ready (pq_abs new_PrimaryQueue) = []" "os_later (pq_abs new_PrimaryQueue) = []"
    by (simp_all add: pq_abs_def pq_ready_def pq_items_def new_PrimaryQueue_def)
  from orders_delivered_by_priority[OF pq_inv_new empty, where now = 100 and nows = "[100, 101, 102]" and
    evs = "[\<lparr>pe_wfiid = 1, pe_prio = 500, pe_pi = ParentInfo\<rparr>, \<lparr>pe_wfiid = 2, pe_prio = 10, pe_pi = ParentInfo\<rparr>,
         \<lparr>pe_wfiid = 3, pe_prio = 500, pe_pi = ParentInfo\<rparr>]"]
  show ?thesis by simp
qed

text \<open>
  C10.  Adding refines the abstract schedule: an order with a trigger time in the future goes
  to its place in the schedule, any other behind the ready orders of its priority; an order that is
  already there changes nothing; an order that would be both ready and scheduled is a failed
  assertion.
\<close>

theorem primary_add_refines:
  assumes "pq_inv q" "w \<noteq> 0"
  shows "(case spec_add \<lparr>pe_wfiid = w, pe_prio = prio, pe_pi = p\<rparr> scheduled now (pq_abs q) of
      Inl f \<Rightarrow> primary_add w prio p scheduled now sig q = Inl f
    | Inr s \<Rightarrow> \<exists>q'. primary_add w prio p scheduled now sig q = Inr q' \<and> pq_inv q' \<and> pq_abs q' = s \<and>
        pq_waiting q' = pq_waiting q)"
  using primary_add_spec[OF assms] .

theorem primary_add_refines_witness:
  "\<exists>q'. primary_add 7 500 ParentInfo (Some 20) 10 True new_PrimaryQueue = Inr q' \<and> pq_inv q' \<and>
    os_later (pq_abs q') = [(20, \<lparr>pe_wfiid = 7, pe_prio = 500, pe_pi = ParentInfo\<rparr>)]"
proof -
  have s: "spec_add \<lparr>pe_wfiid = 7, pe_prio = 500, pe_pi = ParentInfo\<rparr> (Some 20) 10 (pq_abs new_PrimaryQueue)
      = Inr \<lparr>os_ready = [], os_later = [(20, \<lparr>pe_wfiid = 7, pe_prio = 500, pe_pi = ParentInfo\<rparr>)]\<rparr>"
    by (simp add: spec_add_def spec_later_def later_ids_def ready_ids_def pq_abs_def pq_ready_def
      pq_items_def new_PrimaryQueue_def)
  from primary_add_refines[OF pq_inv_new, of 7 500 ParentInfo "Some 20" 10 True] show ?thesis
    unfolding s by auto
qed

text \<open>
  When threads wait, nothing is ready and an order is added with signalling, then either a
  notification is sent, or there is still nothing ready and the earliest trigger time, from which the threads'
  time-out was computed, is unchanged.
\<close>

theorem primary_add_wakes:
  assumes "primary_add w prio p scheduled now True q = Inr q'"
    and "pq_waiting q > 0" and "pq q = []" and "pmap q = Map.empty"
    and "pq_cond q' = pq_cond q"
  shows "pq q' = [] \<and> take 1 (mm_keys (psq q')) = take 1 (mm_keys (psq q))"
proof -
  obtain t where t: "scheduled = Some t" "t > now"
  proof (cases "\<exists>t. scheduled = Some t \<and> t > now")
    case True
    then show ?thesis using that by blast
  next
    case False
    then have "(case scheduled of None \<Rightarrow> None | Some t \<Rightarrow> if t > now then Some t else None) = None"
      by (auto split: option.splits)
    with assms(1,2,5) show ?thesis
      by (auto simp: primary_add_def addToPrimary_def Let_def pq_signal_def split: if_splits)
  qed
  let ?e = "\<lparr>pe_wfiid = w, pe_prio = prio, pe_pi = p\<rparr>"
  show ?thesis
  proof (cases "psmap q w = None")
    case False
    with assms t show ?thesis
      by (auto simp: primary_add_def addToScheduled_def Let_def)
  next
    case True
    let ?ns = "mm_insert (pq_next q) t ?e (psq q)"
    from True assms t have n: "fst (hd ?ns) \<noteq> pq_next q" "pq q' = []" "psq q' = ?ns"
      by (auto simp: primary_add_def addToScheduled_def Let_def pq_broadcast_def split: if_splits)
    from n(1) obtain x xs where x: "psq q = x # xs" "\<not> t < fst (snd x)"
      by (cases "psq q") (auto split: if_splits)
    with n show ?thesis by simp
  qed
qed

theorem primary_add_wakes_witness:
  "\<exists>q'. primary_add 8 500 ParentInfo (Some 30) 10 True
      (new_PrimaryQueue\<lparr>psq := [(0, 20, \<lparr>pe_wfiid = 7, pe_prio = 500, pe_pi = ParentInfo\<rparr>)],
         psmap := [7 \<mapsto> 0], pq_next := 1, pq_waiting := 2\<rparr>) = Inr q' \<and>
    pq q' = [] \<and> take 1 (mm_keys (psq q')) = [20]"
proof -
  let ?q = "new_PrimaryQueue\<lparr>psq := [(0, 20, \<lparr>pe_wfiid = 7, pe_prio = 500, pe_pi = ParentInfo\<rparr>)],
         psmap := [7 \<mapsto> 0], pq_next := 1, pq_waiting := 2\<rparr>"
  obtain q' where q': "primary_add 8 500 ParentInfo (Some 30) 10 True ?q = Inr q'" "pq_cond q' = pq_cond ?q"
    by (simp add: primary_add_def addToScheduled_def new_PrimaryQueue_def)
  from primary_add_wakes[OF q'(1) _ _ _ q'(2)] have "pq q' = [] \<and> take 1 (mm_keys (psq q')) = [20]"
    by (simp add: new_PrimaryQueue_def)
  with q'(1) show ?thesis by blast
qed

text \<open>
  C11.  Delivery in time: one round of taking an order never delivers a scheduled order
  before its trigger time, and leaves no order in the schedule whose time has come.
\<close>

theorem orders_delivered_in_time:
  assumes "pq_inv q" and "take_step checkEvent getEvent now q = Inr (r, q')"
  shows "(\<forall>h. r = Some h \<longrightarrow> (\<exists>e. h = primary_get_hash e \<and>
      (e \<in> set (os_ready (pq_abs q)) \<or> (\<exists>t\<le>now. (t, e) \<in> set (os_later (pq_abs q)))))) \<and>
    pq_inv q' \<and> (\<forall>x\<in>set (os_later (pq_abs q')). now < fst x)"
proof -
  have "\<exists>e. h = primary_get_hash e \<and>
      (e \<in> set (os_ready (pq_abs q)) \<or> (\<exists>t\<le>now. (t, e) \<in> set (os_later (pq_abs q))))" if "r = Some h" for h
    using pqb.take_not_early[OF assms(1)] assms(2) that by blast
  with pqb.take_leaves_later[OF assms] show ?thesis by blast
qed

theorem orders_delivered_in_time_witness:
  "\<exists>q'. take_step checkEvent getEvent 25 one_scheduled
      = Inr (Some [(''workflow_instanceid'', QInt 7)], q') \<and>
    (\<forall>x\<in>set (os_later (pq_abs q')). 25 < fst x)"
proof -
  obtain q' where q': "take_step checkEvent getEvent 25 one_scheduled
      = Inr (Some [(''workflow_instanceid'', QInt 7)], q')"
    by (simp add: one_scheduled_def take_step_def checkEvent_def activate_def addToPrimary_def getEvent_def
      prio_deque_def dq_push_def dq_forget_def new_PrimaryQueue_def primary_get_hash_def doHash_def
      ParentInfo_def)
  from orders_delivered_in_time[OF one_scheduled_laws(1) q'] q' show ?thesis by blast
qed

text \<open>
  C20.  Changing the priority: of a scheduled order the priority is replaced in place; a
  ready order to which the kept iterator is still valid moves behind the ready orders of its new
  priority; the result says if there is such an order.
\<close>

theorem primary_reprioritize_refines:
  assumes "pq_inv q" and "pmap q w \<noteq> None \<Longrightarrow> pq_live w q"
  shows "\<exists>q'. primary_reprioritize w prio now q = Inr (spec_event w (pq_abs q) \<noteq> None, q') \<and> pq_inv q' \<and>
    pq_abs q' = spec_reprioritize w prio (pq_abs q) \<and> pq_waiting q' = pq_waiting q"
  using primary_reprioritize_spec[OF assms] .

theorem primary_reprioritize_refines_witness:
  "(\<exists>q'. primary_reprioritize 7 100 10 one_scheduled = Inr (True, q') \<and> pq_inv q' \<and>
    pq_abs q' = \<lparr>os_ready = [], os_later = [(20, \<lparr>pe_wfiid = 7, pe_prio = 100, pe_pi = ParentInfo\<rparr>)]\<rparr>) \<and>
   (\<exists>q'. primary_reprioritize 7 100 10 two_ready = Inr (True, q') \<and> pq_inv q' \<and>
    pq_abs q' = \<lparr>os_ready = [\<lparr>pe_wfiid = 7, pe_prio = 100, pe_pi = ParentInfo\<rparr>,
      \<lparr>pe_wfiid = 8, pe_prio = 400, pe_pi = ParentInfo\<rparr>], os_later = []\<rparr>)"
  using primary_reprioritize_refines[OF one_scheduled_laws(1), of 7 100 10] one_scheduled_laws(3)
    primary_reprioritize_refines[OF two_ready_laws(1) two_ready_laws(2), of 100 10]
  unfolding one_scheduled_laws(2) two_ready_laws(3)
  by (auto simp: spec_event_def spec_reprioritize_def later_ids_def spec_remove_def
      stable_insert_def)

text \<open>
  C21.  Rescheduling takes the order out of the schedule or of the ready orders and adds
  it again with its priority and parent and the new time; this never fails while the kept iterator is
  valid.
\<close>

theorem resched_refines:
  assumes "pq_inv q" and "pmap q w \<noteq> None \<Longrightarrow> pq_live w q"
  shows "\<exists>q'. resched w scheduled now q = Inr (spec_event w (pq_abs q) \<noteq> None, q') \<and> pq_inv q' \<and>
    spec_resched w scheduled now (pq_abs q) = Inr (pq_abs q')"
  using resched_spec[OF assms] .

theorem resched_refines_witness:
  "\<exists>q'. resched 7 (Some 40) 10 one_scheduled = Inr (True, q') \<and> pq_inv q' \<and>
    \<lparr>os_ready = [], os_later = [(40, \<lparr>pe_wfiid = 7, pe_prio = 500, pe_pi = ParentInfo\<rparr>)]\<rparr> = pq_abs q'"
  using resched_refines[OF one_scheduled_laws(1), of 7 "Some 40" 10] one_scheduled_laws(3)
  unfolding one_scheduled_laws(2)
  by (auto simp: spec_event_def spec_resched_def spec_add_def spec_later_def later_ids_def
      ready_ids_def spec_remove_def)

text \<open>
  C37.  The iterators kept in the look-up map (pmap): when another order was queued behind a ready order of
  the same priority, that insertion has invalidated the iterator that the look-up map keeps for
  it, and changing the priority, rescheduling and removing it read through that iterator.
\<close>

theorem kept_iterator_invalid:
  assumes "pq_inv q" and "pq_ready q = xs @ e # ys" and "e' \<in> set ys" "pe_prio e' = pe_prio e"
  shows "primary_reprioritize (pe_wfiid e) prio now q = Inl Undefined_behaviour \<and>
    resched (pe_wfiid e) scheduled now q = Inl Undefined_behaviour \<and>
    primary_removeWorkflowOrder (pe_wfiid e) q = Inl Undefined_behaviour"
proof -
  have w: "pmap q (pe_wfiid e) \<noteq> None"
    using pq_inv_parts(4)[OF assms(1), of "pe_wfiid e"] assms(2) by auto
  note dead = dead_undefined[OF assms(1) w not_last_dead[OF assms]]
  from dead(1)[of prio now] dead(2)[of scheduled now] dead(3) show ?thesis
    by (simp add: resched_def)
qed

theorem kept_iterator_invalid_witness:
  "\<exists>q. rbind (pq_add \<lparr>pe_wfiid = 1, pe_prio = 500, pe_pi = ParentInfo\<rparr> None 10 new_PrimaryQueue)
      (pq_add \<lparr>pe_wfiid = 2, pe_prio = 500, pe_pi = ParentInfo\<rparr> None 10) = Inr q \<and>
    primary_reprioritize 1 100 10 q = Inl Undefined_behaviour"
proof -
  let ?e = "\<lparr>pe_wfiid = 1, pe_prio = 500, pe_pi = ParentInfo\<rparr>"
  let ?e2 = "\<lparr>pe_wfiid = 2, pe_prio = 500, pe_pi = ParentInfo\<rparr>"
  have e: "pe_wfiid ?e = 1" "pe_wfiid ?e2 = 2" by simp_all
  have abs: "pq_abs new_PrimaryQueue = \<lparr>os_ready = [], os_later = []\<rparr>"
    by (simp add: pq_abs_def pq_ready_def pq_items_def new_PrimaryQueue_def)
  from pqb.add_law[OF pq_inv_new, of ?e None 10] obtain q1 where q1: "pq_add ?e None 10 new_PrimaryQueue = Inr q1"
    "pq_inv q1" "pq_abs q1 = \<lparr>os_ready = [?e], os_later = []\<rparr>"
    by (auto simp: abs spec_add_def spec_ready_def ready_ids_def later_ids_def)
  from pqb.add_law[OF q1(2), of ?e2 None 10] obtain q where q: "pq_add ?e2 None 10 q1 = Inr q"
    "pq_inv q" "pq_abs q = \<lparr>os_ready = [?e, ?e2], os_later = []\<rparr>"
    by (auto simp: q1(3) spec_add_def spec_ready_def ready_ids_def later_ids_def stable_insert_def)
  from q(3) have "pq_ready q = [] @ ?e # [?e2]" by (simp add: pq_abs_def)
  from kept_iterator_invalid[OF q(2) this, of ?e2 100 10] q1(1) q(1) show ?thesis by simp
qed

text \<open>
  C36.  Removing a scheduled order: removeWorkflowOrder reports success, but only the entry
  of the look-up map is erased; once the trigger time has come, the removed order is delivered.
\<close>

theorem removed_order_delivered:
  assumes "w \<noteq> 0" "now < t" "t \<le> later"
  shows "\<exists>q q1 q2. primary_add w prio p (Some t) now True new_PrimaryQueue = Inr q \<and>
    primary_removeWorkflowOrder w q = Inr (True, q1) \<and>
    take_step checkEvent getEvent later q1 =
      Inr (Some (primary_get_hash \<lparr>pe_wfiid = w, pe_prio = prio, pe_pi = p\<rparr>), q2)"
  using assms
  by (simp add: primary_add_def addToScheduled_def primary_removeWorkflowOrder_def take_step_def
    checkEvent_def activate_def addToPrimary_def getEvent_def prio_deque_def dq_push_def dq_forget_def
    new_PrimaryQueue_def)

theorem removed_order_delivered_witness:
  "\<exists>q q1 q2. primary_add 7 500 ParentInfo (Some 20) 10 True new_PrimaryQueue = Inr q \<and>
    primary_removeWorkflowOrder 7 q = Inr (True, q1) \<and>
    take_step checkEvent getEvent 25 q1 = Inr (Some [(''workflow_instanceid'', QInt 7)], q2)"
  using removed_order_delivered[of 7 10 20 25 500 ParentInfo]
  by (simp add: primary_get_hash_def doHash_def ParentInfo_def)

end
