(* ===== verification/Primary_Conservation.thy ===== *)
theory Primary_Conservation
  imports Primary_Properties "HOL-Library.Multiset"
begin

text \<open>
  No workflow order is lost: any sequence of the operations of a \<^verbatim>\<open>PrimaryQueue\<close>, with a record of
  the orders that were submitted, delivered and cancelled since the start.
\<close>

section \<open>The orders of a schedule\<close>

definition spec_orders :: "order_spec \<Rightarrow> int multiset" where
  "spec_orders s = mset (map pe_wfiid (os_ready s)) + mset (map (\<lambda>x. pe_wfiid (snd x)) (os_later s))"

definition queued_orders :: "primary_queue \<Rightarrow> int multiset" where
  "queued_orders q = spec_orders (pq_abs q)"

lemma mset_map_stable_insert [simp]: "mset (map f (stable_insert g e xs)) = add_mset (f e) (mset (map f xs))"
proof -
  have "mset (map f xs) = mset (map f (takeWhile (\<lambda>x. g x \<le> g e) xs @ dropWhile (\<lambda>x. g x \<le> g e) xs))"
    by simp
  then show ?thesis by (simp add: stable_insert_def del: takeWhile_dropWhile_id)
qed

lemma spec_add_orders:
  assumes "spec_add e sched now s = Inr s'"
  shows "spec_orders s' = (if pe_wfiid e \<in># spec_orders s then spec_orders s
    else add_mset (pe_wfiid e) (spec_orders s))"
  using assms
  by (auto simp: spec_add_def spec_ready_def spec_later_def spec_orders_def ready_ids_def later_ids_def
      split: option.split_asm if_splits)

lemma spec_activate_orders [simp]: "spec_orders (spec_activate now s) = spec_orders s"
proof -
  have "mset (map pe_wfiid (foldl (\<lambda>xs x. stable_insert pe_prio (snd x) xs) r ys)) =
    mset (map pe_wfiid r) + mset (map (\<lambda>x. pe_wfiid (snd x)) ys)" for r and ys :: "(int \<times> primary_event) list"
    by (induction ys arbitrary: r) simp_all
  moreover have "mset (map (\<lambda>x. pe_wfiid (snd x)) (os_later s)) =
    mset (map (\<lambda>x. pe_wfiid (snd x)) (takeWhile (\<lambda>x. fst x \<le> now) (os_later s) @ dropWhile (\<lambda>x. fst x \<le> now) (os_later s)))"
    by simp
  ultimately show ?thesis by (simp add: spec_orders_def spec_activate_def del: takeWhile_dropWhile_id)
qed

lemma spec_remove_orders: "spec_orders (spec_remove w s) = filter_mset (\<lambda>v. v \<noteq> w) (spec_orders s)"
  by (simp add: spec_orders_def spec_remove_def filter_mset_image_mset flip: mset_filter mset_map)
    (simp add: filter_map comp_def)

text \<open>In a queue that satisfies the invariant an order occurs once.\<close>

lemma later_distinct:
  assumes inv: "pq_inv q"
  shows "distinct (map (\<lambda>x. pe_wfiid (snd (snd x))) (psq q))"
proof -
  have ids: "distinct (map fst (psq q))" using pq_inv_parts(2)[OF inv] by (simp add: mm_ok_def mm_ids_def)
  have "x = y" if x: "x \<in> set (psq q)" "y \<in> set (psq q)" "pe_wfiid (snd (snd x)) = pe_wfiid (snd (snd y))" for x y
  proof -
    have node: "psmap q (pe_wfiid (snd (snd z))) = Some (fst z)" if "z \<in> set (psq q)" for z
      using pq_inv_parts(8)[OF inv, of "pe_wfiid (snd (snd z))" "fst z"] that by (cases z) auto
    from node[OF x(1)] node[OF x(2)] x(3) have "fst x = fst y" by simp
    with ids x(1,2) show ?thesis by (auto simp: distinct_map inj_on_def)
  qed
  with ids show ?thesis by (auto simp: distinct_map inj_on_def)
qed

lemma orders_distinct:
  assumes inv: "pq_inv q"
  shows "distinct (map pe_wfiid (os_ready (pq_abs q)) @ map (\<lambda>x. pe_wfiid (snd x)) (os_later (pq_abs q)))"
proof -
  have "ready_ids (pq_abs q) \<inter> later_ids (pq_abs q) = {}"
    using ready_ids_abs[OF inv] later_ids_abs[OF inv] pq_inv_parts(9)[OF inv] by blast
  with pq_inv_parts(3)[OF inv] later_distinct[OF inv] show ?thesis
    by (simp add: pq_abs_def ready_ids_def later_ids_def comp_def image_image disjoint_iff)
qed

lemma queued_once: "pq_inv q \<Longrightarrow> count (queued_orders q) w \<le> 1"
  using orders_distinct[of q] unfolding distinct_count_atmost_1
  by (simp add: queued_orders_def spec_orders_def)

lemma once_removed_added:
  assumes "count M w = 1"
  shows "add_mset w (filter_mset (\<lambda>v. v \<noteq> w) M) = M"
proof (rule multiset_eqI)
  fix x
  show "count (add_mset w (filter_mset (\<lambda>v. v \<noteq> w) M)) x = count M x" using assms by (cases "x = w") simp_all
qed

lemma spec_event_orders: "spec_event w s \<noteq> None \<longleftrightarrow> w \<in># spec_orders s"
  by (auto simp: spec_event_def spec_orders_def find_None_iff)

lemma spec_event_id: "spec_event w s = Some e \<Longrightarrow> pe_wfiid e = w"
  by (auto simp: spec_event_def find_Some_iff)

lemma spec_event_once:
  assumes "\<And>v. count (spec_orders s) v \<le> 1" "spec_event w s = Some e"
  shows "count (spec_orders s) w = 1"
proof -
  have "w \<in># spec_orders s" using spec_event_orders[of w s] assms(2) by simp
  then have "count (spec_orders s) w > 0" by simp
  with assms(1)[of w] show ?thesis by linarith
qed

lemma spec_reprioritize_orders:
  assumes once: "\<And>v. count (spec_orders s) v \<le> 1"
  shows "spec_orders (spec_reprioritize w prio s) = spec_orders s"
proof (cases "w \<in> later_ids s")
  case True
  have "map (\<lambda>x. pe_wfiid (snd x)) (map (\<lambda>x. if pe_wfiid (snd x) = w then (fst x, (snd x)\<lparr>pe_prio := prio\<rparr>) else x) xs) =
    map (\<lambda>x. pe_wfiid (snd x)) xs" for xs :: "(int \<times> primary_event) list"
    by (induction xs) auto
  with True show ?thesis by (simp add: spec_reprioritize_def spec_orders_def del: map_map)
next
  case False
  show ?thesis
  proof (cases "spec_event w s")
    case None
    with False show ?thesis by (simp add: spec_reprioritize_def)
  next
    case (Some e)
    let ?s = "(spec_remove w s)\<lparr>os_ready := stable_insert pe_prio (e\<lparr>pe_prio := prio\<rparr>) (os_ready (spec_remove w s))\<rparr>"
    have "spec_orders ?s = add_mset w (spec_orders (spec_remove w s))"
      by (simp add: spec_orders_def spec_event_id[OF Some])
    with False Some once_removed_added[OF spec_event_once[OF once Some]] show ?thesis
      by (simp add: spec_reprioritize_def spec_remove_orders)
  qed
qed

lemma spec_resched_orders:
  assumes once: "\<And>v. count (spec_orders s) v \<le> 1" and r: "spec_resched w sched now s = Inr s'"
  shows "spec_orders s' = spec_orders s"
proof (cases "spec_event w s")
  case None
  with r show ?thesis by (simp add: spec_resched_def)
next
  case (Some e)
  with r have "spec_add e sched now (spec_remove w s) = Inr s'" by (simp add: spec_resched_def)
  from spec_add_orders[OF this] once_removed_added[OF spec_event_once[OF once Some]] show ?thesis
    by (simp add: spec_remove_orders spec_event_id[OF Some])
qed

section \<open>Operations with a record\<close>

record order_log =
  submitted_orders :: "int multiset"
  delivered_orders :: "int multiset"
  cancelled_orders :: "int multiset"

definition no_orders :: order_log where
  "no_orders = \<lparr>submitted_orders = {#}, delivered_orders = {#}, cancelled_orders = {#}\<rparr>"

definition order_wfiid :: "qhash \<Rightarrow> int \<Rightarrow> bool" where
  "order_wfiid h w \<longleftrightarrow> hash_get ''workflow_instanceid'' h = QInt w"

text \<open>
  One operation of some thread.  An order that is queued already is not submitted again.  Removing an order
  that is scheduled (\<open>withdraw\<close>) reports success but leaves the order in the schedule, as
  \<^theory_text>\<open>removed_order_delivered\<close> shows; it is not cancelled.  Such an order is in no
  look-up map, and what is left out is adding it once more while it is in the schedule.
\<close>

inductive order_logged :: "primary_queue \<Rightarrow> order_log \<Rightarrow> bool" where
  start: "order_logged new_PrimaryQueue no_orders"
| add: "order_logged q l \<Longrightarrow> w \<noteq> 0 \<Longrightarrow> \<not> w \<in># queued_orders q \<Longrightarrow>
    primary_add w prio p sched now sig q = Inr q' \<Longrightarrow>
    order_logged q' (l\<lparr>submitted_orders := add_mset w (submitted_orders l)\<rparr>)"
| add_again: "order_logged q l \<Longrightarrow> w \<noteq> 0 \<Longrightarrow> psmap q w \<noteq> None \<or> pmap q w \<noteq> None \<Longrightarrow>
    primary_add w prio p sched now sig q = Inr q' \<Longrightarrow> order_logged q' l"
| deliver: "order_logged q l \<Longrightarrow> checkEvent now q = Inr (True, q1) \<Longrightarrow> getEvent q1 = Inr (h, q') \<Longrightarrow>
    order_wfiid h w \<Longrightarrow> order_logged q' (l\<lparr>delivered_orders := add_mset w (delivered_orders l)\<rparr>)"
| sleep: "order_logged q l \<Longrightarrow> checkEvent now q = Inr (False, q1) \<Longrightarrow>
    primary_wait_begin now q1 = Inr (t, q') \<Longrightarrow> order_logged q' l"
| wake: "order_logged q l \<Longrightarrow> order_logged (primary_wait_end q) l"
| wakeup: "order_logged q l \<Longrightarrow> order_logged (primary_wakeup q) l"
| reprioritize: "order_logged q l \<Longrightarrow> primary_reprioritize w prio now q = Inr (b, q') \<Longrightarrow> order_logged q' l"
| resched: "order_logged q l \<Longrightarrow> resched w sched now q = Inr (b, q') \<Longrightarrow> order_logged q' l"
| withdraw: "order_logged q l \<Longrightarrow> psmap q w \<noteq> None \<Longrightarrow> primary_removeWorkflowOrder w q = Inr (b, q') \<Longrightarrow>
    order_logged q' l"
| cancel: "order_logged q l \<Longrightarrow> psmap q w = None \<Longrightarrow> primary_removeWorkflowOrder w q = Inr (True, q') \<Longrightarrow>
    order_logged q' (l\<lparr>cancelled_orders := add_mset w (cancelled_orders l)\<rparr>)"
| not_found: "order_logged q l \<Longrightarrow> psmap q w = None \<Longrightarrow> primary_removeWorkflowOrder w q = Inr (False, q') \<Longrightarrow>
    order_logged q' l"

definition orders_balance :: "primary_queue \<Rightarrow> order_log \<Rightarrow> bool" where
  "orders_balance q l \<longleftrightarrow> pq_inv q \<and> submitted_orders l = delivered_orders l + cancelled_orders l + queued_orders q"

lemma queued_orders_new: "queued_orders new_PrimaryQueue = {#}"
  by (simp add: queued_orders_def spec_orders_def pq_abs_def pq_ready_def pq_items_def new_PrimaryQueue_def)

lemma hash_order: "order_wfiid (primary_get_hash e) w \<longleftrightarrow> w = pe_wfiid e"
  by (auto simp: order_wfiid_def primary_get_hash_def doHash_other_keys)

lemma live_if_changed:
  assumes inv: "pq_inv q" and w: "pmap q w \<noteq> None"
  shows "primary_reprioritize w prio now q = Inr r \<Longrightarrow> pq_live w q" "resched w sched now q = Inr r' \<Longrightarrow> pq_live w q"
    "primary_removeWorkflowOrder w q = Inr r'' \<Longrightarrow> pq_live w q"
  using dead_undefined(1)[OF inv w, of prio now] dead_undefined(2)[OF inv w, of sched now] dead_undefined(3)[OF inv w]
  by (auto simp: resched_def intro: ccontr)

lemma add_balance:
  assumes inv: "pq_inv q" and w: "w \<noteq> 0" and r: "primary_add w prio p sched now sig q = Inr q'"
  shows "pq_inv q' \<and> queued_orders q' = (if w \<in># queued_orders q then queued_orders q else add_mset w (queued_orders q))"
proof -
  let ?e = "\<lparr>pe_wfiid = w, pe_prio = prio, pe_pi = p\<rparr>"
  from primary_add_spec[OF inv w, of prio p sched now sig] r obtain s where
    s: "spec_add ?e sched now (pq_abs q) = Inr s" "pq_inv q'" "pq_abs q' = s"
    by (cases "spec_add ?e sched now (pq_abs q)") auto
  from spec_add_orders[OF s(1)] s(2,3) show ?thesis by (simp add: queued_orders_def)
qed

lemma deliver_balance:
  assumes inv: "pq_inv q" and c: "checkEvent now q = Inr (True, q1)" and g: "getEvent q1 = Inr (h, q')"
    and h: "order_wfiid h w"
  shows "pq_inv q' \<and> queued_orders q = add_mset w (queued_orders q')"
proof -
  from pqb.chk_law[OF inv, of now] c have q1: "pq_inv q1" "os_ready (pq_abs q1) \<noteq> []"
    "pq_abs q1 = spec_activate now (pq_abs q)" by auto
  then obtain e es where e: "os_ready (pq_abs q1) = e # es" by (cases "os_ready (pq_abs q1)") auto
  from pqb.get_law[OF q1(1) e] g have q': "h = primary_get_hash e" "pq_inv q'" "pq_abs q' = (pq_abs q1)\<lparr>os_ready := es\<rparr>"
    by auto
  have "queued_orders q = spec_orders (pq_abs q1)" by (simp add: queued_orders_def q1(3))
  also have "\<dots> = add_mset (pe_wfiid e) (queued_orders q')" by (simp add: queued_orders_def q'(3) spec_orders_def e)
  finally show ?thesis using q'(2) h hash_order[of e w] by (simp add: q'(1))
qed

lemma sleep_balance:
  assumes inv: "pq_inv q" and c: "checkEvent now q = Inr (False, q1)" and s: "primary_wait_begin now q1 = Inr (t, q')"
  shows "pq_inv q' \<and> queued_orders q' = queued_orders q"
proof -
  from pqb.chk_law[OF inv, of now] c have q1: "pq_inv q1" "pq_abs q1 = spec_activate now (pq_abs q)" by auto
  from s have "q' = q1\<lparr>pq_waiting := pq_waiting q1 + 1\<rparr>"
    by (auto simp: primary_wait_begin_def Let_def split: list.split_asm)
  with q1 show ?thesis by (simp add: queued_orders_def pq_abs_def pq_ready_def pq_items_def pq_inv_def)
qed

lemma reprioritize_balance:
  assumes inv: "pq_inv q" and r: "primary_reprioritize w prio now q = Inr (b, q')"
  shows "pq_inv q' \<and> queued_orders q' = queued_orders q"
proof -
  from primary_reprioritize_spec[OF inv live_if_changed(1)[OF inv _ r], of prio now] r
  have "pq_inv q'" "pq_abs q' = spec_reprioritize w prio (pq_abs q)" by auto
  with spec_reprioritize_orders[OF queued_once[OF inv, unfolded queued_orders_def]] show ?thesis
    by (simp add: queued_orders_def)
qed

lemma resched_balance:
  assumes inv: "pq_inv q" and r: "resched w sched now q = Inr (b, q')"
  shows "pq_inv q' \<and> queued_orders q' = queued_orders q"
proof -
  from resched_spec[OF inv live_if_changed(2)[OF inv _ r], of sched now] r
  have q': "pq_inv q'" "spec_resched w sched now (pq_abs q) = Inr (pq_abs q')" by auto
  with spec_resched_orders[OF queued_once[OF inv, unfolded queued_orders_def] q'(2)] show ?thesis
    by (simp add: queued_orders_def)
qed

lemma cancel_balance:
  assumes inv: "pq_inv q" and s: "psmap q w = None" and r: "primary_removeWorkflowOrder w q = Inr (b, q')"
  shows "pq_inv q' \<and> queued_orders q = (if b then add_mset w (queued_orders q') else queued_orders q')"
proof -
  from primary_remove_spec[OF inv live_if_changed(3)[OF inv _ r] s] r
  have q': "pq_inv q'" "b \<longleftrightarrow> pmap q w \<noteq> None" "pq_abs q' = spec_remove w (pq_abs q)" by auto
  have queued: "b \<longleftrightarrow> w \<in># queued_orders q"
    using ready_ids_abs[OF inv, of w] later_ids_abs[OF inv, of w] q'(2) s
    by (auto simp: queued_orders_def spec_orders_def ready_ids_def later_ids_def)
  have rest: "queued_orders q' = filter_mset (\<lambda>v. v \<noteq> w) (queued_orders q)"
    by (simp add: queued_orders_def q'(3) spec_remove_orders)
  show ?thesis
  proof (cases b)
    case True
    with queued have "count (queued_orders q) w > 0" by simp
    with queued_once[OF inv, of w] have "count (queued_orders q) w = 1" by linarith
    from once_removed_added[OF this] True q'(1) show ?thesis by (simp add: rest)
  next
    case False
    with queued have "queued_orders q' = queued_orders q"
      unfolding rest by (intro multiset_eqI) (auto simp: not_in_iff)
    with False q'(1) show ?thesis by simp
  qed
qed

lemma wake_balance: "pq_inv q \<Longrightarrow> pq_inv (primary_wait_end q) \<and> queued_orders (primary_wait_end q) = queued_orders q"
  by (simp add: queued_orders_def pq_abs_def pq_ready_def pq_items_def pq_inv_def primary_wait_end_def)

section \<open>Orders that are in no look-up map\<close>

text \<open>
  \<open>shadow q r\<close>: \<open>r\<close> is \<open>q\<close> with every scheduled order in the look-up map, as if none had been
  removed.  Every operation on \<open>q\<close> does to \<open>r\<close> what the same operation does, or nothing.
\<close>

definition shadow :: "primary_queue \<Rightarrow> primary_queue \<Rightarrow> bool" where
  "shadow q r \<longleftrightarrow> q = r\<lparr>psmap := psmap q\<rparr> \<and> psmap q \<subseteq>\<^sub>m psmap r"

lemma shadowI: "m \<subseteq>\<^sub>m psmap r \<Longrightarrow> shadow (r\<lparr>psmap := m\<rparr>) r"
  by (simp add: shadow_def)

lemma shadowE:
  assumes "shadow q r"
  obtains m where "q = r\<lparr>psmap := m\<rparr>" "m \<subseteq>\<^sub>m psmap r"
  using assms unfolding shadow_def by blast

lemma shadow_refl: "shadow q q"
  by (simp add: shadow_def)

lemma shadow_queued: "shadow q r \<Longrightarrow> queued_orders q = queued_orders r"
  by (erule shadowE) (simp add: queued_orders_def pq_abs_def pq_ready_def pq_items_def)

lemma shadow_pmap: "shadow q r \<Longrightarrow> pmap q = pmap r"
  by (erule shadowE) simp

lemma map_le_erase: "m \<subseteq>\<^sub>m n \<Longrightarrow> m(k := None) \<subseteq>\<^sub>m n(k := None)"
  by (auto simp: map_le_def dom_def)

lemma map_le_put: "m \<subseteq>\<^sub>m n \<Longrightarrow> m(k \<mapsto> v) \<subseteq>\<^sub>m n(k \<mapsto> v)"
  by (auto simp: map_le_def dom_def)

lemma map_le_without: "m \<subseteq>\<^sub>m n \<Longrightarrow> m(k := None) \<subseteq>\<^sub>m n"
  by (auto simp: map_le_def dom_def)

lemma map_le_same: "m \<subseteq>\<^sub>m n \<Longrightarrow> m k = Some v \<Longrightarrow> n k = Some v"
  by (auto simp: map_le_def dom_def)

lemma shadow_to_primary:
  assumes "addToPrimary e (r\<lparr>psmap := m\<rparr>) = Inr q'" "m \<subseteq>\<^sub>m psmap r" "m (pe_wfiid e) = psmap r (pe_wfiid e)"
  shows "\<exists>r'. addToPrimary e r = Inr r' \<and> shadow q' r'"
  using assms by (auto simp: addToPrimary_def Let_def prio_deque_def shadow_def split: if_splits)

lemma shadow_to_scheduled:
  assumes "addToScheduled t e (r\<lparr>psmap := m\<rparr>) = Inr (b, q')" "m \<subseteq>\<^sub>m psmap r"
    "m (pe_wfiid e) = psmap r (pe_wfiid e)"
  shows "\<exists>r'. addToScheduled t e r = Inr (b, r') \<and> shadow q' r'"
  using assms by (auto simp: addToScheduled_def Let_def shadow_def intro: map_le_put split: if_splits)

lemma shadow_notify:
  assumes "shadow q r"
  shows "shadow (pq_broadcast q) (pq_broadcast r)" "shadow (pq_signal q) (pq_signal r)"
    "shadow (primary_wakeup q) (primary_wakeup r)" "shadow (primary_wait_end q) (primary_wait_end r)"
    "pq_waiting q = pq_waiting r"
proof -
  from assms obtain m where m: "q = r\<lparr>psmap := m\<rparr>" "m \<subseteq>\<^sub>m psmap r" by (rule shadowE)
  then show "shadow (pq_broadcast q) (pq_broadcast r)" "shadow (pq_signal q) (pq_signal r)"
    "shadow (primary_wakeup q) (primary_wakeup r)" "shadow (primary_wait_end q) (primary_wait_end r)"
    "pq_waiting q = pq_waiting r"
    by (simp_all add: pq_broadcast_def pq_signal_def primary_wakeup_def primary_wait_end_def shadow_def)
qed

lemma swap_maps: "r\<lparr>psmap := m, pmap := n\<rparr> = r\<lparr>pmap := n, psmap := m\<rparr>"
  by simp

lemma shadow_add:
  assumes sh: "shadow q r" and w: "psmap q w = psmap r w" and r: "primary_add w prio p sched now sig q = Inr q'"
  shows "\<exists>r'. primary_add w prio p sched now sig r = Inr r' \<and> shadow q' r'"
proof -
  from sh obtain m where m: "q = r\<lparr>psmap := m\<rparr>" "m \<subseteq>\<^sub>m psmap r" by (rule shadowE)
  let ?e = "\<lparr>pe_wfiid = w, pe_prio = prio, pe_pi = p\<rparr>"
  have id: "m (pe_wfiid ?e) = psmap r (pe_wfiid ?e)" using w m(1) by simp
  show ?thesis
  proof (cases "\<exists>t. sched = Some t \<and> t > now")
    case True
    then obtain t where t: "sched = Some t" "t > now" by blast
    with r obtain b q1 where q1: "w \<noteq> 0" "addToScheduled t ?e (r\<lparr>psmap := m\<rparr>) = Inr (b, q1)"
      "q' = (if b \<and> sig \<and> pq_waiting q1 \<noteq> 0 then pq_broadcast q1 else q1)"
      by (auto simp: primary_add_def m(1))
    from shadow_to_scheduled[OF q1(2) m(2) id] obtain r1 where r1: "addToScheduled t ?e r = Inr (b, r1)"
      "shadow q1 r1" by blast
    from shadow_notify[OF r1(2)] r1 t q1 show ?thesis by (simp add: primary_add_def)
  next
    case False
    then have t: "(case sched of None \<Rightarrow> None | Some t \<Rightarrow> if t > now then Some t else None) = None"
      by (cases sched) auto
    with r obtain q1 where q1: "w \<noteq> 0" "addToPrimary ?e (r\<lparr>psmap := m\<rparr>) = Inr q1"
      "q' = (if sig \<and> pq_waiting q1 \<noteq> 0 then pq_signal q1 else q1)"
      unfolding primary_add_def Let_def t by (auto simp: m(1))
    from shadow_to_primary[OF q1(2) m(2) id] obtain r1 where r1: "addToPrimary ?e r = Inr r1" "shadow q1 r1" by blast
    have "primary_add w prio p sched now sig r = Inr (if sig \<and> pq_waiting r1 \<noteq> 0 then pq_signal r1 else r1)"
      unfolding primary_add_def Let_def t using r1(1) q1(1) by simp
    with shadow_notify[OF r1(2)] r1(2) q1(3) show ?thesis by simp
  qed
qed

lemma shadow_activate:
  assumes "activate_from now xs (r\<lparr>psmap := m\<rparr>) = Inr q'" "m \<subseteq>\<^sub>m psmap r"
  shows "\<exists>r'. activate_from now xs r = Inr r' \<and> shadow q' r'"
  using assms
proof (induction xs arbitrary: r m)
  case Nil
  then show ?case by (auto simp: shadow_def)
next
  case (Cons x xs)
  show ?case
  proof (cases "fst (snd x) > now")
    case True
    with Cons.prems show ?thesis by (auto simp: shadow_def)
  next
    case False
    let ?w = "pe_wfiid (snd (snd x))"
    let ?r = "r\<lparr>psmap := (psmap r)(?w := None)\<rparr>"
    from False Cons.prems(1) obtain q1 where
      q1: "addToPrimary (snd (snd x)) (?r\<lparr>psmap := m(?w := None)\<rparr>) = Inr q1" "activate_from now xs q1 = Inr q'" by auto
    from shadow_to_primary[OF q1(1)] map_le_erase[OF Cons.prems(2), of ?w] obtain r1 where
      r1: "addToPrimary (snd (snd x)) ?r = Inr r1" "shadow q1 r1" by auto
    from r1(2) obtain m1 where "q1 = r1\<lparr>psmap := m1\<rparr>" "m1 \<subseteq>\<^sub>m psmap r1" by (rule shadowE)
    with Cons.IH q1(2) r1(1) False show ?thesis by auto
  qed
qed

lemma shadow_check:
  assumes "shadow q r" "checkEvent now q = Inr (b, q')"
  shows "\<exists>r'. checkEvent now r = Inr (b, r') \<and> shadow q' r'"
proof -
  from assms(1) obtain m where m: "q = r\<lparr>psmap := m\<rparr>" "m \<subseteq>\<^sub>m psmap r" by (rule shadowE)
  from assms(2) have q': "activate_from now (psq r) (r\<lparr>psmap := m\<rparr>) = Inr q'" "b \<longleftrightarrow> pq q' \<noteq> []"
    by (auto simp: checkEvent_def activate_def m(1))
  from shadow_activate[OF q'(1) m(2)] obtain r' where "activate_from now (psq r) r = Inr r'" "shadow q' r'" by blast
  with q'(2) show ?thesis by (auto simp: checkEvent_def activate_def elim!: shadowE)
qed

lemma shadow_get:
  assumes "shadow q r" "getEvent q = Inr (h, q')"
  shows "\<exists>r'. getEvent r = Inr (h, r') \<and> shadow q' r'"
  by (rule shadowE[OF assms(1)]) (use assms(2) in \<open>auto simp: getEvent_def shadow_def split: list.splits prod.splits\<close>)

lemma shadow_wait:
  assumes "shadow q r" "primary_wait_begin now q = Inr (t, q')"
  shows "\<exists>r'. primary_wait_begin now r = Inr (t, r') \<and> shadow q' r'"
  by (rule shadowE[OF assms(1)]) (use assms(2) in \<open>auto simp: primary_wait_begin_def Let_def shadow_def split: list.splits\<close>)

lemma shadow_erase:
  assumes "erase_at prio h (r\<lparr>psmap := m\<rparr>) = Inr q'"
  shows "\<exists>r'. erase_at prio h r = Inr r' \<and> q' = r'\<lparr>psmap := m\<rparr> \<and> psmap r' = psmap r"
  using assms by (auto simp: erase_at_def Let_def prio_deque_def)

lemma pq_at_shadow [simp]: "pq_at h (r\<lparr>psmap := m\<rparr>) = pq_at h r"
  by (simp add: pq_at_def)

lemma shadow_reprioritize:
  assumes sh: "shadow q r" and inv: "pq_inv r" and r: "primary_reprioritize w prio now q = Inr (b, q')"
  shows "shadow q' r \<or> (\<exists>r'. primary_reprioritize w prio now r = Inr (b, r') \<and> shadow q' r')"
proof -
  from sh obtain m where m: "q = r\<lparr>psmap := m\<rparr>" "m \<subseteq>\<^sub>m psmap r" by (rule shadowE)
  show ?thesis
  proof (cases "m w")
    case (Some n)
    with map_le_same[OF m(2) Some] r m show ?thesis by (auto simp: primary_reprioritize_def shadow_def)
  next
    case None
    show ?thesis
    proof (cases "pmap r w")
      case none: None
      with None r m show ?thesis by (auto simp: primary_reprioritize_def intro: shadowI)
    next
      case (Some h)
      then have n: "psmap r w = None" using pq_inv_parts(9)[OF inv, of w] by auto
      from Some None r m obtain e q1 q2 where e: "pq_at h r = Some e"
        "erase_at (pe_prio e) h (r\<lparr>psmap := m, pmap := (pmap r)(w := None)\<rparr>) = Inr q1"
        "primary_add w prio (pe_pi e) None now True q1 = Inr q2" "q' = q2" "b"
        by (cases "pq_at h r") (auto simp: primary_reprioritize_def removeIntern_def)
      from e(2) have "erase_at (pe_prio e) h ((r\<lparr>pmap := (pmap r)(w := None)\<rparr>)\<lparr>psmap := m\<rparr>) = Inr q1"
        unfolding swap_maps .
      from shadow_erase[OF this] obtain r1 where r1: "erase_at (pe_prio e) h (r\<lparr>pmap := (pmap r)(w := None)\<rparr>) = Inr r1"
        "q1 = r1\<lparr>psmap := m\<rparr>" "psmap r1 = psmap r" by auto
      have "shadow q1 r1" "psmap q1 w = psmap r1 w" using r1(2,3) m(2) n None by (auto intro: shadowI)
      from shadow_add[OF this e(3)] r1(1) e(1,4,5) n Some show ?thesis
        by (auto simp: primary_reprioritize_def removeIntern_def)
    qed
  qed
qed

lemma shadow_resched:
  assumes sh: "shadow q r" and inv: "pq_inv r" and r: "resched w sched now q = Inr (b, q')"
  shows "shadow q' r \<or> (\<exists>r'. resched w sched now r = Inr (b, r') \<and> shadow q' r')"
proof -
  from sh obtain m where m: "q = r\<lparr>psmap := m\<rparr>" "m \<subseteq>\<^sub>m psmap r" by (rule shadowE)
  from r obtain q3 where q3: "reschedIntern w sched now q = Inr (b, q3)" "q' = (if b then primary_wakeup q3 else q3)"
    by (auto simp: resched_def)
  have "shadow q3 r \<and> \<not> b \<or> (\<exists>r'. reschedIntern w sched now r = Inr (b, r') \<and> shadow q3 r')"
  proof (cases "m w")
    case (Some n)
    note n = map_le_same[OF m(2) Some]
    with Some q3(1) m obtain x where x: "mm_find n (psq r) = Some x" "b"
      "primary_add w (pe_prio (snd x)) (pe_pi (snd x)) sched now True
        (r\<lparr>psmap := m(w := None), psq := mm_erase n (psq r)\<rparr>) = Inr q3"
      by (cases "mm_find n (psq r)") (auto simp: reschedIntern_def)
    let ?r = "r\<lparr>psmap := (psmap r)(w := None), psq := mm_erase n (psq r)\<rparr>"
    have "shadow (r\<lparr>psmap := m(w := None), psq := mm_erase n (psq r)\<rparr>) ?r"
      using map_le_erase[OF m(2), of w] by (simp add: shadow_def)
    from shadow_add[OF this _ x(3)] x n show ?thesis by (auto simp: reschedIntern_def)
  next
    case None
    show ?thesis
    proof (cases "pmap r w")
      case none: None
      with None q3(1) m show ?thesis by (auto simp: reschedIntern_def intro: shadowI)
    next
      case (Some h)
      then have n: "psmap r w = None" using pq_inv_parts(9)[OF inv, of w] by auto
      from Some None q3(1) m obtain e q1 where e: "pq_at h r = Some e"
        "erase_at (pe_prio e) h (r\<lparr>psmap := m, pmap := (pmap r)(w := None)\<rparr>) = Inr q1"
        "primary_add w (pe_prio e) (pe_pi e) sched now True q1 = Inr q3" "b"
        by (cases "pq_at h r") (auto simp: reschedIntern_def)
      from e(2) have "erase_at (pe_prio e) h ((r\<lparr>pmap := (pmap r)(w := None)\<rparr>)\<lparr>psmap := m\<rparr>) = Inr q1"
        unfolding swap_maps .
      from shadow_erase[OF this] obtain r1 where r1: "erase_at (pe_prio e) h (r\<lparr>pmap := (pmap r)(w := None)\<rparr>) = Inr r1"
        "q1 = r1\<lparr>psmap := m\<rparr>" "psmap r1 = psmap r" by auto
      have "shadow q1 r1" "psmap q1 w = psmap r1 w" using r1(2,3) m(2) n None by (auto intro: shadowI)
      from shadow_add[OF this e(3)] r1(1) e(1,4) n Some show ?thesis by (auto simp: reschedIntern_def)
    qed
  qed
  then show ?thesis using q3(2) shadow_notify(3) by (auto simp: resched_def)
qed

text \<open>Removing an order that is not scheduled in \<open>q\<close>: it is ready in both, or removed before and not found.\<close>

lemma shadow_remove:
  assumes sh: "shadow q r" and inv: "pq_inv r" and n: "psmap q w = None"
    and r: "primary_removeWorkflowOrder w q = Inr (b, q')"
  shows "\<not> b \<and> shadow q' r \<or> psmap r w = None \<and> (\<exists>r'. primary_removeWorkflowOrder w r = Inr (b, r') \<and> shadow q' r')"
proof -
  from sh obtain m where m: "q = r\<lparr>psmap := m\<rparr>" "m \<subseteq>\<^sub>m psmap r" by (rule shadowE)
  show ?thesis
  proof (cases "pmap r w")
    case None
    with n r m show ?thesis by (auto simp: primary_removeWorkflowOrder_def intro: shadowI)
  next
    case (Some h)
    then have s: "psmap r w = None" using pq_inv_parts(9)[OF inv, of w] by auto
    from Some n r m obtain e where e: "pq_at h r = Some e" "b"
      "erase_at (pe_prio e) h (r\<lparr>psmap := m, pmap := (pmap r)(w := None)\<rparr>) = Inr q'"
      by (cases "pq_at h r") (auto simp: primary_removeWorkflowOrder_def removeIntern_def)
    from e(3) have "erase_at (pe_prio e) h ((r\<lparr>pmap := (pmap r)(w := None)\<rparr>)\<lparr>psmap := m\<rparr>) = Inr q'"
      unfolding swap_maps .
    from shadow_erase[OF this] obtain r1 where "erase_at (pe_prio e) h (r\<lparr>pmap := (pmap r)(w := None)\<rparr>) = Inr r1"
      "q' = r1\<lparr>psmap := m\<rparr>" "psmap r1 = psmap r" by auto
    with e(1,2) s Some m(2) show ?thesis
      by (auto simp: primary_removeWorkflowOrder_def removeIntern_def intro: shadowI)
  qed
qed

definition shadow_balance :: "primary_queue \<Rightarrow> order_log \<Rightarrow> bool" where
  "shadow_balance q l \<longleftrightarrow> (\<exists>r. shadow q r \<and> orders_balance r l)"

lemma shadow_balanceI: "shadow q r \<Longrightarrow> pq_inv r \<Longrightarrow>
    submitted_orders l = delivered_orders l + cancelled_orders l + queued_orders r \<Longrightarrow> shadow_balance q l"
  unfolding shadow_balance_def orders_balance_def by blast

lemma order_logged_balance: "order_logged q l \<Longrightarrow> shadow_balance q l"
proof (induction rule: order_logged.induct)
  case start
  show ?case
    by (rule shadow_balanceI[OF shadow_refl pq_inv_new]) (simp add: no_orders_def queued_orders_new)
next
  case (add q l w prio p sched now sig q')
  then obtain r where r: "shadow q r" "orders_balance r l" unfolding shadow_balance_def by blast
  then have inv: "pq_inv r" and w: "w \<notin># queued_orders r" using add(3) shadow_queued[OF r(1)] by (auto simp: orders_balance_def)
  then have n: "psmap r w = None"
    using later_ids_abs[OF inv, of w] by (auto simp: queued_orders_def spec_orders_def later_ids_def)
  then have "psmap q w = psmap r w" using r(1) by (metis map_le_same not_None_eq shadow_def)
  from shadow_add[OF r(1) this add(4)] obtain r' where r': "primary_add w prio p sched now sig r = Inr r'" "shadow q' r'" by blast
  from add_balance[OF inv add(2) r'(1)] w r(2) show ?case
    by (intro shadow_balanceI[OF r'(2)]) (simp_all add: orders_balance_def)
next
  case (add_again q l w prio p sched now sig q')
  then obtain r where r: "shadow q r" "orders_balance r l" unfolding shadow_balance_def by blast
  then have inv: "pq_inv r" by (simp add: orders_balance_def)
  have "psmap q w = psmap r w"
  proof (cases "psmap q w")
    case None
    then have "pmap r w \<noteq> None" using add_again(3) shadow_pmap[OF r(1)] by simp
    then show ?thesis using None pq_inv_parts(9)[OF inv, of w] by auto
  next
    case (Some n)
    then show ?thesis using r(1) map_le_same unfolding shadow_def by metis
  qed
  from shadow_add[OF r(1) this add_again(4)] obtain r' where
    r': "primary_add w prio p sched now sig r = Inr r'" "shadow q' r'" by blast
  have "pmap r w \<noteq> None \<or> psmap r w \<noteq> None"
    using add_again(3) shadow_pmap[OF r(1)] \<open>psmap q w = psmap r w\<close> by auto
  then have "w \<in># queued_orders r"
    using ready_ids_abs[OF inv, of w] later_ids_abs[OF inv, of w]
    by (auto simp: queued_orders_def spec_orders_def ready_ids_def later_ids_def)
  with add_balance[OF inv add_again(2) r'(1)] r(2) show ?case
    by (intro shadow_balanceI[OF r'(2)]) (simp_all add: orders_balance_def)
next
  case (deliver q l now q1 h q' w)
  then obtain r where r: "shadow q r" "orders_balance r l" unfolding shadow_balance_def by blast
  from shadow_check[OF r(1) deliver(2)] obtain r1 where r1: "checkEvent now r = Inr (True, r1)" "shadow q1 r1" by blast
  from shadow_get[OF r1(2) deliver(3)] obtain r' where r': "getEvent r1 = Inr (h, r')" "shadow q' r'" by blast
  from deliver_balance[OF _ r1(1) r'(1) deliver(4)] r(2) show ?case
    by (intro shadow_balanceI[OF r'(2)]) (simp_all add: orders_balance_def)
next
  case (sleep q l now q1 t q')
  then obtain r where r: "shadow q r" "orders_balance r l" unfolding shadow_balance_def by blast
  from shadow_check[OF r(1) sleep(2)] obtain r1 where r1: "checkEvent now r = Inr (False, r1)" "shadow q1 r1" by blast
  from shadow_wait[OF r1(2) sleep(3)] obtain r' where r': "primary_wait_begin now r1 = Inr (t, r')" "shadow q' r'" by blast
  from sleep_balance[OF _ r1(1) r'(1)] r(2) show ?case
    by (intro shadow_balanceI[OF r'(2)]) (simp_all add: orders_balance_def)
next
  case (wake q l)
  then obtain r where r: "shadow q r" "orders_balance r l" unfolding shadow_balance_def by blast
  from wake_balance[of r] r(2) show ?case
    by (intro shadow_balanceI[OF shadow_notify(4)[OF r(1)]]) (simp_all add: orders_balance_def)
next
  case (wakeup q l)
  then obtain r where r: "shadow q r" "orders_balance r l" unfolding shadow_balance_def by blast
  then show ?case
    by (intro shadow_balanceI[OF shadow_notify(3)[OF r(1)]]) (simp_all add: orders_balance_def queued_orders_def)
next
  case (reprioritize q l w prio now b q')
  then obtain r where r: "shadow q r" "orders_balance r l" unfolding shadow_balance_def by blast
  then have inv: "pq_inv r" by (simp add: orders_balance_def)
  from shadow_reprioritize[OF r(1) inv reprioritize(2)] consider "shadow q' r"
    | r' where "primary_reprioritize w prio now r = Inr (b, r')" "shadow q' r'" by blast
  then show ?case
  proof cases
    case 1
    then show ?thesis using r(2) unfolding shadow_balance_def by blast
  next
    case 2
    from reprioritize_balance[OF inv 2(1)] r(2) show ?thesis
      by (intro shadow_balanceI[OF 2(2)]) (simp_all add: orders_balance_def)
  qed
next
  case (resched q l w sched now b q')
  then obtain r where r: "shadow q r" "orders_balance r l" unfolding shadow_balance_def by blast
  then have inv: "pq_inv r" by (simp add: orders_balance_def)
  from shadow_resched[OF r(1) inv resched(2)] consider "shadow q' r"
    | r' where "resched w sched now r = Inr (b, r')" "shadow q' r'" by blast
  then show ?case
  proof cases
    case 1
    then show ?thesis using r(2) unfolding shadow_balance_def by blast
  next
    case 2
    from resched_balance[OF inv 2(1)] r(2) show ?thesis
      by (intro shadow_balanceI[OF 2(2)]) (simp_all add: orders_balance_def)
  qed
next
  case (withdraw q l w b q')
  then obtain r where r: "shadow q r" "orders_balance r l" unfolding shadow_balance_def by blast
  from withdraw(2,3) have "q' = q\<lparr>psmap := (psmap q)(w := None)\<rparr>" by (simp add: primary_removeWorkflowOrder_def)
  with r(1) have "shadow q' r" by (auto elim!: shadowE intro!: shadowI map_le_without)
  then show ?case using r(2) unfolding shadow_balance_def by blast
next
  case (cancel q l w q')
  then obtain r where r: "shadow q r" "orders_balance r l" unfolding shadow_balance_def by blast
  then have inv: "pq_inv r" by (simp add: orders_balance_def)
  from shadow_remove[OF r(1) inv cancel(2,3)] obtain r' where
    r': "psmap r w = None" "primary_removeWorkflowOrder w r = Inr (True, r')" "shadow q' r'" by blast
  from cancel_balance[OF inv r'(1,2)] r(2) show ?case
    by (intro shadow_balanceI[OF r'(3)]) (simp_all add: orders_balance_def)
next
  case (not_found q l w q')
  then obtain r where r: "shadow q r" "orders_balance r l" unfolding shadow_balance_def by blast
  then have inv: "pq_inv r" by (simp add: orders_balance_def)
  from shadow_remove[OF r(1) inv not_found(2,3)] consider "shadow q' r"
    | r' where "psmap r w = None" "primary_removeWorkflowOrder w r = Inr (False, r')" "shadow q' r'" by blast
  then show ?case
  proof cases
    case 1
    then show ?thesis using r(2) unfolding shadow_balance_def by blast
  next
    case 2
    from cancel_balance[OF inv 2(1,2)] r(2) show ?thesis
      by (intro shadow_balanceI[OF 2(3)]) (simp_all add: orders_balance_def)
  qed
qed

text \<open>
  C3.  No order is lost, none is made up and none is delivered twice: the orders submitted are those
  delivered, those cancelled while they were ready and those queued, and an order is queued at most once.  This
  holds after any sequence of operations of a primary queue in which no order is added again while it is in
  the schedule although it was removed: removing a scheduled order reports success but leaves the order there,
  and it is delivered like any other.
\<close>

theorem orders_conserved:
  assumes "order_logged q l"
  shows "submitted_orders l = delivered_orders l + cancelled_orders l + queued_orders q \<and>
    (\<forall>w. count (queued_orders q) w \<le> 1)"
proof -
  from order_logged_balance[OF assms] obtain r where r: "shadow q r" "orders_balance r l"
    unfolding shadow_balance_def by blast
  then show ?thesis using queued_once[of r] by (simp add: orders_balance_def shadow_queued[OF r(1)])
qed

text \<open>Without the condition an order can be delivered twice: it is scheduled, removed and scheduled again.\<close>

lemma readded_order_twice:
  "\<exists>q1 q2 q3 q4 q5. primary_add 7 500 ParentInfo (Some 20) 10 True new_PrimaryQueue = Inr q1 \<and>
     primary_removeWorkflowOrder 7 q1 = Inr (True, q2) \<and>
     primary_add 7 500 ParentInfo (Some 30) 10 True q2 = Inr q3 \<and>
     take_step checkEvent getEvent 25 q3 = Inr (Some [(''workflow_instanceid'', QInt 7)], q4) \<and>
     take_step checkEvent getEvent 35 q4 = Inr (Some [(''workflow_instanceid'', QInt 7)], q5)"
  by (simp add: primary_add_def addToScheduled_def primary_removeWorkflowOrder_def take_step_def
    checkEvent_def activate_def addToPrimary_def getEvent_def prio_deque_def dq_push_def dq_forget_def
    new_PrimaryQueue_def primary_get_hash_def doHash_def ParentInfo_def Let_def) (rule exI[of _ False], simp)

text \<open>Order 7 is submitted, and delivered when its trigger time has come.\<close>

theorem orders_conserved_witness:
  "\<exists>q l. order_logged q l \<and> submitted_orders l = {#7#} \<and> delivered_orders l = {#7#} \<and> queued_orders q = {#}"
proof -
  obtain q1 where q1: "primary_add 7 500 ParentInfo (Some 20) 10 True new_PrimaryQueue = Inr q1"
    "take_step checkEvent getEvent 25 q1 \<noteq> Inr (None, q1)"
    by (simp add: primary_add_def addToScheduled_def new_PrimaryQueue_def take_step_def checkEvent_def activate_def
      addToPrimary_def getEvent_def prio_deque_def dq_push_def dq_forget_def)
  obtain q2 q3 where q: "checkEvent 25 q1 = Inr (True, q2)"
    "getEvent q2 = Inr ([(''workflow_instanceid'', QInt 7)], q3)"
    using q1(1) by (auto simp: primary_add_def addToScheduled_def new_PrimaryQueue_def checkEvent_def activate_def
      addToPrimary_def getEvent_def prio_deque_def dq_push_def dq_forget_def primary_get_hash_def doHash_def ParentInfo_def)
  from queued_orders_new order_logged.add[OF order_logged.start _ _ q1(1)]
  have "order_logged q1 (no_orders\<lparr>submitted_orders := {#7#}\<rparr>)" by (simp add: no_orders_def)
  from order_logged.deliver[OF this q, of 7] have
    3: "order_logged q3 \<lparr>submitted_orders = {#7#}, delivered_orders = {#7#}, cancelled_orders = {#}\<rparr>"
    by (simp add: order_wfiid_def no_orders_def)
  from orders_conserved[OF 3] have "queued_orders q3 = {#}" by simp
  with 3 show ?thesis by (intro exI conjI) auto
qed

end
