(* ===== verification/Backend_Queues.thy ===== *)
theory Backend_Queues
  imports Parent_Info
begin

text \<open>
  The backend queues of \<^verbatim>\<open>exec/SegmentEventQueue.h\<close>: one queue per back end segment,
  of asynchronous events, of subworkflow events or of workflow synchronization events.

  \<^item> \<open>backend_entry\<close> is the class hierarchy below \<^verbatim>\<open>BackendQueueEntry\<close>;
    \<open>get_hash\<close> and \<open>entry_toString\<close> are its virtual methods.
  \<^item> \<open>backend_queue\<close> is the class \<^verbatim>\<open>BackendQueue\<close> (a map from priorities to
    multimaps keyed by the modification time), with its waiters and its condition variable;
    \<open>bq_next\<close> numbers its nodes.  The records \<open>event_queue\<close>, \<open>async_queue\<close> and
    \<open>sub_queue\<close> extend it, as the classes do, with the maps from workflow instances to
    nodes.
  \<^item> \<open>bq_indexed\<close> is the invariant of all three: the index holds exactly the nodes of
    the queue, at most one per key.  The locale \<open>backend_adder\<close> is what the clients of a queue
    rely on when they add to it; each of the three queues is an interpretation.
\<close>

section \<open>Entries\<close>

record async_entry =
  queuekey :: string
  async_data :: qval
  corrected :: bool

record backend_base =
  be_wfiid :: int
  be_prio :: int
  be_pi :: parent_info

datatype backend_entry =
    SubWorkflowQueueEntry backend_base "int list" char int
  | AsyncQueueEntry backend_base "(int, async_entry) omap"
  | EventQueueEntry backend_base "int list"

fun entry_base :: "backend_entry \<Rightarrow> backend_base" where
  "entry_base (SubWorkflowQueueEntry b _ _ _) = b"
| "entry_base (AsyncQueueEntry b _) = b"
| "entry_base (EventQueueEntry b _) = b"

abbreviation entry_wfiid :: "backend_entry \<Rightarrow> int" where
  "entry_wfiid e \<equiv> be_wfiid (entry_base e)"

definition get_hash_intern :: "backend_base \<Rightarrow> qhash" where
  "get_hash_intern b =
     hash_set ''workflow_instanceid'' (QInt (be_wfiid b)) (doHash (be_pi b) [])"

fun get_hash :: "backend_entry \<Rightarrow> qhash" where
  "get_hash (SubWorkflowQueueEntry b is st swfiid) =
     hash_set ''subworkflow_instanceid'' (QInt swfiid)
       (hash_set ''status'' (QString [st])
         (hash_set ''ind'' (QList (map QInt is)) (get_hash_intern b)))"
| "get_hash (AsyncQueueEntry b m) =
     hash_set ''corrected'' (QList (map (\<lambda>x. QBool (corrected (snd x))) m))
       (hash_set ''data'' (QList (map (\<lambda>x. async_data (snd x)) m))
         (hash_set ''queuekey'' (QList (map (\<lambda>x. QString (queuekey (snd x))) m))
           (hash_set ''ind'' (QList (map (\<lambda>x. QInt (fst x)) m)) (get_hash_intern b))))"
| "get_hash (EventQueueEntry b is) =
     hash_set ''ind'' (QList (map QInt is)) (get_hash_intern b)"

definition to_string_intern :: "backend_base \<Rightarrow> string" where
  "to_string_intern b = ''{wfiid: '' @ dec (be_wfiid b) @ '', ''"

definition async_toString :: "qore_api \<Rightarrow> async_entry \<Rightarrow> string" where
  "async_toString q a =
     ''corrected: '' @ dec (if corrected a then 1 else 0) @ '', queuekey: '' @ queuekey a
       @ (if async_data a \<noteq> QNothing then '', data: '' @ getAsString q (async_data a) else [])"

text \<open>\<^verbatim>\<open>swfiid\<close> is a 64-bit value printed with \<^verbatim>\<open>%d\<close>.\<close>

fun entry_toString :: "qore_api \<Rightarrow> backend_entry \<Rightarrow> string" where
  "entry_toString q (SubWorkflowQueueEntry b is st swfiid) =
     drop2 (to_string_intern b @ ''ind=['' @ concat (map (\<lambda>i. dec i @ '', '') is)) @ ''], ''
       @ ''status: '' @ [st] @ '', swfiid: '' @ dec (to_int32 swfiid) @ ''}''
       @ parent_toString (be_pi b)"
| "entry_toString q (AsyncQueueEntry b m) =
     drop2 (to_string_intern b
         @ concat (map (\<lambda>x. ''(ind: '' @ dec (fst x) @ '', '' @ async_toString q (snd x) @ ''), '') m))
       @ parent_toString (be_pi b) @ ''}''"
| "entry_toString q (EventQueueEntry b is) =
     drop2 (to_string_intern b @ ''ind=['' @ concat (map (\<lambda>i. dec i @ '', '') is)) @ '']''
       @ parent_toString (be_pi b) @ ''}''"

section \<open>Queues\<close>

record backend_queue =
  bq_map :: "(int, backend_entry nodes) omap"
  bq_next :: nat
  bq_waiting :: int
  bq_cond :: "notify list"

record event_queue = backend_queue +
  ev_wfmap :: "int \<Rightarrow> nat option"

record async_queue = backend_queue +
  as_wfmap :: "int \<Rightarrow> nat option"

record sub_queue = backend_queue +
  c_wfmap :: "int \<Rightarrow> nat option"
  e_wfmap :: "int \<Rightarrow> nat option"

definition new_EventQueue :: event_queue where
  "new_EventQueue = \<lparr>bq_map = [], bq_next = 0, bq_waiting = 0, bq_cond = [], ev_wfmap = Map.empty\<rparr>"

definition new_AsyncQueue :: async_queue where
  "new_AsyncQueue = \<lparr>bq_map = [], bq_next = 0, bq_waiting = 0, bq_cond = [], as_wfmap = Map.empty\<rparr>"

definition new_SubWorkflowQueue :: sub_queue where
  "new_SubWorkflowQueue = \<lparr>bq_map = [], bq_next = 0, bq_waiting = 0, bq_cond = [],
     c_wfmap = Map.empty, e_wfmap = Map.empty\<rparr>"

definition bq_wakeup :: "'a backend_queue_scheme \<Rightarrow> 'a backend_queue_scheme" where
  "bq_wakeup q = (if bq_waiting q \<noteq> 0 then q\<lparr>bq_cond := bq_cond q @ [Broadcast]\<rparr> else q)"

definition bq_signal :: "'a backend_queue_scheme \<Rightarrow> 'a backend_queue_scheme" where
  "bq_signal q = (if bq_waiting q \<noteq> 0 then q\<lparr>bq_cond := bq_cond q @ [Signal]\<rparr> else q)"

text \<open>\<^verbatim>\<open>BackendQueue::wait\<close>, before and after the wait on the condition variable.\<close>

definition bq_wait_begin :: "'a backend_queue_scheme \<Rightarrow> 'a backend_queue_scheme" where
  "bq_wait_begin q = q\<lparr>bq_waiting := bq_waiting q + 1\<rparr>"

definition bq_wait_end :: "'a backend_queue_scheme \<Rightarrow> 'a backend_queue_scheme" where
  "bq_wait_end q = q\<lparr>bq_waiting := bq_waiting q - 1\<rparr>"

definition bq_nodes :: "'a backend_queue_scheme \<Rightarrow> backend_entry nodes" where
  "bq_nodes q = concat (map snd (bq_map q))"

definition bq_entries :: "'a backend_queue_scheme \<Rightarrow> backend_entry list" where
  "bq_entries q = mm_vals (bq_nodes q)"

text \<open>\<^verbatim>\<open>(*this)[prio]\<close> and \<^verbatim>\<open>q.insert(value_type(mod, e))\<close>\<close>

definition prio_nodes :: "int \<Rightarrow> 'a backend_queue_scheme \<Rightarrow> backend_entry nodes" where
  "prio_nodes prio q = (case map_of (bq_map q) prio of None \<Rightarrow> [] | Some ns \<Rightarrow> ns)"

definition bq_insert :: "int \<Rightarrow> int \<Rightarrow> backend_entry \<Rightarrow> 'a backend_queue_scheme
    \<Rightarrow> 'a backend_queue_scheme" where
  "bq_insert prio t e q =
     q\<lparr>bq_map := om_put prio (mm_insert (bq_next q) t e (prio_nodes prio q)) (bq_map q),
       bq_next := Suc (bq_next q)\<rparr>"

definition bq_update :: "nat \<Rightarrow> (backend_entry \<Rightarrow> backend_entry) \<Rightarrow> 'a backend_queue_scheme
    \<Rightarrow> 'a backend_queue_scheme" where
  "bq_update n f q = q\<lparr>bq_map := map (\<lambda>x. (fst x, mm_update n f (snd x))) (bq_map q)\<rparr>"

definition add_event :: "int \<Rightarrow> int \<Rightarrow> int \<Rightarrow> int \<Rightarrow> parent_info \<Rightarrow> event_queue
    \<Rightarrow> event_queue result" where
  "add_event t wfiid ind prio p q =
     (case ev_wfmap q wfiid of
        Some n \<Rightarrow> rbind (deref (mm_find n (bq_nodes q))) (\<lambda>x.
          case snd x of
            EventQueueEntry b is \<Rightarrow>
              Inr (bq_update n (\<lambda>_. EventQueueEntry b (insort_insert ind is)) q)
          | _ \<Rightarrow> Inl Assertion_failed)
      | None \<Rightarrow> rbind (assert_that (wfiid \<noteq> 0)) (\<lambda>_.
          Inr (bq_signal ((bq_insert prio t
                 (EventQueueEntry \<lparr>be_wfiid = wfiid, be_prio = prio, be_pi = p\<rparr> [ind]) q)
               \<lparr>ev_wfmap := (ev_wfmap q)(wfiid \<mapsto> bq_next q)\<rparr>))))"

definition add_async_event :: "int \<Rightarrow> int \<Rightarrow> int \<Rightarrow> int \<Rightarrow> bool \<Rightarrow> parent_info \<Rightarrow> string
    \<Rightarrow> qval \<Rightarrow> async_queue \<Rightarrow> async_queue result" where
  "add_async_event t wfiid ind prio corr p qkey dat q =
     (let a = \<lparr>queuekey = qkey, async_data = dat, corrected = corr\<rparr> in
      case as_wfmap q wfiid of
        Some n \<Rightarrow> rbind (deref (mm_find n (bq_nodes q))) (\<lambda>x.
          case snd x of
            AsyncQueueEntry b m \<Rightarrow>
              (if map_of m ind \<noteq> None then Inr q
               else Inr (bq_update n (\<lambda>_. AsyncQueueEntry b (om_put ind a m)) q))
          | _ \<Rightarrow> Inl Assertion_failed)
      | None \<Rightarrow> rbind (assert_that (wfiid \<noteq> 0)) (\<lambda>_.
          Inr (bq_signal ((bq_insert prio t
                 (AsyncQueueEntry \<lparr>be_wfiid = wfiid, be_prio = prio, be_pi = p\<rparr> [(ind, a)]) q)
               \<lparr>as_wfmap := (as_wfmap q)(wfiid \<mapsto> bq_next q)\<rparr>))))"

definition sub_wfmap :: "char \<Rightarrow> sub_queue \<Rightarrow> int \<Rightarrow> nat option" where
  "sub_wfmap st q = (if st = CHR ''C'' then c_wfmap q else e_wfmap q)"

definition set_sub_wfmap :: "char \<Rightarrow> (int \<Rightarrow> nat option) \<Rightarrow> sub_queue \<Rightarrow> sub_queue" where
  "set_sub_wfmap st m q = (if st = CHR ''C'' then q\<lparr>c_wfmap := m\<rparr> else q\<lparr>e_wfmap := m\<rparr>)"

definition add_subworkflow_event :: "int \<Rightarrow> int \<Rightarrow> int \<Rightarrow> int \<Rightarrow> parent_info \<Rightarrow> char \<Rightarrow> int
    \<Rightarrow> sub_queue \<Rightarrow> sub_queue result" where
  "add_subworkflow_event t wfiid ind prio p st swfiid q =
     rbind (assert_that (st = CHR ''E'' \<or> st = CHR ''C'')) (\<lambda>_.
     case sub_wfmap st q wfiid of
        Some n \<Rightarrow> rbind (deref (mm_find n (bq_nodes q))) (\<lambda>x.
          case snd x of
            SubWorkflowQueueEntry b is st' sw \<Rightarrow>
              Inr (bq_update n (\<lambda>_. SubWorkflowQueueEntry b (insort_insert ind is) st' sw) q)
          | _ \<Rightarrow> Inl Assertion_failed)
      | None \<Rightarrow> rbind (assert_that (wfiid \<noteq> 0)) (\<lambda>_.
          Inr (bq_signal (set_sub_wfmap st ((sub_wfmap st q)(wfiid \<mapsto> bq_next q))
               (bq_insert prio t
                 (SubWorkflowQueueEntry \<lparr>be_wfiid = wfiid, be_prio = prio, be_pi = p\<rparr>
                    [ind] st swfiid) q)))))"

text \<open>
  The virtual \<^verbatim>\<open>merge\<close>: every node of the other queue is inserted here, the index is
  set to the new node, and the other queue is left empty.
\<close>

definition event_merge_node :: "int \<Rightarrow> event_queue \<Rightarrow> nat \<times> int \<times> backend_entry
    \<Rightarrow> event_queue" where
  "event_merge_node prio q x =
     (bq_insert prio (fst (snd x)) (snd (snd x)) q)
       \<lparr>ev_wfmap := (ev_wfmap q)(entry_wfiid (snd (snd x)) \<mapsto> bq_next q)\<rparr>"

definition async_merge_node :: "int \<Rightarrow> async_queue \<Rightarrow> nat \<times> int \<times> backend_entry
    \<Rightarrow> async_queue" where
  "async_merge_node prio q x =
     (bq_insert prio (fst (snd x)) (snd (snd x)) q)
       \<lparr>as_wfmap := (as_wfmap q)(entry_wfiid (snd (snd x)) \<mapsto> bq_next q)\<rparr>"

fun entry_status :: "backend_entry \<Rightarrow> char" where
  "entry_status (SubWorkflowQueueEntry _ _ st _) = st"
| "entry_status _ = CHR 0x00"

definition sub_merge_node :: "int \<Rightarrow> sub_queue \<Rightarrow> nat \<times> int \<times> backend_entry \<Rightarrow> sub_queue" where
  "sub_merge_node prio q x =
     (let e = snd (snd x) in
      set_sub_wfmap (entry_status e)
        ((sub_wfmap (entry_status e) q)(entry_wfiid e \<mapsto> bq_next q))
        (bq_insert prio (fst (snd x)) e q))"

definition merge_loop :: "(int \<Rightarrow> 'q \<Rightarrow> nat \<times> int \<times> backend_entry \<Rightarrow> 'q) \<Rightarrow> 'q
    \<Rightarrow> (int, backend_entry nodes) omap \<Rightarrow> 'q result" where
  "merge_loop one q m =
     rfold (\<lambda>q' x. rbind (assert_that (snd x \<noteq> []))
       (\<lambda>_. Inr (foldl (one (fst x)) q' (snd x)))) q m"

definition event_merge :: "event_queue \<Rightarrow> event_queue \<Rightarrow> (event_queue \<times> event_queue) result" where
  "event_merge q bq = rbind (merge_loop event_merge_node q (bq_map bq)) (\<lambda>q'.
     Inr (q', bq\<lparr>bq_map := [], ev_wfmap := Map.empty\<rparr>))"

definition async_merge :: "async_queue \<Rightarrow> async_queue \<Rightarrow> (async_queue \<times> async_queue) result" where
  "async_merge q bq = rbind (merge_loop async_merge_node q (bq_map bq)) (\<lambda>q'.
     Inr (q', bq\<lparr>bq_map := [], as_wfmap := Map.empty\<rparr>))"

definition sub_merge :: "sub_queue \<Rightarrow> sub_queue \<Rightarrow> (sub_queue \<times> sub_queue) result" where
  "sub_merge q bq = rbind (merge_loop sub_merge_node q (bq_map bq)) (\<lambda>q'.
     Inr (q', bq\<lparr>bq_map := [], c_wfmap := Map.empty, e_wfmap := Map.empty\<rparr>))"

text \<open>
  The search of \<^verbatim>\<open>get_backend_event_unlocked\<close>: the first entry, in priority order and
  then in time order, whose workflow is not being retried; its node is erased, and so is the
  queue of its priority when it was the last.
\<close>

fun take_ready :: "(int \<Rightarrow> bool) \<Rightarrow> (int, backend_entry nodes) omap
    \<Rightarrow> (backend_entry \<times> (int, backend_entry nodes) omap) option" where
  "take_ready in_retry [] = None"
| "take_ready in_retry (x # m) =
     (case find (\<lambda>n. \<not> in_retry (entry_wfiid (snd (snd n)))) (snd x) of
        Some n \<Rightarrow>
          (let ns = mm_erase (fst n) (snd x) in
           Some (snd (snd n), if ns = [] then m else (fst x, ns) # m))
      | None \<Rightarrow> map_option (\<lambda>r. (fst r, x # snd r)) (take_ready in_retry m))"

end
