(* ===== verification/Retry_Queue.thy ===== *)
theory Retry_Queue
  imports Parent_Info
begin

text \<open>
  The queues of workflow instances to be retried: \<^verbatim>\<open>RetryQueueEntry\<close> and
  \<^verbatim>\<open>RetryQueue\<close> of \<^verbatim>\<open>exec/SegmentEventQueue.h\<close> and their functions in
  \<^verbatim>\<open>exec/SegmentEventQueue.cpp\<close>.

  An entry is an object on the heap and the set of markers holds addresses of entries;
  \<open>re_addr\<close> is the address.  What \<^verbatim>\<open>new\<close> returns is an argument of \<open>retry_add\<close>, so
  that an address may be used again once its entry is deleted.  The queue is a multimap keyed
  by the time of the entry; \<open>rwmap\<close> maps a workflow instance to its node.
\<close>

section \<open>Entries\<close>

record retry_entry =
  re_addr :: nat
  re_wfiid :: int
  re_mod :: int
  re_pi :: parent_info

definition retry_get_hash :: "retry_entry \<Rightarrow> qhash" where
  "retry_get_hash e = doHash (re_pi e) (hash_set ''workflow_instanceid'' (QInt (re_wfiid e)) [])"

definition retry_entry_toString :: "qore_api \<Rightarrow> retry_entry \<Rightarrow> bool \<Rightarrow> string" where
  "retry_entry_toString a e marked =
     ''{mod='' @ formatDate a (re_mod e) @ '', wfiid: '' @ dec (re_wfiid e) @ '', marked: ''
       @ dec (if marked then 1 else 0) @ parent_toString (re_pi e) @ ''}''"

section \<open>The queue\<close>

record retry_queue =
  rq_nodes :: "retry_entry nodes"
  rwmap :: "int \<Rightarrow> nat option"
  marker_set :: "nat list"
  rq_next :: nat

definition new_RetryQueue :: retry_queue where
  "new_RetryQueue = \<lparr>rq_nodes = [], rwmap = Map.empty, marker_set = [], rq_next = 0\<rparr>"

definition retry_insert :: "int \<Rightarrow> retry_entry \<Rightarrow> retry_queue \<Rightarrow> retry_queue" where
  "retry_insert t e q = q\<lparr>rq_nodes := mm_insert (rq_next q) t e (rq_nodes q), rq_next := Suc (rq_next q)\<rparr>"

text \<open>The result is 0 when the entry was queued and -1 when it was not.\<close>

definition retry_add :: "nat \<Rightarrow> int \<Rightarrow> int \<Rightarrow> parent_info \<Rightarrow> retry_queue
    \<Rightarrow> (int \<times> retry_queue) result" where
  "retry_add addr wfiid t p q =
     (case rwmap q wfiid of
        Some n \<Rightarrow> rbind (deref (mm_find n (rq_nodes q))) (\<lambda>x.
          if t < re_mod (snd x) then
            Inr (0, (retry_insert t ((snd x)\<lparr>re_mod := t\<rparr>) (q\<lparr>rq_nodes := mm_erase n (rq_nodes q)\<rparr>))
                      \<lparr>rwmap := (rwmap q)(wfiid \<mapsto> rq_next q)\<rparr>)
          else Inr (-1, q))
      | None \<Rightarrow> rbind (assert_that (wfiid \<noteq> 0)) (\<lambda>_.
          Inr (0, (retry_insert t \<lparr>re_addr = addr, re_wfiid = wfiid, re_mod = t, re_pi = p\<rparr> q)
                    \<lparr>rwmap := (rwmap q)(wfiid \<mapsto> rq_next q)\<rparr>)))"

definition retry_remove_workflow_instance :: "int \<Rightarrow> retry_queue \<Rightarrow> retry_queue result" where
  "retry_remove_workflow_instance wfiid q =
     (case rwmap q wfiid of
        None \<Rightarrow> Inr q
      | Some n \<Rightarrow> rbind (deref (mm_find n (rq_nodes q))) (\<lambda>_.
          Inr (q\<lparr>rq_nodes := mm_erase n (rq_nodes q), rwmap := (rwmap q)(wfiid := None)\<rparr>)))"

text \<open>\<^verbatim>\<open>merge\<close>: the first result is this queue, the second the other one.\<close>

definition retry_merge :: "retry_queue \<Rightarrow> retry_queue \<Rightarrow> retry_queue \<times> retry_queue" where
  "retry_merge q rq =
     (foldl (\<lambda>q x. retry_insert (fst (snd x)) (snd (snd x)) q) q (rq_nodes rq), rq\<lparr>rq_nodes := []\<rparr>)"

definition retry_del :: "retry_queue \<Rightarrow> retry_queue" where
  "retry_del q = q\<lparr>rq_nodes := []\<rparr>"

definition retry_toString :: "qore_api \<Rightarrow> retry_queue \<Rightarrow> string" where
  "retry_toString a q =
     (let s = ''marker len='' @ dec_size (length (marker_set q)) @ '' len='' @ dec_size (length (rq_nodes q))
            @ '': [''
      in if rq_nodes q \<noteq> [] then
           drop2 (s @ concat (map (\<lambda>x. retry_entry_toString a (snd (snd x))
             (re_addr (snd (snd x)) \<in> set (marker_set q)) @ '', '') (rq_nodes q)))
         else s)"

definition clear_markers :: "retry_queue \<Rightarrow> retry_queue" where
  "clear_markers q = q\<lparr>marker_set := []\<rparr>"

section \<open>The retry queue in \<^verbatim>\<open>get_retry_event\<close>\<close>

text \<open>
  The three search loops: the first entry whose segment is not in progress and on which no
  thread sleeps.
\<close>

definition first_free :: "(int \<Rightarrow> bool) \<Rightarrow> retry_queue \<Rightarrow> (nat \<times> int \<times> retry_entry) option" where
  "first_free busy q =
     find (\<lambda>x. \<not> busy (re_wfiid (snd (snd x))) \<and> re_addr (snd (snd x)) \<notin> set (marker_set q)) (rq_nodes q)"

text \<open>\<^verbatim>\<open>get_event\<close>: the entry's workflow instance and its hash.\<close>

definition get_event :: "nat \<times> int \<times> retry_entry \<Rightarrow> retry_queue
    \<Rightarrow> ((int \<times> qhash) \<times> retry_queue) result" where
  "get_event x q =
     (let e = snd (snd x) in
      rbind (assert_that (rwmap q (re_wfiid e) \<noteq> None)) (\<lambda>_.
        Inr ((re_wfiid e, retry_get_hash e),
          q\<lparr>rq_nodes := mm_erase (fst x) (rq_nodes q), rwmap := (rwmap q)(re_wfiid e := None)\<rparr>)))"

text \<open>The markers before and after the wait of \<^verbatim>\<open>mark_wait_retry\<close>.\<close>

definition mark_entry :: "nat \<Rightarrow> retry_queue \<Rightarrow> retry_queue" where
  "mark_entry addr q = q\<lparr>marker_set := insort_insert addr (marker_set q)\<rparr>"

definition unmark_entry :: "nat \<Rightarrow> retry_queue \<Rightarrow> retry_queue" where
  "unmark_entry addr q = q\<lparr>marker_set := remove1 addr (marker_set q)\<rparr>"

end
