(* ===== verification/Segment_Queue.thy ===== *)
theory Segment_Queue
  imports Primary_Queue Backend_Queues Retry_Queue
begin

text \<open>
  \<^verbatim>\<open>class SegmentEventQueue\<close> of \<^verbatim>\<open>exec/SegmentEventQueue.cpp\<close>: the events
  of one workflow type, which the threads of its execution instances take and release.

  \<open>seg_queue\<close> is the state guarded by the mutex; one operation is one critical section.
  \<open>workflow_seg_map\<close> holds, for every workflow instance that is being processed, the number
  of segments that process it, or -1 when a retry is in progress.

  A blocking call is an attempt (one round of its loop up to the wait), the state change
  that ends the wait, and their iteration by \<open>wait_loop\<close>.  The Qore objects with the retry
  delays are the argument \<open>retry_config\<close>.
\<close>

section \<open>State\<close>

datatype any_queue = AnyEvent event_queue | AnyAsync async_queue | AnySub sub_queue

record seg_queue =
  sq_term :: bool
  sq_primary :: primary_queue
  sq_retry :: retry_queue
  sq_async_retry :: retry_queue
  sq_fixed_retry :: retry_queue
  retry_waiting :: int
  retry_cond :: "notify list"
  backend_queue_map :: "(int, any_queue) omap"
  conn_set :: "int list"
  retry_conn_set :: "int list"
  workflow_seg_map :: "(int, int) omap"

definition new_SegmentEventQueue :: seg_queue where
  "new_SegmentEventQueue = \<lparr>sq_term = False, sq_primary = new_PrimaryQueue, sq_retry = new_RetryQueue,
     sq_async_retry = new_RetryQueue, sq_fixed_retry = new_RetryQueue, retry_waiting = 0,
     retry_cond = [], backend_queue_map = [], conn_set = [], retry_conn_set = [],
     workflow_seg_map = []\<rparr>"

section \<open>Notifications\<close>

fun any_wakeup :: "any_queue \<Rightarrow> any_queue" where
  "any_wakeup (AnyEvent q) = AnyEvent (bq_wakeup q)"
| "any_wakeup (AnyAsync q) = AnyAsync (bq_wakeup q)"
| "any_wakeup (AnySub q) = AnySub (bq_wakeup q)"

fun any_map :: "any_queue \<Rightarrow> (int, backend_entry nodes) omap" where
  "any_map (AnyEvent q) = bq_map q"
| "any_map (AnyAsync q) = bq_map q"
| "any_map (AnySub q) = bq_map q"

definition retry_broadcast :: "seg_queue \<Rightarrow> seg_queue" where
  "retry_broadcast s = (if retry_waiting s \<noteq> 0 then s\<lparr>retry_cond := retry_cond s @ [Broadcast]\<rparr> else s)"

definition broadcast :: "seg_queue \<Rightarrow> seg_queue" where
  "broadcast s =
     (let s1 = retry_broadcast (s\<lparr>sq_primary := primary_wakeup (sq_primary s)\<rparr>) in
      s1\<lparr>backend_queue_map := map (\<lambda>x. (fst x, any_wakeup (snd x))) (backend_queue_map s1)\<rparr>)"

definition backend_broadcast :: "seg_queue \<Rightarrow> seg_queue" where
  "backend_broadcast s = s\<lparr>backend_queue_map :=
     map (\<lambda>x. (fst x, if any_map (snd x) \<noteq> [] then any_wakeup (snd x) else snd x)) (backend_queue_map s)\<rparr>"

definition requeue_retries :: "seg_queue \<Rightarrow> seg_queue" where
  "requeue_retries s = retry_broadcast
     (s\<lparr>sq_retry := clear_markers (sq_retry s), sq_async_retry := clear_markers (sq_async_retry s),
        sq_fixed_retry := clear_markers (sq_fixed_retry s)\<rparr>)"

section \<open>Termination of connections\<close>

definition destructor :: "seg_queue \<Rightarrow> seg_queue" where
  "destructor s = broadcast (s\<lparr>sq_term := True\<rparr>)"

definition terminate_connection :: "int \<Rightarrow> seg_queue \<Rightarrow> seg_queue" where
  "terminate_connection i s = broadcast (s\<lparr>conn_set := insort_insert i (conn_set s)\<rparr>)"

definition terminate_retry_connection :: "int \<Rightarrow> seg_queue \<Rightarrow> seg_queue" where
  "terminate_retry_connection i s = retry_broadcast (s\<lparr>retry_conn_set := insort_insert i (retry_conn_set s)\<rparr>)"

definition cleanup_connection :: "int \<Rightarrow> seg_queue \<Rightarrow> seg_queue" where
  "cleanup_connection i s = s\<lparr>conn_set := remove1 i (conn_set s)\<rparr>"

section \<open>Backend segments\<close>

definition find_segment :: "int \<Rightarrow> seg_queue \<Rightarrow> any_queue option" where
  "find_segment i s = map_of (backend_queue_map s) i"

definition put_segment :: "int \<Rightarrow> any_queue \<Rightarrow> seg_queue \<Rightarrow> seg_queue" where
  "put_segment i q s = s\<lparr>backend_queue_map := om_put i q (backend_queue_map s)\<rparr>"

definition add_segment :: "any_queue \<Rightarrow> int \<Rightarrow> seg_queue \<Rightarrow> seg_queue result" where
  "add_segment q segid s =
     rbind (assert_that (\<not> sq_term s)) (\<lambda>_.
     rbind (assert_that (find_segment segid s = None)) (\<lambda>_.
       Inr (put_segment segid q s)))"

definition add_subworkflow_segment :: "int \<Rightarrow> seg_queue \<Rightarrow> seg_queue result" where
  "add_subworkflow_segment = add_segment (AnySub new_SubWorkflowQueue)"

definition add_async_segment :: "int \<Rightarrow> seg_queue \<Rightarrow> seg_queue result" where
  "add_async_segment = add_segment (AnyAsync new_AsyncQueue)"

definition add_event_segment :: "int \<Rightarrow> seg_queue \<Rightarrow> seg_queue result" where
  "add_event_segment = add_segment (AnyEvent new_EventQueue)"

text \<open>
  The look-up of a segment with its two assertions: it is there, and it is of the right
  class (\<^verbatim>\<open>dynamic_cast\<close>).
\<close>

definition event_segment :: "int \<Rightarrow> seg_queue \<Rightarrow> event_queue result" where
  "event_segment i s = (case find_segment i s of Some (AnyEvent q) \<Rightarrow> Inr q | _ \<Rightarrow> Inl Assertion_failed)"

definition async_segment :: "int \<Rightarrow> seg_queue \<Rightarrow> async_queue result" where
  "async_segment i s = (case find_segment i s of Some (AnyAsync q) \<Rightarrow> Inr q | _ \<Rightarrow> Inl Assertion_failed)"

definition sub_segment :: "int \<Rightarrow> seg_queue \<Rightarrow> sub_queue result" where
  "sub_segment i s = (case find_segment i s of Some (AnySub q) \<Rightarrow> Inr q | _ \<Rightarrow> Inl Assertion_failed)"

section \<open>Initialization\<close>

definition get_hash_arg :: "qval \<Rightarrow> qhash result" where
  "get_hash_arg v = (case v of QHash h \<Rightarrow> Inr h | _ \<Rightarrow> Inl Assertion_failed)"

text \<open>\<^verbatim>\<open>n.get<const DateTimeNode>()\<close> is undefined for another type of value.\<close>

definition get_scheduled :: "qval \<Rightarrow> int option result" where
  "get_scheduled v = (case v of QNothing \<Rightarrow> Inr None | QNull \<Rightarrow> Inr None | QDate t \<Rightarrow> Inr (Some t)
     | _ \<Rightarrow> Inl Undefined_behaviour)"

definition init_primary_step :: "qore_api \<Rightarrow> int \<Rightarrow> primary_queue \<Rightarrow> qval \<Rightarrow> primary_queue result" where
  "init_primary_step api now q v =
     rbind (get_hash_arg v) (\<lambda>h.
     rbind (get_event_info api h) (\<lambda>(wfiid, p).
     rbind (get_scheduled (hash_get ''scheduled'' h)) (\<lambda>d.
     rbind (assert_that (hash_get ''priority'' h \<noteq> QNothing)) (\<lambda>_.
       primary_add wfiid (to_int32 (getAsBigInt api (hash_get ''priority'' h))) p d now False q))))"

definition init_primary_queue :: "qore_api \<Rightarrow> int \<Rightarrow> qval list \<Rightarrow> seg_queue \<Rightarrow> seg_queue result" where
  "init_primary_queue api now l s =
     rbind (rfold (init_primary_step api now) (sq_primary s) l) (\<lambda>q.
       Inr (s\<lparr>sq_primary := primary_wakeup q\<rparr>))"

text \<open>
  \<^verbatim>\<open>init_retry_intern\<close>; every element of the list comes with the address that
  \<^verbatim>\<open>new\<close> returns for it, and \<open>get\<close> and \<open>put\<close> select the queue it is called with.
\<close>

definition init_retry_step :: "qore_api \<Rightarrow> (seg_queue \<Rightarrow> retry_queue)
    \<Rightarrow> (retry_queue \<Rightarrow> seg_queue \<Rightarrow> seg_queue) \<Rightarrow> seg_queue \<Rightarrow> nat \<times> qval \<Rightarrow> seg_queue result" where
  "init_retry_step api get put s x =
     rbind (get_hash_arg (snd x)) (\<lambda>h.
     rbind (get_event_info api h) (\<lambda>(wfiid, p).
       case hash_get ''retry_trigger'' h of
         QDate t \<Rightarrow> rbind (retry_add (fst x) wfiid t p (sq_fixed_retry s)) (\<lambda>(rc, q).
           Inr (s\<lparr>sq_fixed_retry := q\<rparr>))
       | _ \<Rightarrow> (case hash_get ''modified'' h of
           QDate m \<Rightarrow> rbind (retry_add (fst x) wfiid m p (get s)) (\<lambda>(rc, q). Inr (put q s))
         | _ \<Rightarrow> Inl Assertion_failed)))"

definition init_retry_intern :: "qore_api \<Rightarrow> (seg_queue \<Rightarrow> retry_queue)
    \<Rightarrow> (retry_queue \<Rightarrow> seg_queue \<Rightarrow> seg_queue) \<Rightarrow> (nat \<times> qval) list \<Rightarrow> seg_queue \<Rightarrow> seg_queue result" where
  "init_retry_intern api get put l s =
     (if l = [] then Inr s
      else rbind (rfold (init_retry_step api get put) s l) (\<lambda>s'. Inr (requeue_retries s')))"

definition put_retry :: "retry_queue \<Rightarrow> seg_queue \<Rightarrow> seg_queue" where
  "put_retry q s = s\<lparr>sq_retry := q\<rparr>"

definition put_async_retry :: "retry_queue \<Rightarrow> seg_queue \<Rightarrow> seg_queue" where
  "put_async_retry q s = s\<lparr>sq_async_retry := q\<rparr>"

definition put_fixed_retry :: "retry_queue \<Rightarrow> seg_queue \<Rightarrow> seg_queue" where
  "put_fixed_retry q s = s\<lparr>sq_fixed_retry := q\<rparr>"

definition init_retry_queue :: "qore_api \<Rightarrow> (nat \<times> qval) list \<Rightarrow> seg_queue \<Rightarrow> seg_queue result" where
  "init_retry_queue api = init_retry_intern api sq_retry put_retry"

definition init_async_retry_queue :: "qore_api \<Rightarrow> (nat \<times> qval) list \<Rightarrow> seg_queue \<Rightarrow> seg_queue result" where
  "init_async_retry_queue api = init_retry_intern api sq_async_retry put_async_retry"

definition init_event_step :: "qore_api \<Rightarrow> event_queue \<Rightarrow> qval \<Rightarrow> event_queue result" where
  "init_event_step api q v =
     rbind (get_hash_arg v) (\<lambda>h. rbind (get_backend_event_info api h) (\<lambda>i.
       add_event (ei_mod i) (ei_wfiid i) (ei_ind i) (ei_prio i) (ei_pi i) q))"

definition init_event_queue :: "qore_api \<Rightarrow> int \<Rightarrow> qval list \<Rightarrow> seg_queue \<Rightarrow> seg_queue result" where
  "init_event_queue api segid l s =
     rbind (event_segment segid s) (\<lambda>q.
     rbind (rfold (init_event_step api) q l) (\<lambda>q'.
       Inr (put_segment segid (AnyEvent (bq_wakeup q')) s)))"

definition init_async_step :: "qore_api \<Rightarrow> async_queue \<Rightarrow> qval \<Rightarrow> async_queue result" where
  "init_async_step api q v =
     rbind (get_hash_arg v) (\<lambda>h. rbind (get_backend_event_info api h) (\<lambda>i.
     rbind (assert_that (key_found ''corrected'' h)) (\<lambda>_.
       case hash_get ''queuekey'' h of
         QString k \<Rightarrow> rbind (assert_that (k \<noteq> [])) (\<lambda>_.
           add_async_event (ei_mod i) (ei_wfiid i) (ei_ind i) (ei_prio i)
             (getAsBigInt api (hash_get ''corrected'' h) \<noteq> 0) (ei_pi i) k QNothing q)
       | _ \<Rightarrow> Inl Assertion_failed)))"

definition init_async_queue :: "qore_api \<Rightarrow> int \<Rightarrow> qval list \<Rightarrow> seg_queue \<Rightarrow> seg_queue result" where
  "init_async_queue api segid l s =
     rbind (async_segment segid s) (\<lambda>q.
     rbind (rfold (init_async_step api) q l) (\<lambda>q'.
       Inr (put_segment segid (AnyAsync (bq_wakeup q')) s)))"

definition init_sub_status :: "qore_api \<Rightarrow> qhash \<Rightarrow> char result" where
  "init_sub_status api h =
     rbind (assert_that (key_found ''corrected'' h)) (\<lambda>_.
       if getAsBigInt api (hash_get ''corrected'' h) \<noteq> 0 then Inr CHR ''C''
       else (case hash_get ''status'' h of
           QString [c] \<Rightarrow> Inr c
         | _ \<Rightarrow> Inl Assertion_failed))"

definition init_sub_step :: "qore_api \<Rightarrow> sub_queue \<Rightarrow> qval \<Rightarrow> sub_queue result" where
  "init_sub_step api q v =
     rbind (get_hash_arg v) (\<lambda>h. rbind (get_backend_event_info api h) (\<lambda>i.
       let swfiid = getAsBigInt api (hash_get ''subworkflow_instanceid'' h) in
       rbind (assert_that (swfiid \<noteq> 0)) (\<lambda>_.
       rbind (init_sub_status api h) (\<lambda>status.
         add_subworkflow_event (ei_mod i) (ei_wfiid i) (ei_ind i) (ei_prio i) (ei_pi i) status swfiid q))))"

definition init_subworkflow_queue :: "qore_api \<Rightarrow> int \<Rightarrow> qval list \<Rightarrow> seg_queue \<Rightarrow> seg_queue result" where
  "init_subworkflow_queue api segid l s =
     rbind (sub_segment segid s) (\<lambda>q.
     rbind (rfold (init_sub_step api) q l) (\<lambda>q'.
       Inr (put_segment segid (AnySub (bq_wakeup q')) s)))"

section \<open>Queueing\<close>

definition queue_subworkflow_event :: "qore_api \<Rightarrow> int \<Rightarrow> int \<Rightarrow> int \<Rightarrow> int \<Rightarrow> int \<Rightarrow> char \<Rightarrow> int
    \<Rightarrow> qhash option \<Rightarrow> seg_queue \<Rightarrow> seg_queue result" where
  "queue_subworkflow_event api now segid wfiid ind prio status swfiid ph s =
     rbind (sub_segment segid s) (\<lambda>q.
     rbind (add_subworkflow_event now wfiid ind prio (opt_parent_info api ph) status swfiid q) (\<lambda>q'.
       Inr (put_segment segid (AnySub q') s)))"

definition queue_async_event :: "qore_api \<Rightarrow> int \<Rightarrow> int \<Rightarrow> int \<Rightarrow> int \<Rightarrow> int \<Rightarrow> bool \<Rightarrow> string
    \<Rightarrow> qval \<Rightarrow> qhash option \<Rightarrow> seg_queue \<Rightarrow> seg_queue result" where
  "queue_async_event api now segid wfiid ind prio corr qkey dat ph s =
     rbind (async_segment segid s) (\<lambda>q.
     rbind (add_async_event now wfiid ind prio corr (opt_parent_info api ph) qkey dat q) (\<lambda>q'.
       Inr (put_segment segid (AnyAsync q') s)))"

definition queue_workflow_event :: "qore_api \<Rightarrow> int \<Rightarrow> int \<Rightarrow> int \<Rightarrow> int \<Rightarrow> int \<Rightarrow> qhash option
    \<Rightarrow> seg_queue \<Rightarrow> seg_queue result" where
  "queue_workflow_event api now segid wfiid ind prio ph s =
     rbind (event_segment segid s) (\<lambda>q.
     rbind (add_event now wfiid ind prio (opt_parent_info api ph) q) (\<lambda>q'.
       Inr (put_segment segid (AnyEvent q') s)))"

definition queue_primary_event :: "qore_api \<Rightarrow> int \<Rightarrow> int \<Rightarrow> int \<Rightarrow> qhash option \<Rightarrow> int option
    \<Rightarrow> seg_queue \<Rightarrow> seg_queue result" where
  "queue_primary_event api now wfiid prio ph scheduled s =
     rbind (primary_add wfiid prio (opt_parent_info api ph) scheduled now True (sq_primary s)) (\<lambda>q.
       Inr (s\<lparr>sq_primary := q\<rparr>))"

definition queue_retry_in :: "(seg_queue \<Rightarrow> retry_queue) \<Rightarrow> (retry_queue \<Rightarrow> seg_queue \<Rightarrow> seg_queue)
    \<Rightarrow> qore_api \<Rightarrow> nat \<Rightarrow> int \<Rightarrow> int \<Rightarrow> qhash option \<Rightarrow> seg_queue \<Rightarrow> seg_queue result" where
  "queue_retry_in get put api addr wfiid d ph s =
     rbind (retry_add addr wfiid d (opt_parent_info api ph) (get s)) (\<lambda>(rc, q).
       Inr (if rc = 0 then requeue_retries (put q s) else put q s))"

definition queue_retry_event :: "qore_api \<Rightarrow> nat \<Rightarrow> int \<Rightarrow> int \<Rightarrow> qhash option \<Rightarrow> seg_queue
    \<Rightarrow> seg_queue result" where
  "queue_retry_event = queue_retry_in sq_retry put_retry"

definition queue_retry_event_fixed :: "qore_api \<Rightarrow> nat \<Rightarrow> int \<Rightarrow> int \<Rightarrow> qhash option \<Rightarrow> seg_queue
    \<Rightarrow> seg_queue result" where
  "queue_retry_event_fixed = queue_retry_in sq_fixed_retry put_fixed_retry"

definition queue_async_retry_event :: "qore_api \<Rightarrow> nat \<Rightarrow> int \<Rightarrow> int \<Rightarrow> qhash option \<Rightarrow> seg_queue
    \<Rightarrow> seg_queue result" where
  "queue_async_retry_event = queue_retry_in sq_async_retry put_async_retry"

definition remove_workflow_instance :: "int \<Rightarrow> seg_queue \<Rightarrow> seg_queue result" where
  "remove_workflow_instance wfiid s =
     rbind (retry_remove_workflow_instance wfiid (sq_retry s)) (\<lambda>r.
     rbind (retry_remove_workflow_instance wfiid (sq_async_retry s)) (\<lambda>a.
     rbind (retry_remove_workflow_instance wfiid (sq_fixed_retry s)) (\<lambda>f.
       Inr (requeue_retries (s\<lparr>sq_retry := r, sq_async_retry := a, sq_fixed_retry := f\<rparr>)))))"

end
