(* ===== verification/Segment_Events.thy ===== *)
theory Segment_Events
  imports Segment_Queue
begin

text \<open>
  The second half of \<^verbatim>\<open>exec/SegmentEventQueue.cpp\<close>: merging, the delivery of
  events, the bookkeeping of segments in progress, and the text of the queue.
\<close>

section \<open>Merging\<close>

text \<open>
  The virtual \<^verbatim>\<open>merge\<close> takes the other queue to be of its own class
  (\<^verbatim>\<open>reinterpret_cast\<close>).
\<close>

fun any_merge :: "any_queue \<Rightarrow> any_queue \<Rightarrow> (any_queue \<times> any_queue) result" where
  "any_merge (AnyEvent q) (AnyEvent b) =
     rbind (event_merge q b) (\<lambda>r. Inr (AnyEvent (fst r), AnyEvent (snd r)))"
| "any_merge (AnyAsync q) (AnyAsync b) =
     rbind (async_merge q b) (\<lambda>r. Inr (AnyAsync (fst r), AnyAsync (snd r)))"
| "any_merge (AnySub q) (AnySub b) =
     rbind (sub_merge q b) (\<lambda>r. Inr (AnySub (fst r), AnySub (snd r)))"
| "any_merge _ _ = Inl Undefined_behaviour"

definition merge_segment :: "seg_queue \<times> seg_queue \<Rightarrow> int \<Rightarrow> (seg_queue \<times> seg_queue) result" where
  "merge_segment ss i =
     (case find_segment i (fst ss) of
        None \<Rightarrow> Inl Undefined_behaviour
      | Some q \<Rightarrow>
        (case find_segment i (snd ss) of
           None \<Rightarrow> Inl Assertion_failed
         | Some b \<Rightarrow>
             if any_map b = [] then Inr ss
             else rbind (any_merge (any_wakeup q) b) (\<lambda>r.
               Inr (put_segment i (fst r) (fst ss), put_segment i (snd r) (snd ss)))))"

definition merge_all :: "seg_queue \<Rightarrow> seg_queue \<Rightarrow> (seg_queue \<times> seg_queue) result" where
  "merge_all s t =
     (let r = retry_merge (sq_retry s) (sq_retry t);
          a = retry_merge (sq_async_retry s) (sq_async_retry t);
          f = retry_merge (sq_fixed_retry s) (sq_fixed_retry t);
          s1 = requeue_retries (s\<lparr>sq_retry := fst r, sq_async_retry := fst a, sq_fixed_retry := fst f\<rparr>);
          t1 = t\<lparr>sq_retry := snd r, sq_async_retry := snd a, sq_fixed_retry := snd f\<rparr>
      in rfold merge_segment (s1, t1) (map fst (backend_queue_map s1)))"

section \<open>Segments in progress\<close>

definition seg_refs :: "int \<Rightarrow> seg_queue \<Rightarrow> int option" where
  "seg_refs w s = map_of (workflow_seg_map s) w"

definition put_refs :: "int \<Rightarrow> int \<Rightarrow> seg_queue \<Rightarrow> seg_queue" where
  "put_refs w n s = s\<lparr>workflow_seg_map := om_put w n (workflow_seg_map s)\<rparr>"

definition grab_segment_inc :: "int \<Rightarrow> seg_queue \<Rightarrow> (bool \<times> seg_queue) result" where
  "grab_segment_inc wfiid s =
     rbind (assert_that (wfiid \<noteq> 0)) (\<lambda>_.
       case seg_refs wfiid s of
         Some n \<Rightarrow> if n < 0 then Inr (True, s) else Inr (False, put_refs wfiid (n + 1) s)
       | None \<Rightarrow> Inr (False, put_refs wfiid 1 s))"

definition release_segment :: "int \<Rightarrow> seg_queue \<Rightarrow> seg_queue result" where
  "release_segment wfiid s =
     (case seg_refs wfiid s of
        None \<Rightarrow> Inl Assertion_failed
      | Some n \<Rightarrow>
          if n - 1 = 0 then
            let s' = s\<lparr>workflow_seg_map := om_del wfiid (workflow_seg_map s)\<rparr> in
            Inr (if retry_waiting s' \<noteq> 0 then s'\<lparr>retry_cond := retry_cond s' @ [Signal]\<rparr> else s')
          else Inr (put_refs wfiid (n - 1) s))"

definition release_retry_segment :: "int \<Rightarrow> seg_queue \<Rightarrow> seg_queue result" where
  "release_retry_segment wfiid s =
     (case seg_refs wfiid s of
        None \<Rightarrow> Inl Assertion_failed
      | Some n \<Rightarrow> rbind (assert_that (n = -1)) (\<lambda>_.
          Inr (backend_broadcast (s\<lparr>workflow_seg_map := om_del wfiid (workflow_seg_map s)\<rparr>))))"

definition conn_stopped :: "int \<Rightarrow> seg_queue \<Rightarrow> bool" where
  "conn_stopped conn s \<longleftrightarrow> sq_term s \<or> conn \<in> set (conn_set s)"

section \<open>Primary events\<close>

definition primary_attempt :: "int \<Rightarrow> int \<Rightarrow> seg_queue
    \<Rightarrow> ((int option, qhash option) attempt \<times> seg_queue) result" where
  "primary_attempt conn now s =
     (if conn_stopped conn s then Inr (Finished None, s)
      else rbind (checkEvent now (sq_primary s)) (\<lambda>(ready, q).
        if ready then rbind (getEvent q) (\<lambda>(h, q'). Inr (Finished (Some h), s\<lparr>sq_primary := q'\<rparr>))
        else rbind (primary_wait_begin now q) (\<lambda>(timeout, q').
          Inr (Waiting timeout, s\<lparr>sq_primary := q'\<rparr>))))"

definition primary_resume :: "int option \<Rightarrow> seg_queue \<Rightarrow> seg_queue" where
  "primary_resume timeout s = s\<lparr>sq_primary := primary_wait_end (sq_primary s)\<rparr>"

definition get_primary_event :: "int \<Rightarrow> (int \<times> (seg_queue \<Rightarrow> seg_queue)) list \<Rightarrow> seg_queue
    \<Rightarrow> (qhash option option \<times> seg_queue) result" where
  "get_primary_event conn = wait_loop (primary_attempt conn) primary_resume"

definition resched_primary_event :: "int \<Rightarrow> int option \<Rightarrow> int \<Rightarrow> seg_queue
    \<Rightarrow> (bool \<times> seg_queue) result" where
  "resched_primary_event wfiid scheduled now s =
     rbind (resched wfiid scheduled now (sq_primary s)) (\<lambda>(b, q). Inr (b, s\<lparr>sq_primary := q\<rparr>))"

section \<open>Changing and removing an order\<close>

text \<open>
  The loop of \<^verbatim>\<open>reprioritize\<close> over one back end queue: \<^verbatim>\<open>equal_range(wfiid)\<close>
  selects the nodes whose key, a time, is \<open>wfiid\<close>.
\<close>

definition range_of :: "int \<Rightarrow> backend_entry nodes \<Rightarrow> backend_entry nodes" where
  "range_of k ns = filter (\<lambda>x. fst (snd x) = k) ns"

definition bq_reprioritize :: "int \<Rightarrow> int \<Rightarrow> 'a backend_queue_scheme \<Rightarrow> bool \<times> 'a backend_queue_scheme" where
  "bq_reprioritize wfiid prio q =
     (let moved = concat (map (\<lambda>x. if fst x = prio then [] else range_of wfiid (snd x)) (bq_map q));
          rest = map (\<lambda>x. if fst x = prio then x
                          else (fst x, filter (\<lambda>n. fst (snd n) \<noteq> wfiid) (snd x))) (bq_map q)
      in (moved \<noteq> [], foldl (\<lambda>q x. bq_insert prio wfiid (snd (snd x)) q) (q\<lparr>bq_map := rest\<rparr>) moved))"

fun any_reprioritize :: "int \<Rightarrow> int \<Rightarrow> any_queue \<Rightarrow> bool \<times> any_queue" where
  "any_reprioritize w p (AnyEvent q) = (case bq_reprioritize w p q of (b, q') \<Rightarrow> (b, AnyEvent q'))"
| "any_reprioritize w p (AnyAsync q) = (case bq_reprioritize w p q of (b, q') \<Rightarrow> (b, AnyAsync q'))"
| "any_reprioritize w p (AnySub q) = (case bq_reprioritize w p q of (b, q') \<Rightarrow> (b, AnySub q'))"

definition reprioritize :: "int \<Rightarrow> int \<Rightarrow> int \<Rightarrow> seg_queue \<Rightarrow> (bool \<times> seg_queue) result" where
  "reprioritize wfiid prio now s =
     rbind (primary_reprioritize wfiid prio now (sq_primary s)) (\<lambda>(b, q).
       let s' = s\<lparr>sq_primary := q\<rparr> in
       if b then Inr (True, s')
       else Inr (\<exists>x\<in>set (backend_queue_map s'). fst (any_reprioritize wfiid prio (snd x)),
         s'\<lparr>backend_queue_map := map (\<lambda>x. (fst x, snd (any_reprioritize wfiid prio (snd x))))
              (backend_queue_map s')\<rparr>))"

definition bq_erase_key :: "int \<Rightarrow> int \<Rightarrow> 'a backend_queue_scheme \<Rightarrow> 'a backend_queue_scheme" where
  "bq_erase_key wfiid prio q =
     q\<lparr>bq_map := map (\<lambda>x. if fst x = prio then (fst x, filter (\<lambda>n. fst (snd n) \<noteq> wfiid) (snd x)) else x)
         (bq_map q)\<rparr>"

fun any_erase_key :: "int \<Rightarrow> int \<Rightarrow> any_queue \<Rightarrow> any_queue" where
  "any_erase_key w p (AnyEvent q) = AnyEvent (bq_erase_key w p q)"
| "any_erase_key w p (AnyAsync q) = AnyAsync (bq_erase_key w p q)"
| "any_erase_key w p (AnySub q) = AnySub (bq_erase_key w p q)"

text \<open>The priority is a 64-bit value that is looked up in a map with 32-bit keys.\<close>

definition removeWorkflowOrder :: "int \<Rightarrow> int \<Rightarrow> seg_queue \<Rightarrow> seg_queue result" where
  "removeWorkflowOrder wfiid prio s =
     rbind (primary_removeWorkflowOrder wfiid (sq_primary s)) (\<lambda>(b, q).
       let s' = s\<lparr>sq_primary := q\<rparr> in
       if b then Inr s'
       else Inr (s'\<lparr>backend_queue_map :=
         map (\<lambda>x. (fst x, any_erase_key wfiid (to_int32 prio) (snd x))) (backend_queue_map s')\<rparr>))"

section \<open>Backend events\<close>

definition in_retry :: "seg_queue \<Rightarrow> int \<Rightarrow> bool" where
  "in_retry s w = (case seg_refs w s of None \<Rightarrow> False | Some n \<Rightarrow> n < 0)"

text \<open>The reference count in \<^verbatim>\<open>get_backend_event_unlocked\<close>.\<close>

definition grab_backend :: "int \<Rightarrow> seg_queue \<Rightarrow> seg_queue result" where
  "grab_backend w s =
     (case seg_refs w s of
        Some n \<Rightarrow> Inr (put_refs w (n + 1) s)
      | None \<Rightarrow> rbind (assert_that (w \<noteq> 0)) (\<lambda>_. Inr (put_refs w 1 s)))"

text \<open>
  One round of \<^verbatim>\<open>get_backend_event_unlocked\<close> on the queue \<open>q\<close> of the segment \<open>i\<close>;
  \<open>mk\<close> puts a queue of that class back.
\<close>

definition backend_attempt :: "int \<Rightarrow> int \<Rightarrow> ('a backend_queue_scheme \<Rightarrow> any_queue)
    \<Rightarrow> 'a backend_queue_scheme \<Rightarrow> seg_queue
    \<Rightarrow> ((unit, (backend_entry \<times> 'a backend_queue_scheme) option) attempt \<times> seg_queue) result" where
  "backend_attempt conn i mk q s =
     (if conn_stopped conn s then Inr (Finished None, s)
      else case take_ready (in_retry s) (bq_map q) of
        None \<Rightarrow> Inr (Waiting (), put_segment i (mk (bq_wait_begin q)) s)
      | Some (e, m) \<Rightarrow>
          rbind (grab_backend (entry_wfiid e) s) (\<lambda>s'.
            let q' = q\<lparr>bq_map := m\<rparr> in Inr (Finished (Some (e, q')), put_segment i (mk q') s')))"

fun any_wait_end :: "any_queue \<Rightarrow> any_queue" where
  "any_wait_end (AnyEvent q) = AnyEvent (bq_wait_end q)"
| "any_wait_end (AnyAsync q) = AnyAsync (bq_wait_end q)"
| "any_wait_end (AnySub q) = AnySub (bq_wait_end q)"

definition backend_resume :: "int \<Rightarrow> unit \<Rightarrow> seg_queue \<Rightarrow> seg_queue" where
  "backend_resume i u s = s\<lparr>backend_queue_map :=
     map (\<lambda>x. if fst x = i then (fst x, any_wait_end (snd x)) else x) (backend_queue_map s)\<rparr>"

definition event_attempt :: "int \<Rightarrow> int \<Rightarrow> unit \<Rightarrow> seg_queue
    \<Rightarrow> ((unit, qhash option) attempt \<times> seg_queue) result" where
  "event_attempt conn i u s =
     rbind (event_segment i s) (\<lambda>q.
     rbind (backend_attempt conn i AnyEvent q s) (\<lambda>(a, s').
       case a of
         Waiting w \<Rightarrow> Inr (Waiting w, s')
       | Finished None \<Rightarrow> Inr (Finished None, s')
       | Finished (Some (e, q')) \<Rightarrow>
           Inr (Finished (Some (get_hash e)), put_segment i
             (AnyEvent (q'\<lparr>ev_wfmap := (ev_wfmap q')(entry_wfiid e := None)\<rparr>)) s')))"

definition async_attempt :: "int \<Rightarrow> int \<Rightarrow> unit \<Rightarrow> seg_queue
    \<Rightarrow> ((unit, qhash option) attempt \<times> seg_queue) result" where
  "async_attempt conn i u s =
     rbind (async_segment i s) (\<lambda>q.
     rbind (backend_attempt conn i AnyAsync q s) (\<lambda>(a, s').
       case a of
         Waiting w \<Rightarrow> Inr (Waiting w, s')
       | Finished None \<Rightarrow> Inr (Finished None, s')
       | Finished (Some (e, q')) \<Rightarrow>
           Inr (Finished (Some (get_hash e)), put_segment i
             (AnyAsync (q'\<lparr>as_wfmap := (as_wfmap q')(entry_wfiid e := None)\<rparr>)) s')))"

definition sub_attempt :: "int \<Rightarrow> int \<Rightarrow> unit \<Rightarrow> seg_queue
    \<Rightarrow> ((unit, qhash option) attempt \<times> seg_queue) result" where
  "sub_attempt conn i u s =
     rbind (sub_segment i s) (\<lambda>q.
     rbind (backend_attempt conn i AnySub q s) (\<lambda>(a, s').
       case a of
         Waiting w \<Rightarrow> Inr (Waiting w, s')
       | Finished None \<Rightarrow> Inr (Finished None, s')
       | Finished (Some (e, q')) \<Rightarrow>
           let st = entry_status e in
           rbind (assert_that (sub_wfmap st q' (entry_wfiid e) \<noteq> None)) (\<lambda>_.
             Inr (Finished (Some (get_hash e)), put_segment i
               (AnySub (set_sub_wfmap st ((sub_wfmap st q')(entry_wfiid e := None)) q')) s'))))"

definition get_workflow_event :: "int \<Rightarrow> int \<Rightarrow> (unit \<times> (seg_queue \<Rightarrow> seg_queue)) list \<Rightarrow> seg_queue
    \<Rightarrow> (qhash option option \<times> seg_queue) result" where
  "get_workflow_event conn i = wait_loop (event_attempt conn i) (backend_resume i)"

definition get_async_event :: "int \<Rightarrow> int \<Rightarrow> (unit \<times> (seg_queue \<Rightarrow> seg_queue)) list \<Rightarrow> seg_queue
    \<Rightarrow> (qhash option option \<times> seg_queue) result" where
  "get_async_event conn i = wait_loop (async_attempt conn i) (backend_resume i)"

definition get_subworkflow_event :: "int \<Rightarrow> int \<Rightarrow> (unit \<times> (seg_queue \<Rightarrow> seg_queue)) list \<Rightarrow> seg_queue
    \<Rightarrow> (qhash option option \<times> seg_queue) result" where
  "get_subworkflow_event conn i = wait_loop (sub_attempt conn i) (backend_resume i)"

section \<open>Retry events\<close>

text \<open>The members of the object \<^verbatim>\<open>workflow_params\<close>, and \<^verbatim>\<open>opts\<close> of \<^verbatim>\<open>qorus_options\<close>.\<close>

record retry_config =
  wp_member :: "string \<Rightarrow> qval"
  opts_member :: qval

definition getOptionBigInt :: "qore_api \<Rightarrow> retry_config \<Rightarrow> string \<Rightarrow> int result" where
  "getOptionBigInt api c opt =
     (case opts_member c of
        QNothing \<Rightarrow> Inr 0
      | QHash h \<Rightarrow> Inr (getAsBigInt api (hash_get opt h))
      | _ \<Rightarrow> Inl Undefined_behaviour)"

text \<open>A delay that is not yet set (-1) is set when the value is positive.\<close>

definition set_delay :: "int \<Rightarrow> int \<Rightarrow> int" where
  "set_delay cur val = (if cur = -1 \<and> val > 0 then val else cur)"

definition delay_option :: "qore_api \<Rightarrow> retry_config \<Rightarrow> string \<Rightarrow> int \<Rightarrow> int result" where
  "delay_option api c opt cur = (if cur = -1 then getOptionBigInt api c opt else Inr cur)"

definition get_retry_values :: "qore_api \<Rightarrow> retry_config \<Rightarrow> int \<Rightarrow> (int \<times> int) result" where
  "get_retry_values api c conn =
     (let (r1, a1) = (case wp_member c (dec conn) of
            QHash h \<Rightarrow> (set_delay (-1) (getAsBigInt api (hash_get ''retry'' h)),
                        set_delay (-1) (getAsBigInt api (hash_get ''async'' h)))
          | _ \<Rightarrow> (-1, -1))
      in if r1 \<noteq> -1 \<and> a1 \<noteq> -1 then Inr (r1, a1)
         else
           let r2 = set_delay r1 (getAsBigInt api (wp_member c ''retry''));
               a2 = set_delay a1 (getAsBigInt api (wp_member c ''async''))
           in rbind (delay_option api c ''recover_delay'' r2) (\<lambda>r3.
              rbind (delay_option api c ''async_delay'' a2) (\<lambda>a3. Inr (r3, a3))))"

datatype retry_src = Fixed_src | Retry_src | Async_src

type_synonym retry_node = "nat \<times> int \<times> retry_entry"

definition src_queue :: "retry_src \<Rightarrow> seg_queue \<Rightarrow> retry_queue" where
  "src_queue r s = (case r of Fixed_src \<Rightarrow> sq_fixed_retry s | Retry_src \<Rightarrow> sq_retry s
     | Async_src \<Rightarrow> sq_async_retry s)"

definition put_src :: "retry_src \<Rightarrow> retry_queue \<Rightarrow> seg_queue \<Rightarrow> seg_queue" where
  "put_src r q s = (case r of Fixed_src \<Rightarrow> put_fixed_retry q s | Retry_src \<Rightarrow> put_retry q s
     | Async_src \<Rightarrow> put_async_retry q s)"

definition seg_busy :: "seg_queue \<Rightarrow> int \<Rightarrow> bool" where
  "seg_busy s w = (case seg_refs w s of None \<Rightarrow> False | Some n \<Rightarrow> n \<noteq> 0)"

text \<open>
  The second and the third search loop: the entry found replaces the one found before unless
  it is later; then its iterator is set to the end of its queue.
\<close>

definition later_search :: "retry_node option \<Rightarrow> int \<Rightarrow> int \<Rightarrow> retry_node option \<times> int" where
  "later_search f delay trig =
     (case f of
        None \<Rightarrow> (None, trig)
      | Some x \<Rightarrow>
          (let t = re_mod (snd (snd x)) + delay in
           if trig \<noteq> -1 \<and> t > trig then (None, trig) else (Some x, t)))"

text \<open>The three iterators and the trigger time after the searches.\<close>

definition retry_search :: "int \<Rightarrow> int \<Rightarrow> seg_queue
    \<Rightarrow> retry_node option \<times> retry_node option \<times> retry_node option \<times> int" where
  "retry_search retry async s =
     (let fi = first_free (seg_busy s) (sq_fixed_retry s);
          t0 = (case fi of None \<Rightarrow> -1 | Some x \<Rightarrow> re_mod (snd (snd x)));
          (ri, t1) = later_search (first_free (seg_busy s) (sq_retry s)) retry t0;
          (ari, t2) = later_search (first_free (seg_busy s) (sq_async_retry s)) async t1
      in (fi, ri, ari, t2))"

definition retry_choice :: "retry_node option \<Rightarrow> retry_node option \<Rightarrow> retry_node option
    \<Rightarrow> (retry_src \<times> retry_node) result" where
  "retry_choice fi ri ari =
     (case ari of Some x \<Rightarrow> Inr (Async_src, x)
      | None \<Rightarrow> (case ri of Some x \<Rightarrow> Inr (Retry_src, x)
      | None \<Rightarrow> (case fi of Some x \<Rightarrow> Inr (Fixed_src, x) | None \<Rightarrow> Inl Assertion_failed)))"

text \<open>Marking the retry in progress, at the end of \<^verbatim>\<open>get_retry_event\<close>.\<close>

definition mark_in_progress :: "int \<Rightarrow> seg_queue \<Rightarrow> seg_queue result" where
  "mark_in_progress wfiid s =
     (case seg_refs wfiid s of
        Some n \<Rightarrow> rbind (assert_that (n = 0)) (\<lambda>_. Inr (put_refs wfiid (-1) s))
      | None \<Rightarrow> rbind (assert_that (wfiid \<noteq> 0)) (\<lambda>_. Inr (put_refs wfiid (-1) s)))"

text \<open>A thread waits for data, or for the trigger time of the entry that it has marked.\<close>

datatype retry_wait = Wait_data | Wait_trigger retry_src nat int

definition take_retry :: "retry_src \<Rightarrow> retry_node \<Rightarrow> seg_queue
    \<Rightarrow> ((retry_wait, qhash option) attempt \<times> seg_queue) result" where
  "take_retry src x s =
     rbind (get_event x (src_queue src s)) (\<lambda>((wfiid, h), q).
     rbind (mark_in_progress wfiid (put_src src q s)) (\<lambda>s'.
       Inr (Finished (Some h), s')))"

definition retry_attempt :: "qore_api \<Rightarrow> int \<Rightarrow> retry_config \<times> int \<Rightarrow> seg_queue
    \<Rightarrow> ((retry_wait, qhash option) attempt \<times> seg_queue) result" where
  "retry_attempt api conn cn s =
     (if conn_stopped conn s then Inr (Finished None, s)
      else if conn \<in> set (retry_conn_set s) then
        Inr (Finished None, s\<lparr>retry_conn_set := remove1 conn (retry_conn_set s)\<rparr>)
      else rbind (get_retry_values api (fst cn) conn) (\<lambda>(retry, async).
        let (fi, ri, ari, trig) = retry_search retry async s in
        if trig = -1 then Inr (Waiting Wait_data, s\<lparr>retry_waiting := retry_waiting s + 1\<rparr>)
        else
          let diff = (if trig \<noteq> 0 then trig - snd cn else 0) in
          rbind (retry_choice fi ri ari) (\<lambda>(src, x).
            if diff \<le> 0 then take_retry src x s
            else Inr (Waiting (Wait_trigger src (re_addr (snd (snd x))) (diff * 1000)),
              (put_src src (mark_entry (re_addr (snd (snd x))) (src_queue src s)) s)
                \<lparr>retry_waiting := retry_waiting s + 1\<rparr>))))"

definition retry_resume :: "retry_wait \<Rightarrow> seg_queue \<Rightarrow> seg_queue" where
  "retry_resume w s =
     (let s' = s\<lparr>retry_waiting := retry_waiting s - 1\<rparr> in
      case w of Wait_data \<Rightarrow> s'
      | Wait_trigger src addr timeout \<Rightarrow> put_src src (unmark_entry addr (src_queue src s')) s')"

definition get_retry_event :: "qore_api \<Rightarrow> int \<Rightarrow> ((retry_config \<times> int) \<times> (seg_queue \<Rightarrow> seg_queue)) list
    \<Rightarrow> seg_queue \<Rightarrow> (qhash option option \<times> seg_queue) result" where
  "get_retry_event api conn = wait_loop (retry_attempt api conn) retry_resume"

section \<open>Text\<close>

definition append_prios :: "qore_api \<Rightarrow> string \<Rightarrow> (int, backend_entry nodes) omap \<Rightarrow> string" where
  "append_prios a s m = foldl (\<lambda>s x. drop2 (s @ ''prio '' @ dec (fst x) @ '' len: ''
       @ dec_size (length (snd x)) @ '': [''
       @ concat (map (\<lambda>n. entry_toString a (snd (snd n)) @ ''], '') (snd x))) @ ''], '') s m"

definition append_segment :: "qore_api \<Rightarrow> string \<Rightarrow> int \<times> any_queue \<Rightarrow> string" where
  "append_segment a s x =
     (let s1 = s @ ''segid: '' @ dec (fst x) @ '' len: '' @ dec_size (length (any_map (snd x))) @ '': [''
      in (if any_map (snd x) \<noteq> [] then drop2 (append_prios a s1 (any_map (snd x))) else s1) @ ''], '')"

definition refs_toString :: "(int, int) omap \<Rightarrow> string" where
  "refs_toString m = concat (map (\<lambda>x. dec (fst x) @ '' -> (refs: '' @ dec (snd x) @ ''), '') m)"

text \<open>\<open>ptr\<close> is the text of the object's address.\<close>

definition seq_toString :: "qore_api \<Rightarrow> string \<Rightarrow> seg_queue \<Rightarrow> string" where
  "seq_toString a ptr s =
     (let s1 = ''SegmentEventQueue '' @ ptr @ '': '' @ primary_toString a (sq_primary s)
            @ ''], fixed retry '' @ retry_toString a (sq_fixed_retry s)
            @ ''], retry '' @ retry_toString a (sq_retry s)
            @ ''], async retry '' @ retry_toString a (sq_async_retry s)
            @ ''], backend (len: '' @ dec_size (length (backend_queue_map s)) @ ''): ['';
          s2 = (if backend_queue_map s \<noteq> []
                then drop2 (foldl (append_segment a) s1 (backend_queue_map s)) else s1);
          s3 = s2 @ ''], workflow segment map (len: '' @ dec_size (length (workflow_seg_map s)) @ ''): [''
      in (if workflow_seg_map s \<noteq> [] then drop2 (s3 @ refs_toString (workflow_seg_map s)) else s3) @ '']'')"

definition seq_getSummary :: "string \<Rightarrow> seg_queue \<Rightarrow> string" where
  "seq_getSummary ptr s =
     (let s1 = ''SegmentEventQueue '' @ ptr @ '': primary: ('' @ primary_summary (sq_primary s)
            @ ''), scheduled len: '' @ dec_size (scheduledSize (sq_primary s))
            @ '', fixed retry len: '' @ dec_size (length (rq_nodes (sq_fixed_retry s)))
            @ '' (mlen: '' @ dec_size (length (marker_set (sq_fixed_retry s)))
            @ ''), retry len: '' @ dec_size (length (rq_nodes (sq_retry s)))
            @ '' (mlen: '' @ dec_size (length (marker_set (sq_retry s)))
            @ ''), async retry len: '' @ dec_size (length (rq_nodes (sq_async_retry s)))
            @ '' (mlen: '' @ dec_size (length (marker_set (sq_async_retry s)))
            @ ''), backend len: '' @ dec_size (length (backend_queue_map s)) @ '': ['';
          s2 = (if backend_queue_map s \<noteq> []
                then drop2 (s1 @ concat (map (\<lambda>x. ''segid: '' @ dec (fst x) @ '' -> len: ''
                       @ dec_size (length (any_map (snd x))) @ '', '') (backend_queue_map s)))
                else s1)
      in s2 @ ''], workflow segment map len: '' @ dec_size (length (workflow_seg_map s)))"

end
