(* ===== verification/Retry_Laws.thy ===== *)
theory Retry_Laws
  imports Retry_Queue
begin

text \<open>
  What the retry queues keep and promise.

  \<open>retry_inv\<close>: the queue is ordered by time, the index holds exactly its entries, no
  address is used twice, and only entries of the queue are marked.  \<open>retry_content\<close> is the
  abstract queue, a map from workflow instances to entries.  \<open>retry_core\<close> is the invariant
  without the markers, which holds in the middle of an operation that moves a marked entry.
\<close>

section \<open>The invariant\<close>

definition retry_core :: "retry_queue \<Rightarrow> bool" where
  "retry_core q \<longleftrightarrow> mm_indexed re_wfiid (rwmap q) (rq_next q) (rq_nodes q) \<and>
     (\<forall>n t e. (n, t, e) \<in> set (rq_nodes q) \<longrightarrow> t = re_mod e \<and> re_wfiid e \<noteq> 0) \<and>
     inj_on (\<lambda>x. re_addr (snd (snd x))) (set (rq_nodes q))"

definition retry_content :: "retry_queue \<Rightarrow> int \<Rightarrow> retry_entry option" where
  "retry_content q w = map_option (\<lambda>x. snd (snd x)) (find (\<lambda>x. re_wfiid (snd (snd x)) = w) (rq_nodes q))"

definition live_addr :: "retry_queue \<Rightarrow> nat set" where
  "live_addr q = re_addr ` set (mm_vals (rq_nodes q))"

definition markers_ok :: "retry_queue \<Rightarrow> bool" where
  "markers_ok q \<longleftrightarrow> set (marker_set q) \<subseteq> live_addr q \<and> sorted (marker_set q) \<and> distinct (marker_set q)"

definition retry_inv :: "retry_queue \<Rightarrow> bool" where
  "retry_inv q \<longleftrightarrow> retry_core q \<and> markers_ok q"

lemma retry_core_parts:
  assumes "retry_core q"
  shows "mm_indexed re_wfiid (rwmap q) (rq_next q) (rq_nodes q)"
    "\<And>n t e. (n, t, e) \<in> set (rq_nodes q) \<Longrightarrow> t = re_mod e \<and> re_wfiid e \<noteq> 0"
    "inj_on (\<lambda>x. re_addr (snd (snd x))) (set (rq_nodes q))"
  using assms by (simp_all add: retry_core_def)

lemma retry_inv_new: "retry_inv new_RetryQueue"
  by (simp add: retry_inv_def retry_core_def markers_ok_def new_RetryQueue_def)

lemma in_live_addr: "a \<in> live_addr q \<longleftrightarrow> (\<exists>n t e. (n, t, e) \<in> set (rq_nodes q) \<and> re_addr e = a)"
  by (force simp: live_addr_def mm_vals_def)

lemma retry_content_Some:
  assumes "retry_core q"
  shows "retry_content q w = Some e \<longleftrightarrow> (\<exists>n t. (n, t, e) \<in> set (rq_nodes q) \<and> re_wfiid e = w)"
proof
  assume "retry_content q w = Some e"
  then obtain x where "find (\<lambda>x. re_wfiid (snd (snd x)) = w) (rq_nodes q) = Some x" "snd (snd x) = e"
    by (auto simp: retry_content_def)
  then have "x \<in> set (rq_nodes q)" "re_wfiid (snd (snd x)) = w" "snd (snd x) = e"
    by (auto simp: find_Some_iff)
  then show "\<exists>n t. (n, t, e) \<in> set (rq_nodes q) \<and> re_wfiid e = w" by (metis prod.collapse)
next
  assume "\<exists>n t. (n, t, e) \<in> set (rq_nodes q) \<and> re_wfiid e = w"
  then obtain n t where e: "(n, t, e) \<in> set (rq_nodes q)" "re_wfiid e = w" by blast
  then obtain x where x: "find (\<lambda>x. re_wfiid (snd (snd x)) = w) (rq_nodes q) = Some x"
    by (cases "find (\<lambda>x. re_wfiid (snd (snd x)) = w) (rq_nodes q)") (auto simp: find_None_iff)
  then have "x \<in> set (rq_nodes q)" "re_wfiid (snd (snd x)) = w"
    by (auto simp: find_Some_iff)
  with mm_indexed_unique[OF retry_core_parts(1)[OF assms] e(1), of "fst x" "fst (snd x)" "snd (snd x)"] e(2)
  have "snd (snd x) = e" by simp
  with x show "retry_content q w = Some e" by (simp add: retry_content_def)
qed

lemma retry_content_None:
  assumes "retry_core q"
  shows "retry_content q w = None \<longleftrightarrow> rwmap q w = None"
  using retry_content_Some[OF assms, of w] mm_indexed_Some[OF retry_core_parts(1)[OF assms], of w]
  by (metis not_None_eq)

lemma retry_map_eqI: "(\<And>w e. m w = Some e \<longleftrightarrow> m' w = Some e) \<Longrightarrow> m = m'"
  by (rule ext) (metis option.exhaust)

lemma markers_irrelevant [simp]:
  "retry_content (q\<lparr>marker_set := m\<rparr>) = retry_content q"
  "retry_core (q\<lparr>marker_set := m\<rparr>) = retry_core q"
  "live_addr (q\<lparr>marker_set := m\<rparr>) = live_addr q"
  by (simp_all add: retry_content_def retry_core_def live_addr_def fun_eq_iff)

lemma clear_markers_simps [simp]:
  "retry_content (clear_markers q) = retry_content q" "live_addr (clear_markers q) = live_addr q"
  "retry_core (clear_markers q) = retry_core q" "retry_inv (clear_markers q) = retry_core q"
  "rq_nodes (clear_markers q) = rq_nodes q" "rwmap (clear_markers q) = rwmap q"
  "marker_set (clear_markers q) = []"
  by (simp_all add: clear_markers_def retry_inv_def markers_ok_def)

section \<open>Adding\<close>

lemma retry_insert_new:
  assumes inv: "retry_core q" and w: "re_wfiid e \<noteq> 0" and new: "rwmap q (re_wfiid e) = None"
    and a: "re_addr e \<notin> live_addr q"
  shows "retry_core ((retry_insert (re_mod e) e q)\<lparr>rwmap := (rwmap q)(re_wfiid e \<mapsto> rq_next q)\<rparr>)"
    (is "retry_core ?q'")
    and "retry_content ((retry_insert (re_mod e) e q)\<lparr>rwmap := (rwmap q)(re_wfiid e \<mapsto> rq_next q)\<rparr>)
      = (retry_content q)(re_wfiid e \<mapsto> e)"
    and "live_addr ((retry_insert (re_mod e) e q)\<lparr>rwmap := (rwmap q)(re_wfiid e \<mapsto> rq_next q)\<rparr>)
      = insert (re_addr e) (live_addr q)"
proof -
  note inv' = retry_core_parts[OF inv]
  have ix: "mm_indexed re_wfiid (rwmap ?q') (rq_next ?q') (rq_nodes ?q')"
    using mm_indexed_insert[OF inv'(1) new, of "re_mod e"] by (simp add: retry_insert_def)
  have nodes: "set (rq_nodes ?q') = insert (rq_next q, re_mod e, e) (set (rq_nodes q))"
    by (simp add: retry_insert_def)
  show live: "live_addr ?q' = insert (re_addr e) (live_addr q)"
    by (simp add: live_addr_def retry_insert_def)
  have inj: "inj_on (\<lambda>x. re_addr (snd (snd x))) (set (rq_nodes ?q'))"
    unfolding nodes using inv'(3) a by (fastforce simp: inj_on_insert in_live_addr)
  show inv1: "retry_core ?q'"
    unfolding retry_core_def
  proof (intro conjI allI impI)
    fix n t e'
    assume "(n, t, e') \<in> set (rq_nodes ?q')"
    then have "(n, t, e') = (rq_next q, re_mod e, e) \<or> (n, t, e') \<in> set (rq_nodes q)"
      unfolding nodes by simp
    with inv'(2) w show "t = re_mod e'" "re_wfiid e' \<noteq> 0" by auto
  qed (rule ix, rule inj)
  show "retry_content ?q' = (retry_content q)(re_wfiid e \<mapsto> e)"
  proof (rule retry_map_eqI)
    fix v e'
    show "retry_content ?q' v = Some e' \<longleftrightarrow> ((retry_content q)(re_wfiid e \<mapsto> e)) v = Some e'"
      unfolding retry_content_Some[OF inv1] nodes
      using mm_indexed_none[OF inv'(1) new] by (auto simp: retry_content_Some[OF inv])
  qed
qed

lemma retry_erase:
  assumes inv: "retry_core q" and x: "(n, t, e) \<in> set (rq_nodes q)"
  shows "retry_core (q\<lparr>rq_nodes := mm_erase n (rq_nodes q), rwmap := (rwmap q)(re_wfiid e := None)\<rparr>)"
    (is "retry_core ?q'")
    and "retry_content (q\<lparr>rq_nodes := mm_erase n (rq_nodes q), rwmap := (rwmap q)(re_wfiid e := None)\<rparr>)
      = (retry_content q)(re_wfiid e := None)"
    and "live_addr (q\<lparr>rq_nodes := mm_erase n (rq_nodes q), rwmap := (rwmap q)(re_wfiid e := None)\<rparr>)
      = live_addr q - {re_addr e}"
proof -
  note inv' = retry_core_parts[OF inv]
  have ix: "mm_indexed re_wfiid (rwmap ?q') (rq_next ?q') (rq_nodes ?q')"
    using mm_indexed_erase[OF inv'(1) x] by simp
  have dist: "distinct (mm_ids (rq_nodes q))" using inv'(1) by (simp add: mm_indexed_def mm_ok_def)
  have other: "re_addr e' = re_addr e \<longleftrightarrow> m = n" if "(m, t', e') \<in> set (rq_nodes q)" for m t' e'
    using inj_onD[OF inv'(3), of "(m, t', e')" "(n, t, e)"] x that
      mm_node_unique[OF dist x, of "(t', e')"] by auto
  show live: "live_addr ?q' = live_addr q - {re_addr e}"
  proof (rule set_eqI)
    fix a
    have "(\<exists>n' t' e'. (n', t', e') \<in> set (rq_nodes q) \<and> n' \<noteq> n \<and> re_addr e' = a) \<longleftrightarrow>
        (\<exists>n' t' e'. (n', t', e') \<in> set (rq_nodes q) \<and> re_addr e' = a) \<and> a \<noteq> re_addr e"
      using other by metis
    then show "a \<in> live_addr ?q' \<longleftrightarrow> a \<in> live_addr q - {re_addr e}"
      by (simp add: in_live_addr)
  qed
  show inv1: "retry_core ?q'"
    unfolding retry_core_def
    using ix inv'(2) by (auto intro: inj_on_subset[OF inv'(3)])
  show "retry_content ?q' = (retry_content q)(re_wfiid e := None)"
  proof (rule retry_map_eqI)
    fix v e'
    have "(m, t', e') \<in> set (rq_nodes q) \<Longrightarrow> m = n \<longleftrightarrow> re_wfiid e' = re_wfiid e" for m t'
      using mm_indexed_unique[OF inv'(1) x, of m t' e'] mm_node_unique[OF dist x, of "(t', e')"] by auto
    then show "retry_content ?q' v = Some e' \<longleftrightarrow> ((retry_content q)(re_wfiid e := None)) v = Some e'"
      unfolding retry_content_Some[OF inv1] by (auto simp: retry_content_Some[OF inv])
  qed
qed

text \<open>What \<open>add\<close> leaves queued for a workflow instance: the entry with the earliest time.\<close>

definition retry_upd :: "nat \<Rightarrow> int \<Rightarrow> int \<Rightarrow> parent_info \<Rightarrow> retry_entry option \<Rightarrow> retry_entry" where
  "retry_upd a w t p old = (case old of
       None \<Rightarrow> \<lparr>re_addr = a, re_wfiid = w, re_mod = t, re_pi = p\<rparr>
     | Some e \<Rightarrow> if t < re_mod e then e\<lparr>re_mod := t\<rparr> else e)"

lemma retry_add_ok:
  assumes inv: "retry_inv q" and w: "w \<noteq> 0" and a: "a \<notin> live_addr q"
  shows "\<exists>q'. retry_add a w t p q =
      Inr (case retry_content q w of None \<Rightarrow> 0 | Some e \<Rightarrow> if t < re_mod e then 0 else -1, q') \<and>
    retry_inv q' \<and> retry_content q' = (retry_content q)(w \<mapsto> retry_upd a w t p (retry_content q w)) \<and>
    marker_set q' = marker_set q \<and> live_addr q \<subseteq> live_addr q' \<and>
    live_addr q' \<subseteq> insert a (live_addr q)"
proof (cases "rwmap q w")
  case None
  let ?e = "\<lparr>re_addr = a, re_wfiid = w, re_mod = t, re_pi = p\<rparr>"
  let ?q' = "(retry_insert t ?e q)\<lparr>rwmap := (rwmap q)(w \<mapsto> rq_next q)\<rparr>"
  from inv have core: "retry_core q" and mk: "markers_ok q" by (simp_all add: retry_inv_def)
  have new: "rwmap q (re_wfiid ?e) = None" "re_wfiid ?e \<noteq> 0" "re_addr ?e \<notin> live_addr q"
    using None w a by simp_all
  note ins = retry_insert_new[OF core new(2,1,3), simplified]
  have m: "marker_set ?q' = marker_set q" by (simp add: retry_insert_def)
  have "markers_ok ?q'" using mk ins(3) m by (auto simp: markers_ok_def)
  with ins m None w retry_content_None[OF core, of w] show ?thesis
    by (auto simp: retry_add_def retry_inv_def retry_upd_def)
next
  case (Some n)
  from inv have core: "retry_core q" and mk: "markers_ok q" by (simp_all add: retry_inv_def)
  from mm_indexed_find[OF retry_core_parts(1)[OF core] Some] obtain u e where
    e: "mm_find n (rq_nodes q) = Some (u, e)" "(n, u, e) \<in> set (rq_nodes q)" "re_wfiid e = w" by blast
  have c: "retry_content q w = Some e" using retry_content_Some[OF core, of w e] e by blast
  show ?thesis
  proof (cases "t < re_mod e")
    case False
    have "(retry_content q)(w \<mapsto> e) = retry_content q" using c by auto
    with False Some e c inv show ?thesis
      by (simp add: retry_add_def retry_upd_def subset_insertI)
  next
    case True
    let ?q1 = "q\<lparr>rq_nodes := mm_erase n (rq_nodes q), rwmap := (rwmap q)(w := None)\<rparr>"
    let ?e' = "e\<lparr>re_mod := t\<rparr>"
    let ?q' = "(retry_insert t ?e' (q\<lparr>rq_nodes := mm_erase n (rq_nodes q)\<rparr>))\<lparr>rwmap := (rwmap q)(w \<mapsto> rq_next q)\<rparr>"
    note er = retry_erase[OF core e(2), unfolded e(3)]
    have new: "re_wfiid ?e' \<noteq> 0" "rwmap ?q1 (re_wfiid ?e') = None" "re_addr ?e' \<notin> live_addr ?q1"
      using w e(3) er(3) by simp_all
    note ins = retry_insert_new[OF er(1) new]
    have q': "?q' = (retry_insert (re_mod ?e') ?e' ?q1)\<lparr>rwmap := (rwmap ?q1)(re_wfiid ?e' \<mapsto> rq_next ?q1)\<rparr>"
      using e(3) by (simp add: retry_insert_def)
    have live: "live_addr ?q' = live_addr q"
    proof -
      have "re_addr e \<in> live_addr q" using e(2) in_live_addr by blast
      then show ?thesis using ins(3) er(3) unfolding q' by auto
    qed
    have cont: "retry_content ?q' = (retry_content q)(w \<mapsto> ?e')"
      using ins(2) e(3) unfolding q' er(2) by simp
    have m: "marker_set ?q' = marker_set q" by (simp add: retry_insert_def)
    have "retry_core ?q'" using ins(1) unfolding q' .
    moreover have "markers_ok ?q'" using mk live m by (simp add: markers_ok_def)
    moreover have "retry_add a w t p q = Inr (0, ?q')"
      using Some e True by (simp add: retry_add_def)
    ultimately show ?thesis using c True live cont m by (auto simp: retry_inv_def retry_upd_def)
  qed
qed

section \<open>Removing and delivering\<close>

text \<open>The caller of \<^verbatim>\<open>remove_workflow_instance\<close> clears the markers in the same critical section.\<close>

lemma retry_remove_ok:
  assumes inv: "retry_inv q"
  shows "\<exists>q'. retry_remove_workflow_instance w q = Inr q' \<and> retry_inv (clear_markers q') \<and>
    retry_content (clear_markers q') = (retry_content q)(w := None)"
proof (cases "rwmap q w")
  case None
  have core: "retry_core q" using inv by (simp add: retry_inv_def)
  have "(retry_content q)(w := None) = retry_content q"
    using retry_content_None[OF core, of w] None by auto
  with None core show ?thesis
    by (simp add: retry_remove_workflow_instance_def)
next
  case (Some n)
  have core: "retry_core q" using inv by (simp add: retry_inv_def)
  from mm_indexed_find[OF retry_core_parts(1)[OF core] Some] obtain u e where
    e: "mm_find n (rq_nodes q) = Some (u, e)" "(n, u, e) \<in> set (rq_nodes q)" "re_wfiid e = w" by blast
  note er = retry_erase[OF core e(2), unfolded e(3)]
  with Some e show ?thesis
    by (simp add: retry_remove_workflow_instance_def)
qed

definition free_entry :: "(int \<Rightarrow> bool) \<Rightarrow> retry_queue \<Rightarrow> retry_entry \<Rightarrow> bool" where
  "free_entry busy q e \<longleftrightarrow> retry_content q (re_wfiid e) = Some e \<and> \<not> busy (re_wfiid e) \<and>
     re_addr e \<notin> set (marker_set q)"

lemma first_free_Some:
  assumes inv: "retry_inv q" and f: "first_free busy q = Some x"
  shows "x \<in> set (rq_nodes q) \<and> fst (snd x) = re_mod (snd (snd x)) \<and> free_entry busy q (snd (snd x)) \<and>
    (\<forall>e. free_entry busy q e \<longrightarrow> re_mod (snd (snd x)) \<le> re_mod e)"
proof -
  have core: "retry_core q" using inv by (simp add: retry_inv_def)
  note c = retry_core_parts[OF core]
  let ?P = "\<lambda>x. \<not> busy (re_wfiid (snd (snd x))) \<and> re_addr (snd (snd x)) \<notin> set (marker_set q)"
  from f obtain i where i: "i < length (rq_nodes q)" "?P (rq_nodes q ! i)" "rq_nodes q ! i = x"
    "\<forall>j<i. \<not> ?P (rq_nodes q ! j)"
    by (auto simp: first_free_def find_Some_iff)
  have x: "x \<in> set (rq_nodes q)" using i(1,3) nth_mem by fast
  then have xin: "(fst x, fst (snd x), snd (snd x)) \<in> set (rq_nodes q)" by simp
  have key: "fst (snd x) = re_mod (snd (snd x))" using c(2)[OF xin] by blast
  have free: "free_entry busy q (snd (snd x))"
  proof -
    have "retry_content q (re_wfiid (snd (snd x))) = Some (snd (snd x))"
      using retry_content_Some[OF core, of "re_wfiid (snd (snd x))" "snd (snd x)"] xin by blast
    with i(2,3) show ?thesis by (simp add: free_entry_def)
  qed
  have "re_mod (snd (snd x)) \<le> re_mod e" if e: "free_entry busy q e" for e
  proof -
    from e retry_content_Some[OF core, of "re_wfiid e" e] obtain n t where
      nt: "(n, t, e) \<in> set (rq_nodes q)" by (auto simp: free_entry_def)
    then obtain k where k: "k < length (rq_nodes q)" "rq_nodes q ! k = (n, t, e)"
      by (metis in_set_conv_nth)
    have "?P (rq_nodes q ! k)" using e k(2) by (simp add: free_entry_def)
    with i(4) have "i \<le> k" using not_less by blast
    moreover have "sorted (mm_keys (rq_nodes q))" using c(1) by (simp add: mm_indexed_def mm_ok_def)
    ultimately have "mm_keys (rq_nodes q) ! i \<le> mm_keys (rq_nodes q) ! k"
      using k(1) sorted_nth_mono[of "mm_keys (rq_nodes q)" i k] by (simp add: mm_keys_def)
    then have "fst (snd x) \<le> t" using i(1,3) k by (simp add: mm_keys_def)
    with key c(2)[OF nt] show ?thesis by simp
  qed
  with x key free show ?thesis by blast
qed

lemma first_free_None:
  assumes inv: "retry_inv q"
  shows "first_free busy q = None \<longleftrightarrow> (\<forall>e. \<not> free_entry busy q e)"
proof
  have core: "retry_core q" using inv by (simp add: retry_inv_def)
  assume none: "first_free busy q = None"
  show "\<forall>e. \<not> free_entry busy q e"
  proof (intro allI notI)
    fix e
    assume e: "free_entry busy q e"
    then obtain n t where "(n, t, e) \<in> set (rq_nodes q)"
      using retry_content_Some[OF core, of "re_wfiid e" e] by (auto simp: free_entry_def)
    with none e show False by (auto simp: first_free_def find_None_iff free_entry_def)
  qed
next
  assume "\<forall>e. \<not> free_entry busy q e"
  then show "first_free busy q = None"
    using first_free_Some[OF inv, of busy] by (metis not_None_eq)
qed

lemma get_event_ok:
  assumes inv: "retry_inv q" and x: "x \<in> set (rq_nodes q)" and free: "free_entry busy q (snd (snd x))"
  shows "\<exists>q'. get_event x q = Inr ((re_wfiid (snd (snd x)), retry_get_hash (snd (snd x))), q') \<and>
    retry_inv q' \<and> retry_content q' = (retry_content q)(re_wfiid (snd (snd x)) := None) \<and>
    marker_set q' = marker_set q"
proof -
  obtain n t e where xe: "x = (n, t, e)" by (cases x) auto
  have core: "retry_core q" and mk: "markers_ok q" using inv by (simp_all add: retry_inv_def)
  have xin: "(n, t, e) \<in> set (rq_nodes q)" using x xe by simp
  note er = retry_erase[OF core xin]
  have "rwmap q (re_wfiid e) \<noteq> None"
    using mm_indexed_Some[OF retry_core_parts(1)[OF core], of "re_wfiid e" n] xin by auto
  moreover have "markers_ok (q\<lparr>rq_nodes := mm_erase n (rq_nodes q), rwmap := (rwmap q)(re_wfiid e := None)\<rparr>)"
    using mk er(3) free xe by (auto simp: markers_ok_def free_entry_def)
  ultimately show ?thesis
    using er(1,2) xe by (simp add: get_event_def retry_inv_def Let_def)
qed

end
