(* ===== verification/Backend_Laws.thy ===== *)
theory Backend_Laws
  imports Backend_Queues "HOL-Library.Multiset"
begin

text \<open>
  What the backend queues keep and promise.

  \<^item> \<open>bq_shape\<close>, \<open>bq_indexed\<close>: the queue is ordered, has no empty priority and no
    node number twice, and the index of the queue holds exactly the nodes of the queue.
  \<^item> the effect of \<open>bq_insert\<close>, \<open>bq_update\<close> and \<open>take_ready\<close> on both;
  \<^item> the locale \<open>backend_adder\<close> and its three interpretations \<open>evq\<close>, \<open>asq\<close>,
    \<open>swq\<close>.
\<close>

section \<open>Shape and index\<close>

definition bq_shape :: "'a backend_queue_scheme \<Rightarrow> bool" where
  "bq_shape q \<longleftrightarrow> om_ok (bq_map q) \<and>
     (\<forall>x\<in>set (bq_map q). snd x \<noteq> [] \<and> sorted (mm_keys (snd x))) \<and>
     distinct (mm_ids (bq_nodes q)) \<and> (\<forall>n\<in>set (mm_ids (bq_nodes q)). n < bq_next q)"

definition bq_indexed :: "(backend_entry \<Rightarrow> 'k) \<Rightarrow> ('k \<Rightarrow> nat option)
    \<Rightarrow> 'a backend_queue_scheme \<Rightarrow> bool" where
  "bq_indexed key idx q \<longleftrightarrow> bq_shape q \<and>
     (\<forall>k n. idx k = Some n \<longleftrightarrow> (\<exists>t e. (n, t, e) \<in> set (bq_nodes q) \<and> key e = k))"

abbreviation map_nodes :: "(int, backend_entry nodes) omap \<Rightarrow> backend_entry nodes" where
  "map_nodes m \<equiv> concat (map snd m)"

lemma mset_mm_insert: "mset (mm_insert n k v xs) = add_mset (n, k, v) (mset xs)"
  by (induction xs) auto

lemma mset_map_nodes_put:
  assumes "om_ok m"
  shows "mset (map_nodes (om_put p (mm_insert n t e (case map_of m p of None \<Rightarrow> [] | Some ns \<Rightarrow> ns)) m))
    = add_mset (n, t, e) (mset (map_nodes m))"
  using assms
proof (induction m)
  case Nil
  then show ?case by simp
next
  case (Cons x m)
  have "map_of m p = None" if "p \<le> fst x"
    using that Cons.prems by (force simp: om_ok_Cons map_of_eq_None_iff)
  with Cons show ?case
    by (cases x) (auto simp: om_ok_Cons mset_mm_insert)
qed

lemma mset_bq_insert:
  "om_ok (bq_map q) \<Longrightarrow>
     mset (bq_nodes (bq_insert prio t e q)) = add_mset (bq_next q, t, e) (mset (bq_nodes q))"
  using mset_map_nodes_put by (simp add: bq_nodes_def bq_insert_def prio_nodes_def)

lemma set_bq_insert:
  assumes "om_ok (bq_map q)"
  shows "set (bq_nodes (bq_insert prio t e q)) = insert (bq_next q, t, e) (set (bq_nodes q))"
proof -
  from mset_bq_insert[OF assms]
  have "set_mset (mset (bq_nodes (bq_insert prio t e q))) =
      set_mset (add_mset (bq_next q, t, e) (mset (bq_nodes q)))"
    by simp
  then show ?thesis by simp
qed

lemma mset_mm_ids: "mset xs = add_mset x (mset ys) \<Longrightarrow> mset (mm_ids xs) = mset (fst x # mm_ids ys)"
  by (simp add: mm_ids_def)

lemma bq_insert_fields [simp]:
  "bq_next (bq_insert prio t e q) = Suc (bq_next q)"
  "bq_waiting (bq_insert prio t e q) = bq_waiting q"
  "bq_cond (bq_insert prio t e q) = bq_cond q"
  by (simp_all add: bq_insert_def)

lemma bq_shape_insert:
  assumes "bq_shape q"
  shows "bq_shape (bq_insert prio t e q)"
proof -
  from assms have ok: "om_ok (bq_map q)" by (simp add: bq_shape_def)
  have sorted_put: "\<forall>x\<in>set (bq_map (bq_insert prio t e q)). snd x \<noteq> [] \<and> sorted (mm_keys (snd x))"
  proof
    fix x
    assume "x \<in> set (bq_map (bq_insert prio t e q))"
    then have "x = (prio, mm_insert (bq_next q) t e (prio_nodes prio q)) \<or> x \<in> set (bq_map q)"
      using set_om_put by (fastforce simp: bq_insert_def)
    moreover have "sorted (mm_keys (prio_nodes prio q))"
      using assms by (fastforce simp: prio_nodes_def bq_shape_def dest: map_of_SomeD split: option.splits)
    ultimately show "snd x \<noteq> [] \<and> sorted (mm_keys (snd x))"
      using assms by (auto simp: bq_shape_def sorted_mm_insert)
  qed
  from mset_mm_ids[OF mset_bq_insert[OF ok, of prio t e]]
  have ids: "mset (mm_ids (bq_nodes (bq_insert prio t e q))) = mset (bq_next q # mm_ids (bq_nodes q))"
    by simp
  have "distinct (mm_ids (bq_nodes (bq_insert prio t e q)))"
    using mset_eq_imp_distinct_iff[OF ids] assms by (auto simp: bq_shape_def)
  moreover have "set (mm_ids (bq_nodes (bq_insert prio t e q))) = insert (bq_next q) (set (mm_ids (bq_nodes q)))"
    using mset_eq_setD[OF ids] by simp
  ultimately show ?thesis
    using assms sorted_put by (auto simp: bq_shape_def bq_insert_def less_SucI)
qed

lemma bq_shape_same:
  "bq_map q' = bq_map q \<Longrightarrow> bq_next q' = bq_next q \<Longrightarrow> bq_shape q' = bq_shape q"
  by (simp add: bq_shape_def bq_nodes_def)

lemma bq_indexed_same:
  "bq_map q' = bq_map q \<Longrightarrow> bq_next q' = bq_next q \<Longrightarrow>
     bq_indexed key idx q' = bq_indexed key idx q"
  by (simp add: bq_indexed_def bq_shape_def bq_nodes_def)

lemma bq_indexed_insert:
  assumes ix: "bq_indexed key idx q" and new: "idx (key e) = None"
  shows "bq_indexed key (idx(key e \<mapsto> bq_next q)) (bq_insert prio t e q)"
proof -
  from ix have ok: "om_ok (bq_map q)" and lt: "\<And>n t e. (n, t, e) \<in> set (bq_nodes q) \<Longrightarrow> n < bq_next q"
    by (force simp: bq_indexed_def bq_shape_def mm_ids_def)+
  from ix have eq: "\<And>k n. idx k = Some n \<longleftrightarrow> (\<exists>t e. (n, t, e) \<in> set (bq_nodes q) \<and> key e = k)"
    by (simp add: bq_indexed_def)
  with new have none: "(n, t', e') \<in> set (bq_nodes q) \<Longrightarrow> key e' \<noteq> key e" for n t' e'
    by (metis option.distinct(1))
  show ?thesis
    unfolding bq_indexed_def
    using bq_shape_insert[of q prio t e] ix
    by (auto simp: bq_indexed_def set_bq_insert[OF ok] eq dest: lt none)
qed

lemma bq_nodes_update: "bq_nodes (bq_update n f q) = mm_update n f (bq_nodes q)"
  by (simp add: bq_nodes_def bq_update_def mm_update_def map_concat comp_def)

lemma bq_update_fields [simp]:
  "bq_next (bq_update n f q) = bq_next q"
  "bq_waiting (bq_update n f q) = bq_waiting q"
  "bq_cond (bq_update n f q) = bq_cond q"
  by (simp_all add: bq_update_def)

lemma bq_shape_update [simp]: "bq_shape (bq_update n f q) = bq_shape q"
proof -
  have "om_ok (bq_map (bq_update n f q)) = om_ok (bq_map q)"
    by (simp add: bq_update_def om_ok_def comp_def)
  moreover have "(\<forall>x\<in>set (bq_map (bq_update n f q)). snd x \<noteq> [] \<and> sorted (mm_keys (snd x))) =
      (\<forall>x\<in>set (bq_map q). snd x \<noteq> [] \<and> sorted (mm_keys (snd x)))"
    by (simp add: bq_update_def)
  ultimately show ?thesis
    by (simp add: bq_shape_def bq_nodes_update)
qed

lemma bq_indexed_update:
  assumes ix: "bq_indexed key idx q"
    and same: "\<And>t e. (n, t, e) \<in> set (bq_nodes q) \<Longrightarrow> key (f e) = key e"
  shows "bq_indexed key idx (bq_update n f q)"
proof -
  have "(\<exists>t e. (m, t, e) \<in> set (bq_nodes (bq_update n f q)) \<and> key e = k) =
      (\<exists>t e. (m, t, e) \<in> set (bq_nodes q) \<and> key e = k)" for m k
    unfolding bq_nodes_update in_mm_update using same by metis
  with ix show ?thesis by (simp add: bq_indexed_def)
qed

text \<open>A key in the index leads to its node, and every node is found through the index.\<close>

lemma bq_indexed_find:
  assumes "bq_indexed key idx q" and "idx k = Some n"
  obtains t e where "mm_find n (bq_nodes q) = Some (t, e)" "(n, t, e) \<in> set (bq_nodes q)" "key e = k"
proof -
  from assms obtain t e where te: "(n, t, e) \<in> set (bq_nodes q)" "key e = k"
    by (auto simp: bq_indexed_def)
  moreover from assms have "distinct (mm_ids (bq_nodes q))"
    by (simp add: bq_indexed_def bq_shape_def)
  ultimately show ?thesis using that by (auto simp: mm_find_in_set)
qed

lemma bq_indexed_unique:
  assumes ix: "bq_indexed key idx q"
    and "(n, t, e) \<in> set (bq_nodes q)" "(n', t', e') \<in> set (bq_nodes q)" "key e = key e'"
  shows "n = n' \<and> t = t' \<and> e = e'"
proof -
  from ix assms(2) have 1: "idx (key e) = Some n"
    unfolding bq_indexed_def by blast
  from ix assms(3) have 2: "idx (key e') = Some n'"
    unfolding bq_indexed_def by blast
  from 1 2 assms(4) have "n = n'" by simp
  moreover from ix have "distinct (mm_ids (bq_nodes q))" by (simp add: bq_indexed_def bq_shape_def)
  ultimately show ?thesis
    using assms(2,3) mm_node_unique[of "bq_nodes q" n "(t, e)" "(t', e')"] by simp
qed

lemma bq_indexed_keys: "bq_indexed key idx q \<Longrightarrow> dom idx = key ` set (bq_entries q)"
proof -
  assume ix: "bq_indexed key idx q"
  have "k \<in> dom idx \<longleftrightarrow> k \<in> key ` set (bq_entries q)" for k
    using ix unfolding bq_indexed_def bq_entries_def mm_vals_def dom_def
    by (auto simp: image_iff) force+
  then show ?thesis by blast
qed

lemma bq_indexed_distinct:
  assumes ix: "bq_indexed key idx q"
  shows "distinct (map key (bq_entries q))"
proof -
  have d: "distinct (bq_nodes q)"
    using ix by (simp add: bq_indexed_def bq_shape_def mm_ids_def distinct_map)
  have "inj_on (\<lambda>x. key (snd (snd x))) (set (bq_nodes q))"
    by (rule inj_onI) (metis bq_indexed_unique[OF ix] prod.collapse)
  with d have "distinct (map (\<lambda>x. key (snd (snd x))) (bq_nodes q))"
    by (simp add: distinct_map)
  then show ?thesis by (simp add: bq_entries_def mm_vals_def comp_def)
qed

lemma bq_indexed_empty:
  "bq_map q = [] \<Longrightarrow> bq_indexed key Map.empty q"
  by (simp add: bq_indexed_def bq_shape_def bq_nodes_def)

section \<open>What a queue holds for a key\<close>

definition bq_content :: "(backend_entry \<Rightarrow> 'k) \<Rightarrow> (backend_entry \<Rightarrow> 'c)
    \<Rightarrow> 'a backend_queue_scheme \<Rightarrow> 'k \<Rightarrow> 'c option" where
  "bq_content key f q = map_of (map (\<lambda>e. (key e, f e)) (bq_entries q))"

lemma in_bq_entries: "e \<in> set (bq_entries q) \<longleftrightarrow> (\<exists>n t. (n, t, e) \<in> set (bq_nodes q))"
  by (force simp: bq_entries_def mm_vals_def)

lemma bq_content_Some:
  assumes "bq_indexed key idx q"
  shows "bq_content key f q k = Some c \<longleftrightarrow> (\<exists>n t e. (n, t, e) \<in> set (bq_nodes q) \<and> key e = k \<and> f e = c)"
proof -
  have "distinct (map fst (map (\<lambda>e. (key e, f e)) (bq_entries q)))"
    using bq_indexed_distinct[OF assms] by (simp add: comp_def)
  then have "bq_content key f q k = Some c \<longleftrightarrow> (k, c) \<in> set (map (\<lambda>e. (key e, f e)) (bq_entries q))"
    unfolding bq_content_def by (rule map_of_eq_Some_iff)
  moreover have "(k, c) \<in> set (map (\<lambda>e. (key e, f e)) (bq_entries q)) \<longleftrightarrow>
      (\<exists>e. e \<in> set (bq_entries q) \<and> key e = k \<and> f e = c)"
    by auto
  ultimately show ?thesis
    unfolding in_bq_entries by blast
qed

lemma bq_content_None:
  "bq_indexed key idx q \<Longrightarrow> bq_content key f q k = None \<longleftrightarrow> idx k = None"
  by (metis bq_content_Some bq_indexed_def not_None_eq)

lemma bq_content_same: "bq_map q' = bq_map q \<Longrightarrow> bq_content key f q' = bq_content key f q"
  by (simp add: bq_content_def bq_entries_def bq_nodes_def)

lemma map_eqI_Some: "(\<And>k c. m k = Some c \<longleftrightarrow> m' k = Some c) \<Longrightarrow> m = m'"
  by (rule ext) (metis option.exhaust)

lemma bq_content_insert:
  assumes ix: "bq_indexed key idx q" and new: "idx (key e) = None"
  shows "bq_content key f (bq_insert prio t e q) = (bq_content key f q)(key e \<mapsto> f e)"
proof (rule map_eqI_Some)
  fix k c
  have ok: "om_ok (bq_map q)" using ix by (simp add: bq_indexed_def bq_shape_def)
  have none: "(n, t', e') \<in> set (bq_nodes q) \<Longrightarrow> key e' \<noteq> key e" for n t' e'
    using ix new by (metis bq_indexed_def option.distinct(1))
  show "bq_content key f (bq_insert prio t e q) k = Some c \<longleftrightarrow>
      ((bq_content key f q)(key e \<mapsto> f e)) k = Some c"
    unfolding bq_content_Some[OF bq_indexed_insert[OF ix new]] set_bq_insert[OF ok]
    using none by (auto simp: bq_content_Some[OF ix])
qed

lemma bq_content_update:
  assumes ix: "bq_indexed key idx q" and e: "(n, t, e) \<in> set (bq_nodes q)" and k: "key e' = key e"
  shows "bq_content key f (bq_update n (\<lambda>_. e') q) = (bq_content key f q)(key e \<mapsto> f e')"
proof (rule map_eqI_Some)
  fix k c
  have d: "distinct (mm_ids (bq_nodes q))" using ix by (simp add: bq_indexed_def bq_shape_def)
  have same: "(n, t1, e1) \<in> set (bq_nodes q) \<Longrightarrow> e1 = e" for t1 e1
    using mm_node_unique[OF d e, of "(t1, e1)"] by simp
  have other: "(m, t1, e1) \<in> set (bq_nodes q) \<Longrightarrow> key e1 = key e \<Longrightarrow> m = n" for m t1 e1
    using bq_indexed_unique[OF ix _ e] by blast
  have ix': "bq_indexed key idx (bq_update n (\<lambda>_. e') q)"
    by (rule bq_indexed_update[OF ix]) (use same k in auto)
  let ?L = "\<exists>m t1 e1. (\<exists>e0. (m, t1, e0) \<in> set (bq_nodes q) \<and> e1 = (if m = n then e' else e0))
    \<and> key e1 = k \<and> f e1 = c"
  have "?L \<longleftrightarrow> ((bq_content key f q)(key e \<mapsto> f e')) k = Some c"
  proof (cases "k = key e")
    case True
    have "?L \<longleftrightarrow> f e' = c" using e k other True by metis
    with True show ?thesis by simp
  next
    case False
    have "?L \<longleftrightarrow> (\<exists>m t1 e1. (m, t1, e1) \<in> set (bq_nodes q) \<and> key e1 = k \<and> f e1 = c)"
      using k same False by metis
    with False show ?thesis by (simp add: bq_content_Some[OF ix])
  qed
  then show "bq_content key f (bq_update n (\<lambda>_. e') q) k = Some c \<longleftrightarrow>
      ((bq_content key f q)(key e \<mapsto> f e')) k = Some c"
    unfolding bq_content_Some[OF ix'] bq_nodes_update in_mm_update .
qed

section \<open>Taking the first ready entry\<close>

lemma find_split:
  "find P xs = Some x \<Longrightarrow> \<exists>ys zs. xs = ys @ x # zs \<and> P x \<and> (\<forall>y\<in>set ys. \<not> P y)"
proof (induction xs)
  case Nil
  then show ?case by simp
next
  case (Cons a xs)
  show ?case
  proof (cases "P a")
    case True
    with Cons.prems have "a # xs = [] @ x # xs" "P x" by auto
    then show ?thesis by fastforce
  next
    case False
    with Cons obtain ys zs where "xs = ys @ x # zs" "P x" "\<forall>y\<in>set ys. \<not> P y" by auto
    with False have "a # xs = (a # ys) @ x # zs" "P x" "\<forall>y\<in>set (a # ys). \<not> P y" by auto
    then show ?thesis by blast
  qed
qed

lemma mm_erase_id: "n \<notin> set (mm_ids xs) \<Longrightarrow> mm_erase n xs = xs"
  by (induction xs) auto

lemma mm_erase_append [simp]: "mm_erase n (xs @ ys) = mm_erase n xs @ mm_erase n ys"
  by (simp add: mm_erase_def)

lemma mm_erase_split:
  "distinct (mm_ids (xs @ x # ys)) \<Longrightarrow> mm_erase (fst x) (xs @ x # ys) = xs @ ys"
  by (auto simp: mm_erase_id)

lemma take_ready_Some:
  assumes "take_ready b m = Some (e, m')" and "distinct (mm_ids (map_nodes m))"
  shows "\<exists>pre n t post. map_nodes m = pre @ (n, t, e) # post \<and> map_nodes m' = pre @ post \<and>
    (\<forall>x\<in>set pre. b (entry_wfiid (snd (snd x)))) \<and> \<not> b (entry_wfiid e)"
  using assms
proof (induction m arbitrary: m')
  case Nil
  then show ?case by simp
next
  case (Cons x m)
  show ?case
  proof (cases "find (\<lambda>n. \<not> b (entry_wfiid (snd (snd n)))) (snd x)")
    case (Some n)
    from find_split[OF Some] obtain ys zs where ys: "snd x = ys @ n # zs"
        "\<not> b (entry_wfiid (snd (snd n)))" "\<forall>y\<in>set ys. b (entry_wfiid (snd (snd y)))"
      by auto
    then have er: "mm_erase (fst n) (snd x) = ys @ zs"
      using Cons.prems(2) mm_erase_split[of ys n zs] by auto
    have n: "n = (fst n, fst (snd n), e)" and m': "map_nodes m' = ys @ zs @ map_nodes m"
      using Cons.prems(1) Some er by (auto simp: Let_def split: if_splits)
    have "map_nodes (x # m) = ys @ (fst n, fst (snd n), e) # (zs @ map_nodes m)"
      using ys n by (metis append.assoc append_Cons concat.simps(2) list.simps(9))
    moreover have "\<not> b (entry_wfiid e)" using ys(2) n by (metis snd_conv)
    ultimately show ?thesis using ys(3) m' by blast
  next
    case None
    then have all: "\<forall>y\<in>set (snd x). b (entry_wfiid (snd (snd y)))"
      unfolding find_None_iff by blast
    from None Cons.prems(1) obtain m1 where m1: "take_ready b m = Some (e, m1)" "m' = x # m1"
      by auto
    from Cons.IH[OF m1(1)] Cons.prems(2) obtain pre n t post where
      "map_nodes m = pre @ (n, t, e) # post" "map_nodes m1 = pre @ post"
      "\<forall>x\<in>set pre. b (entry_wfiid (snd (snd x)))" "\<not> b (entry_wfiid e)"
      by auto
    with m1 all have "map_nodes (x # m) = (snd x @ pre) @ (n, t, e) # post"
      "map_nodes m' = (snd x @ pre) @ post"
      "\<forall>y\<in>set (snd x @ pre). b (entry_wfiid (snd (snd y)))" "\<not> b (entry_wfiid e)"
      by auto
    then show ?thesis by blast
  qed
qed

lemma take_ready_None:
  "take_ready b m = None \<longleftrightarrow> (\<forall>x\<in>set (map_nodes m). b (entry_wfiid (snd (snd x))))"
proof (induction m)
  case Nil
  then show ?case by simp
next
  case (Cons x m)
  show ?case
  proof (cases "find (\<lambda>n. \<not> b (entry_wfiid (snd (snd n)))) (snd x)")
    case (Some n)
    from find_split[OF Some] obtain ys zs where
      "snd x = ys @ n # zs" "\<not> b (entry_wfiid (snd (snd n)))" by blast
    then have "n \<in> set (map_nodes (x # m))" "\<not> b (entry_wfiid (snd (snd n)))" by auto
    with Some show ?thesis by (auto simp: Let_def simp del: set_concat)
  next
    case None
    then have "\<forall>y\<in>set (snd x). b (entry_wfiid (snd (snd y)))"
      unfolding find_None_iff by blast
    with None Cons.IH show ?thesis by (simp add: ball_Un)
  qed
qed

lemma take_ready_shape:
  assumes "take_ready b m = Some (e, m')" and "om_ok m"
    and "\<forall>x\<in>set m. snd x \<noteq> [] \<and> sorted (mm_keys (snd x))"
  shows "om_ok m' \<and> (\<forall>x\<in>set m'. snd x \<noteq> [] \<and> sorted (mm_keys (snd x))) \<and> fst ` set m' \<subseteq> fst ` set m"
  using assms
proof (induction m arbitrary: m')
  case Nil
  then show ?case by simp
next
  case (Cons x m)
  have er: "sorted (mm_keys (mm_erase n (snd x)))" for n
  proof -
    have "sorted (mm_keys (snd x))" using Cons.prems(3) by simp
    then show ?thesis
      unfolding mm_keys_def mm_erase_def by (rule sorted_filter)
  qed
  show ?case
  proof (cases "find (\<lambda>n. \<not> b (entry_wfiid (snd (snd n)))) (snd x)")
    case (Some n)
    show ?thesis
    proof (cases "mm_erase (fst n) (snd x) = []")
      case True
      with Some Cons.prems(1) have "m' = m" by simp
      with Cons.prems(2,3) show ?thesis by (auto simp: om_ok_Cons)
    next
      case False
      with Some Cons.prems(1) have "m' = (fst x, mm_erase (fst n) (snd x)) # m" by simp
      with Cons.prems(2,3) False er show ?thesis by (auto simp: om_ok_Cons)
    qed
  next
    case None
    with Cons.prems(1) obtain m1 where m1: "take_ready b m = Some (e, m1)" "m' = x # m1"
      by auto
    have IH: "om_ok m1" "\<forall>y\<in>set m1. snd y \<noteq> [] \<and> sorted (mm_keys (snd y))"
        "fst ` set m1 \<subseteq> fst ` set m"
      using Cons.IH[OF m1(1)] Cons.prems(2,3) by (simp_all add: om_ok_Cons)
    have "\<forall>k\<in>fst ` set m. fst x < k" using Cons.prems(2) by (simp add: om_ok_Cons)
    with IH(3) have "\<forall>y\<in>set m1. fst x < fst y" by blast
    with IH m1(2) Cons.prems(3) show ?thesis by (simp add: om_ok_Cons) blast
  qed
qed

lemma bq_indexed_take:
  assumes ix: "bq_indexed key idx q" and tk: "take_ready b (bq_map q) = Some (e, m')"
  shows "bq_indexed key (idx(key e := None)) (q\<lparr>bq_map := m'\<rparr>)"
proof -
  let ?q = "q\<lparr>bq_map := m'\<rparr>"
  have d: "distinct (mm_ids (bq_nodes q))" using ix by (simp add: bq_indexed_def bq_shape_def)
  then obtain pre n t post where sp: "bq_nodes q = pre @ (n, t, e) # post" "bq_nodes ?q = pre @ post"
    using take_ready_Some[OF tk] by (auto simp: bq_nodes_def)
  have sub: "x \<in> set (bq_nodes ?q) \<Longrightarrow> x \<in> set (bq_nodes q)" for x
    using sp by auto
  have parts: "om_ok (bq_map q)" "\<forall>x\<in>set (bq_map q). snd x \<noteq> [] \<and> sorted (mm_keys (snd x))"
      "\<forall>n\<in>set (mm_ids (bq_nodes q)). n < bq_next q"
    using ix by (simp_all add: bq_indexed_def bq_shape_def)
  have "distinct (mm_ids (bq_nodes ?q))" "set (mm_ids (bq_nodes ?q)) \<subseteq> set (mm_ids (bq_nodes q))"
    using d unfolding sp by auto
  with take_ready_shape[OF tk parts(1,2)] parts(3) have shape: "bq_shape ?q"
    by (auto simp: bq_shape_def)
  have other: "x \<in> set (bq_nodes ?q) \<longleftrightarrow> x \<in> set (bq_nodes q) \<and> fst x \<noteq> n" for x
    using d unfolding sp by (auto simp: mm_ids_def image_iff)
  have e: "(n, t, e) \<in> set (bq_nodes q)" using sp by simp
  have "(idx(key e := None)) k = Some m \<longleftrightarrow> (\<exists>t' e'. (m, t', e') \<in> set (bq_nodes ?q) \<and> key e' = k)"
    for k m
  proof (cases "k = key e")
    case True
    have "\<not> ((m, t', e') \<in> set (bq_nodes ?q) \<and> key e' = k)" for t' e'
      using True other bq_indexed_unique[OF ix _ e] by fastforce
    with True show ?thesis by simp
  next
    case False
    have "(m, t', e') \<in> set (bq_nodes q) \<Longrightarrow> key e' = k \<Longrightarrow> m \<noteq> n" for t' e'
      using False mm_node_unique[OF d e, of "(t', e')"] by auto
    with False ix show ?thesis
      by (auto simp: bq_indexed_def other)
  qed
  with shape show ?thesis by (simp add: bq_indexed_def)
qed

end
