(* ===== verification/Backend_Clients.thy ===== *)
theory Backend_Clients
  imports Backend_Laws
begin

text \<open>
  The interface of a backend queue to those who add events to it, and its three providers.

  \<open>backend_adder\<close> is a queue with an invariant and an abstract content (a map from keys to
  what is queued for the key); adding a valid event is defined, keeps the invariant and
  changes the content at the key of the event only.  What follows for a whole list of
  events, as the \<^verbatim>\<open>init_*_queue\<close> loops add them, is proved once.  The interpretations
  \<open>evq\<close>, \<open>asq\<close> and \<open>swq\<close> are \<open>EventQueue\<close>, \<open>AsyncQueue\<close> and
  \<open>SubWorkflowQueue\<close>.
\<close>

section \<open>The interface\<close>

locale backend_adder =
  fixes add :: "'ev \<Rightarrow> 'q \<Rightarrow> 'q result"
    and inv :: "'q \<Rightarrow> bool"
    and content :: "'q \<Rightarrow> 'k \<Rightarrow> 'c option"
    and key :: "'ev \<Rightarrow> 'k"
    and upd :: "'ev \<Rightarrow> 'c option \<Rightarrow> 'c"
    and valid :: "'ev \<Rightarrow> bool"
  assumes add_ok: "inv q \<Longrightarrow> valid ev \<Longrightarrow>
      \<exists>q'. add ev q = Inr q' \<and> inv q' \<and>
        content q' = (content q)(key ev \<mapsto> upd ev (content q (key ev)))"
begin

lemma add_all:
  assumes "inv q" and "\<forall>ev\<in>set evs. valid ev"
  shows "\<exists>q'. rfold (\<lambda>q ev. add ev q) q evs = Inr q' \<and> inv q' \<and>
    content q' = foldl (\<lambda>m ev. m(key ev \<mapsto> upd ev (m (key ev)))) (content q) evs"
  using assms
proof (induction evs arbitrary: q)
  case Nil
  then show ?case by simp
next
  case (Cons ev evs)
  from Cons.prems add_ok[of q ev] obtain q1 where q1: "add ev q = Inr q1" "inv q1"
    "content q1 = (content q)(key ev \<mapsto> upd ev (content q (key ev)))"
    by auto
  with Cons.IH[of q1] Cons.prems show ?case by auto
qed

lemma add_all_dom:
  assumes "inv q" and "\<forall>ev\<in>set evs. valid ev"
  shows "\<exists>q'. rfold (\<lambda>q ev. add ev q) q evs = Inr q' \<and> inv q' \<and>
    dom (content q') = dom (content q) \<union> key ` set evs"
proof -
  have "dom (foldl (\<lambda>m ev. m(key ev \<mapsto> upd ev (m (key ev)))) m evs) = dom m \<union> key ` set evs" for m
    by (induction evs arbitrary: m) auto
  moreover obtain q' where "rfold (\<lambda>q ev. add ev q) q evs = Inr q'" "inv q'"
    "content q' = foldl (\<lambda>m ev. m(key ev \<mapsto> upd ev (m (key ev)))) (content q) evs"
    using add_all[OF assms] by blast
  ultimately show ?thesis by simp
qed

end

section \<open>The invariants of the three queues\<close>

fun good_event :: "backend_entry \<Rightarrow> bool" where
  "good_event (EventQueueEntry b is) \<longleftrightarrow> be_wfiid b \<noteq> 0 \<and> is \<noteq> [] \<and> sorted is \<and> distinct is"
| "good_event _ \<longleftrightarrow> False"

fun good_async :: "backend_entry \<Rightarrow> bool" where
  "good_async (AsyncQueueEntry b m) \<longleftrightarrow> be_wfiid b \<noteq> 0 \<and> m \<noteq> [] \<and> om_ok m"
| "good_async _ \<longleftrightarrow> False"

fun good_sub :: "backend_entry \<Rightarrow> bool" where
  "good_sub (SubWorkflowQueueEntry b is st sw) \<longleftrightarrow>
     be_wfiid b \<noteq> 0 \<and> is \<noteq> [] \<and> sorted is \<and> distinct is \<and> (st = CHR ''E'' \<or> st = CHR ''C'')"
| "good_sub _ \<longleftrightarrow> False"

definition sub_key :: "backend_entry \<Rightarrow> int \<times> bool" where
  "sub_key e = (entry_wfiid e, entry_status e = CHR ''C'')"

definition sub_index :: "sub_queue \<Rightarrow> int \<times> bool \<Rightarrow> nat option" where
  "sub_index q k = (if snd k then c_wfmap q (fst k) else e_wfmap q (fst k))"

definition event_inv :: "event_queue \<Rightarrow> bool" where
  "event_inv q \<longleftrightarrow> bq_indexed entry_wfiid (ev_wfmap q) q \<and> (\<forall>e\<in>set (bq_entries q). good_event e)"

definition async_inv :: "async_queue \<Rightarrow> bool" where
  "async_inv q \<longleftrightarrow> bq_indexed entry_wfiid (as_wfmap q) q \<and> (\<forall>e\<in>set (bq_entries q). good_async e)"

definition sub_inv :: "sub_queue \<Rightarrow> bool" where
  "sub_inv q \<longleftrightarrow> bq_indexed sub_key (sub_index q) q \<and> (\<forall>e\<in>set (bq_entries q). good_sub e)"

text \<open>What is queued: the step indices of a workflow, or its messages by step index.\<close>

fun event_inds :: "backend_entry \<Rightarrow> int set" where
  "event_inds (EventQueueEntry b is) = set is"
| "event_inds (SubWorkflowQueueEntry b is st sw) = set is"
| "event_inds (AsyncQueueEntry b m) = fst ` set m"

fun async_msgs :: "backend_entry \<Rightarrow> int \<Rightarrow> async_entry option" where
  "async_msgs (AsyncQueueEntry b m) = map_of m"
| "async_msgs _ = Map.empty"

abbreviation event_content :: "event_queue \<Rightarrow> int \<Rightarrow> int set option" where
  "event_content \<equiv> bq_content entry_wfiid event_inds"

abbreviation async_content :: "async_queue \<Rightarrow> int \<Rightarrow> (int \<Rightarrow> async_entry option) option" where
  "async_content \<equiv> bq_content entry_wfiid async_msgs"

abbreviation sub_content :: "sub_queue \<Rightarrow> int \<times> bool \<Rightarrow> int set option" where
  "sub_content \<equiv> bq_content sub_key event_inds"

lemma entries_insert:
  "bq_shape q \<Longrightarrow> set (bq_entries (bq_insert prio t e q)) = insert e (set (bq_entries q))"
  using set_bq_insert[of q prio t e] by (simp add: bq_shape_def bq_entries_def mm_vals_def)

lemma entries_update:
  "e1 \<in> set (bq_entries (bq_update n (\<lambda>_. e') q)) \<Longrightarrow> e1 = e' \<or> e1 \<in> set (bq_entries q)"
  by (auto simp: in_bq_entries bq_nodes_update in_mm_update split: if_splits)

lemma bq_indexed_shape: "bq_indexed key idx q \<Longrightarrow> bq_shape q"
  by (simp add: bq_indexed_def)

lemma bq_notify_map [simp]:
  "bq_map (bq_signal q) = bq_map q" "bq_next (bq_signal q) = bq_next q"
  "bq_waiting (bq_signal q) = bq_waiting q"
  "bq_map (bq_wakeup q) = bq_map q" "bq_next (bq_wakeup q) = bq_next q"
  "bq_waiting (bq_wakeup q) = bq_waiting q"
  by (simp_all add: bq_signal_def bq_wakeup_def)

lemma bq_entries_same: "bq_map q' = bq_map q \<Longrightarrow> bq_entries q' = bq_entries q"
  by (simp add: bq_entries_def bq_nodes_def)

text \<open>The two ways to add: a new node for a new key, a new entry in the node of a known key.\<close>

lemma indexed_add_new:
  assumes ix: "bq_indexed key idx q" and new: "idx (key e) = None"
    and good: "\<forall>e\<in>set (bq_entries q). good e" "good e"
    and q': "bq_map q' = bq_map (bq_insert prio t e q)" "bq_next q' = Suc (bq_next q)"
  shows "bq_indexed key (idx(key e \<mapsto> bq_next q)) q' \<and> (\<forall>e\<in>set (bq_entries q'). good e) \<and>
    bq_content key f q' = (bq_content key f q)(key e \<mapsto> f e) \<and> bq_content key f q (key e) = None"
proof (intro conjI)
  show "bq_indexed key (idx(key e \<mapsto> bq_next q)) q'"
    using bq_indexed_same[of q' "bq_insert prio t e q" key] bq_indexed_insert[OF ix new] q' by simp
  show "\<forall>e\<in>set (bq_entries q'). good e"
    using bq_entries_same[OF q'(1)] entries_insert[OF bq_indexed_shape[OF ix]] good by simp
  show "bq_content key f q' = (bq_content key f q)(key e \<mapsto> f e)"
    using bq_content_same[OF q'(1), of key f] bq_content_insert[OF ix new] by simp
  show "bq_content key f q (key e) = None"
    using bq_content_None[OF ix, of f "key e"] new by simp
qed

lemma indexed_add_old:
  assumes ix: "bq_indexed key idx q" and n: "idx k = Some n"
    and good: "\<forall>e\<in>set (bq_entries q). good e"
  shows "\<exists>t e. mm_find n (bq_nodes q) = Some (t, e) \<and> key e = k \<and> good e \<and>
    bq_content key f q k = Some (f e) \<and>
    (\<forall>e'. key e' = k \<longrightarrow> good e' \<longrightarrow>
       bq_indexed key idx (bq_update n (\<lambda>_. e') q) \<and>
       (\<forall>e\<in>set (bq_entries (bq_update n (\<lambda>_. e') q)). good e) \<and>
       bq_content key f (bq_update n (\<lambda>_. e') q) = (bq_content key f q)(k \<mapsto> f e'))"
proof -
  from bq_indexed_find[OF ix n] obtain t e where
    f: "mm_find n (bq_nodes q) = Some (t, e)" and e: "(n, t, e) \<in> set (bq_nodes q)" "key e = k"
    by blast
  have ge: "good e" using good e(1) in_bq_entries by blast
  have c: "bq_content key f q k = Some (f e)"
    using bq_content_Some[OF ix, of f k "f e"] e by blast
  have d: "distinct (mm_ids (bq_nodes q))" using ix by (simp add: bq_indexed_def bq_shape_def)
  have one: "key e1 = k" if "(n, t1, e1) \<in> set (bq_nodes q)" for t1 e1
  proof -
    from mm_node_unique[OF d e(1) that] have "e = e1" by blast
    with e(2) show ?thesis by simp
  qed
  have "bq_indexed key idx (bq_update n (\<lambda>_. e') q) \<and>
       (\<forall>e\<in>set (bq_entries (bq_update n (\<lambda>_. e') q)). good e) \<and>
       bq_content key f (bq_update n (\<lambda>_. e') q) = (bq_content key f q)(k \<mapsto> f e')"
    if e': "key e' = k" "good e'" for e'
  proof (intro conjI)
    have "(n, t1, e1) \<in> set (bq_nodes q) \<Longrightarrow> key e' = key e1" for t1 e1
      using e'(1) by (simp add: one)
    then show "bq_indexed key idx (bq_update n (\<lambda>_. e') q)"
      by (rule bq_indexed_update[OF ix])
    show "\<forall>e\<in>set (bq_entries (bq_update n (\<lambda>_. e') q)). good e"
      using good e'(2) entries_update by blast
    show "bq_content key f (bq_update n (\<lambda>_. e') q) = (bq_content key f q)(k \<mapsto> f e')"
      using bq_content_update[OF ix e(1), of e' f] e(2) e'(1) by simp
  qed
  with f e(2) ge c show ?thesis by blast
qed

lemma insort_insert_not_Nil [simp]: "insort_insert i xs \<noteq> ([] :: int list)"
  by (metis empty_iff insertI1 list.set(1) set_insort_insert)

section \<open>Synchronization events\<close>

lemma ev_wfmap_simps [simp]:
  "ev_wfmap (bq_insert prio t e q) = ev_wfmap q" "ev_wfmap (bq_update n f q) = ev_wfmap q"
  "ev_wfmap (bq_signal q) = ev_wfmap q" "ev_wfmap (bq_wakeup q) = ev_wfmap q"
  by (simp_all add: bq_insert_def bq_update_def bq_signal_def bq_wakeup_def)

lemma add_event_ok:
  assumes inv: "event_inv q" and w: "w \<noteq> 0"
  shows "\<exists>q'. add_event t w i prio p q = Inr q' \<and> event_inv q' \<and>
    event_content q' = (event_content q)
      (w \<mapsto> insert i (case event_content q w of None \<Rightarrow> {} | Some s \<Rightarrow> s))"
proof (cases "ev_wfmap q w")
  case None
  let ?e = "EventQueueEntry \<lparr>be_wfiid = w, be_prio = prio, be_pi = p\<rparr> [i]"
  let ?q' = "bq_signal ((bq_insert prio t ?e q)\<lparr>ev_wfmap := (ev_wfmap q)(w \<mapsto> bq_next q)\<rparr>)"
  from inv have ix: "bq_indexed entry_wfiid (ev_wfmap q) q" "\<forall>e\<in>set (bq_entries q). good_event e"
    by (simp_all add: event_inv_def)
  show ?thesis
    using indexed_add_new[OF ix(1) _ ix(2), of ?e ?q' prio t, where f = event_inds] None w
    by (simp add: add_event_def event_inv_def)
next
  case (Some n)
  from inv have ix: "bq_indexed entry_wfiid (ev_wfmap q) q" "\<forall>e\<in>set (bq_entries q). good_event e"
    by (simp_all add: event_inv_def)
  from indexed_add_old[OF ix(1) Some ix(2), of event_inds] obtain t' e where old:
    "mm_find n (bq_nodes q) = Some (t', e)" "entry_wfiid e = w" "good_event e"
    "event_content q w = Some (event_inds e)" and upd:
    "\<forall>e'. entry_wfiid e' = w \<longrightarrow> good_event e' \<longrightarrow>
       bq_indexed entry_wfiid (ev_wfmap q) (bq_update n (\<lambda>_. e') q) \<and>
       (\<forall>e\<in>set (bq_entries (bq_update n (\<lambda>_. e') q)). good_event e) \<and>
       event_content (bq_update n (\<lambda>_. e') q) = (event_content q)(w \<mapsto> event_inds e')"
    by blast
  from old(3) obtain b "is" where ent: "e = EventQueueEntry b is" by (cases e) auto
  let ?e' = "EventQueueEntry b (insort_insert i is)"
  have "entry_wfiid ?e' = w" "good_event ?e'"
    using old(2,3) ent by (simp_all add: sorted_insort_insert distinct_insort_insert)
  with upd have "bq_indexed entry_wfiid (ev_wfmap q) (bq_update n (\<lambda>_. ?e') q)"
    "\<forall>e\<in>set (bq_entries (bq_update n (\<lambda>_. ?e') q)). good_event e"
    "event_content (bq_update n (\<lambda>_. ?e') q) = (event_content q)(w \<mapsto> event_inds ?e')"
    by blast+
  with Some old(1,4) ent show ?thesis
    by (simp add: add_event_def event_inv_def set_insort_insert)
qed

interpretation evq: backend_adder
  "\<lambda>(t, w, i, prio, p) q. add_event t w i prio p q" event_inv event_content
  "\<lambda>(t, w, i, prio, p). w" "\<lambda>(t, w, i, prio, p) old. insert i (case old of None \<Rightarrow> {} | Some s \<Rightarrow> s)"
  "\<lambda>(t, w, i, prio, p). w \<noteq> 0"
  by unfold_locales (auto intro: add_event_ok)

section \<open>Asynchronous events\<close>

lemma as_wfmap_simps [simp]:
  "as_wfmap (bq_insert prio t e q) = as_wfmap q" "as_wfmap (bq_update n f q) = as_wfmap q"
  "as_wfmap (bq_signal q) = as_wfmap q" "as_wfmap (bq_wakeup q) = as_wfmap q"
  by (simp_all add: bq_insert_def bq_update_def bq_signal_def bq_wakeup_def)

text \<open>A message for a step index that already has one is dropped.\<close>

definition async_upd :: "int \<Rightarrow> async_entry \<Rightarrow> (int \<Rightarrow> async_entry option) option
    \<Rightarrow> (int \<Rightarrow> async_entry option)" where
  "async_upd i a old = (case old of None \<Rightarrow> [i \<mapsto> a]
     | Some m \<Rightarrow> if m i = None then m(i \<mapsto> a) else m)"

lemma add_async_event_ok:
  assumes inv: "async_inv q" and w: "w \<noteq> 0"
  shows "\<exists>q'. add_async_event t w i prio c p k d q = Inr q' \<and> async_inv q' \<and>
    async_content q' = (async_content q)
      (w \<mapsto> async_upd i \<lparr>queuekey = k, async_data = d, corrected = c\<rparr> (async_content q w))"
proof (cases "as_wfmap q w")
  case None
  let ?a = "\<lparr>queuekey = k, async_data = d, corrected = c\<rparr>"
  let ?e = "AsyncQueueEntry \<lparr>be_wfiid = w, be_prio = prio, be_pi = p\<rparr> [(i, ?a)]"
  let ?q' = "bq_signal ((bq_insert prio t ?e q)\<lparr>as_wfmap := (as_wfmap q)(w \<mapsto> bq_next q)\<rparr>)"
  from inv have ix: "bq_indexed entry_wfiid (as_wfmap q) q" "\<forall>e\<in>set (bq_entries q). good_async e"
    by (simp_all add: async_inv_def)
  show ?thesis
    using indexed_add_new[OF ix(1) _ ix(2), of ?e ?q' prio t, where f = async_msgs] None w
    by (simp add: add_async_event_def async_inv_def Let_def async_upd_def om_ok_Cons)
next
  case (Some n)
  let ?a = "\<lparr>queuekey = k, async_data = d, corrected = c\<rparr>"
  from inv have ix: "bq_indexed entry_wfiid (as_wfmap q) q" "\<forall>e\<in>set (bq_entries q). good_async e"
    by (simp_all add: async_inv_def)
  from indexed_add_old[OF ix(1) Some ix(2), of async_msgs] obtain t' e where old:
    "mm_find n (bq_nodes q) = Some (t', e)" "entry_wfiid e = w" "good_async e"
    "async_content q w = Some (async_msgs e)" and upd:
    "\<forall>e'. entry_wfiid e' = w \<longrightarrow> good_async e' \<longrightarrow>
       bq_indexed entry_wfiid (as_wfmap q) (bq_update n (\<lambda>_. e') q) \<and>
       (\<forall>e\<in>set (bq_entries (bq_update n (\<lambda>_. e') q)). good_async e) \<and>
       async_content (bq_update n (\<lambda>_. e') q) = (async_content q)(w \<mapsto> async_msgs e')"
    by blast
  from old(3) obtain b m where ent: "e = AsyncQueueEntry b m" by (cases e) auto
  show ?thesis
  proof (cases "map_of m i")
    case None
    let ?e' = "AsyncQueueEntry b (om_put i ?a m)"
    have "entry_wfiid ?e' = w" "good_async ?e'"
      using old(2,3) ent by auto
    with upd have "bq_indexed entry_wfiid (as_wfmap q) (bq_update n (\<lambda>_. ?e') q)"
      "\<forall>e\<in>set (bq_entries (bq_update n (\<lambda>_. ?e') q)). good_async e"
      "async_content (bq_update n (\<lambda>_. ?e') q) = (async_content q)(w \<mapsto> async_msgs ?e')"
      by blast+
    with Some old(1,4) ent None show ?thesis
      by (simp add: add_async_event_def async_inv_def Let_def async_upd_def)
  next
    case dup: (Some a)
    have "(async_content q)(w \<mapsto> map_of m) = async_content q"
      using old(4) ent by (auto simp: fun_eq_iff)
    with Some old(1,4) ent dup inv show ?thesis
      by (simp add: add_async_event_def Let_def async_upd_def)
  qed
qed

interpretation asq: backend_adder
  "\<lambda>(t, w, i, prio, a, p) q. add_async_event t w i prio (corrected a) p (queuekey a) (async_data a) q"
  async_inv async_content "\<lambda>(t, w, i, prio, a, p). w" "\<lambda>(t, w, i, prio, a, p). async_upd i a"
  "\<lambda>(t, w, i, prio, a, p). w \<noteq> 0"
proof (unfold_locales, clarsimp)
  fix q t w i prio a p
  assume inv: "async_inv q" and w: "(w::int) \<noteq> 0"
  have eq: "\<lparr>queuekey = queuekey a, async_data = async_data a, corrected = corrected a\<rparr> = a"
    by (cases a) simp
  show "\<exists>q'. add_async_event t w i prio (corrected a) p (queuekey a) (async_data a) q = Inr q' \<and>
      async_inv q' \<and> async_content q' = (async_content q)(w \<mapsto> async_upd i a (async_content q w))"
    using add_async_event_ok[OF inv w, of t i prio "corrected a" p "queuekey a" "async_data a",
      unfolded eq] .
qed

section \<open>Subworkflow events\<close>

lemma sub_wfmap_simps [simp]:
  "c_wfmap (bq_insert prio t e q) = c_wfmap q" "c_wfmap (bq_update n f q) = c_wfmap q"
  "c_wfmap (bq_signal q) = c_wfmap q" "c_wfmap (bq_wakeup q) = c_wfmap q"
  "e_wfmap (bq_insert prio t e q) = e_wfmap q" "e_wfmap (bq_update n f q) = e_wfmap q"
  "e_wfmap (bq_signal q) = e_wfmap q" "e_wfmap (bq_wakeup q) = e_wfmap q"
  by (simp_all add: bq_insert_def bq_update_def bq_signal_def bq_wakeup_def)

lemma sub_index_simps [simp]:
  "sub_index (bq_insert prio t e q) = sub_index q" "sub_index (bq_update n f q) = sub_index q"
  "sub_index (bq_signal q) = sub_index q" "sub_index (bq_wakeup q) = sub_index q"
  by (simp_all add: sub_index_def fun_eq_iff)

lemma sub_index_set [simp]:
  "sub_index (set_sub_wfmap st ((sub_wfmap st q)(w \<mapsto> n)) (bq_insert prio t e q)) =
     (sub_index q)((w, st = CHR ''C'') \<mapsto> n)"
  by (auto simp: sub_index_def set_sub_wfmap_def sub_wfmap_def fun_eq_iff)

lemma set_sub_wfmap_map [simp]:
  "bq_map (set_sub_wfmap st m q) = bq_map q" "bq_next (set_sub_wfmap st m q) = bq_next q"
  "bq_waiting (set_sub_wfmap st m q) = bq_waiting q" "bq_cond (set_sub_wfmap st m q) = bq_cond q"
  by (simp_all add: set_sub_wfmap_def)

lemma sub_wfmap_index: "sub_wfmap st q w = sub_index q (w, st = CHR ''C'')"
  by (simp add: sub_wfmap_def sub_index_def)

lemma add_subworkflow_event_ok:
  assumes inv: "sub_inv q" and w: "w \<noteq> 0" and st: "st = CHR ''E'' \<or> st = CHR ''C''"
  shows "\<exists>q'. add_subworkflow_event t w i prio p st sw q = Inr q' \<and> sub_inv q' \<and>
    sub_content q' = (sub_content q) ((w, st = CHR ''C'') \<mapsto>
      insert i (case sub_content q (w, st = CHR ''C'') of None \<Rightarrow> {} | Some s \<Rightarrow> s))"
proof (cases "sub_wfmap st q w")
  case None
  let ?e = "SubWorkflowQueueEntry \<lparr>be_wfiid = w, be_prio = prio, be_pi = p\<rparr> [i] st sw"
  let ?q' = "bq_signal (set_sub_wfmap st ((sub_wfmap st q)(w \<mapsto> bq_next q)) (bq_insert prio t ?e q))"
  from inv have ix: "bq_indexed sub_key (sub_index q) q" "\<forall>e\<in>set (bq_entries q). good_sub e"
    by (simp_all add: sub_inv_def)
  show ?thesis
    using indexed_add_new[OF ix(1) _ ix(2), of ?e ?q' prio t, where f = event_inds] None w st
    by (simp add: add_subworkflow_event_def sub_inv_def sub_key_def sub_wfmap_index)
next
  case (Some n)
  then have n: "sub_index q (w, st = CHR ''C'') = Some n" by (simp add: sub_wfmap_index)
  from inv have ix: "bq_indexed sub_key (sub_index q) q" "\<forall>e\<in>set (bq_entries q). good_sub e"
    by (simp_all add: sub_inv_def)
  from indexed_add_old[OF ix(1) n ix(2), of event_inds] obtain t' e where old:
    "mm_find n (bq_nodes q) = Some (t', e)" "sub_key e = (w, st = CHR ''C'')" "good_sub e"
    "sub_content q (w, st = CHR ''C'') = Some (event_inds e)" and upd:
    "\<forall>e'. sub_key e' = (w, st = CHR ''C'') \<longrightarrow> good_sub e' \<longrightarrow>
       bq_indexed sub_key (sub_index q) (bq_update n (\<lambda>_. e') q) \<and>
       (\<forall>e\<in>set (bq_entries (bq_update n (\<lambda>_. e') q)). good_sub e) \<and>
       sub_content (bq_update n (\<lambda>_. e') q) = (sub_content q)((w, st = CHR ''C'') \<mapsto> event_inds e')"
    by blast
  from old(3) obtain b "is" st' sw' where ent: "e = SubWorkflowQueueEntry b is st' sw'"
    by (cases e) auto
  let ?e' = "SubWorkflowQueueEntry b (insort_insert i is) st' sw'"
  have "sub_key ?e' = (w, st = CHR ''C'')" "good_sub ?e'"
    using old(2,3) ent by (simp_all add: sorted_insort_insert distinct_insort_insert sub_key_def)
  with upd have "bq_indexed sub_key (sub_index q) (bq_update n (\<lambda>_. ?e') q)"
    "\<forall>e\<in>set (bq_entries (bq_update n (\<lambda>_. ?e') q)). good_sub e"
    "sub_content (bq_update n (\<lambda>_. ?e') q) =
      (sub_content q)((w, st = CHR ''C'') \<mapsto> event_inds ?e')"
    by blast+
  with Some old(1,4) ent st show ?thesis
    by (simp add: add_subworkflow_event_def sub_inv_def set_insort_insert)
qed

interpretation swq: backend_adder
  "\<lambda>(t, w, i, prio, p, st, sw) q. add_subworkflow_event t w i prio p st sw q" sub_inv sub_content
  "\<lambda>(t, w, i, prio, p, st, sw). (w, st = CHR ''C'')"
  "\<lambda>(t, w, i, prio, p, st, sw) old. insert i (case old of None \<Rightarrow> {} | Some s \<Rightarrow> s)"
  "\<lambda>(t, w, i, prio, p, st, sw). w \<noteq> 0 \<and> (st = CHR ''E'' \<or> st = CHR ''C'')"
proof (unfold_locales, clarsimp)
  fix q t w i prio p st sw
  assume "sub_inv q" "(w::int) \<noteq> 0" "st = CHR ''E'' \<or> st = CHR ''C''"
  from add_subworkflow_event_ok[OF this]
  show "\<exists>q'. add_subworkflow_event t w i prio p st sw q = Inr q' \<and> sub_inv q' \<and>
    sub_content q' = (sub_content q) ((w, st = CHR ''C'') \<mapsto>
      insert i (case sub_content q (w, st = CHR ''C'') of None \<Rightarrow> {} | Some s \<Rightarrow> s))" .
qed

end
