(* ===== verification/Backend_Merge.thy ===== *)
theory Backend_Merge
  imports Backend_Clients
begin

text \<open>
  Merging one backend queue into another (\<^verbatim>\<open>merge\<close> of \<^verbatim>\<open>EventQueue\<close>,
  \<^verbatim>\<open>AsyncQueue\<close> and \<^verbatim>\<open>SubWorkflowQueue\<close>).

  The three functions are the same loop with another index.  The locale \<open>backend_merger\<close> is
  the interface of the step of the loop; in it, the merge of two queues without a common key
  is shown to be the union of their contents.  It is interpreted on the three queues.
\<close>

locale backend_merger =
  fixes one :: "int \<Rightarrow> 'a backend_queue_scheme \<Rightarrow> nat \<times> int \<times> backend_entry \<Rightarrow> 'a backend_queue_scheme"
    and idx :: "'a backend_queue_scheme \<Rightarrow> 'k \<Rightarrow> nat option"
    and key :: "backend_entry \<Rightarrow> 'k"
    and good :: "backend_entry \<Rightarrow> bool"
  assumes one_map: "bq_map (one p q x) = bq_map (bq_insert p (fst (snd x)) (snd (snd x)) q)"
    and one_next: "bq_next (one p q x) = Suc (bq_next q)"
    and one_idx: "good (snd (snd x)) \<Longrightarrow> idx (one p q x) = (idx q)(key (snd (snd x)) \<mapsto> bq_next q)"
begin

definition inv :: "'a backend_queue_scheme \<Rightarrow> bool" where
  "inv q \<longleftrightarrow> bq_indexed key (idx q) q \<and> (\<forall>e\<in>set (bq_entries q). good e)"

lemma merge_one:
  assumes "inv q" "good (snd (snd x))" "idx q (key (snd (snd x))) = None"
  shows "inv (one p q x) \<and>
    bq_content key f (one p q x) = (bq_content key f q)(key (snd (snd x)) \<mapsto> f (snd (snd x)))"
proof -
  from assms(1) have ix: "bq_indexed key (idx q) q" "\<forall>e\<in>set (bq_entries q). good e"
    by (simp_all add: inv_def)
  show ?thesis
    using indexed_add_new[OF ix(1) assms(3) ix(2) assms(2) one_map one_next, where f = f] assms(2)
    by (simp add: inv_def one_idx)
qed

lemma merge_nodes:
  assumes "inv q" "\<forall>e\<in>set (mm_vals xs). good e" "distinct (map key (mm_vals xs))"
    "dom (idx q) \<inter> key ` set (mm_vals xs) = {}"
  shows "inv (foldl (one p) q xs) \<and>
    dom (idx (foldl (one p) q xs)) = dom (idx q) \<union> key ` set (mm_vals xs) \<and>
    bq_content key f (foldl (one p) q xs) =
      bq_content key f q ++ map_of (map (\<lambda>e. (key e, f e)) (mm_vals xs))"
  using assms
proof (induction xs arbitrary: q)
  case Nil
  then show ?case by simp
next
  case (Cons x xs)
  have none: "idx q (key (snd (snd x))) = None" using Cons.prems(4) by auto
  have good: "good (snd (snd x))" using Cons.prems(2) by simp
  from merge_one[OF Cons.prems(1) good none] have 1: "inv (one p q x)"
    "bq_content key f (one p q x) = (bq_content key f q)(key (snd (snd x)) \<mapsto> f (snd (snd x)))"
    by blast+
  have d: "dom (idx (one p q x)) = insert (key (snd (snd x))) (dom (idx q))"
    using one_idx[OF good] by simp
  have IH: "inv (foldl (one p) (one p q x) xs)"
    "dom (idx (foldl (one p) (one p q x) xs)) = dom (idx (one p q x)) \<union> key ` set (mm_vals xs)"
    "bq_content key f (foldl (one p) (one p q x) xs) =
      bq_content key f (one p q x) ++ map_of (map (\<lambda>e. (key e, f e)) (mm_vals xs))"
    using Cons.IH[OF 1(1)] Cons.prems d by auto
  have "key (snd (snd x)) \<notin> dom (map_of (map (\<lambda>e. (key e, f e)) (mm_vals xs)))"
    using Cons.prems(3) by (auto simp: dom_map_of_conv_image_fst image_iff)
  then have "bq_content key f (one p q x) ++ map_of (map (\<lambda>e. (key e, f e)) (mm_vals xs)) =
      bq_content key f q ++ map_of (map (\<lambda>e. (key e, f e)) (mm_vals (x # xs)))"
    using 1(2) by (simp add: map_add_upd_left)
  then have "bq_content key f (foldl (one p) (one p q x) xs) =
      bq_content key f q ++ map_of (map (\<lambda>e. (key e, f e)) (mm_vals (x # xs)))"
    unfolding IH(3) .
  moreover have "dom (idx (foldl (one p) (one p q x) xs)) = dom (idx q) \<union> key ` set (mm_vals (x # xs))"
    unfolding IH(2) d by auto
  ultimately show ?case using IH(1) by (simp only: foldl_Cons)
qed

lemma merge_loop_ok:
  assumes "inv q" "\<forall>x\<in>set m. snd x \<noteq> []"
    "\<forall>e\<in>set (mm_vals (map_nodes m)). good e" "distinct (map key (mm_vals (map_nodes m)))"
    "dom (idx q) \<inter> key ` set (mm_vals (map_nodes m)) = {}"
  shows "\<exists>q'. merge_loop one q m = Inr q' \<and> inv q' \<and>
    bq_content key f q' = bq_content key f q ++ map_of (map (\<lambda>e. (key e, f e)) (mm_vals (map_nodes m)))"
  using assms
proof (induction m arbitrary: q)
  case Nil
  then show ?case by (simp add: merge_loop_def)
next
  case (Cons x m)
  have x: "\<forall>e\<in>set (mm_vals (snd x)). good e" "distinct (map key (mm_vals (snd x)))"
    "dom (idx q) \<inter> key ` set (mm_vals (snd x)) = {}"
    using Cons.prems(3,4,5) by auto
  let ?q = "foldl (one (fst x)) q (snd x)"
  from merge_nodes[OF Cons.prems(1) x, of "fst x", where f = f] have 1: "inv ?q"
    "dom (idx ?q) = dom (idx q) \<union> key ` set (mm_vals (snd x))"
    "bq_content key f ?q = bq_content key f q ++ map_of (map (\<lambda>e. (key e, f e)) (mm_vals (snd x)))"
    by blast+
  have disj: "dom (idx ?q) \<inter> key ` set (mm_vals (map_nodes m)) = {}"
    using Cons.prems(4,5) unfolding 1(2) by auto
  from Cons.IH[OF 1(1) _ _ _ disj] Cons.prems obtain q' where q': "merge_loop one ?q m = Inr q'" "inv q'"
    "bq_content key f q' = bq_content key f ?q ++ map_of (map (\<lambda>e. (key e, f e)) (mm_vals (map_nodes m)))"
    by auto
  let ?A = "map (\<lambda>e. (key e, f e)) (mm_vals (snd x))"
    and ?B = "map (\<lambda>e. (key e, f e)) (mm_vals (map_nodes m))"
  have "dom (map_of ?A) \<inter> dom (map_of ?B) = {}"
    using Cons.prems(4) by (auto simp: dom_map_of_conv_image_fst)
  from map_add_comm[OF this] have AB: "map_of ?A ++ map_of ?B = map_of (?A @ ?B)"
    by simp
  have "bq_content key f q' = bq_content key f q ++ (map_of ?A ++ map_of ?B)"
    using q'(3) 1(3) by simp
  then have "bq_content key f q' = bq_content key f q ++ map_of (?A @ ?B)"
    by (simp only: AB)
  moreover have "?A @ ?B = map (\<lambda>e. (key e, f e)) (mm_vals (map_nodes (x # m)))" by simp
  ultimately have "bq_content key f q' = bq_content key f q ++
      map_of (map (\<lambda>e. (key e, f e)) (mm_vals (map_nodes (x # m))))"
    by (simp only:)
  moreover have "merge_loop one q (x # m) = Inr q'"
    using q'(1) Cons.prems(2) by (simp add: merge_loop_def)
  ultimately show ?case using q'(2) by blast
qed

lemma merge_disjoint:
  assumes "inv q" "inv bq" "dom (idx q) \<inter> dom (idx bq) = {}"
  shows "\<exists>q'. merge_loop one q (bq_map bq) = Inr q' \<and> inv q' \<and>
    bq_content key f q' = bq_content key f q ++ bq_content key f bq"
proof -
  from assms(2) have ix: "bq_indexed key (idx bq) bq" and g: "\<forall>e\<in>set (bq_entries bq). good e"
    by (simp_all add: inv_def)
  from ix have "\<forall>x\<in>set (bq_map bq). snd x \<noteq> []" by (simp add: bq_indexed_def bq_shape_def)
  moreover have "mm_vals (map_nodes (bq_map bq)) = bq_entries bq"
    by (simp add: bq_entries_def bq_nodes_def)
  ultimately show ?thesis
    using merge_loop_ok[OF assms(1), of "bq_map bq", where f = f] g bq_indexed_distinct[OF ix]
      bq_indexed_keys[OF ix] assms(3)
    by (simp add: bq_content_def)
qed

end

interpretation evm: backend_merger event_merge_node ev_wfmap entry_wfiid good_event
  by unfold_locales (simp_all add: event_merge_node_def bq_insert_def prio_nodes_def)

interpretation asm: backend_merger async_merge_node as_wfmap entry_wfiid good_async
  by unfold_locales (simp_all add: async_merge_node_def bq_insert_def prio_nodes_def)

interpretation swm: backend_merger sub_merge_node sub_index sub_key good_sub
proof unfold_locales
  fix p q x
  show "bq_map (sub_merge_node p q x) = bq_map (bq_insert p (fst (snd x)) (snd (snd x)) q)"
    "bq_next (sub_merge_node p q x) = Suc (bq_next q)"
    by (simp_all add: sub_merge_node_def Let_def)
  assume "good_sub (snd (snd x))"
  then show "sub_index (sub_merge_node p q x) = (sub_index q)(sub_key (snd (snd x)) \<mapsto> bq_next q)"
    by (cases "snd (snd x)") (auto simp: sub_merge_node_def Let_def sub_key_def)
qed

lemma evm_inv: "evm.inv = event_inv" by (rule ext) (simp add: evm.inv_def event_inv_def)
lemma asm_inv: "asm.inv = async_inv" by (rule ext) (simp add: asm.inv_def async_inv_def)
lemma swm_inv: "swm.inv = sub_inv" by (rule ext) (simp add: swm.inv_def sub_inv_def)

text \<open>The merge of the three queues, and what is left of the other queue.\<close>

lemma event_merge_ok:
  assumes "event_inv q" "event_inv bq" "dom (event_content q) \<inter> dom (event_content bq) = {}"
  shows "\<exists>q' bq'. event_merge q bq = Inr (q', bq') \<and> event_inv q' \<and> event_inv bq' \<and>
    event_content q' = event_content q ++ event_content bq \<and> event_content bq' = Map.empty"
proof -
  have d: "dom (event_content u) = dom (ev_wfmap u)" if "event_inv u" for u
    using bq_content_None[of entry_wfiid "ev_wfmap u" u event_inds] that
    by (auto simp: event_inv_def dom_def)
  with assms have "dom (ev_wfmap q) \<inter> dom (ev_wfmap bq) = {}" by simp
  from evm.merge_disjoint[unfolded evm_inv, OF assms(1,2) this, where f = event_inds] show ?thesis
    by (auto simp: event_merge_def event_inv_def bq_indexed_empty bq_content_def bq_entries_def
        bq_nodes_def)
qed

lemma async_merge_ok:
  assumes "async_inv q" "async_inv bq" "dom (async_content q) \<inter> dom (async_content bq) = {}"
  shows "\<exists>q' bq'. async_merge q bq = Inr (q', bq') \<and> async_inv q' \<and> async_inv bq' \<and>
    async_content q' = async_content q ++ async_content bq \<and> async_content bq' = Map.empty"
proof -
  have d: "dom (async_content u) = dom (as_wfmap u)" if "async_inv u" for u
    using bq_content_None[of entry_wfiid "as_wfmap u" u async_msgs] that
    by (auto simp: async_inv_def dom_def)
  with assms have "dom (as_wfmap q) \<inter> dom (as_wfmap bq) = {}" by simp
  from asm.merge_disjoint[unfolded asm_inv, OF assms(1,2) this, where f = async_msgs] show ?thesis
    by (auto simp: async_merge_def async_inv_def bq_indexed_empty bq_content_def bq_entries_def
        bq_nodes_def)
qed

lemma sub_index_cleared: "sub_index (q\<lparr>bq_map := m, c_wfmap := Map.empty, e_wfmap := Map.empty\<rparr>) = Map.empty"
  by (simp add: sub_index_def fun_eq_iff)

lemma sub_merge_ok:
  assumes "sub_inv q" "sub_inv bq" "dom (sub_content q) \<inter> dom (sub_content bq) = {}"
  shows "\<exists>q' bq'. sub_merge q bq = Inr (q', bq') \<and> sub_inv q' \<and> sub_inv bq' \<and>
    sub_content q' = sub_content q ++ sub_content bq \<and> sub_content bq' = Map.empty"
proof -
  have d: "dom (sub_content u) = dom (sub_index u)" if "sub_inv u" for u
    using bq_content_None[of sub_key "sub_index u" u event_inds] that
    by (auto simp: sub_inv_def dom_def)
  with assms have "dom (sub_index q) \<inter> dom (sub_index bq) = {}" by simp
  from swm.merge_disjoint[unfolded swm_inv, OF assms(1,2) this, where f = event_inds] show ?thesis
    by (auto simp: sub_merge_def sub_inv_def sub_index_cleared bq_indexed_empty bq_content_def
        bq_entries_def bq_nodes_def)
qed

end
