(* ===== verification/Segment_Laws.thy ===== *)
theory Segment_Laws
  imports Segment_Events Primary_Clients Retry_Laws Backend_Merge
begin

text \<open>
  The invariant of \<^verbatim>\<open>SegmentEventQueue\<close> and its preservation.

  \<open>seg_inv\<close> is the conjunction of the invariants of the parts; a workflow instance in
  \<open>workflow_seg_map\<close> has a positive count or -1, never 0.  Every operation is shown to be
  defined (no assertion fails, no invalid iterator is read) when the invariant holds and
  its caller keeps the stated conditions, and to keep the invariant.
\<close>

section \<open>The invariant\<close>

fun any_inv :: "any_queue \<Rightarrow> bool" where
  "any_inv (AnyEvent q) = event_inv q"
| "any_inv (AnyAsync q) = async_inv q"
| "any_inv (AnySub q) = sub_inv q"

definition segs_ok :: "(int, any_queue) omap \<Rightarrow> bool" where
  "segs_ok m \<longleftrightarrow> om_ok m \<and> (\<forall>x\<in>set m. any_inv (snd x))"

definition refs_ok :: "(int, int) omap \<Rightarrow> bool" where
  "refs_ok m \<longleftrightarrow> om_ok m \<and> (\<forall>x\<in>set m. fst x \<noteq> 0 \<and> (snd x = -1 \<or> snd x > 0))"

definition retries_ok :: "seg_queue \<Rightarrow> bool" where
  "retries_ok s \<longleftrightarrow> retry_inv (sq_fixed_retry s) \<and> retry_inv (sq_retry s) \<and> retry_inv (sq_async_retry s)"

definition seg_inv :: "seg_queue \<Rightarrow> bool" where
  "seg_inv s \<longleftrightarrow> pq_inv (sq_primary s) \<and> retries_ok s \<and> segs_ok (backend_queue_map s) \<and>
     refs_ok (workflow_seg_map s)"

lemma seg_inv_parts:
  assumes "seg_inv s"
  shows "pq_inv (sq_primary s)" "retries_ok s" "segs_ok (backend_queue_map s)" "refs_ok (workflow_seg_map s)"
  using assms by (simp_all add: seg_inv_def)

lemma retry_inv_src: "retries_ok s \<Longrightarrow> retry_inv (src_queue r s)"
  by (cases r) (simp_all add: retries_ok_def src_queue_def)

lemma seg_inv_new: "seg_inv new_SegmentEventQueue"
  by (simp add: seg_inv_def new_SegmentEventQueue_def retries_ok_def segs_ok_def refs_ok_def
      pq_inv_new retry_inv_new)

lemma seg_inv_cong:
  assumes "sq_primary s' = sq_primary s" "sq_retry s' = sq_retry s" "sq_async_retry s' = sq_async_retry s"
    "sq_fixed_retry s' = sq_fixed_retry s" "backend_queue_map s' = backend_queue_map s"
    "workflow_seg_map s' = workflow_seg_map s"
  shows "seg_inv s' = seg_inv s"
  using assms by (simp add: seg_inv_def retries_ok_def)

lemma seg_inv_other [simp]:
  "seg_inv (s\<lparr>sq_term := b\<rparr>) = seg_inv s" "seg_inv (s\<lparr>conn_set := c\<rparr>) = seg_inv s"
  "seg_inv (s\<lparr>retry_conn_set := c\<rparr>) = seg_inv s" "seg_inv (s\<lparr>retry_waiting := n\<rparr>) = seg_inv s"
  "seg_inv (s\<lparr>retry_cond := l\<rparr>) = seg_inv s"
  by (rule seg_inv_cong; simp)+

section \<open>Notifications\<close>

lemma retry_broadcast_simps [simp]:
  "sq_primary (retry_broadcast s) = sq_primary s" "sq_retry (retry_broadcast s) = sq_retry s"
  "sq_async_retry (retry_broadcast s) = sq_async_retry s"
  "sq_fixed_retry (retry_broadcast s) = sq_fixed_retry s"
  "backend_queue_map (retry_broadcast s) = backend_queue_map s"
  "workflow_seg_map (retry_broadcast s) = workflow_seg_map s"
  "retry_waiting (retry_broadcast s) = retry_waiting s"
  "conn_set (retry_broadcast s) = conn_set s" "retry_conn_set (retry_broadcast s) = retry_conn_set s"
  "sq_term (retry_broadcast s) = sq_term s"
  by (simp_all add: retry_broadcast_def)

lemma seg_inv_retry_broadcast [simp]: "seg_inv (retry_broadcast s) = seg_inv s"
  by (rule seg_inv_cong) simp_all

lemma event_inv_wakeup [simp]: "event_inv (bq_wakeup q) = event_inv q"
  by (simp add: event_inv_def bq_entries_same[of "bq_wakeup q" q] bq_indexed_same[of "bq_wakeup q" q])

lemma async_inv_wakeup [simp]: "async_inv (bq_wakeup q) = async_inv q"
  by (simp add: async_inv_def bq_entries_same[of "bq_wakeup q" q] bq_indexed_same[of "bq_wakeup q" q])

lemma sub_inv_wakeup [simp]: "sub_inv (bq_wakeup q) = sub_inv q"
  by (simp add: sub_inv_def bq_entries_same[of "bq_wakeup q" q] bq_indexed_same[of "bq_wakeup q" q])

lemma any_inv_wakeup [simp]: "any_inv (any_wakeup q) = any_inv q"
  by (cases q) simp_all

lemma segs_ok_map:
  assumes "segs_ok m" and "\<And>x. x \<in> set m \<Longrightarrow> fst (f x) = fst x \<and> any_inv (snd (f x))"
  shows "segs_ok (map f m)"
proof -
  have "map fst (map f m) = map fst m" using assms(2) by simp
  with assms show ?thesis by (auto simp: segs_ok_def om_ok_def simp del: map_map)
qed

lemma broadcast_inv: "seg_inv s \<Longrightarrow> seg_inv (broadcast s)"
  by (auto simp: seg_inv_def broadcast_def Let_def retries_ok_def segs_ok_def intro!: segs_ok_map)
    (auto simp: om_ok_def comp_def)

lemma backend_broadcast_inv: "seg_inv s \<Longrightarrow> seg_inv (backend_broadcast s)"
  by (auto simp: seg_inv_def backend_broadcast_def retries_ok_def segs_ok_def om_ok_def comp_def)

lemma requeue_retries_inv: "seg_inv s \<Longrightarrow> seg_inv (requeue_retries s)"
  by (simp add: seg_inv_def requeue_retries_def retries_ok_def)
    (simp add: retry_inv_def)

lemma requeue_retries_simps [simp]:
  "workflow_seg_map (requeue_retries s) = workflow_seg_map s"
  "sq_primary (requeue_retries s) = sq_primary s"
  "backend_queue_map (requeue_retries s) = backend_queue_map s"
  "retry_waiting (requeue_retries s) = retry_waiting s"
  by (simp_all add: requeue_retries_def)

lemma broadcast_refs [simp]:
  "workflow_seg_map (broadcast s) = workflow_seg_map s"
  "workflow_seg_map (backend_broadcast s) = workflow_seg_map s"
  "retry_waiting (broadcast s) = retry_waiting s"
  "retry_waiting (backend_broadcast s) = retry_waiting s"
  by (simp_all add: broadcast_def backend_broadcast_def Let_def)

lemma terminate_inv:
  "seg_inv s \<Longrightarrow> seg_inv (destructor s)" "seg_inv s \<Longrightarrow> seg_inv (terminate_connection i s)"
  "seg_inv s \<Longrightarrow> seg_inv (terminate_retry_connection i s)" "seg_inv s \<Longrightarrow> seg_inv (cleanup_connection i s)"
  by (simp_all add: destructor_def terminate_connection_def terminate_retry_connection_def
      cleanup_connection_def broadcast_inv)

section \<open>Segments\<close>

lemma segs_ok_put: "segs_ok m \<Longrightarrow> any_inv q \<Longrightarrow> segs_ok (om_put i q m)"
  using set_om_put[of i q m] by (auto simp: segs_ok_def om_ok_put)

lemma put_segment_simps [simp]:
  "sq_primary (put_segment i q s) = sq_primary s" "sq_retry (put_segment i q s) = sq_retry s"
  "sq_async_retry (put_segment i q s) = sq_async_retry s"
  "sq_fixed_retry (put_segment i q s) = sq_fixed_retry s"
  "workflow_seg_map (put_segment i q s) = workflow_seg_map s"
  "retry_waiting (put_segment i q s) = retry_waiting s"
  "conn_set (put_segment i q s) = conn_set s" "retry_conn_set (put_segment i q s) = retry_conn_set s"
  "sq_term (put_segment i q s) = sq_term s"
  "find_segment j (put_segment i q s) = (if j = i then Some q else find_segment j s)"
  by (simp_all add: put_segment_def find_segment_def)

lemma put_segment_inv: "seg_inv s \<Longrightarrow> any_inv q \<Longrightarrow> seg_inv (put_segment i q s)"
  by (simp add: seg_inv_def retries_ok_def) (simp add: put_segment_def segs_ok_put)

lemma find_segment_inv: "seg_inv s \<Longrightarrow> find_segment i s = Some q \<Longrightarrow> any_inv q"
  by (auto simp: seg_inv_def segs_ok_def find_segment_def dest!: map_of_SomeD)

lemma event_segment_iff: "event_segment i s = Inr q \<longleftrightarrow> find_segment i s = Some (AnyEvent q)"
  by (auto simp: event_segment_def split: option.splits any_queue.splits)

lemma async_segment_iff: "async_segment i s = Inr q \<longleftrightarrow> find_segment i s = Some (AnyAsync q)"
  by (auto simp: async_segment_def split: option.splits any_queue.splits)

lemma sub_segment_iff: "sub_segment i s = Inr q \<longleftrightarrow> find_segment i s = Some (AnySub q)"
  by (auto simp: sub_segment_def split: option.splits any_queue.splits)

lemma new_queues_inv: "event_inv new_EventQueue" "async_inv new_AsyncQueue" "sub_inv new_SubWorkflowQueue"
  by (simp_all add: event_inv_def async_inv_def sub_inv_def new_EventQueue_def new_AsyncQueue_def
      new_SubWorkflowQueue_def bq_entries_def bq_nodes_def bq_indexed_empty)
    (simp add: bq_indexed_def bq_shape_def bq_nodes_def sub_index_def)

lemma add_segment_inv:
  assumes "seg_inv s" "any_inv q" "\<not> sq_term s" "find_segment i s = None"
  shows "\<exists>s'. add_segment q i s = Inr s' \<and> seg_inv s' \<and> find_segment i s' = Some q"
  using assms by (simp add: add_segment_def put_segment_inv)

section \<open>Queueing\<close>

lemma queue_workflow_event_ok:
  assumes inv: "seg_inv s" and i: "find_segment i s = Some (AnyEvent q)" and w: "w \<noteq> 0"
  shows "\<exists>q'. queue_workflow_event api now i w ind prio ph s = Inr (put_segment i (AnyEvent q') s) \<and>
    event_inv q' \<and> seg_inv (put_segment i (AnyEvent q') s) \<and>
    event_content q' = (event_content q)
      (w \<mapsto> insert ind (case event_content q w of None \<Rightarrow> {} | Some s \<Rightarrow> s))"
proof -
  have q: "event_inv q" using find_segment_inv[OF inv i] by simp
  from add_event_ok[OF q w, of now ind prio "opt_parent_info api ph"] obtain q' where q':
    "add_event now w ind prio (opt_parent_info api ph) q = Inr q'" "event_inv q'"
    "event_content q' = (event_content q)
      (w \<mapsto> insert ind (case event_content q w of None \<Rightarrow> {} | Some s \<Rightarrow> s))" by blast
  from i have "event_segment i s = Inr q" by (simp add: event_segment_iff)
  with q' put_segment_inv[OF inv, of "AnyEvent q'" i] show ?thesis
    by (auto simp: queue_workflow_event_def)
qed

lemma queue_async_event_ok:
  assumes inv: "seg_inv s" and i: "find_segment i s = Some (AnyAsync q)" and w: "w \<noteq> 0"
  shows "\<exists>q'. queue_async_event api now i w ind prio c k d ph s = Inr (put_segment i (AnyAsync q') s) \<and>
    async_inv q' \<and> seg_inv (put_segment i (AnyAsync q') s) \<and>
    async_content q' = (async_content q)
      (w \<mapsto> async_upd ind \<lparr>queuekey = k, async_data = d, corrected = c\<rparr> (async_content q w))"
proof -
  have q: "async_inv q" using find_segment_inv[OF inv i] by simp
  from add_async_event_ok[OF q w, of now ind prio c "opt_parent_info api ph" k d] obtain q' where q':
    "add_async_event now w ind prio c (opt_parent_info api ph) k d q = Inr q'" "async_inv q'"
    "async_content q' = (async_content q)
      (w \<mapsto> async_upd ind \<lparr>queuekey = k, async_data = d, corrected = c\<rparr> (async_content q w))" by blast
  from i have "async_segment i s = Inr q" by (simp add: async_segment_iff)
  with q' put_segment_inv[OF inv, of "AnyAsync q'" i] show ?thesis
    by (auto simp: queue_async_event_def)
qed

lemma queue_subworkflow_event_ok:
  assumes inv: "seg_inv s" and i: "find_segment i s = Some (AnySub q)" and w: "w \<noteq> 0"
    and st: "st = CHR ''E'' \<or> st = CHR ''C''"
  shows "\<exists>q'. queue_subworkflow_event api now i w ind prio st sw ph s = Inr (put_segment i (AnySub q') s) \<and>
    sub_inv q' \<and> seg_inv (put_segment i (AnySub q') s) \<and>
    sub_content q' = (sub_content q) ((w, st = CHR ''C'') \<mapsto>
      insert ind (case sub_content q (w, st = CHR ''C'') of None \<Rightarrow> {} | Some s \<Rightarrow> s))"
proof -
  have q: "sub_inv q" using find_segment_inv[OF inv i] by simp
  from add_subworkflow_event_ok[OF q w st, of now ind prio "opt_parent_info api ph" sw] obtain q' where q':
    "add_subworkflow_event now w ind prio (opt_parent_info api ph) st sw q = Inr q'" "sub_inv q'"
    "sub_content q' = (sub_content q) ((w, st = CHR ''C'') \<mapsto>
      insert ind (case sub_content q (w, st = CHR ''C'') of None \<Rightarrow> {} | Some s \<Rightarrow> s))" by blast
  from i have "sub_segment i s = Inr q" by (simp add: sub_segment_iff)
  with q' put_segment_inv[OF inv, of "AnySub q'" i] show ?thesis
    by (auto simp: queue_subworkflow_event_def)
qed

lemma put_primary_inv: "seg_inv s \<Longrightarrow> pq_inv q \<Longrightarrow> seg_inv (s\<lparr>sq_primary := q\<rparr>)"
  by (simp add: seg_inv_def retries_ok_def)

text \<open>A new order is accepted unless the same order waits in the other of the two queues.\<close>

lemma queue_primary_event_ok:
  assumes inv: "seg_inv s" and w: "w \<noteq> 0"
    and spec: "spec_add \<lparr>pe_wfiid = w, pe_prio = prio, pe_pi = opt_parent_info api ph\<rparr> scheduled now
      (pq_abs (sq_primary s)) = Inr a"
  shows "\<exists>q. queue_primary_event api now w prio ph scheduled s = Inr (s\<lparr>sq_primary := q\<rparr>) \<and>
    pq_abs q = a \<and> seg_inv (s\<lparr>sq_primary := q\<rparr>)"
proof -
  from primary_add_spec[OF seg_inv_parts(1)[OF inv] w, of prio "opt_parent_info api ph" scheduled now True]
    spec obtain q where "primary_add w prio (opt_parent_info api ph) scheduled now True (sq_primary s) = Inr q"
    "pq_inv q" "pq_abs q = a" by auto
  with put_primary_inv[OF inv, of q] show ?thesis
    by (intro exI[of _ q]) (simp add: queue_primary_event_def)
qed

section \<open>Retry queues\<close>

lemma src_queue_eq: "src_queue Fixed_src = sq_fixed_retry" "src_queue Retry_src = sq_retry"
    "src_queue Async_src = sq_async_retry"
  by (simp_all add: fun_eq_iff src_queue_def)

lemma put_src_eq: "put_src Fixed_src = put_fixed_retry" "put_src Retry_src = put_retry"
    "put_src Async_src = put_async_retry"
  by (simp_all add: fun_eq_iff put_src_def)

lemma src_queue_cong:
  "sq_fixed_retry s' = sq_fixed_retry s \<Longrightarrow> sq_retry s' = sq_retry s \<Longrightarrow>
     sq_async_retry s' = sq_async_retry s \<Longrightarrow> src_queue r s' = src_queue r s"
  by (cases r) (simp_all add: src_queue_def)

lemma put_src_simps [simp]:
  "src_queue r' (put_src r q s) = (if r' = r then q else src_queue r' s)"
  "sq_primary (put_src r q s) = sq_primary s" "backend_queue_map (put_src r q s) = backend_queue_map s"
  "workflow_seg_map (put_src r q s) = workflow_seg_map s"
  "retry_waiting (put_src r q s) = retry_waiting s" "conn_set (put_src r q s) = conn_set s"
  "retry_conn_set (put_src r q s) = retry_conn_set s" "sq_term (put_src r q s) = sq_term s"
  "find_segment i (put_src r q s) = find_segment i s"
  by (cases r; cases r'; simp add: put_src_def src_queue_def put_retry_def put_fixed_retry_def
      put_async_retry_def find_segment_def)+

lemma retries_ok_iff: "retries_ok s \<longleftrightarrow> (\<forall>r. retry_inv (src_queue r s))"
proof
  assume "\<forall>r. retry_inv (src_queue r s)"
  then have "retry_inv (src_queue Fixed_src s)" "retry_inv (src_queue Retry_src s)"
    "retry_inv (src_queue Async_src s)" by blast+
  then show "retries_ok s" by (simp add: retries_ok_def src_queue_def)
qed (blast intro: retry_inv_src)

lemma put_src_inv: "seg_inv s \<Longrightarrow> retry_inv q \<Longrightarrow> seg_inv (put_src r q s)"
  by (auto simp: seg_inv_def retries_ok_iff)

lemma src_queue_requeue [simp]: "src_queue r (requeue_retries s) = clear_markers (src_queue r s)"
  by (cases r) (simp_all add: src_queue_def requeue_retries_def)

lemma queue_retry_ok:
  assumes inv: "seg_inv s" and w: "w \<noteq> 0" and a: "addr \<notin> live_addr (src_queue r s)"
  shows "\<exists>s'. queue_retry_in (src_queue r) (put_src r) api addr w d ph s = Inr s' \<and> seg_inv s' \<and>
    retry_content (src_queue r s') = (retry_content (src_queue r s))
      (w \<mapsto> retry_upd addr w d (opt_parent_info api ph) (retry_content (src_queue r s) w)) \<and>
    (\<forall>r'. r' \<noteq> r \<longrightarrow> retry_content (src_queue r' s') = retry_content (src_queue r' s)) \<and>
    workflow_seg_map s' = workflow_seg_map s \<and> retry_waiting s' = retry_waiting s"
proof -
  from retry_add_ok[OF retry_inv_src[OF seg_inv_parts(2)[OF inv]] w a, of d "opt_parent_info api ph"]
  obtain rc q where q: "retry_add addr w d (opt_parent_info api ph) (src_queue r s) = Inr (rc, q)" "retry_inv q"
    "retry_content q = (retry_content (src_queue r s))
      (w \<mapsto> retry_upd addr w d (opt_parent_info api ph) (retry_content (src_queue r s) w))" by blast
  let ?s' = "if rc = 0 then requeue_retries (put_src r q s) else put_src r q s"
  have "queue_retry_in (src_queue r) (put_src r) api addr w d ph s = Inr ?s'"
    using q(1) by (simp add: queue_retry_in_def)
  moreover have "seg_inv ?s'"
    using put_src_inv[OF inv q(2)] requeue_retries_inv by simp
  ultimately show ?thesis using q(3) by (intro exI[of _ ?s']) simp
qed

lemma remove_workflow_instance_ok:
  assumes inv: "seg_inv s"
  shows "\<exists>s'. remove_workflow_instance w s = Inr s' \<and> seg_inv s' \<and>
    (\<forall>r. retry_content (src_queue r s') = (retry_content (src_queue r s))(w := None)) \<and>
    workflow_seg_map s' = workflow_seg_map s \<and> retry_waiting s' = retry_waiting s"
proof -
  have parts: "retry_inv (sq_retry s)" "retry_inv (sq_async_retry s)" "retry_inv (sq_fixed_retry s)"
    using inv by (simp_all add: seg_inv_def retries_ok_def)
  from retry_remove_ok[OF parts(1), of w] obtain r where r: "retry_remove_workflow_instance w (sq_retry s) = Inr r"
    "retry_core r" "retry_content r = (retry_content (sq_retry s))(w := None)" by auto
  from retry_remove_ok[OF parts(2), of w] obtain a where a: "retry_remove_workflow_instance w (sq_async_retry s) = Inr a"
    "retry_core a" "retry_content a = (retry_content (sq_async_retry s))(w := None)" by auto
  from retry_remove_ok[OF parts(3), of w] obtain f where f: "retry_remove_workflow_instance w (sq_fixed_retry s) = Inr f"
    "retry_core f" "retry_content f = (retry_content (sq_fixed_retry s))(w := None)" by auto
  let ?s' = "requeue_retries (s\<lparr>sq_retry := r, sq_async_retry := a, sq_fixed_retry := f\<rparr>)"
  have "seg_inv ?s'"
    using inv r(2) a(2) f(2) by (simp add: seg_inv_def retries_ok_def requeue_retries_def)
  moreover have "retry_content (src_queue t ?s') = (retry_content (src_queue t s))(w := None)" for t
    using r(3) a(3) f(3) unfolding src_queue_requeue clear_markers_simps
    by (cases t) (simp_all add: src_queue_def)
  ultimately show ?thesis using r(1) a(1) f(1) by (simp add: remove_workflow_instance_def)
qed

section \<open>Segments in progress\<close>

lemma refs_ok_put: "refs_ok m \<Longrightarrow> w \<noteq> 0 \<Longrightarrow> n = -1 \<or> n > 0 \<Longrightarrow> refs_ok (om_put w n m)"
  using set_om_put[of w n m] by (auto simp: refs_ok_def om_ok_put)

lemma refs_ok_del: "refs_ok m \<Longrightarrow> refs_ok (om_del w m)"
  by (auto simp: refs_ok_def om_ok_del)

lemma put_refs_simps [simp]:
  "sq_primary (put_refs w n s) = sq_primary s" "sq_retry (put_refs w n s) = sq_retry s"
  "sq_async_retry (put_refs w n s) = sq_async_retry s" "sq_fixed_retry (put_refs w n s) = sq_fixed_retry s"
  "backend_queue_map (put_refs w n s) = backend_queue_map s" "retry_waiting (put_refs w n s) = retry_waiting s"
  "find_segment i (put_refs w n s) = find_segment i s"
  "seg_refs v (put_refs w n s) = (if v = w then Some n else seg_refs v s)"
  by (simp_all add: put_refs_def find_segment_def seg_refs_def)

lemma src_queue_other [simp]:
  "src_queue r (put_refs w n s) = src_queue r s" "src_queue r (put_segment i q s) = src_queue r s"
  "src_queue r (backend_broadcast s) = src_queue r s" "src_queue r (broadcast s) = src_queue r s"
  "src_queue r (retry_broadcast s) = src_queue r s"
  "src_queue r (s\<lparr>workflow_seg_map := m\<rparr>) = src_queue r s" "src_queue r (s\<lparr>retry_cond := c\<rparr>) = src_queue r s"
  "src_queue r (s\<lparr>retry_waiting := k\<rparr>) = src_queue r s" "src_queue r (s\<lparr>sq_primary := p\<rparr>) = src_queue r s"
  "src_queue r (s\<lparr>conn_set := c'\<rparr>) = src_queue r s" "src_queue r (s\<lparr>retry_conn_set := c'\<rparr>) = src_queue r s"
  "src_queue r (s\<lparr>sq_term := b\<rparr>) = src_queue r s" "src_queue r (s\<lparr>backend_queue_map := bm\<rparr>) = src_queue r s"
  by (rule src_queue_cong; simp add: backend_broadcast_def broadcast_def Let_def)+

lemma put_refs_inv: "seg_inv s \<Longrightarrow> w \<noteq> 0 \<Longrightarrow> n = -1 \<or> n > 0 \<Longrightarrow> seg_inv (put_refs w n s)"
  using refs_ok_put[of "workflow_seg_map s" w n] by (auto simp: seg_inv_def retries_ok_def put_refs_def)

lemma del_refs_inv: "seg_inv s \<Longrightarrow> seg_inv (s\<lparr>workflow_seg_map := om_del w (workflow_seg_map s)\<rparr>)"
  using refs_ok_del[of "workflow_seg_map s" w] by (simp add: seg_inv_def retries_ok_def)

lemma seg_refs_inv: "seg_inv s \<Longrightarrow> seg_refs w s = Some n \<Longrightarrow> w \<noteq> 0 \<and> (n = -1 \<or> n > 0)"
  by (fastforce simp: seg_inv_def refs_ok_def seg_refs_def dest: map_of_SomeD)

lemma grab_segment_inc_ok:
  assumes inv: "seg_inv s" and w: "w \<noteq> 0"
  shows "\<exists>s'. grab_segment_inc w s = Inr (in_retry s w, s') \<and> seg_inv s' \<and>
    s' = (if in_retry s w then s
          else put_refs w (case seg_refs w s of None \<Rightarrow> 1 | Some n \<Rightarrow> n + 1) s)"
  using seg_refs_inv[OF inv, of w] w put_refs_inv[OF inv w] inv
  by (cases "seg_refs w s") (auto simp: grab_segment_inc_def in_retry_def)

lemma grab_backend_ok:
  assumes inv: "seg_inv s" and w: "w \<noteq> 0" and r: "\<not> in_retry s w"
  shows "\<exists>s'. grab_backend w s = Inr s' \<and> seg_inv s' \<and>
    s' = put_refs w (case seg_refs w s of None \<Rightarrow> 1 | Some n \<Rightarrow> n + 1) s"
  using seg_refs_inv[OF inv, of w] w r put_refs_inv[OF inv w]
  by (cases "seg_refs w s") (auto simp: grab_backend_def in_retry_def)

lemma release_segment_ok:
  assumes inv: "seg_inv s" and n: "seg_refs w s = Some n" "n > 0"
  shows "\<exists>s'. release_segment w s = Inr s' \<and> seg_inv s' \<and> retry_waiting s' = retry_waiting s \<and>
    (\<forall>v. seg_refs v s' = (if v = w then if n = 1 then None else Some (n - 1) else seg_refs v s)) \<and>
    (\<forall>r. src_queue r s' = src_queue r s)"
proof (cases "n = 1")
  case True
  with n show ?thesis
    using del_refs_inv[OF inv, of w]
    by (auto simp: release_segment_def Let_def seg_refs_def)
next
  case False
  with n show ?thesis
    using put_refs_inv[OF inv, of w "n - 1"] seg_refs_inv[OF inv n(1)]
    by (auto simp: release_segment_def)
qed

lemma release_retry_segment_ok:
  assumes inv: "seg_inv s" and n: "seg_refs w s = Some (-1)"
  shows "\<exists>s'. release_retry_segment w s = Inr s' \<and> seg_inv s' \<and> retry_waiting s' = retry_waiting s \<and>
    (\<forall>v. seg_refs v s' = (if v = w then None else seg_refs v s)) \<and>
    (\<forall>r. src_queue r s' = src_queue r s)"
  using n backend_broadcast_inv[OF del_refs_inv[OF inv, of w]]
  by (simp add: release_retry_segment_def seg_refs_def)

end
