(* ===== verification/Segment_Delivery.thy ===== *)
theory Segment_Delivery
  imports Segment_Laws
begin

text \<open>
  One round of each blocking call of \<^verbatim>\<open>SegmentEventQueue\<close>: what it delivers, when it
  waits, and that it is defined and keeps the invariant.
\<close>

section \<open>Primary events\<close>

lemma primary_attempt_ok:
  assumes inv: "seg_inv s"
  shows "\<exists>a s'. primary_attempt conn now s = Inr (a, s') \<and> seg_inv s' \<and>
    workflow_seg_map s' = workflow_seg_map s \<and> (\<forall>r. src_queue r s' = src_queue r s) \<and>
    retry_waiting s' = retry_waiting s \<and>
    (if conn_stopped conn s then a = Finished None \<and> s' = s
     else let p = spec_activate now (pq_abs (sq_primary s)) in
       (case os_ready p of
          e # es \<Rightarrow> a = Finished (Some (primary_get_hash e)) \<and> pq_abs (sq_primary s') = p\<lparr>os_ready := es\<rparr>
        | [] \<Rightarrow> a = Waiting (case os_later p of [] \<Rightarrow> None | x # _ \<Rightarrow> Some ((fst x - now) * 1000)) \<and>
            pq_abs (sq_primary s') = p))"
proof (cases "conn_stopped conn s")
  case True
  with inv show ?thesis by (simp add: primary_attempt_def)
next
  case False
  let ?p = "spec_activate now (pq_abs (sq_primary s))"
  from checkEvent_spec[OF seg_inv_parts(1)[OF inv], of now] obtain q where
    q: "checkEvent now (sq_primary s) = Inr (os_ready ?p \<noteq> [], q)" "pq_inv q" "pq_abs q = ?p" by blast
  show ?thesis
  proof (cases "os_ready ?p")
    case (Cons e es)
    with getEvent_spec[OF q(2)] q(3) obtain q' where
      "getEvent q = Inr (primary_get_hash e, q')" "pq_inv q'" "pq_abs q' = ?p\<lparr>os_ready := es\<rparr>" by auto
    with False Cons q put_primary_inv[OF inv, of q'] show ?thesis
      by (simp add: primary_attempt_def Let_def)
  next
    case Nil
    have empty: "pq q = []"
    proof (rule ccontr)
      assume "pq q \<noteq> []"
      then obtain x m where "pq q = x # m" by (cases "pq q") auto
      with pq_inv_parts(1)[OF q(2)] have "pq_ready q \<noteq> []"
        by (auto simp: pq_ready_def pq_items_def pq_shape_Cons dq_elems_def)
      moreover have "os_ready (pq_abs q) = []" using q(3) Nil by metis
      ultimately show False by (simp add: pq_abs_def)
    qed
    have later: "\<forall>x\<in>set (os_later ?p). now < fst x"
    proof -
      have "sorted (map fst (os_later (pq_abs (sq_primary s))))"
        by (rule pqb.later_sorted[OF seg_inv_parts(1)[OF inv]])
      from dropWhile_later[OF this] show ?thesis by (simp add: spec_activate_def)
    qed
    have psq: "map snd (psq q) = os_later ?p" using q(3)[symmetric] by (simp add: pq_abs_def)
    let ?q' = "q\<lparr>pq_waiting := pq_waiting q + 1\<rparr>"
    have wait: "primary_wait_begin now q =
        Inr (case os_later ?p of [] \<Rightarrow> None | x # _ \<Rightarrow> Some ((fst x - now) * 1000), ?q')"
    proof (cases "psq q")
      case Nil
      with empty psq[symmetric] show ?thesis by (simp add: primary_wait_begin_def)
    next
      case (Cons x xs)
      then have "os_later ?p = snd x # map snd xs" using psq[symmetric] by simp
      with later Cons empty show ?thesis by (simp add: primary_wait_begin_def Let_def)
    qed
    have "pq_inv ?q'" "pq_abs ?q' = ?p"
      using pq_inv_cong[of ?q' q] q(2,3) by simp_all
    with False Nil q(1) wait put_primary_inv[OF inv, of ?q'] show ?thesis
      by (simp add: primary_attempt_def Let_def)
  qed
qed

lemma primary_resume_inv: "seg_inv s \<Longrightarrow> seg_inv (primary_resume t s)"
  using pq_inv_cong(1)[of "primary_wait_end (sq_primary s)" "sq_primary s"]
  by (simp add: primary_resume_def put_primary_inv seg_inv_parts(1) primary_wait_end_def)

section \<open>Backend events\<close>

text \<open>The entries of a queue with their priority and time, in the order of the map.\<close>

definition bq_schedule :: "(int, backend_entry nodes) omap \<Rightarrow> ((int \<times> int) \<times> backend_entry) list" where
  "bq_schedule m = concat (map (\<lambda>x. map (\<lambda>n. ((fst x, fst (snd n)), snd (snd n))) (snd x)) m)"

definition due_le :: "int \<times> int \<Rightarrow> int \<times> int \<Rightarrow> bool" where
  "due_le a b \<longleftrightarrow> fst a < fst b \<or> fst a = fst b \<and> snd a \<le> snd b"

lemma bq_schedule_sorted:
  assumes "om_ok m" "\<forall>x\<in>set m. sorted (mm_keys (snd x))"
  shows "sorted_wrt due_le (map fst (bq_schedule m))"
  using assms
proof (induction m)
  case Nil
  then show ?case by (simp add: bq_schedule_def)
next
  case (Cons x m)
  have IH: "sorted_wrt due_le (map fst (bq_schedule m))"
    using Cons by (simp add: om_ok_Cons)
  have "sorted_wrt due_le (map (\<lambda>n. (fst x, fst (snd n))) (snd x))"
    using Cons.prems(2) by (simp add: due_le_def sorted_wrt_map mm_keys_def)
  moreover have "\<forall>a\<in>set (map (\<lambda>n. (fst x, fst (snd n))) (snd x)). \<forall>b\<in>set (map fst (bq_schedule m)). due_le a b"
    using Cons.prems(1) by (fastforce simp: due_le_def bq_schedule_def om_ok_Cons)
  ultimately show ?case using IH
    by (simp add: bq_schedule_def sorted_wrt_append comp_def)
qed

lemma entries_schedule: "map snd (bq_schedule m) = mm_vals (map_nodes m)"
  by (induction m) (auto simp: bq_schedule_def mm_vals_def)

text \<open>
  What \<open>take_ready\<close> takes is due no later than every other entry that could be taken.
\<close>

lemma take_ready_first:
  assumes "take_ready b m = Some (e, m')" and "distinct (mm_ids (map_nodes m))"
    and "om_ok m" "\<forall>x\<in>set m. sorted (mm_keys (snd x))"
  shows "\<exists>d. (d, e) \<in> set (bq_schedule m) \<and> \<not> b (entry_wfiid e) \<and>
    (\<forall>(d', e')\<in>set (bq_schedule m). \<not> b (entry_wfiid e') \<longrightarrow> due_le d d')"
proof -
  from take_ready_Some[OF assms(1,2)] obtain pre n t post where
    sp: "map_nodes m = pre @ (n, t, e) # post" "\<forall>x\<in>set pre. b (entry_wfiid (snd (snd x)))"
      "\<not> b (entry_wfiid e)" by blast
  have len: "length (bq_schedule m) = length (map_nodes m)"
    using arg_cong[OF entries_schedule[of m], of length] by (simp add: mm_vals_def)
  let ?i = "length pre"
  have nth: "snd (bq_schedule m ! j) = snd (snd (map_nodes m ! j))" if "j < length (map_nodes m)" for j
    using arg_cong[OF entries_schedule[of m], of "\<lambda>l. l ! j"] that len by (simp add: mm_vals_def)
  have i: "?i < length (bq_schedule m)" using sp(1) len by simp
  let ?d = "fst (bq_schedule m ! ?i)"
  have e: "snd (bq_schedule m ! ?i) = e" using nth[of ?i] i len sp(1) by simp
  then have "(?d, e) \<in> set (bq_schedule m)" using nth_mem[OF i] by (metis prod.collapse)
  moreover have "due_le ?d d'" if d': "(d', e') \<in> set (bq_schedule m)" "\<not> b (entry_wfiid e')" for d' e'
  proof -
    from d'(1) obtain j where j: "j < length (bq_schedule m)" "bq_schedule m ! j = (d', e')"
      by (metis in_set_conv_nth)
    have "\<not> j < ?i"
    proof
      assume "j < ?i"
      then have "map_nodes m ! j \<in> set pre" using sp(1) by (simp add: nth_append)
      with sp(2) nth[of j] j len d'(2) show False by auto
    qed
    then have "j = ?i \<or> ?i < j" by linarith
    then show ?thesis
    proof
      assume "j = ?i"
      with j(2) show ?thesis by (simp add: due_le_def)
    next
      assume "?i < j"
      then show ?thesis
        using sorted_wrt_nth_less[OF bq_schedule_sorted[OF assms(3,4)], of ?i j] j i by simp
    qed
  qed
  ultimately show ?thesis using sp(3) by blast
qed

lemma take_ready_not: "take_ready b m = Some (e, m') \<Longrightarrow> \<not> b (entry_wfiid e)"
proof (induction m arbitrary: m')
  case Nil
  then show ?case by simp
next
  case (Cons x m)
  show ?case
  proof (cases "find (\<lambda>n. \<not> b (entry_wfiid (snd (snd n)))) (snd x)")
    case (Some n)
    from find_split[OF Some] Some Cons.prems show ?thesis by (auto simp: Let_def)
  next
    case None
    with Cons show ?thesis by auto
  qed
qed

lemma bq_content_take:
  assumes ix: "bq_indexed key idx q" and tk: "take_ready b (bq_map q) = Some (e, m')"
  shows "bq_content key f (q\<lparr>bq_map := m'\<rparr>) = (bq_content key f q)(key e := None)"
proof (rule map_eqI_Some)
  fix k c
  let ?q = "q\<lparr>bq_map := m'\<rparr>"
  have d: "distinct (mm_ids (bq_nodes q))" using ix by (simp add: bq_indexed_def bq_shape_def)
  then obtain pre n t post where sp: "bq_nodes q = pre @ (n, t, e) # post" "bq_nodes ?q = pre @ post"
    using take_ready_Some[OF tk] by (auto simp: bq_nodes_def)
  have other: "x \<in> set (bq_nodes ?q) \<longleftrightarrow> x \<in> set (bq_nodes q) \<and> fst x \<noteq> n" for x
    using d unfolding sp by (auto simp: mm_ids_def image_iff)
  have e: "(n, t, e) \<in> set (bq_nodes q)" using sp by simp
  have same: "m = n \<longleftrightarrow> key e' = key e" if "(m, t', e') \<in> set (bq_nodes q)" for m t' e'
    using bq_indexed_unique[OF ix that e] mm_node_unique[OF d e, of "(t', e')"] that by auto
  have "(\<exists>m t' e'. ((m, t', e') \<in> set (bq_nodes q) \<and> m \<noteq> n) \<and> key e' = k \<and> f e' = c) \<longleftrightarrow>
      (\<exists>m t' e'. (m, t', e') \<in> set (bq_nodes q) \<and> key e' = k \<and> f e' = c) \<and> k \<noteq> key e"
    using same by metis
  then show "bq_content key f ?q k = Some c \<longleftrightarrow> ((bq_content key f q)(key e := None)) k = Some c"
    unfolding bq_content_Some[OF bq_indexed_take[OF ix tk]] other
    by (simp add: bq_content_Some[OF ix])
qed

lemma take_in_entries:
  assumes "take_ready b (bq_map q) = Some (e, m')" "bq_shape q"
  shows "e \<in> set (bq_entries q) \<and> set (bq_entries (q\<lparr>bq_map := m'\<rparr>)) \<subseteq> set (bq_entries q)"
proof -
  from take_ready_Some[OF assms(1)] assms(2) obtain pre n t post where
    "bq_nodes q = pre @ (n, t, e) # post" "bq_nodes (q\<lparr>bq_map := m'\<rparr>) = pre @ post"
    by (auto simp: bq_nodes_def bq_shape_def)
  then show ?thesis by (auto simp: bq_entries_def)
qed

text \<open>
  The interface of a queue to \<^verbatim>\<open>get_backend_event_unlocked\<close> and its three callers:
  \<open>drop\<close> removes the index entry of the event that was taken.
\<close>

locale backend_server =
  fixes drop :: "backend_entry \<Rightarrow> 'a backend_queue_scheme \<Rightarrow> 'a backend_queue_scheme"
    and idx :: "'a backend_queue_scheme \<Rightarrow> 'k \<Rightarrow> nat option"
    and key :: "backend_entry \<Rightarrow> 'k"
    and inv :: "'a backend_queue_scheme \<Rightarrow> bool"
    and good :: "backend_entry \<Rightarrow> bool"
  assumes drop_map: "bq_map (drop e q) = bq_map q" "bq_next (drop e q) = bq_next q"
    and drop_idx: "good e \<Longrightarrow> idx (drop e q) = (idx q)(key e := None)"
    and set_map: "idx (q\<lparr>bq_map := m\<rparr>) = idx q" "idx (bq_wait_begin q) = idx q" "idx (bq_wait_end q) = idx q"
    and inv_iff: "inv q \<longleftrightarrow> bq_indexed key (idx q) q \<and> (\<forall>e\<in>set (bq_entries q). good e)"
    and good_id: "good e \<Longrightarrow> entry_wfiid e \<noteq> 0"
begin

lemma take_inv:
  assumes inv: "inv q" and tk: "take_ready b (bq_map q) = Some (e, m)"
  shows "inv (drop e (q\<lparr>bq_map := m\<rparr>)) \<and> good e \<and> idx q (key e) \<noteq> None"
proof -
  from inv have ix: "bq_indexed key (idx q) q" and g: "\<forall>e\<in>set (bq_entries q). good e"
    by (simp_all add: inv_iff)
  let ?q = "q\<lparr>bq_map := m\<rparr>"
  have sub: "e \<in> set (bq_entries q)" "set (bq_entries ?q) \<subseteq> set (bq_entries q)"
    using take_in_entries[OF tk bq_indexed_shape[OF ix]] by blast+
  have ge: "good e" using g sub(1) by blast
  from sub(1) obtain n t where nt: "(n, t, e) \<in> set (bq_nodes q)" by (auto simp: in_bq_entries)
  have "bq_indexed key ((idx q)(key e := None)) (drop e ?q)"
    using bq_indexed_take[OF ix tk] bq_indexed_same[OF drop_map, of key] by simp
  then have "bq_indexed key (idx (drop e ?q)) (drop e ?q)"
    by (simp add: drop_idx[OF ge] set_map)
  moreover have "bq_entries (drop e ?q) = bq_entries ?q" by (rule bq_entries_same[OF drop_map(1)])
  moreover have "idx q (key e) \<noteq> None" using ix nt unfolding bq_indexed_def by blast
  ultimately show ?thesis using g sub ge by (auto simp: inv_iff)
qed

lemma take_content:
  assumes inv: "inv q" and tk: "take_ready b (bq_map q) = Some (e, m)"
  shows "bq_content key f q (key e) = Some (f e) \<and>
    bq_content key f (drop e (q\<lparr>bq_map := m\<rparr>)) = (bq_content key f q)(key e := None)"
proof -
  from inv have ix: "bq_indexed key (idx q) q" by (simp add: inv_iff)
  have "e \<in> set (bq_entries q)"
    using take_in_entries[OF tk bq_indexed_shape[OF ix]] by blast
  then obtain n t where "(n, t, e) \<in> set (bq_nodes q)" by (auto simp: in_bq_entries)
  then show ?thesis
    using bq_content_Some[OF ix, of f "key e" "f e"] bq_content_take[OF ix tk, of f]
      bq_content_same[OF drop_map(1), of key f] by auto
qed

lemma wait_inv: "inv (bq_wait_begin q) = inv q" "inv (bq_wait_end q) = inv q"
proof -
  have m: "bq_map (bq_wait_begin q) = bq_map q" "bq_next (bq_wait_begin q) = bq_next q"
    "bq_map (bq_wait_end q) = bq_map q" "bq_next (bq_wait_end q) = bq_next q"
    by (simp_all add: bq_wait_begin_def bq_wait_end_def)
  show "inv (bq_wait_begin q) = inv q" "inv (bq_wait_end q) = inv q"
    using bq_indexed_same[OF m(1,2), of key] bq_indexed_same[OF m(3,4), of key]
      bq_entries_same[OF m(1)] bq_entries_same[OF m(3)] by (simp_all add: inv_iff set_map)
qed

end

definition event_drop :: "backend_entry \<Rightarrow> event_queue \<Rightarrow> event_queue" where
  "event_drop e q = q\<lparr>ev_wfmap := (ev_wfmap q)(entry_wfiid e := None)\<rparr>"

definition async_drop :: "backend_entry \<Rightarrow> async_queue \<Rightarrow> async_queue" where
  "async_drop e q = q\<lparr>as_wfmap := (as_wfmap q)(entry_wfiid e := None)\<rparr>"

definition sub_drop :: "backend_entry \<Rightarrow> sub_queue \<Rightarrow> sub_queue" where
  "sub_drop e q = set_sub_wfmap (entry_status e) ((sub_wfmap (entry_status e) q)(entry_wfiid e := None)) q"

interpretation evs: backend_server event_drop ev_wfmap entry_wfiid event_inv good_event
proof unfold_locales
  fix e
  show "good_event e \<Longrightarrow> entry_wfiid e \<noteq> 0" by (cases e) auto
qed (simp_all add: event_drop_def event_inv_def bq_wait_begin_def bq_wait_end_def)

interpretation ass: backend_server async_drop as_wfmap entry_wfiid async_inv good_async
proof unfold_locales
  fix e
  show "good_async e \<Longrightarrow> entry_wfiid e \<noteq> 0" by (cases e) auto
qed (simp_all add: async_drop_def async_inv_def bq_wait_begin_def bq_wait_end_def)

interpretation sws: backend_server sub_drop sub_index sub_key sub_inv good_sub
proof unfold_locales
  fix e q
  show "good_sub e \<Longrightarrow> entry_wfiid e \<noteq> 0" by (cases e) auto
  show "good_sub e \<Longrightarrow> sub_index (sub_drop e q) = (sub_index q)(sub_key e := None)"
    by (cases e) (auto simp: sub_drop_def sub_index_def set_sub_wfmap_def sub_wfmap_def sub_key_def fun_eq_iff)
qed (simp_all add: sub_drop_def sub_inv_def bq_wait_begin_def bq_wait_end_def sub_index_def fun_eq_iff)

text \<open>The round of \<^verbatim>\<open>get_backend_event_unlocked\<close> that they share.\<close>

lemma backend_attempt_cases:
  assumes inv: "seg_inv s"
    and id: "\<And>e m. take_ready (in_retry s) (bq_map q) = Some (e, m) \<Longrightarrow> entry_wfiid e \<noteq> 0"
  shows "backend_attempt conn i mk q s =
    (if conn_stopped conn s then Inr (Finished None, s)
     else case take_ready (in_retry s) (bq_map q) of
       None \<Rightarrow> Inr (Waiting (), put_segment i (mk (bq_wait_begin q)) s)
     | Some (e, m) \<Rightarrow> Inr (Finished (Some (e, q\<lparr>bq_map := m\<rparr>)),
         put_segment i (mk (q\<lparr>bq_map := m\<rparr>)) (put_refs (entry_wfiid e)
           (case seg_refs (entry_wfiid e) s of None \<Rightarrow> 1 | Some n \<Rightarrow> n + 1) s)))"
proof (cases "take_ready (in_retry s) (bq_map q)")
  case None
  then show ?thesis by (simp add: backend_attempt_def)
next
  case (Some em)
  then obtain e m where em: "take_ready (in_retry s) (bq_map q) = Some (e, m)" by (cases em) auto
  have "\<not> in_retry s (entry_wfiid e)" by (rule take_ready_not[OF em])
  from grab_backend_ok[OF inv id[OF em] this] em show ?thesis
    by (auto simp: backend_attempt_def Let_def)
qed

text \<open>Bumping the count of a segment that is grabbed.\<close>

definition grab_count :: "int option \<Rightarrow> int" where
  "grab_count n = (case n of None \<Rightarrow> 1 | Some k \<Rightarrow> k + 1)"

lemma grab_put_inv:
  assumes "seg_inv s" "w \<noteq> 0" "\<not> in_retry s w"
  shows "seg_inv (put_refs w (grab_count (seg_refs w s)) s)"
  using put_refs_inv[OF assms(1,2)] seg_refs_inv[OF assms(1), of w] assms(3)
  by (cases "seg_refs w s") (auto simp: grab_count_def in_retry_def)

lemma put_segment_twice [simp]: "put_segment i a (put_segment i b t) = put_segment i a t"
proof -
  have "om_put i a (om_put i b m) = om_put i a m" for m by (induction m) auto
  then show ?thesis by (simp add: put_segment_def)
qed

lemma event_attempt_ok:
  assumes inv: "seg_inv s" and i: "find_segment i s = Some (AnyEvent q)"
  shows "event_attempt conn i u s =
    (if conn_stopped conn s then Inr (Finished None, s)
     else case take_ready (in_retry s) (bq_map q) of
       None \<Rightarrow> Inr (Waiting (), put_segment i (AnyEvent (bq_wait_begin q)) s)
     | Some (e, m) \<Rightarrow> Inr (Finished (Some (get_hash e)), put_segment i (AnyEvent (event_drop e (q\<lparr>bq_map := m\<rparr>)))
         (put_refs (entry_wfiid e) (grab_count (seg_refs (entry_wfiid e) s)) s)))"
proof -
  have q: "event_inv q" using find_segment_inv[OF inv i] by simp
  have id: "take_ready (in_retry s) (bq_map q) = Some (e, m) \<Longrightarrow> entry_wfiid e \<noteq> 0" for e m
    using evs.take_inv[OF q] evs.good_id by blast
  have "event_segment i s = Inr q" using i by (simp add: event_segment_iff)
  then show ?thesis
    unfolding event_attempt_def
    by (simp add: backend_attempt_cases[OF inv id] event_drop_def grab_count_def split: option.splits)
qed

lemma async_attempt_ok:
  assumes inv: "seg_inv s" and i: "find_segment i s = Some (AnyAsync q)"
  shows "async_attempt conn i u s =
    (if conn_stopped conn s then Inr (Finished None, s)
     else case take_ready (in_retry s) (bq_map q) of
       None \<Rightarrow> Inr (Waiting (), put_segment i (AnyAsync (bq_wait_begin q)) s)
     | Some (e, m) \<Rightarrow> Inr (Finished (Some (get_hash e)), put_segment i (AnyAsync (async_drop e (q\<lparr>bq_map := m\<rparr>)))
         (put_refs (entry_wfiid e) (grab_count (seg_refs (entry_wfiid e) s)) s)))"
proof -
  have q: "async_inv q" using find_segment_inv[OF inv i] by simp
  have id: "take_ready (in_retry s) (bq_map q) = Some (e, m) \<Longrightarrow> entry_wfiid e \<noteq> 0" for e m
    using ass.take_inv[OF q] ass.good_id by blast
  have "async_segment i s = Inr q" using i by (simp add: async_segment_iff)
  then show ?thesis
    unfolding async_attempt_def
    by (simp add: backend_attempt_cases[OF inv id] async_drop_def grab_count_def split: option.splits)
qed

lemma sub_attempt_ok:
  assumes inv: "seg_inv s" and i: "find_segment i s = Some (AnySub q)"
  shows "sub_attempt conn i u s =
    (if conn_stopped conn s then Inr (Finished None, s)
     else case take_ready (in_retry s) (bq_map q) of
       None \<Rightarrow> Inr (Waiting (), put_segment i (AnySub (bq_wait_begin q)) s)
     | Some (e, m) \<Rightarrow> Inr (Finished (Some (get_hash e)), put_segment i (AnySub (sub_drop e (q\<lparr>bq_map := m\<rparr>)))
         (put_refs (entry_wfiid e) (grab_count (seg_refs (entry_wfiid e) s)) s)))"
proof -
  have q: "sub_inv q" using find_segment_inv[OF inv i] by simp
  have id: "take_ready (in_retry s) (bq_map q) = Some (e, m) \<Longrightarrow> entry_wfiid e \<noteq> 0" for e m
    using sws.take_inv[OF q] sws.good_id by blast
  have indexed: "take_ready (in_retry s) (bq_map q) = Some (e, m) \<Longrightarrow>
      sub_wfmap (entry_status e) (q\<lparr>bq_map := m\<rparr>) (entry_wfiid e) \<noteq> None" for e m
    using sws.take_inv[OF q, of "in_retry s" e m] by (simp add: sub_wfmap_index sub_key_def sws.set_map)
  have "sub_segment i s = Inr q" using i by (simp add: sub_segment_iff)
  then show ?thesis
    unfolding sub_attempt_def
    by (simp add: backend_attempt_cases[OF inv id] sub_drop_def grab_count_def Let_def
        indexed[unfolded not_None_eq] split: option.splits)
qed

text \<open>The invariant across a round and across a wait.\<close>

lemma any_attempt_inv:
  assumes inv: "seg_inv s"
  shows "find_segment i s = Some (AnyEvent q) \<Longrightarrow> event_attempt conn i u s = Inr (a, s') \<Longrightarrow> seg_inv s'"
    and "find_segment i s = Some (AnyAsync q2) \<Longrightarrow> async_attempt conn i u s = Inr (a, s') \<Longrightarrow> seg_inv s'"
    and "find_segment i s = Some (AnySub q3) \<Longrightarrow> sub_attempt conn i u s = Inr (a, s') \<Longrightarrow> seg_inv s'"
proof -
  have refs: "seg_inv (put_refs (entry_wfiid e) (grab_count (seg_refs (entry_wfiid e) s)) s)"
    if "take_ready (in_retry s) mm = Some (e, m)" "entry_wfiid e \<noteq> 0" for e m mm
    by (rule grab_put_inv[OF inv that(2) take_ready_not[OF that(1)]])
  show "find_segment i s = Some (AnyEvent q) \<Longrightarrow> event_attempt conn i u s = Inr (a, s') \<Longrightarrow> seg_inv s'"
  proof -
    assume i: "find_segment i s = Some (AnyEvent q)" and at: "event_attempt conn i u s = Inr (a, s')"
    have q: "event_inv q" using find_segment_inv[OF inv i] by simp
    have "seg_inv (put_segment i (AnyEvent (event_drop e (q\<lparr>bq_map := m\<rparr>)))
        (put_refs (entry_wfiid e) (grab_count (seg_refs (entry_wfiid e) s)) s))"
      if tk: "take_ready (in_retry s) (bq_map q) = Some (e, m)" for e m
      using put_segment_inv[OF refs[OF tk]] evs.take_inv[OF q tk] evs.good_id by simp
    moreover have "seg_inv (put_segment i (AnyEvent (bq_wait_begin q)) s)"
      using put_segment_inv[OF inv] evs.wait_inv(1) q by simp
    ultimately show "seg_inv s'"
      using at inv unfolding event_attempt_ok[OF inv i] by (auto split: if_splits option.splits)
  qed
  show "find_segment i s = Some (AnyAsync q2) \<Longrightarrow> async_attempt conn i u s = Inr (a, s') \<Longrightarrow> seg_inv s'"
  proof -
    assume i: "find_segment i s = Some (AnyAsync q2)" and at: "async_attempt conn i u s = Inr (a, s')"
    have q: "async_inv q2" using find_segment_inv[OF inv i] by simp
    have "seg_inv (put_segment i (AnyAsync (async_drop e (q2\<lparr>bq_map := m\<rparr>)))
        (put_refs (entry_wfiid e) (grab_count (seg_refs (entry_wfiid e) s)) s))"
      if tk: "take_ready (in_retry s) (bq_map q2) = Some (e, m)" for e m
      using put_segment_inv[OF refs[OF tk]] ass.take_inv[OF q tk] ass.good_id by simp
    moreover have "seg_inv (put_segment i (AnyAsync (bq_wait_begin q2)) s)"
      using put_segment_inv[OF inv] ass.wait_inv(1) q by simp
    ultimately show "seg_inv s'"
      using at inv unfolding async_attempt_ok[OF inv i] by (auto split: if_splits option.splits)
  qed
  show "find_segment i s = Some (AnySub q3) \<Longrightarrow> sub_attempt conn i u s = Inr (a, s') \<Longrightarrow> seg_inv s'"
  proof -
    assume i: "find_segment i s = Some (AnySub q3)" and at: "sub_attempt conn i u s = Inr (a, s')"
    have q: "sub_inv q3" using find_segment_inv[OF inv i] by simp
    have "seg_inv (put_segment i (AnySub (sub_drop e (q3\<lparr>bq_map := m\<rparr>)))
        (put_refs (entry_wfiid e) (grab_count (seg_refs (entry_wfiid e) s)) s))"
      if tk: "take_ready (in_retry s) (bq_map q3) = Some (e, m)" for e m
      using put_segment_inv[OF refs[OF tk]] sws.take_inv[OF q tk] sws.good_id by simp
    moreover have "seg_inv (put_segment i (AnySub (bq_wait_begin q3)) s)"
      using put_segment_inv[OF inv] sws.wait_inv(1) q by simp
    ultimately show "seg_inv s'"
      using at inv unfolding sub_attempt_ok[OF inv i] by (auto split: if_splits option.splits)
  qed
qed

lemma backend_resume_inv: "seg_inv s \<Longrightarrow> seg_inv (backend_resume i u s)"
proof -
  assume inv: "seg_inv s"
  have "any_inv (any_wait_end q) = any_inv q" for q
    by (cases q) (simp_all add: evs.wait_inv(2) ass.wait_inv(2) sws.wait_inv(2))
  with inv have "segs_ok (backend_queue_map (backend_resume i u s))"
    unfolding backend_resume_def by (auto simp: seg_inv_def segs_ok_def intro!: segs_ok_map)
      (auto simp: om_ok_def comp_def if_distrib cong: if_cong)
  with inv show ?thesis by (simp add: seg_inv_def backend_resume_def retries_ok_def)
qed

end
