(* ===== verification/Retry_Delivery.thy ===== *)
theory Retry_Delivery
  imports Segment_Delivery
begin

text \<open>
  \<^verbatim>\<open>get_retry_event\<close>: the search over the three retry queues, the delivery of the
  entry that is due first, and the marking of an entry on which the thread sleeps.
\<close>

section \<open>The search\<close>

text \<open>When an entry of a queue triggers: only retries with a fixed time have no delay.\<close>

definition trigger_time :: "int \<Rightarrow> int \<Rightarrow> retry_src \<Rightarrow> retry_entry \<Rightarrow> int" where
  "trigger_time retry async r e =
     re_mod e + (case r of Fixed_src \<Rightarrow> 0 | Retry_src \<Rightarrow> retry | Async_src \<Rightarrow> async)"

lemma later_search_cases:
  "later_search None d t = (None, t)"
  "later_search (Some x) d t =
     (if t \<noteq> -1 \<and> re_mod (snd (snd x)) + d > t then (None, t) else (Some x, re_mod (snd (snd x)) + d))"
  by (simp_all add: later_search_def Let_def)

text \<open>What was found in a queue: a free entry that is the first of its queue, or none is free.\<close>

lemma first_free_src:
  assumes "seg_inv s"
  shows "(case first_free busy (src_queue r s) of
      None \<Rightarrow> \<forall>e. \<not> free_entry busy (src_queue r s) e
    | Some x \<Rightarrow> x \<in> set (rq_nodes (src_queue r s)) \<and> free_entry busy (src_queue r s) (snd (snd x)) \<and>
        (\<forall>e. free_entry busy (src_queue r s) e \<longrightarrow> re_mod (snd (snd x)) \<le> re_mod e))"
proof -
  have q: "retry_inv (src_queue r s)" by (rule retry_inv_src[OF seg_inv_parts(2)[OF assms]])
  show ?thesis
    using first_free_None[OF q, of busy] first_free_Some[OF q, of busy]
    by (auto split: option.splits)
qed

text \<open>
  The entry chosen is free and no free entry of the three queues triggers before it, as long
  as no entry triggers at the time -1, by which the code marks that nothing was found.
\<close>

definition no_sentinel :: "int \<Rightarrow> int \<Rightarrow> seg_queue \<Rightarrow> bool" where
  "no_sentinel retry async s \<longleftrightarrow>
     (\<forall>r e. free_entry (seg_busy s) (src_queue r s) e \<longrightarrow> trigger_time retry async r e \<noteq> -1)"

lemma retry_search_parts:
  assumes "retry_search retry async s = (fi, ri, ari, trig)"
  shows "\<exists>t1. fi = first_free (seg_busy s) (sq_fixed_retry s) \<and>
    later_search (first_free (seg_busy s) (sq_retry s)) retry
      (case fi of None \<Rightarrow> -1 | Some x \<Rightarrow> re_mod (snd (snd x))) = (ri, t1) \<and>
    later_search (first_free (seg_busy s) (sq_async_retry s)) async t1 = (ari, trig)"
  using assms by (simp add: retry_search_def Let_def split_beta prod_eq_iff) (elim conjE, hypsubst, simp)

lemma later_search_None: "later_search f d t = (None, t') \<Longrightarrow> t' = t"
  by (cases f) (auto simp: later_search_cases split: if_splits)

lemma retry_search_empty:
  assumes "retry_search retry async s = (fi, ri, ari, trig)" "trig \<noteq> -1"
  shows "\<exists>r x. retry_choice fi ri ari = Inr (r, x)"
proof -
  from retry_search_parts[OF assms(1)] obtain t1 where t1:
    "later_search (first_free (seg_busy s) (sq_retry s)) retry
      (case fi of None \<Rightarrow> -1 | Some x \<Rightarrow> re_mod (snd (snd x))) = (ri, t1)"
    "later_search (first_free (seg_busy s) (sq_async_retry s)) async t1 = (ari, trig)" by blast
  have "\<not> (fi = None \<and> ri = None \<and> ari = None)"
  proof
    assume none: "fi = None \<and> ri = None \<and> ari = None"
    with t1 have "t1 = -1" "trig = t1" by (auto dest: later_search_None)
    with assms(2) show False by simp
  qed
  then show ?thesis by (cases ari; cases ri; cases fi) (auto simp: retry_choice_def)
qed

lemma retry_choice_found:
  assumes inv: "seg_inv s" and se: "retry_search retry async s = (fi, ri, ari, trig)"
    and ch: "retry_choice fi ri ari = Inr (r, x)"
  shows "x \<in> set (rq_nodes (src_queue r s)) \<and> free_entry (seg_busy s) (src_queue r s) (snd (snd x)) \<and>
    trigger_time retry async r (snd (snd x)) = trig"
proof -
  let ?f = "\<lambda>r. first_free (seg_busy s) (src_queue r s)"
  have q: "sq_fixed_retry s = src_queue Fixed_src s" "sq_retry s = src_queue Retry_src s"
    "sq_async_retry s = src_queue Async_src s" by (simp_all add: src_queue_def)
  define t0 where "t0 = (case ?f Fixed_src of None \<Rightarrow> -1 | Some x \<Rightarrow> re_mod (snd (snd x)))"
  define l1 where "l1 = later_search (?f Retry_src) retry t0"
  define l2 where "l2 = later_search (?f Async_src) async (snd l1)"
  have fi: "fi = ?f Fixed_src" and ri: "ri = fst l1" and ari: "ari = fst l2" and trig: "trig = snd l2"
    using se by (auto simp: retry_search_def q t0_def l1_def l2_def split_beta Let_def)
  have L1: "fst l1 = Some y \<Longrightarrow> ?f Retry_src = Some y \<and> snd l1 = re_mod (snd (snd y)) + retry"
      "fst l1 = None \<Longrightarrow> snd l1 = t0" for y
    by (cases "?f Retry_src"; auto simp: l1_def later_search_cases split: if_splits)+
  have L2: "fst l2 = Some y \<Longrightarrow> ?f Async_src = Some y \<and> snd l2 = re_mod (snd (snd y)) + async"
      "fst l2 = None \<Longrightarrow> snd l2 = snd l1" for y
    by (cases "?f Async_src"; auto simp: l2_def later_search_cases split: if_splits)+
  have "?f r = Some x \<and> trigger_time retry async r (snd (snd x)) = trig"
  proof (cases ari)
    case (Some y)
    with ch have "r = Async_src" "x = y" by (simp_all add: retry_choice_def)
    with Some L2(1)[of y] ari trig show ?thesis by (simp add: trigger_time_def)
  next
    case an: None
    show ?thesis
    proof (cases ri)
      case (Some y)
      with an ch have "r = Retry_src" "x = y" by (simp_all add: retry_choice_def)
      with an Some L1(1)[of y] L2(2) ri ari trig show ?thesis by (simp add: trigger_time_def)
    next
      case None
      with an ch have r: "r = Fixed_src" "fi = Some x" by (auto simp: retry_choice_def split: option.splits)
      then have f: "?f Fixed_src = Some x" using fi by simp
      then have "t0 = re_mod (snd (snd x))" by (simp add: t0_def)
      with r f an None L1(2) L2(2) ri ari trig show ?thesis by (simp add: trigger_time_def)
    qed
  qed
  with first_free_src[OF inv, of "seg_busy s" r] show ?thesis by simp
qed

lemma retry_search_earliest:
  assumes inv: "seg_inv s" and se: "retry_search retry async s = (fi, ri, ari, trig)"
    and ns: "no_sentinel retry async s" and e: "free_entry (seg_busy s) (src_queue r s) e"
  shows "trig \<noteq> -1 \<and> trig \<le> trigger_time retry async r e"
proof -
  let ?f = "\<lambda>r. first_free (seg_busy s) (src_queue r s)"
  have q: "sq_fixed_retry s = src_queue Fixed_src s" "sq_retry s = src_queue Retry_src s"
    "sq_async_retry s = src_queue Async_src s" by (simp_all add: src_queue_def)
  define t0 where "t0 = (case ?f Fixed_src of None \<Rightarrow> -1 | Some x \<Rightarrow> re_mod (snd (snd x)))"
  define l1 where "l1 = later_search (?f Retry_src) retry t0"
  define l2 where "l2 = later_search (?f Async_src) async (snd l1)"
  have trig: "trig = snd l2"
    using se by (auto simp: retry_search_def q t0_def l1_def l2_def split_beta Let_def)
  note ff = first_free_src[OF inv, of "seg_busy s"]
  have found: "\<exists>x. ?f r' = Some x \<and> trigger_time retry async r' (snd (snd x)) \<le> trigger_time retry async r' e'
      \<and> trigger_time retry async r' (snd (snd x)) \<noteq> -1"
    if "free_entry (seg_busy s) (src_queue r' s) e'" for r' e'
    using ff[of r'] that ns by (cases "?f r'") (auto simp: trigger_time_def no_sentinel_def)
  have not1: "?f r' = Some x \<Longrightarrow> trigger_time retry async r' (snd (snd x)) \<noteq> -1" for r' x
    using ff[of r'] ns by (auto simp: no_sentinel_def)
  have m1: "snd l1 \<noteq> -1 \<and> snd l1 \<le> t0" if "t0 \<noteq> -1"
    using that not1[of Retry_src] by (cases "?f Retry_src")
      (auto simp: l1_def later_search_cases trigger_time_def)
  have m2: "snd l2 \<noteq> -1 \<and> snd l2 \<le> snd l1" if "snd l1 \<noteq> -1"
    using that not1[of Async_src] by (cases "?f Async_src")
      (auto simp: l2_def later_search_cases trigger_time_def)
  have r1: "snd l1 \<noteq> -1 \<and> snd l1 \<le> trigger_time retry async Retry_src (snd (snd x))" if "?f Retry_src = Some x" for x
    using that not1[of Retry_src x] by (auto simp: l1_def later_search_cases trigger_time_def)
  have a1: "snd l2 \<noteq> -1 \<and> snd l2 \<le> trigger_time retry async Async_src (snd (snd x))" if "?f Async_src = Some x" for x
    using that not1[of Async_src x] by (auto simp: l2_def later_search_cases trigger_time_def)
  from found[OF e] obtain x where x: "?f r = Some x"
    "trigger_time retry async r (snd (snd x)) \<le> trigger_time retry async r e"
    "trigger_time retry async r (snd (snd x)) \<noteq> -1" by blast
  show ?thesis
  proof (cases r)
    case Fixed_src
    then have "t0 = trigger_time retry async r (snd (snd x))"
      using x(1) by (simp add: t0_def trigger_time_def)
    with x m1 m2 trig show ?thesis by auto
  next
    case Retry_src
    with x r1[of x] m2 trig show ?thesis by auto
  next
    case Async_src
    with x a1[of x] trig show ?thesis by auto
  qed
qed

section \<open>Taking an entry, and waiting for one\<close>

lemma seg_busy_refs: "seg_inv s \<Longrightarrow> \<not> seg_busy s w \<longleftrightarrow> seg_refs w s = None"
  using seg_refs_inv[of s w] by (auto simp: seg_busy_def split: option.splits)

lemma seg_refs_put_src [simp]: "seg_refs w (put_src r q s) = seg_refs w s"
  by (simp add: seg_refs_def)

lemma take_retry_ok:
  assumes inv: "seg_inv s" and x: "x \<in> set (rq_nodes (src_queue r s))"
    and free: "free_entry (seg_busy s) (src_queue r s) (snd (snd x))"
  shows "\<exists>q. take_retry r x s = Inr (Finished (Some (retry_get_hash (snd (snd x)))),
      put_refs (re_wfiid (snd (snd x))) (-1) (put_src r q s)) \<and>
    seg_inv (put_refs (re_wfiid (snd (snd x))) (-1) (put_src r q s)) \<and>
    seg_refs (re_wfiid (snd (snd x))) s = None \<and>
    retry_content q = (retry_content (src_queue r s))(re_wfiid (snd (snd x)) := None) \<and>
    marker_set q = marker_set (src_queue r s)"
proof -
  let ?w = "re_wfiid (snd (snd x))"
  have ri: "retry_inv (src_queue r s)" by (rule retry_inv_src[OF seg_inv_parts(2)[OF inv]])
  from get_event_ok[OF ri x free] obtain q where
    q: "get_event x (src_queue r s) = Inr ((?w, retry_get_hash (snd (snd x))), q)" "retry_inv q"
      "retry_content q = (retry_content (src_queue r s))(?w := None)"
      "marker_set q = marker_set (src_queue r s)" by blast
  have none: "seg_refs ?w s = None"
    using seg_busy_refs[OF inv, of ?w] free by (simp add: free_entry_def)
  have core: "retry_core (src_queue r s)" using ri by (simp add: retry_inv_def)
  have w: "?w \<noteq> 0"
    using retry_core_parts(2)[OF core, of "fst x" "fst (snd x)" "snd (snd x)"] x by simp
  have inv1: "seg_inv (put_src r q s)" by (rule put_src_inv[OF inv q(2)])
  have "take_retry r x s = Inr (Finished (Some (retry_get_hash (snd (snd x)))),
      put_refs ?w (-1) (put_src r q s))"
    using q(1) none w by (simp add: take_retry_def mark_in_progress_def)
  then show ?thesis using q none put_refs_inv[OF inv1 w, of "-1"] by blast
qed

lemma mark_inv:
  assumes inv: "seg_inv s" and x: "x \<in> set (rq_nodes (src_queue r s))"
  shows "retry_inv (mark_entry (re_addr (snd (snd x))) (src_queue r s))"
proof -
  have ri: "retry_inv (src_queue r s)" by (rule retry_inv_src[OF seg_inv_parts(2)[OF inv]])
  have "re_addr (snd (snd x)) \<in> live_addr (src_queue r s)"
    using x by (auto simp: live_addr_def mm_vals_def)
  with ri show ?thesis
    by (simp add: retry_inv_def markers_ok_def mark_entry_def set_insort_insert
        sorted_insort_insert distinct_insort_insert)
qed

lemma unmark_inv: "retry_inv q \<Longrightarrow> retry_inv (unmark_entry a q)"
  by (auto simp: retry_inv_def markers_ok_def unmark_entry_def sorted_remove1
      dest: notin_set_remove1 set_mp[OF set_remove1_subset])

lemma retry_resume_inv: "seg_inv s \<Longrightarrow> seg_inv (retry_resume w s)"
  by (cases w) (simp_all add: retry_resume_def Let_def put_src_inv unmark_inv
      retry_inv_src[OF seg_inv_parts(2)])

text \<open>One round, by the outcome of the search.\<close>

lemma retry_attempt_ok:
  assumes inv: "seg_inv s" and rv: "get_retry_values api c conn = Inr (retry, async)"
    and go: "\<not> conn_stopped conn s" "conn \<notin> set (retry_conn_set s)"
    and se: "retry_search retry async s = (fi, ri, ari, trig)"
  shows "if trig = -1 then
      retry_attempt api conn (c, now) s = Inr (Waiting Wait_data, s\<lparr>retry_waiting := retry_waiting s + 1\<rparr>)
    else \<exists>r x. x \<in> set (rq_nodes (src_queue r s)) \<and>
      free_entry (seg_busy s) (src_queue r s) (snd (snd x)) \<and>
      trigger_time retry async r (snd (snd x)) = trig \<and>
      (if trig = 0 \<or> trig \<le> now then retry_attempt api conn (c, now) s = take_retry r x s
       else retry_attempt api conn (c, now) s =
         Inr (Waiting (Wait_trigger r (re_addr (snd (snd x))) ((trig - now) * 1000)),
           (put_src r (mark_entry (re_addr (snd (snd x))) (src_queue r s)) s)
             \<lparr>retry_waiting := retry_waiting s + 1\<rparr>))"
proof (cases "trig = -1")
  case True
  with go rv se show ?thesis by (simp add: retry_attempt_def)
next
  case False
  from retry_search_empty[OF se False] obtain r x where ch: "retry_choice fi ri ari = Inr (r, x)" by blast
  from retry_choice_found[OF inv se ch] have
    "x \<in> set (rq_nodes (src_queue r s))" "free_entry (seg_busy s) (src_queue r s) (snd (snd x))"
    "trigger_time retry async r (snd (snd x)) = trig" by blast+
  moreover have "retry_attempt api conn (c, now) s = (if trig = 0 \<or> trig \<le> now then take_retry r x s
      else Inr (Waiting (Wait_trigger r (re_addr (snd (snd x))) ((trig - now) * 1000)),
           (put_src r (mark_entry (re_addr (snd (snd x))) (src_queue r s)) s)
             \<lparr>retry_waiting := retry_waiting s + 1\<rparr>))"
    using go rv se ch False by (simp add: retry_attempt_def Let_def)
  ultimately show ?thesis
    unfolding if_not_P[OF False] by (intro exI[of _ r] exI[of _ x] conjI) (assumption | simp)+
qed

lemma retry_attempt_defined:
  assumes inv: "seg_inv s" and rv: "get_retry_values api c conn = Inr (retry, async)"
  shows "\<exists>a s'. retry_attempt api conn (c, now) s = Inr (a, s') \<and> seg_inv s'"
proof (cases "conn_stopped conn s \<or> conn \<in> set (retry_conn_set s)")
  case True
  with inv show ?thesis by (auto simp: retry_attempt_def)
next
  case False
  obtain fi ri ari trig where se: "retry_search retry async s = (fi, ri, ari, trig)"
    by (metis prod_cases4)
  show ?thesis
  proof (cases "trig = -1")
    case True
    with retry_attempt_ok[OF inv rv _ _ se, of now] False inv show ?thesis by simp
  next
    case nt: False
    with retry_attempt_ok[OF inv rv _ _ se, of now] False obtain r x where
      x: "x \<in> set (rq_nodes (src_queue r s))" "free_entry (seg_busy s) (src_queue r s) (snd (snd x))" and
      at: "if trig = 0 \<or> trig \<le> now then retry_attempt api conn (c, now) s = take_retry r x s
       else retry_attempt api conn (c, now) s =
         Inr (Waiting (Wait_trigger r (re_addr (snd (snd x))) ((trig - now) * 1000)),
           (put_src r (mark_entry (re_addr (snd (snd x))) (src_queue r s)) s)
             \<lparr>retry_waiting := retry_waiting s + 1\<rparr>)" by auto
    show ?thesis
    proof (cases "trig = 0 \<or> trig \<le> now")
      case True
      with at take_retry_ok[OF inv x] show ?thesis by auto
    next
      case False
      with at put_src_inv[OF inv mark_inv[OF inv x(1)], of r] show ?thesis by simp
    qed
  qed
qed

end
