(* ===== verification/Segment_Work.thy ===== *)
theory Segment_Work
  imports Segment_Delivery
begin

text \<open>
  The work that is queued in the back end queues: one item for each step of a workflow
  instance.  Adding an event adds its item, and a delivered event carries all the items of its
  entry, which are then no longer queued.
\<close>

section \<open>Work items\<close>

text \<open>
  Segment, status, workflow instance and step index.  The status is that of a subworkflow
  event; it is the null character for the two other kinds.
\<close>

type_synonym work = "int \<times> char \<times> int \<times> int"

definition entry_work :: "int \<Rightarrow> backend_entry \<Rightarrow> work set" where
  "entry_work i e = (\<lambda>k. (i, entry_status e, entry_wfiid e, k)) ` event_inds e"

definition queue_work :: "int \<Rightarrow> any_queue \<Rightarrow> work set" where
  "queue_work i q = (\<Union>e\<in>set (mm_vals (map_nodes (any_map q))). entry_work i e)"

definition pending :: "seg_queue \<Rightarrow> work set" where
  "pending s = (\<Union>x\<in>set (backend_queue_map s). queue_work (fst x) (snd x))"

text \<open>The items that the hash of a delivered event lists.\<close>

fun int_values :: "qval list \<Rightarrow> int list" where
  "int_values [] = []"
| "int_values (QInt k # l) = k # int_values l"
| "int_values (v # l) = int_values l"

definition hash_status :: "qhash \<Rightarrow> char" where
  "hash_status h = (case hash_get ''status'' h of QString [c] \<Rightarrow> c | _ \<Rightarrow> CHR 0x00)"

definition hash_work :: "int \<Rightarrow> qhash \<Rightarrow> work list" where
  "hash_work i h = (case hash_get ''workflow_instanceid'' h of
       QInt w \<Rightarrow> (case hash_get ''ind'' h of
           QList l \<Rightarrow> map (\<lambda>k. (i, hash_status h, w, k)) (int_values l)
         | _ \<Rightarrow> [])
     | _ \<Rightarrow> [])"

text \<open>The item of one element of the list that an \<^verbatim>\<open>init\<close> function is given.\<close>

definition listed_work :: "qore_api \<Rightarrow> (qhash \<Rightarrow> char) \<Rightarrow> int \<Rightarrow> qval \<Rightarrow> work list" where
  "listed_work api st i v = (case get_hash_arg v of
       Inl _ \<Rightarrow> []
     | Inr h \<Rightarrow> (case get_backend_event_info api h of
           Inl _ \<Rightarrow> []
         | Inr e \<Rightarrow> [(i, st h, ei_wfiid e, ei_ind e)]))"

definition no_status :: "qhash \<Rightarrow> char" where
  "no_status h = CHR 0x00"

definition sub_status :: "qore_api \<Rightarrow> qhash \<Rightarrow> char" where
  "sub_status api h = (case init_sub_status api h of Inr c \<Rightarrow> c | Inl _ \<Rightarrow> CHR 0x00)"

section \<open>Hashes\<close>

lemma int_values_map [simp]: "int_values (map (\<lambda>x. QInt (f x)) xs) = map f xs"
  by (induction xs) simp_all

lemma int_values_QInt [simp]: "int_values (map QInt is) = is"
  by (induction "is") simp_all

lemma status_of_base: "hash_get ''status'' (get_hash_intern b) = QNothing"
  by (simp add: get_hash_intern_def doHash_other_keys)

lemma id_of_base: "hash_get ''workflow_instanceid'' (get_hash_intern b) = QInt (be_wfiid b)"
  by (simp add: get_hash_intern_def)

lemmas base_hash = status_of_base id_of_base

lemma hash_work_entry:
  "good_event e \<or> good_async e \<or> good_sub e \<Longrightarrow>
     distinct (hash_work i (get_hash e)) \<and> set (hash_work i (get_hash e)) = entry_work i e"
proof (cases e)
  case (AsyncQueueEntry b m)
  assume "good_event e \<or> good_async e \<or> good_sub e"
  with AsyncQueueEntry have "distinct (map fst m)" by (simp add: om_ok_def)
  then have "distinct (map (\<lambda>x. (i, CHR 0x00, be_wfiid b, fst x)) m)"
    by (simp add: distinct_map inj_on_def)
  with AsyncQueueEntry show ?thesis
    by (auto simp: hash_work_def hash_status_def base_hash entry_work_def image_image comp_def)
qed (auto simp: hash_work_def hash_status_def base_hash entry_work_def distinct_map inj_on_def)

section \<open>The work of one queue\<close>

lemma in_queue_work:
  "(j, st, w, k) \<in> queue_work i q \<longleftrightarrow> j = i \<and>
     (\<exists>e\<in>set (mm_vals (map_nodes (any_map q))). entry_status e = st \<and> entry_wfiid e = w \<and> k \<in> event_inds e)"
  by (auto simp: queue_work_def entry_work_def)

lemma bq_content_entries:
  "bq_indexed key idx q \<Longrightarrow>
     bq_content key f q k = Some c \<longleftrightarrow> (\<exists>e\<in>set (bq_entries q). key e = k \<and> f e = c)"
  unfolding bq_content_Some Bex_def in_bq_entries by blast

lemma entries_map: "mm_vals (map_nodes (bq_map q)) = bq_entries q"
  by (simp add: bq_entries_def bq_nodes_def)

lemma event_work_iff:
  assumes "event_inv q"
  shows "(j, st, w, k) \<in> queue_work i (AnyEvent q) \<longleftrightarrow>
    j = i \<and> st = CHR 0x00 \<and> (\<exists>c. event_content q w = Some c \<and> k \<in> c)"
proof -
  have st: "entry_status e = CHR 0x00" if "e \<in> set (bq_entries q)" for e
    using assms that by (cases e) (auto simp: event_inv_def)
  have ix: "bq_indexed entry_wfiid (ev_wfmap q) q" using assms by (simp add: event_inv_def)
  show ?thesis
    unfolding in_queue_work bq_content_entries[OF ix] by (auto simp: entries_map dest: st)
qed

lemma async_inds: "good_async e \<Longrightarrow> event_inds e = dom (async_msgs e)"
  by (cases e) (simp_all only: event_inds.simps async_msgs.simps dom_map_of_conv_image_fst good_async.simps)

lemma async_work_iff:
  assumes "async_inv q"
  shows "(j, st, w, k) \<in> queue_work i (AnyAsync q) \<longleftrightarrow>
    j = i \<and> st = CHR 0x00 \<and> (\<exists>c. async_content q w = Some c \<and> c k \<noteq> None)"
proof -
  have st: "entry_status e = CHR 0x00 \<and> event_inds e = dom (async_msgs e)" if "e \<in> set (bq_entries q)" for e
  proof -
    have "good_async e" using assms that by (simp add: async_inv_def)
    then show ?thesis using async_inds[of e] by (cases e) simp_all
  qed
  have ix: "bq_indexed entry_wfiid (as_wfmap q) q" using assms by (simp add: async_inv_def)
  show ?thesis
    unfolding in_queue_work bq_content_entries[OF ix] by (force simp: entries_map dest: st)
qed

lemma sub_work_iff:
  assumes "sub_inv q"
  shows "(j, st, w, k) \<in> queue_work i (AnySub q) \<longleftrightarrow>
    j = i \<and> (st = CHR ''C'' \<or> st = CHR ''E'') \<and> (\<exists>c. sub_content q (w, st = CHR ''C'') = Some c \<and> k \<in> c)"
proof -
  have st: "entry_status e = CHR ''C'' \<or> entry_status e = CHR ''E''" if "e \<in> set (bq_entries q)" for e
  proof -
    have "good_sub e" using assms that by (simp add: sub_inv_def)
    then show ?thesis by (cases e) auto
  qed
  have ix: "bq_indexed sub_key (sub_index q) q" using assms by (simp add: sub_inv_def)
  have "CHR ''C'' \<noteq> CHR ''E''" by simp
  then show ?thesis
    unfolding in_queue_work bq_content_entries[OF ix]
    by (auto simp: entries_map sub_key_def dest: st)
qed

section \<open>Adding\<close>

text \<open>An operation that succeeds was given an identifier other than zero.\<close>

context backend_server
begin

lemma indexed_entry:
  assumes "inv q" "idx q k \<noteq> None"
  shows "\<exists>e. good e \<and> key e = k \<and> entry_wfiid e \<noteq> 0"
proof -
  from assms obtain n t e where "(n, t, e) \<in> set (bq_nodes q)" "key e = k"
    unfolding inv_iff bq_indexed_def by (metis not_None_eq)
  moreover from this(1) have "good e" using assms(1) by (auto simp: inv_iff in_bq_entries)
  ultimately show ?thesis using good_id by blast
qed

end

lemma add_event_done:
  assumes "event_inv q" "add_event t w k prio p q = Inr q'"
  shows "event_inv q' \<and> event_content q' = (event_content q)
    (w \<mapsto> insert k (case event_content q w of None \<Rightarrow> {} | Some s \<Rightarrow> s))"
proof -
  have "w \<noteq> 0"
  proof
    assume "w = 0"
    with evs.indexed_entry[OF assms(1), of 0] have "ev_wfmap q 0 = None" by blast
    with \<open>w = 0\<close> assms(2) show False by (simp add: add_event_def)
  qed
  from add_event_ok[OF assms(1) this, of t k prio p] assms(2) show ?thesis by simp
qed

lemma add_async_done:
  assumes "async_inv q" "add_async_event t w k prio c p key dat q = Inr q'"
  shows "async_inv q' \<and> async_content q' = (async_content q)
    (w \<mapsto> async_upd k \<lparr>queuekey = key, async_data = dat, corrected = c\<rparr> (async_content q w))"
proof -
  have "w \<noteq> 0"
  proof
    assume "w = 0"
    with ass.indexed_entry[OF assms(1), of 0] have "as_wfmap q 0 = None" by blast
    with \<open>w = 0\<close> assms(2) show False by (simp add: add_async_event_def)
  qed
  from add_async_event_ok[OF assms(1) this, of t k prio c p key dat] assms(2) show ?thesis by simp
qed

lemma add_sub_done:
  assumes "sub_inv q" "add_subworkflow_event t w k prio p st sw q = Inr q'"
  shows "(st = CHR ''E'' \<or> st = CHR ''C'') \<and> sub_inv q' \<and>
    sub_content q' = (sub_content q) ((w, st = CHR ''C'') \<mapsto>
      insert k (case sub_content q (w, st = CHR ''C'') of None \<Rightarrow> {} | Some s \<Rightarrow> s))"
proof -
  have st: "st = CHR ''E'' \<or> st = CHR ''C''" using assms(2) by (auto simp: add_subworkflow_event_def)
  have "w \<noteq> 0"
  proof
    assume "w = 0"
    with sws.indexed_entry[OF assms(1), of "(0, st = CHR ''C'')"] have "sub_index q (0, st = CHR ''C'') = None"
      unfolding sub_key_def prod.inject by blast
    with \<open>w = 0\<close> assms(2) show False by (auto simp: add_subworkflow_event_def sub_wfmap_index)
  qed
  from add_subworkflow_event_ok[OF assms(1) this st, of t k prio p sw] assms(2) st show ?thesis by simp
qed

lemma add_event_work:
  assumes "event_inv q" "add_event t w k prio p q = Inr q'"
  shows "queue_work i (AnyEvent q') = insert (i, CHR 0x00, w, k) (queue_work i (AnyEvent q))"
proof (intro set_eqI)
  fix x
  from add_event_done[OF assms] show
    "x \<in> queue_work i (AnyEvent q') \<longleftrightarrow> x \<in> insert (i, CHR 0x00, w, k) (queue_work i (AnyEvent q))"
    by (cases x) (auto simp: event_work_iff assms(1) split: option.splits if_splits)
qed

lemma add_async_work:
  assumes "async_inv q" "add_async_event t w k prio c p key dat q = Inr q'"
  shows "queue_work i (AnyAsync q') = insert (i, CHR 0x00, w, k) (queue_work i (AnyAsync q))"
proof (intro set_eqI)
  fix x
  from add_async_done[OF assms] show
    "x \<in> queue_work i (AnyAsync q') \<longleftrightarrow> x \<in> insert (i, CHR 0x00, w, k) (queue_work i (AnyAsync q))"
    by (cases x) (auto simp: async_work_iff assms(1) async_upd_def split: option.splits if_splits)
qed

lemma add_sub_work:
  assumes "sub_inv q" "add_subworkflow_event t w k prio p st sw q = Inr q'"
  shows "queue_work i (AnySub q') = insert (i, st, w, k) (queue_work i (AnySub q))"
proof (intro set_eqI)
  fix x
  from add_sub_done[OF assms] show
    "x \<in> queue_work i (AnySub q') \<longleftrightarrow> x \<in> insert (i, st, w, k) (queue_work i (AnySub q))"
    by (cases x) (auto simp: sub_work_iff assms(1) split: option.splits if_splits)
qed

section \<open>Taking\<close>

text \<open>
  A back end queue whose keys are determined by the status and the workflow instance of an
  entry: taking an entry removes the work of that entry and no other.
\<close>

locale work_server = backend_server drop idx key inv good
  for drop :: "backend_entry \<Rightarrow> 'a backend_queue_scheme \<Rightarrow> 'a backend_queue_scheme"
    and idx :: "'a backend_queue_scheme \<Rightarrow> 'k \<Rightarrow> nat option" and key inv good +
  fixes mk :: "'a backend_queue_scheme \<Rightarrow> any_queue"
  assumes mk_map: "any_map (mk q) = bq_map q"
    and key_work: "good e \<Longrightarrow> good e' \<Longrightarrow> entry_status e = entry_status e' \<Longrightarrow>
      entry_wfiid e = entry_wfiid e' \<Longrightarrow> key e = key e'"
    and good_hash: "good e \<Longrightarrow> distinct (hash_work i (get_hash e)) \<and> set (hash_work i (get_hash e)) = entry_work i e"
begin

lemma take_entries:
  assumes inv: "inv q" and tk: "take_ready b (bq_map q) = Some (e, m)"
  shows "set (bq_entries (drop e (q\<lparr>bq_map := m\<rparr>))) = set (bq_entries q) - {e}"
proof -
  from inv have ix: "bq_indexed key (idx q) q" by (simp add: inv_iff)
  then have "distinct (mm_ids (bq_nodes q))" by (simp add: bq_indexed_def bq_shape_def)
  from take_ready_Some[OF tk this[unfolded bq_nodes_def]] obtain pre n t post where
    "bq_nodes q = pre @ (n, t, e) # post" "bq_nodes (q\<lparr>bq_map := m\<rparr>) = pre @ post"
    by (auto simp: bq_nodes_def)
  moreover have "distinct (bq_entries q)"
    using bq_indexed_distinct[OF ix] by (simp add: distinct_map)
  ultimately show ?thesis
    unfolding bq_entries_same[OF drop_map(1)] by (auto simp: bq_entries_def mm_vals_def)
qed

lemma take_work:
  assumes inv: "inv q" and tk: "take_ready b (bq_map q) = Some (e, m)"
  shows "entry_work i e \<subseteq> queue_work i (mk q) \<and>
    queue_work i (mk (drop e (q\<lparr>bq_map := m\<rparr>))) = queue_work i (mk q) - entry_work i e"
proof -
  from inv have ix: "bq_indexed key (idx q) q" and g: "\<forall>e\<in>set (bq_entries q). good e"
    by (simp_all add: inv_iff)
  have e: "e \<in> set (bq_entries q)" using take_in_entries[OF tk bq_indexed_shape[OF ix]] by blast
  have work: "queue_work i (mk q') = (\<Union>e\<in>set (bq_entries q'). entry_work i e)" for q'
    by (simp add: queue_work_def mk_map entries_map)
  have "entry_work i e' \<inter> entry_work i e = {}" if "e' \<in> set (bq_entries q)" "e' \<noteq> e" for e'
  proof -
    have "key e' \<noteq> key e"
      using bq_indexed_distinct[OF ix] that e by (auto simp: distinct_map inj_on_def)
    then have "entry_status e' \<noteq> entry_status e \<or> entry_wfiid e' \<noteq> entry_wfiid e"
      using key_work g that(1) e by blast
    then show ?thesis by (auto simp: entry_work_def)
  qed
  then show ?thesis unfolding work take_entries[OF assms] using e by blast
qed

end

interpretation evw: work_server event_drop ev_wfmap entry_wfiid event_inv good_event AnyEvent
  by unfold_locales (simp_all add: hash_work_entry)

interpretation asw: work_server async_drop as_wfmap entry_wfiid async_inv good_async AnyAsync
  by unfold_locales (simp_all add: hash_work_entry)

interpretation sww: work_server sub_drop sub_index sub_key sub_inv good_sub AnySub
  by unfold_locales (simp_all add: sub_key_def hash_work_entry)

section \<open>The work of all segments\<close>

lemma queue_work_seg: "x \<in> queue_work j q \<Longrightarrow> fst x = j"
  by (auto simp: queue_work_def entry_work_def)

lemma in_pending: "x \<in> pending s \<longleftrightarrow> (\<exists>q. (fst x, q) \<in> set (backend_queue_map s) \<and> x \<in> queue_work (fst x) q)"
proof
  assume "x \<in> pending s"
  then obtain j q where q: "(j, q) \<in> set (backend_queue_map s)" "x \<in> queue_work j q"
    by (auto simp: pending_def)
  with queue_work_seg[OF q(2)] show "\<exists>q. (fst x, q) \<in> set (backend_queue_map s) \<and> x \<in> queue_work (fst x) q"
    by blast
next
  assume "\<exists>q. (fst x, q) \<in> set (backend_queue_map s) \<and> x \<in> queue_work (fst x) q"
  then show "x \<in> pending s" by (force simp: pending_def)
qed

lemma pending_put:
  assumes "seg_inv s"
  shows "pending (put_segment i q s) = {x \<in> pending s. fst x \<noteq> i} \<union> queue_work i q"
proof -
  have ok: "om_ok (backend_queue_map s)" using seg_inv_parts(3)[OF assms] by (simp add: segs_ok_def)
  have "x \<in> pending (put_segment i q s) \<longleftrightarrow> x \<in> {x \<in> pending s. fst x \<noteq> i} \<union> queue_work i q" for x
  proof (cases "fst x = i")
    case True
    then show ?thesis by (auto simp: in_pending put_segment_def set_om_put_eq[OF ok])
  next
    case False
    then have "x \<notin> queue_work i q" using queue_work_seg by blast
    with False show ?thesis by (auto simp: in_pending put_segment_def set_om_put_eq[OF ok])
  qed
  then show ?thesis by blast
qed

lemma pending_segment:
  assumes "seg_inv s" "find_segment i s = Some q"
  shows "{x \<in> pending s. fst x = i} = queue_work i q"
proof -
  have "distinct (map fst (backend_queue_map s))"
    using seg_inv_parts(3)[OF assms(1)] by (simp add: segs_ok_def om_ok_def)
  then have "(i, q') \<in> set (backend_queue_map s) \<longleftrightarrow> q' = q" for q'
    using assms(2) map_of_eq_Some_iff unfolding find_segment_def by fastforce
  then have "x \<in> pending s \<and> fst x = i \<longleftrightarrow> x \<in> queue_work i q" for x
    using queue_work_seg[of x i q] by (auto simp: in_pending)
  then show ?thesis by blast
qed

lemma pending_put_change:
  assumes "seg_inv s" "find_segment i s = Some q"
  shows "queue_work i q' = queue_work i q \<union> A \<Longrightarrow> pending (put_segment i q' s) = pending s \<union> A"
    and "queue_work i q' = queue_work i q - A \<Longrightarrow> A \<subseteq> queue_work i q \<Longrightarrow>
      pending (put_segment i q' s) = pending s - A \<and> A \<subseteq> pending s"
proof -
  have s: "pending s = {x \<in> pending s. fst x \<noteq> i} \<union> queue_work i q"
    unfolding pending_segment[OF assms, symmetric] by blast
  have d: "x \<in> queue_work i q \<Longrightarrow> fst x = i" for x
    by (auto simp: queue_work_def entry_work_def)
  show "queue_work i q' = queue_work i q \<union> A \<Longrightarrow> pending (put_segment i q' s) = pending s \<union> A"
    unfolding pending_put[OF assms(1)] using s by blast
  show "queue_work i q' = queue_work i q - A \<Longrightarrow> A \<subseteq> queue_work i q \<Longrightarrow>
      pending (put_segment i q' s) = pending s - A \<and> A \<subseteq> pending s"
    unfolding pending_put[OF assms(1)] using s d by blast
qed

lemma pending_cong:
  assumes "map (\<lambda>x. (fst x, any_map (snd x))) (backend_queue_map s') =
    map (\<lambda>x. (fst x, any_map (snd x))) (backend_queue_map s)"
  shows "pending s' = pending s"
proof -
  have "pending t = (\<Union>y\<in>set (map (\<lambda>x. (fst x, any_map (snd x))) (backend_queue_map t)).
      \<Union>e\<in>set (mm_vals (map_nodes (snd y))). entry_work (fst y) e)" for t
    by (simp add: pending_def queue_work_def)
  then show ?thesis by (simp only: assms)
qed

lemma finite_pending: "finite (pending s)"
proof -
  have "finite (event_inds e)" for e by (cases e) auto
  then show ?thesis by (simp add: pending_def queue_work_def entry_work_def)
qed

end
