(* ===== verification/Segment_Merge.thy ===== *)
theory Segment_Merge
  imports Retry_Delivery Segment_Work
begin

text \<open>
  \<^verbatim>\<open>merge_all\<close> where it keeps the invariant of the queue: the other object has no retries, and
  no segment has events of the same workflow instance and status in both.  And the searches of
  \<^verbatim>\<open>reprioritize\<close> and \<^verbatim>\<open>removeWorkflowOrder\<close> in the back end queues where they find
  nothing.
\<close>

section \<open>Searches for a time\<close>

text \<open>No event of a back end queue has the modification time \<open>w\<close>.\<close>

definition no_entry_at :: "int \<Rightarrow> seg_queue \<Rightarrow> bool" where
  "no_entry_at w s \<longleftrightarrow>
     (\<forall>x\<in>set (backend_queue_map s). \<forall>n\<in>set (map_nodes (any_map (snd x))). fst (snd n) \<noteq> w)"

lemma no_range:
  assumes "x \<in> set m" "\<forall>n\<in>set (map_nodes m). fst (snd n) \<noteq> w"
  shows "range_of w (snd x) = []" "filter (\<lambda>n. fst (snd n) \<noteq> w) (snd x) = snd x"
  using assms by (auto simp: range_of_def filter_empty_conv filter_id_conv)

lemma bq_reprioritize_missed:
  assumes "\<forall>n\<in>set (map_nodes (bq_map q)). fst (snd n) \<noteq> w"
  shows "bq_reprioritize w prio q = (False, q)"
proof -
  have "concat (map (\<lambda>x. if fst x = prio then [] else range_of w (snd x)) (bq_map q)) = []"
    using no_range(1)[OF _ assms] by auto
  moreover have "map (\<lambda>x. if fst x = prio then x else (fst x, filter (\<lambda>n. fst (snd n) \<noteq> w) (snd x))) (bq_map q)
      = bq_map q"
    by (rule map_idI) (simp add: no_range(2)[OF _ assms])
  ultimately show ?thesis unfolding bq_reprioritize_def Let_def by (simp only: foldl_Nil) simp
qed

lemma bq_erase_missed:
  assumes "\<forall>n\<in>set (map_nodes (bq_map q)). fst (snd n) \<noteq> w"
  shows "bq_erase_key w p q = q"
proof -
  have "map (\<lambda>x. if fst x = p then (fst x, filter (\<lambda>n. fst (snd n) \<noteq> w) (snd x)) else x) (bq_map q) = bq_map q"
    by (rule map_idI) (auto simp: no_range(2)[OF _ assms])
  then show ?thesis by (simp add: bq_erase_key_def)
qed

lemma any_missed:
  assumes "\<forall>n\<in>set (map_nodes (any_map aq)). fst (snd n) \<noteq> w"
  shows "any_reprioritize w prio aq = (False, aq)" "any_erase_key w p aq = aq"
proof -
  show "any_reprioritize w prio aq = (False, aq)"
  proof (cases aq)
    case (AnyEvent q)
    with bq_reprioritize_missed[of q w prio] assms show ?thesis by simp
  next
    case (AnyAsync q)
    with bq_reprioritize_missed[of q w prio] assms show ?thesis by simp
  next
    case (AnySub q)
    with bq_reprioritize_missed[of q w prio] assms show ?thesis by simp
  qed
  show "any_erase_key w p aq = aq"
  proof (cases aq)
    case (AnyEvent q)
    with bq_erase_missed[of q w p] assms show ?thesis by simp
  next
    case (AnyAsync q)
    with bq_erase_missed[of q w p] assms show ?thesis by simp
  next
    case (AnySub q)
    with bq_erase_missed[of q w p] assms show ?thesis by simp
  qed
qed

lemma backend_search_missed:
  assumes "no_entry_at w s"
  shows "reprioritize w prio now s =
      rbind (primary_reprioritize w prio now (sq_primary s)) (\<lambda>(b, q). Inr (b, s\<lparr>sq_primary := q\<rparr>))"
    "removeWorkflowOrder w p s =
      rbind (primary_removeWorkflowOrder w (sq_primary s)) (\<lambda>(b, q). Inr (s\<lparr>sq_primary := q\<rparr>))"
proof -
  have r: "any_reprioritize w prio (snd x) = (False, snd x)" "any_erase_key w k (snd x) = snd x"
    if "x \<in> set (backend_queue_map s)" for x k
    using any_missed assms that unfolding no_entry_at_def by blast+
  have m: "map (\<lambda>x. (fst x, snd (any_reprioritize w prio (snd x)))) (backend_queue_map s) = backend_queue_map s"
    "map (\<lambda>x. (fst x, any_erase_key w (to_int32 p) (snd x))) (backend_queue_map s) = backend_queue_map s"
    by (rule map_idI, simp add: r)+
  show "reprioritize w prio now s =
      rbind (primary_reprioritize w prio now (sq_primary s)) (\<lambda>(b, q). Inr (b, s\<lparr>sq_primary := q\<rparr>))"
    unfolding reprioritize_def Let_def using m(1) r(1)
    by (intro rbind_cong) (auto split: prod.splits)
  show "removeWorkflowOrder w p s =
      rbind (primary_removeWorkflowOrder w (sq_primary s)) (\<lambda>(b, q). Inr (s\<lparr>sq_primary := q\<rparr>))"
    unfolding removeWorkflowOrder_def Let_def using m(2)
    by (intro rbind_cong) (auto split: prod.splits)
qed

section \<open>Merging two queues\<close>

text \<open>Two queues that have no event of the same status and workflow instance.\<close>

definition works_apart :: "work set \<Rightarrow> work set \<Rightarrow> bool" where
  "works_apart A B \<longleftrightarrow> (\<forall>i st w k k'. (i, st, w, k) \<in> A \<longrightarrow> (i, st, w, k') \<notin> B)"

lemma works_apart_mono: "works_apart A B \<Longrightarrow> A' \<subseteq> A \<Longrightarrow> B' \<subseteq> B \<Longrightarrow> works_apart A' B'"
  unfolding works_apart_def by blast

lemma good_entry_filled: "good_event e \<or> good_async e \<or> good_sub e \<Longrightarrow> event_inds e \<noteq> {}"
  by (cases e) auto

lemma event_content_filled:
  assumes "event_inv q" "event_content q w = Some c"
  shows "c \<noteq> {}"
proof -
  have ix: "bq_indexed entry_wfiid (ev_wfmap q) q" using assms(1) by (simp add: event_inv_def)
  from assms(2) obtain e where "e \<in> set (bq_entries q)" "event_inds e = c" unfolding bq_content_entries[OF ix] by blast
  moreover from this(1) have "good_event e" using assms(1) by (simp add: event_inv_def)
  ultimately show ?thesis using good_entry_filled by blast
qed

lemma async_content_filled:
  assumes "async_inv q" "async_content q w = Some c"
  shows "\<exists>k. c k \<noteq> None"
proof -
  have ix: "bq_indexed entry_wfiid (as_wfmap q) q" using assms(1) by (simp add: async_inv_def)
  from assms(2) obtain e where e: "e \<in> set (bq_entries q)" "async_msgs e = c" unfolding bq_content_entries[OF ix] by blast
  from e(1) have g: "good_async e" using assms(1) by (simp add: async_inv_def)
  then have "event_inds e \<noteq> {}" using good_entry_filled by blast
  with async_inds[OF g] e(2) show ?thesis by (auto simp: dom_def)
qed

lemma sub_content_filled:
  assumes "sub_inv q" "sub_content q k = Some c"
  shows "c \<noteq> {} \<and> (\<exists>st. (st = CHR ''C'' \<or> st = CHR ''E'') \<and> snd k = (st = CHR ''C''))"
proof -
  have ix: "bq_indexed sub_key (sub_index q) q" using assms(1) by (simp add: sub_inv_def)
  from assms(2) obtain e where e: "e \<in> set (bq_entries q)" "sub_key e = k" "event_inds e = c"
    unfolding bq_content_entries[OF ix] by blast
  from e(1) have g: "good_sub e" using assms(1) by (simp add: sub_inv_def)
  then have "c \<noteq> {}" using e(3) good_entry_filled by blast
  moreover have "entry_status e = CHR ''C'' \<or> entry_status e = CHR ''E''" using g by (cases e) auto
  ultimately show ?thesis using e(2) by (auto simp: sub_key_def)
qed

text \<open>The two contents put together, as work.\<close>

lemma event_merge_work:
  assumes inv: "event_inv q" "event_inv b" and ap: "works_apart (queue_work i (AnyEvent q)) (queue_work i (AnyEvent b))"
    and r: "event_merge q b = Inr (q', b')"
  shows "event_inv q' \<and> event_inv b' \<and> queue_work i (AnyEvent q') = queue_work i (AnyEvent q) \<union> queue_work i (AnyEvent b) \<and>
    queue_work i (AnyEvent b') = {}"
proof -
  have "w \<notin> dom (event_content b)" if "w \<in> dom (event_content q)" for w
  proof
    from that obtain c where c: "event_content q w = Some c" by blast
    assume "w \<in> dom (event_content b)"
    then obtain d where d: "event_content b w = Some d" by blast
    from event_content_filled[OF inv(1) c] event_content_filled[OF inv(2) d] obtain k l where "k \<in> c" "l \<in> d" by blast
    with c d have "(i, CHR 0x00, w, k) \<in> queue_work i (AnyEvent q)" "(i, CHR 0x00, w, l) \<in> queue_work i (AnyEvent b)"
      by (simp_all add: event_work_iff inv)
    with ap show False unfolding works_apart_def by blast
  qed
  then have d: "dom (event_content q) \<inter> dom (event_content b) = {}" by blast
  from event_merge_ok[OF inv d] r have m: "event_inv q'" "event_inv b'"
    "event_content q' = event_content q ++ event_content b" "event_content b' = Map.empty" by auto
  have "x \<in> queue_work i (AnyEvent q') \<longleftrightarrow> x \<in> queue_work i (AnyEvent q) \<union> queue_work i (AnyEvent b)" for x
    using d by (cases x) (auto simp: event_work_iff m inv map_add_Some_iff dom_def disjoint_iff)
  moreover have "x \<notin> queue_work i (AnyEvent b')" for x by (cases x) (simp add: event_work_iff m)
  ultimately show ?thesis using m(1,2) by blast
qed

lemma async_merge_work:
  assumes inv: "async_inv q" "async_inv b" and ap: "works_apart (queue_work i (AnyAsync q)) (queue_work i (AnyAsync b))"
    and r: "async_merge q b = Inr (q', b')"
  shows "async_inv q' \<and> async_inv b' \<and> queue_work i (AnyAsync q') = queue_work i (AnyAsync q) \<union> queue_work i (AnyAsync b) \<and>
    queue_work i (AnyAsync b') = {}"
proof -
  have "w \<notin> dom (async_content b)" if "w \<in> dom (async_content q)" for w
  proof
    from that obtain c where c: "async_content q w = Some c" by blast
    assume "w \<in> dom (async_content b)"
    then obtain d where d: "async_content b w = Some d" by blast
    from async_content_filled[OF inv(1) c] async_content_filled[OF inv(2) d] obtain k l where "c k \<noteq> None" "d l \<noteq> None" by blast
    with c d have "(i, CHR 0x00, w, k) \<in> queue_work i (AnyAsync q)" "(i, CHR 0x00, w, l) \<in> queue_work i (AnyAsync b)"
      by (simp_all add: async_work_iff inv)
    with ap show False unfolding works_apart_def by blast
  qed
  then have d: "dom (async_content q) \<inter> dom (async_content b) = {}" by blast
  from async_merge_ok[OF inv d] r have m: "async_inv q'" "async_inv b'"
    "async_content q' = async_content q ++ async_content b" "async_content b' = Map.empty" by auto
  have "x \<in> queue_work i (AnyAsync q') \<longleftrightarrow> x \<in> queue_work i (AnyAsync q) \<union> queue_work i (AnyAsync b)" for x
    using d by (cases x) (auto simp: async_work_iff m inv map_add_Some_iff dom_def disjoint_iff)
  moreover have "x \<notin> queue_work i (AnyAsync b')" for x by (cases x) (simp add: async_work_iff m)
  ultimately show ?thesis using m(1,2) by blast
qed

lemma sub_merge_work:
  assumes inv: "sub_inv q" "sub_inv b" and ap: "works_apart (queue_work i (AnySub q)) (queue_work i (AnySub b))"
    and r: "sub_merge q b = Inr (q', b')"
  shows "sub_inv q' \<and> sub_inv b' \<and> queue_work i (AnySub q') = queue_work i (AnySub q) \<union> queue_work i (AnySub b) \<and>
    queue_work i (AnySub b') = {}"
proof -
  have "x \<notin> dom (sub_content b)" if "x \<in> dom (sub_content q)" for x
  proof
    from that obtain c where c: "sub_content q x = Some c" by blast
    assume "x \<in> dom (sub_content b)"
    then obtain d where d: "sub_content b x = Some d" by blast
    from sub_content_filled[OF inv(1) c] obtain k st where "k \<in> c" "st = CHR ''C'' \<or> st = CHR ''E''" "snd x = (st = CHR ''C'')"
      by blast
    moreover from sub_content_filled[OF inv(2) d] obtain l where "l \<in> d" by blast
    ultimately have "(i, st, fst x, k) \<in> queue_work i (AnySub q)" "(i, st, fst x, l) \<in> queue_work i (AnySub b)"
      using c d by (cases x; simp add: sub_work_iff inv)+
    with ap show False unfolding works_apart_def by blast
  qed
  then have d: "dom (sub_content q) \<inter> dom (sub_content b) = {}" by blast
  from sub_merge_ok[OF inv d] r have m: "sub_inv q'" "sub_inv b'"
    "sub_content q' = sub_content q ++ sub_content b" "sub_content b' = Map.empty" by auto
  have "x \<in> queue_work i (AnySub q') \<longleftrightarrow> x \<in> queue_work i (AnySub q) \<union> queue_work i (AnySub b)" for x
    using d by (cases x) (auto simp: sub_work_iff m inv map_add_Some_iff dom_def disjoint_iff)
  moreover have "x \<notin> queue_work i (AnySub b')" for x by (cases x) (simp add: sub_work_iff m)
  ultimately show ?thesis using m(1,2) by blast
qed

lemma any_merge_work:
  assumes inv: "any_inv q" "any_inv b" and ap: "works_apart (queue_work i q) (queue_work i b)"
    and r: "any_merge (any_wakeup q) b = Inr (q', b')"
  shows "any_inv q' \<and> any_inv b' \<and> queue_work i q' = queue_work i q \<union> queue_work i b \<and> queue_work i b' = {}"
proof (cases q)
  case (AnyEvent u)
  with r obtain v u' v' where b: "b = AnyEvent v" "event_merge (bq_wakeup u) v = Inr (u', v')" "q' = AnyEvent u'" "b' = AnyEvent v'"
    by (cases b) auto
  have w: "queue_work i (AnyEvent (bq_wakeup u)) = queue_work i (AnyEvent u)" by (simp add: queue_work_def)
  from event_merge_work[of "bq_wakeup u" v i, OF _ _ _ b(2)] inv ap show ?thesis by (simp add: AnyEvent b w)
next
  case (AnyAsync u)
  with r obtain v u' v' where b: "b = AnyAsync v" "async_merge (bq_wakeup u) v = Inr (u', v')" "q' = AnyAsync u'" "b' = AnyAsync v'"
    by (cases b) auto
  have w: "queue_work i (AnyAsync (bq_wakeup u)) = queue_work i (AnyAsync u)" by (simp add: queue_work_def)
  from async_merge_work[of "bq_wakeup u" v i, OF _ _ _ b(2)] inv ap show ?thesis by (simp add: AnyAsync b w)
next
  case (AnySub u)
  with r obtain v u' v' where b: "b = AnySub v" "sub_merge (bq_wakeup u) v = Inr (u', v')" "q' = AnySub u'" "b' = AnySub v'"
    by (cases b) auto
  have w: "queue_work i (AnySub (bq_wakeup u)) = queue_work i (AnySub u)" by (simp add: queue_work_def)
  from sub_merge_work[of "bq_wakeup u" v i, OF _ _ _ b(2)] inv ap show ?thesis by (simp add: AnySub b w)
qed

section \<open>Merging two objects\<close>

text \<open>What a merge makes of the queue of a segment.\<close>

definition merged_queue :: "any_queue \<Rightarrow> any_queue \<Rightarrow> any_queue \<Rightarrow> bool" where
  "merged_queue q b q' \<longleftrightarrow> any_map b = [] \<and> q' = q \<or> (\<exists>b'. any_merge (any_wakeup q) b = Inr (q', b'))"

definition same_rest :: "seg_queue \<Rightarrow> seg_queue \<Rightarrow> bool" where
  "same_rest s s' \<longleftrightarrow> s' = s\<lparr>backend_queue_map := backend_queue_map s'\<rparr>"

lemma same_rest_fields:
  assumes "same_rest s s'"
  shows "workflow_seg_map s' = workflow_seg_map s" "retry_waiting s' = retry_waiting s" "sq_term s' = sq_term s"
    "conn_set s' = conn_set s" "src_queue r s' = src_queue r s"
  using assms by (cases s; cases s'; simp add: same_rest_def src_queue_def split: retry_src.split)+

lemma same_rest_put: "same_rest (put_segment i q s) s' \<Longrightarrow> same_rest s s'"
  by (simp add: same_rest_def put_segment_def)

lemma find_put_other: "find_segment j (put_segment i q s) = (if j = i then Some q else find_segment j s)"
  by (simp add: find_segment_def put_segment_def)

lemma merge_segment_cases:
  assumes r: "merge_segment (a, b) i = Inr (a1, b1)" and inv: "seg_inv a" "seg_inv b"
    and ap: "works_apart (pending a) (pending b)"
  shows "\<exists>q d q' d'. find_segment i a = Some q \<and> find_segment i b = Some d \<and> merged_queue q d q' \<and>
    a1 = (if any_map d = [] then a else put_segment i q' a) \<and> b1 = (if any_map d = [] then b else put_segment i d' b) \<and>
    (any_map d = [] \<longrightarrow> q' = q \<and> d' = d) \<and>
    any_inv q' \<and> any_inv d' \<and> queue_work i q' = queue_work i q \<union> queue_work i d \<and> queue_work i d' = {}"
proof -
  from r obtain q d where f: "find_segment i a = Some q" "find_segment i b = Some d"
    by (auto simp: merge_segment_def split: option.split_asm)
  note qi = find_segment_inv[OF inv(1) f(1)] and di = find_segment_inv[OF inv(2) f(2)]
  show ?thesis
  proof (cases "any_map d = []")
    case True
    then have "queue_work i d = {}" by (simp add: queue_work_def mm_vals_def)
    with True r f qi di show ?thesis
      by (rule_tac exI[of _ q], rule_tac exI[of _ d], rule_tac exI[of _ q], rule_tac exI[of _ d])
        (simp add: merge_segment_def merged_queue_def)
  next
    case False
    with r f obtain q' d' where m: "any_merge (any_wakeup q) d = Inr (q', d')"
      "a1 = put_segment i q' a" "b1 = put_segment i d' b"
      by (auto simp: merge_segment_def)
    have "works_apart (queue_work i q) (queue_work i d)"
      using works_apart_mono[OF ap] pending_segment[OF inv(1) f(1)] pending_segment[OF inv(2) f(2)] by blast
    note w = any_merge_work[OF qi di this m(1)]
    have "merged_queue q d q'" using m(1) unfolding merged_queue_def by blast
    with w False m(2,3) f show ?thesis
      by (rule_tac exI[of _ q], rule_tac exI[of _ d], rule_tac exI[of _ q'], rule_tac exI[of _ d']) simp
  qed
qed

lemma merge_fold:
  assumes "rfold merge_segment (a, b) ids = Inr (a', b')" "distinct ids" "seg_inv a" "seg_inv b"
    "works_apart (pending a) (pending b)"
  shows "seg_inv a' \<and> same_rest a a' \<and> pending a' = pending a \<union> {x \<in> pending b. fst x \<in> set ids} \<and>
    (\<forall>j. if j \<in> set ids then \<exists>q d q'. find_segment j a = Some q \<and> find_segment j b = Some d \<and>
        find_segment j a' = Some q' \<and> merged_queue q d q'
      else find_segment j a' = find_segment j a)"
  using assms
proof (induction ids arbitrary: a b)
  case Nil
  then show ?case by (simp add: same_rest_def)
next
  case (Cons i ids)
  from Cons.prems(1) obtain a1 b1 where r: "merge_segment (a, b) i = Inr (a1, b1)"
    "rfold merge_segment (a1, b1) ids = Inr (a', b')" by auto
  from merge_segment_cases[OF r(1) Cons.prems(3-5)] obtain q d q' d' where
    f: "find_segment i a = Some q" "find_segment i b = Some d" "merged_queue q d q'" and
    a1: "a1 = (if any_map d = [] then a else put_segment i q' a)" and
    b1: "b1 = (if any_map d = [] then b else put_segment i d' b)" and
    e: "any_map d = [] \<Longrightarrow> q' = q \<and> d' = d" and
    q: "any_inv q'" "any_inv d'" "queue_work i q' = queue_work i q \<union> queue_work i d" "queue_work i d' = {}" by blast
  have inv: "seg_inv a1" "seg_inv b1"
    using Cons.prems(3,4) q(1,2) by (simp_all add: a1 b1 put_segment_inv)
  have pa: "pending a1 = pending a \<union> queue_work i d"
  proof (cases "any_map d = []")
    case True
    with q(4) e show ?thesis by (simp add: a1)
  next
    case False
    then show ?thesis using pending_put_change(1)[OF Cons.prems(3) f(1) q(3)] by (simp add: a1)
  qed
  have own: "{x \<in> pending b. fst x = i} = queue_work i d" by (rule pending_segment[OF Cons.prems(4) f(2)])
  have pb: "pending b1 = {x \<in> pending b. fst x \<noteq> i}"
  proof (cases "any_map d = []")
    case True
    with q(4) e have "queue_work i d = {}" by simp
    with own have "\<forall>x\<in>pending b. fst x \<noteq> i" by blast
    with True show ?thesis by (auto simp: b1)
  next
    case False
    then show ?thesis using pending_put[OF Cons.prems(4), of i d'] q(4) by (simp add: b1)
  qed
  have "works_apart (pending a1) (pending b1)"
    unfolding works_apart_def pa pb
  proof (intro allI impI)
    fix j st w k k' assume "(j, st, w, k) \<in> pending a \<union> queue_work i d"
    moreover have "(j, st, w, k) \<in> queue_work i d \<Longrightarrow> j = i" using queue_work_seg[of "(j, st, w, k)" i d] by simp
    ultimately show "(j, st, w, k') \<notin> {x \<in> pending b. fst x \<noteq> i}"
      using Cons.prems(5) unfolding works_apart_def by auto
  qed
  have "distinct ids" using Cons.prems(2) by simp
  note IH0 = Cons.IH[OF r(2) this inv \<open>works_apart (pending a1) (pending b1)\<close>]
  have IH: "seg_inv a'" "same_rest a1 a'"
    "pending a' = pending a1 \<union> {x \<in> pending b1. fst x \<in> set ids}"
    "\<And>j. if j \<in> set ids then \<exists>q d q'. find_segment j a1 = Some q \<and> find_segment j b1 = Some d \<and>
        find_segment j a' = Some q' \<and> merged_queue q d q'
      else find_segment j a' = find_segment j a1" using IH0 by blast+
  have i: "i \<notin> set ids" using Cons.prems(2) by simp
  have "same_rest a a'" using IH(2) same_rest_put by (auto simp: a1 split: if_splits)
  moreover have "pending a' = pending a \<union> {x \<in> pending b. fst x \<in> set (i # ids)}"
    unfolding IH(3) pa pb using own i by auto
  moreover have "if j \<in> set (i # ids) then \<exists>q d q'. find_segment j a = Some q \<and> find_segment j b = Some d \<and>
        find_segment j a' = Some q' \<and> merged_queue q d q'
      else find_segment j a' = find_segment j a" for j
  proof (cases "j = i")
    case True
    with IH(4)[of i] i f e show ?thesis by (auto simp: a1 find_put_other)
  next
    case False
    with IH(4)[of j] show ?thesis by (simp add: a1 b1 find_put_other split: if_splits)
  qed
  ultimately show ?case using IH(1) by blast
qed

text \<open>The other object has no retries.\<close>

definition no_retries :: "seg_queue \<Rightarrow> bool" where
  "no_retries t \<longleftrightarrow> rq_nodes (sq_retry t) = [] \<and> rq_nodes (sq_async_retry t) = [] \<and> rq_nodes (sq_fixed_retry t) = []"

lemma merge_all_ok:
  assumes r: "merge_all s t = Inr (s', t')" and inv: "seg_inv s" "seg_inv t" and n: "no_retries t"
    and ap: "works_apart (pending s) (pending t)"
  shows "seg_inv s' \<and> same_rest (requeue_retries s) s' \<and>
    pending s' = pending s \<union> {x \<in> pending t. find_segment (fst x) s \<noteq> None} \<and>
    (\<forall>j. case find_segment j s of
        None \<Rightarrow> find_segment j s' = None
      | Some q \<Rightarrow> \<exists>d q'. find_segment j t = Some d \<and> find_segment j s' = Some q' \<and> merged_queue q d q')"
proof -
  have "retry_merge q u = (q, u)" if "rq_nodes u = []" for q u using that by (simp add: retry_merge_def)
  with n r have f: "rfold merge_segment (requeue_retries s, t) (map fst (backend_queue_map s)) = Inr (s', t')"
    by (simp add: merge_all_def no_retries_def Let_def)
  have d: "distinct (map fst (backend_queue_map s))" using seg_inv_parts(3)[OF inv(1)] by (simp add: segs_ok_def om_ok_def)
  have p: "pending (requeue_retries s) = pending s" by (rule pending_cong) simp
  have fs: "find_segment j (requeue_retries s) = find_segment j s" for j by (simp add: find_segment_def)
  have ids: "j \<in> set (map fst (backend_queue_map s)) \<longleftrightarrow> find_segment j s \<noteq> None" for j
    by (simp add: find_segment_def map_of_eq_None_iff)
  from merge_fold[OF f d requeue_retries_inv[OF inv(1)] inv(2)] ap have
    m: "seg_inv s'" "same_rest (requeue_retries s) s'"
    "pending s' = pending s \<union> {x \<in> pending t. find_segment (fst x) s \<noteq> None}"
    "\<And>j. if find_segment j s \<noteq> None then \<exists>q d q'. find_segment j s = Some q \<and> find_segment j t = Some d \<and>
        find_segment j s' = Some q' \<and> merged_queue q d q'
      else find_segment j s' = find_segment j s" unfolding p fs ids by blast+
  have "case find_segment j s of
        None \<Rightarrow> find_segment j s' = None
      | Some q \<Rightarrow> \<exists>d q'. find_segment j t = Some d \<and> find_segment j s' = Some q' \<and> merged_queue q d q'" for j
    using m(4)[of j] by (cases "find_segment j s") auto
  with m(1-3) show ?thesis by blast
qed

text \<open>What any merge does to the threads that wait for retries.\<close>

lemma same_rest_trans: "same_rest s t \<Longrightarrow> same_rest t u \<Longrightarrow> same_rest s u"
  by (cases s; cases t; cases u) (simp add: same_rest_def)

lemma same_rest_put_own: "same_rest s (put_segment i q s)"
  by (simp add: same_rest_def put_segment_def)

lemma merge_segments_rest:
  assumes "rfold merge_segment u ids = Inr u'"
  shows "same_rest (fst u) (fst u') \<and> same_rest (snd u) (snd u')"
proof (rule rfold_invariant[OF assms, where P = "\<lambda>v. same_rest (fst u) (fst v) \<and> same_rest (snd u) (snd v)"])
  show "same_rest (fst u) (fst u) \<and> same_rest (snd u) (snd u)" by (simp add: same_rest_def)
  fix v i v' assume v: "same_rest (fst u) (fst v) \<and> same_rest (snd u) (snd v)" and m: "merge_segment v i = Inr v'"
  from m consider "v' = v" | q d where "v' = (put_segment i q (fst v), put_segment i d (snd v))"
    by (auto simp: merge_segment_def split: option.split_asm if_splits prod.split_asm)
  then show "same_rest (fst u) (fst v') \<and> same_rest (snd u) (snd v')"
    using v same_rest_trans same_rest_put_own by cases auto
qed

lemma merge_all_retries:
  "case merge_all s t of
     Inl e \<Rightarrow> True
   | Inr (s', t') \<Rightarrow> retry_waiting s' = retry_waiting s \<and> (\<forall>r. marker_set (src_queue r s') = []) \<and>
       retry_waiting t' = retry_waiting t \<and> (\<forall>r. marker_set (src_queue r t') = marker_set (src_queue r t))"
proof (cases "merge_all s t")
  case (Inr u)
  then obtain s' t' where m: "merge_all s t = Inr (s', t')" by (cases u) auto
  let ?s = "s\<lparr>sq_retry := fst (retry_merge (sq_retry s) (sq_retry t)),
      sq_async_retry := fst (retry_merge (sq_async_retry s) (sq_async_retry t)),
      sq_fixed_retry := fst (retry_merge (sq_fixed_retry s) (sq_fixed_retry t))\<rparr>"
  let ?t = "t\<lparr>sq_retry := snd (retry_merge (sq_retry s) (sq_retry t)),
      sq_async_retry := snd (retry_merge (sq_async_retry s) (sq_async_retry t)),
      sq_fixed_retry := snd (retry_merge (sq_fixed_retry s) (sq_fixed_retry t))\<rparr>"
  from m have "rfold merge_segment (requeue_retries ?s, ?t) (map fst (backend_queue_map (requeue_retries ?s))) = Inr (s', t')"
    by (simp add: merge_all_def Let_def)
  from merge_segments_rest[OF this] have r: "same_rest (requeue_retries ?s) s'" "same_rest ?t t'" by simp_all
  have "marker_set (src_queue r (requeue_retries ?s)) = []" for r
    by (cases r) (simp_all add: requeue_retries_def retry_broadcast_def src_queue_def clear_markers_def)
  moreover have "marker_set (src_queue r ?t) = marker_set (src_queue r t)" for r
    by (cases r) (simp_all add: src_queue_def retry_merge_def)
  moreover have "retry_waiting (requeue_retries ?s) = retry_waiting s"
    by (simp add: requeue_retries_def retry_broadcast_def)
  ultimately show ?thesis
    using same_rest_fields(2,5)[OF r(1)] same_rest_fields(2,5)[OF r(2)] by (simp add: m)
qed simp

end
