(* ===== verification/Segment_System.thy ===== *)
theory Segment_System
  imports Segment_Merge
begin

text \<open>
  The critical sections of \<^verbatim>\<open>SegmentEventQueue\<close> that touch neither
  \<open>workflow_seg_map\<close> nor the events that are queued: \<open>seg_update\<close>.  They keep the invariant of
  the queue and leave the events as they are.
\<close>

section \<open>Updates that leave the segments in progress alone\<close>

lemma primary_add_inv:
  assumes "pq_inv q" "primary_add w prio p sched now sig q = Inr q'"
  shows "pq_inv q'"
proof -
  have "w \<noteq> 0" using assms(2) by (auto simp: primary_add_def)
  from primary_add_spec[OF assms(1) this, of prio p sched now sig] assms(2) show ?thesis
    by (auto split: sum.splits)
qed

lemma retry_add_inv:
  assumes "retry_inv q" "retry_add a w t p q = Inr (rc, q')" "a \<notin> live_addr q"
  shows "retry_inv q' \<and> marker_set q' = marker_set q \<and> live_addr q' \<subseteq> insert a (live_addr q)"
proof -
  have "w \<noteq> 0"
  proof
    assume w: "w = 0"
    have core: "retry_core q" using assms(1) by (simp add: retry_inv_def)
    have "rwmap q 0 = None"
    proof (rule ccontr)
      assume "rwmap q 0 \<noteq> None"
      then obtain n where "rwmap q 0 = Some n" by auto
      from mm_indexed_find[OF retry_core_parts(1)[OF core] this] retry_core_parts(2)[OF core]
      show False by blast
    qed
    with w assms(2) show False by (simp add: retry_add_def)
  qed
  from retry_add_ok[OF assms(1) this assms(3), of t p] assms(2) show ?thesis by auto
qed

lemma resched_inv:
  assumes inv: "pq_inv q" and r: "resched w sched now q = Inr (b, q')"
  shows "pq_inv q'"
proof -
  have live: "pq_live w q" if "pmap q w \<noteq> None"
    using dead_undefined(2)[OF inv that] r by (cases "pq_live w q") (auto simp: resched_def)
  from reschedIntern_spec[OF inv live, of sched now] obtain q1 where
    "reschedIntern w sched now q = Inr (spec_event w (pq_abs q) \<noteq> None, q1)" "pq_inv q1" by blast
  with r show ?thesis by (auto simp: resched_def)
qed

lemma primary_reprioritize_inv:
  assumes inv: "pq_inv q" and r: "primary_reprioritize w prio now q = Inr (b, q')"
  shows "pq_inv q'"
proof -
  have live: "pq_live w q" if "pmap q w \<noteq> None"
    using dead_undefined(1)[OF inv that] r by (cases "pq_live w q") auto
  from primary_reprioritize_spec[OF inv live, of prio now] r show ?thesis by auto
qed

lemma primary_remove_inv:
  assumes inv: "pq_inv q" and r: "primary_removeWorkflowOrder w q = Inr (b, q')" and n: "psmap q w = None"
  shows "pq_inv q'"
proof -
  have live: "pq_live w q" if "pmap q w \<noteq> None"
    using dead_undefined(3)[OF inv that] r by (cases "pq_live w q") auto
  from primary_remove_spec[OF inv live n] r show ?thesis by auto
qed

text \<open>
  The addresses that \<^verbatim>\<open>new\<close> returns are those of no entry that is still there.  Two
  operations are in the relation as far as the code keeps the invariant.  Changing the priority of an order and
  removing one search the back end queues for a modification time; when the order is not in the primary queue, no
  event may have that time.  And the order removed is not scheduled.
\<close>

inductive seg_update :: "seg_queue \<Rightarrow> seg_queue \<Rightarrow> bool" where
  destroy: "seg_update s (destructor s)"
| stop: "seg_update s (terminate_connection i s)"
| stop_retry: "seg_update s (terminate_retry_connection i s)"
| cleanup: "seg_update s (cleanup_connection i s)"
| requeue: "seg_update s (requeue_retries s)"
| add_sub_seg: "add_subworkflow_segment i s = Inr s' \<Longrightarrow> seg_update s s'"
| add_async_seg: "add_async_segment i s = Inr s' \<Longrightarrow> seg_update s s'"
| add_event_seg: "add_event_segment i s = Inr s' \<Longrightarrow> seg_update s s'"
| init_primary: "init_primary_queue api now l s = Inr s' \<Longrightarrow> seg_update s s'"
| primary: "queue_primary_event api now w prio ph sched s = Inr s' \<Longrightarrow> seg_update s s'"
| primary_round: "primary_attempt conn now s = Inr (a, s') \<Longrightarrow> seg_update s s'"
| primary_wake: "seg_update s (primary_resume t s)"
| backend_wake: "seg_update s (backend_resume i u s)"
| resched: "resched_primary_event w sched now s = Inr (b, s') \<Longrightarrow> seg_update s s'"
| reprio: "reprioritize w prio now s = Inr (b, s') \<Longrightarrow>
    pmap (sq_primary s) w \<noteq> None \<or> psmap (sq_primary s) w \<noteq> None \<or> no_entry_at w s \<Longrightarrow> seg_update s s'"
| remove_order: "removeWorkflowOrder w prio s = Inr s' \<Longrightarrow> pmap (sq_primary s) w \<noteq> None \<or> no_entry_at w s \<Longrightarrow>
    psmap (sq_primary s) w = None \<Longrightarrow> seg_update s s'"
| retry: "queue_retry_in (src_queue r) (put_src r) api addr w d ph s = Inr s' \<Longrightarrow>
    addr \<notin> live_addr (src_queue r s) \<Longrightarrow> seg_update s s'"
| remove_instance: "remove_workflow_instance w s = Inr s' \<Longrightarrow> seg_update s s'"
| init_retry: "init_retry_intern api (src_queue r) (put_src r) l s = Inr s' \<Longrightarrow> distinct (map fst l) \<Longrightarrow>
    \<forall>a\<in>fst ` set l. \<forall>r. a \<notin> live_addr (src_queue r s) \<Longrightarrow> seg_update s s'"

definition same_control :: "seg_queue \<Rightarrow> seg_queue \<Rightarrow> bool" where
  "same_control s s' \<longleftrightarrow> workflow_seg_map s' = workflow_seg_map s \<and> retry_waiting s' = retry_waiting s \<and>
     (\<forall>r. set (marker_set (src_queue r s')) \<subseteq> set (marker_set (src_queue r s)))"

lemma same_controlI:
  assumes "workflow_seg_map s' = workflow_seg_map s" "retry_waiting s' = retry_waiting s"
    "\<And>r. src_queue r s' = src_queue r s"
  shows "same_control s s'"
  using assms by (simp add: same_control_def)

lemma requeue_control: "same_control s (requeue_retries s)"
  by (simp add: same_control_def)

lemma add_segment_control: "add_segment q i s = Inr s' \<Longrightarrow> any_inv q \<Longrightarrow> seg_inv s \<Longrightarrow>
    seg_inv s' \<and> same_control s s'"
  by (auto simp: add_segment_def put_segment_inv intro!: same_controlI)

lemma init_primary_inv:
  assumes "seg_inv s" "init_primary_queue api now l s = Inr s'"
  shows "seg_inv s' \<and> same_control s s'"
proof -
  from assms(2) obtain q where q: "rfold (init_primary_step api now) (sq_primary s) l = Inr q"
    "s' = s\<lparr>sq_primary := primary_wakeup q\<rparr>" by (auto simp: init_primary_queue_def)
  have "pq_inv q"
    by (rule rfold_invariant[OF q(1), where P = pq_inv])
      (auto simp: init_primary_step_def intro: primary_add_inv seg_inv_parts(1)[OF assms(1)])
  with q(2) put_primary_inv[OF assms(1)] show ?thesis by (auto intro!: same_controlI)
qed

lemma primary_attempt_control:
  assumes "seg_inv s" "primary_attempt conn now s = Inr (a, s')"
  shows "seg_inv s' \<and> same_control s s'"
proof -
  from primary_attempt_ok[OF assms(1), of conn now] assms(2) have
    "seg_inv s'" "workflow_seg_map s' = workflow_seg_map s" "\<forall>r. src_queue r s' = src_queue r s"
    "retry_waiting s' = retry_waiting s" by auto
  then show ?thesis by (auto intro!: same_controlI)
qed

lemma init_retry_step_inv:
  assumes inv: "seg_inv s" and st: "init_retry_step api (src_queue r) (put_src r) s x = Inr s'"
    and a: "\<forall>r. fst x \<notin> live_addr (src_queue r s)"
  shows "seg_inv s' \<and> same_control s s' \<and>
    (\<forall>r'. live_addr (src_queue r' s') \<subseteq> insert (fst x) (live_addr (src_queue r' s)))"
proof -
  have step: "seg_inv (put_src r' q s) \<and> same_control s (put_src r' q s) \<and>
      (\<forall>r''. live_addr (src_queue r'' (put_src r' q s)) \<subseteq> insert (fst x) (live_addr (src_queue r'' s)))"
    if "retry_add (fst x) w t p (src_queue r' s) = Inr (rc, q)" for r' q w t p rc
  proof -
    have ri: "retry_inv (src_queue r' s)" by (rule retry_inv_src[OF seg_inv_parts(2)[OF inv]])
    from retry_add_inv[OF ri that] a have q: "retry_inv q" "marker_set q = marker_set (src_queue r' s)"
      "live_addr q \<subseteq> insert (fst x) (live_addr (src_queue r' s))" by blast+
    have "same_control s (put_src r' q s)" using q(2) by (simp add: same_control_def)
    moreover have "\<forall>r''. live_addr (src_queue r'' (put_src r' q s)) \<subseteq> insert (fst x) (live_addr (src_queue r'' s))"
      using q(3) by (auto split: if_splits)
    ultimately show ?thesis using put_src_inv[OF inv q(1)] by blast
  qed
  have f: "put_src Fixed_src q s = s\<lparr>sq_fixed_retry := q\<rparr>" for q by (simp add: put_src_def put_fixed_retry_def)
  from st obtain h w p where h: "get_hash_arg (snd x) = Inr h" "get_event_info api h = Inr (w, p)"
    by (auto simp: init_retry_step_def)
  show ?thesis
  proof (cases "\<exists>t. hash_get ''retry_trigger'' h = QDate t")
    case True
    then obtain t where "hash_get ''retry_trigger'' h = QDate t" by blast
    with st h obtain rc q where "retry_add (fst x) w t p (src_queue Fixed_src s) = Inr (rc, q)"
      "s' = put_src Fixed_src q s"
      by (auto simp: init_retry_step_def f src_queue_def)
    with step show ?thesis by blast
  next
    case False
    then have "init_retry_step api (src_queue r) (put_src r) s x =
        (case hash_get ''modified'' h of
           QDate m \<Rightarrow> rbind (retry_add (fst x) w m p (src_queue r s)) (\<lambda>(rc, q). Inr (put_src r q s))
         | _ \<Rightarrow> Inl Assertion_failed)"
      using h by (cases "hash_get ''retry_trigger'' h") (auto simp: init_retry_step_def)
    with st obtain m rc q where "retry_add (fst x) w m p (src_queue r s) = Inr (rc, q)" "s' = put_src r q s"
      by (cases "hash_get ''modified'' h") auto
    with step show ?thesis by blast
  qed
qed

lemma same_control_trans: "same_control s t \<Longrightarrow> same_control t u \<Longrightarrow> same_control s u"
  unfolding same_control_def by (metis order_trans)

lemma init_retry_fold_inv:
  assumes "seg_inv s" "rfold (init_retry_step api (src_queue r) (put_src r)) s l = Inr s'"
    "distinct (map fst l)" "\<forall>a\<in>fst ` set l. \<forall>r. a \<notin> live_addr (src_queue r s)"
  shows "seg_inv s' \<and> same_control s s'"
  using assms
proof (induction l arbitrary: s)
  case Nil
  then show ?case by (simp add: same_control_def)
next
  case (Cons x l)
  from Cons.prems(2) obtain t where t: "init_retry_step api (src_queue r) (put_src r) s x = Inr t"
    "rfold (init_retry_step api (src_queue r) (put_src r)) t l = Inr s'" by auto
  have "\<forall>r. fst x \<notin> live_addr (src_queue r s)" using Cons.prems(4) by simp
  from init_retry_step_inv[OF Cons.prems(1) t(1) this] have 1: "seg_inv t" "same_control s t"
    "\<forall>r'. live_addr (src_queue r' t) \<subseteq> insert (fst x) (live_addr (src_queue r' s))" by blast+
  have "\<forall>a\<in>fst ` set l. \<forall>r. a \<notin> live_addr (src_queue r t)"
  proof (intro ballI allI)
    fix a r'
    assume a: "a \<in> fst ` set l"
    have "fst x \<notin> fst ` set l" using Cons.prems(3) by simp
    with a have "a \<noteq> fst x" by blast
    moreover have "a \<in> fst ` set (x # l)" using a by simp
    then have "a \<notin> live_addr (src_queue r' s)" using Cons.prems(4) by blast
    ultimately show "a \<notin> live_addr (src_queue r' t)" using 1(3) by blast
  qed
  from Cons.IH[OF 1(1) t(2) _ this] Cons.prems(3) 1(2) show ?case
    by (auto intro: same_control_trans)
qed

lemma primary_found:
  assumes "pq_inv q" "primary_reprioritize w prio now q = Inr (b, q')"
    "pmap q w \<noteq> None \<or> psmap q w \<noteq> None"
  shows "b"
proof -
  have live: "pq_live w q" if "pmap q w \<noteq> None"
    using dead_undefined(1)[OF assms(1) that] assms(2) by (cases "pq_live w q") auto
  show ?thesis
    using assms(2,3) by (auto simp: primary_reprioritize_def split: option.splits)
qed

lemma reprio_primary:
  assumes "seg_inv s" "reprioritize w prio now s = Inr (b, s')"
    "pmap (sq_primary s) w \<noteq> None \<or> psmap (sq_primary s) w \<noteq> None \<or> no_entry_at w s"
  shows "\<exists>b q. primary_reprioritize w prio now (sq_primary s) = Inr (b, q) \<and> s' = s\<lparr>sq_primary := q\<rparr>"
proof (cases "no_entry_at w s")
  case True
  with assms(2) show ?thesis by (auto simp: backend_search_missed)
next
  case False
  with assms(3) have w: "pmap (sq_primary s) w \<noteq> None \<or> psmap (sq_primary s) w \<noteq> None" by blast
  from assms(2) obtain b' q where q: "primary_reprioritize w prio now (sq_primary s) = Inr (b', q)"
    by (auto simp: reprioritize_def)
  have "b'" by (rule primary_found[OF seg_inv_parts(1)[OF assms(1)] q w])
  with q assms(2) show ?thesis by (auto simp: reprioritize_def Let_def)
qed

lemma remove_primary:
  assumes "removeWorkflowOrder w prio s = Inr s'" "pmap (sq_primary s) w \<noteq> None \<or> no_entry_at w s"
    "psmap (sq_primary s) w = None"
  shows "\<exists>b q. primary_removeWorkflowOrder w (sq_primary s) = Inr (b, q) \<and> s' = s\<lparr>sq_primary := q\<rparr>"
proof (cases "no_entry_at w s")
  case True
  with assms(1) show ?thesis by (auto simp: backend_search_missed)
next
  case False
  with assms(2) have w: "pmap (sq_primary s) w \<noteq> None" by blast
  from assms(1) obtain b q where q: "primary_removeWorkflowOrder w (sq_primary s) = Inr (b, q)"
    by (auto simp: removeWorkflowOrder_def)
  from w assms(3) q have "b" by (auto simp: primary_removeWorkflowOrder_def)
  with q assms(1) show ?thesis by (auto simp: removeWorkflowOrder_def Let_def)
qed

lemma seg_update_inv:
  assumes "seg_update s s'" "seg_inv s"
  shows "seg_inv s' \<and> same_control s s'"
  using assms
proof (cases rule: seg_update.cases)
  case destroy
  with assms(2) show ?thesis
    by (auto simp: terminate_inv destructor_def intro!: same_controlI broadcast_inv)
next
  case (stop i)
  with assms(2) show ?thesis
    by (auto simp: terminate_connection_def intro!: same_controlI broadcast_inv)
next
  case (stop_retry i)
  with assms(2) show ?thesis
    by (auto simp: terminate_retry_connection_def intro!: same_controlI)
next
  case (cleanup i)
  with assms(2) show ?thesis
    by (auto simp: cleanup_connection_def intro!: same_controlI)
next
  case requeue
  with assms(2) show ?thesis by (simp add: requeue_retries_inv requeue_control)
next
  case (add_sub_seg i)
  with assms(2) show ?thesis
    by (auto simp: add_subworkflow_segment_def new_queues_inv dest: add_segment_control)
next
  case (add_async_seg i)
  with assms(2) show ?thesis
    by (auto simp: add_async_segment_def new_queues_inv dest: add_segment_control)
next
  case (add_event_seg i)
  with assms(2) show ?thesis
    by (auto simp: add_event_segment_def new_queues_inv dest: add_segment_control)
next
  case (init_primary api now l)
  with assms(2) show ?thesis by (rule_tac init_primary_inv)
next
  case (primary api now w prio ph sched)
  then obtain q where q: "s' = s\<lparr>sq_primary := q\<rparr>"
    "primary_add w prio (opt_parent_info api ph) sched now True (sq_primary s) = Inr q"
    by (auto simp: queue_primary_event_def)
  from put_primary_inv[OF assms(2) primary_add_inv[OF seg_inv_parts(1)[OF assms(2)] q(2)]] show ?thesis
    unfolding q(1) by (auto intro!: same_controlI)
next
  case (primary_round conn now a)
  with assms(2) show ?thesis by (rule_tac primary_attempt_control)
next
  case (primary_wake t)
  with primary_resume_inv[OF assms(2)] show ?thesis
    by (auto simp: primary_resume_def intro!: same_controlI)
next
  case (backend_wake i u)
  with backend_resume_inv[OF assms(2)] show ?thesis
    by (auto simp: backend_resume_def intro!: same_controlI)
next
  case (resched w sched now b)
  then obtain q where q: "s' = s\<lparr>sq_primary := q\<rparr>" "resched w sched now (sq_primary s) = Inr (b, q)"
    by (auto simp: resched_primary_event_def)
  from put_primary_inv[OF assms(2) resched_inv[OF seg_inv_parts(1)[OF assms(2)] q(2)]] show ?thesis
    unfolding q(1) by (auto intro!: same_controlI)
next
  case (reprio w prio now b)
  from reprio_primary[OF assms(2) reprio] obtain b' q where
    q: "primary_reprioritize w prio now (sq_primary s) = Inr (b', q)" "s' = s\<lparr>sq_primary := q\<rparr>" by blast
  from put_primary_inv[OF assms(2) primary_reprioritize_inv[OF seg_inv_parts(1)[OF assms(2)] q(1)]] show ?thesis
    unfolding q(2) by (auto intro!: same_controlI)
next
  case (remove_order w prio)
  from remove_primary[OF remove_order] obtain b q where
    q: "primary_removeWorkflowOrder w (sq_primary s) = Inr (b, q)" "s' = s\<lparr>sq_primary := q\<rparr>" by blast
  from put_primary_inv[OF assms(2) primary_remove_inv[OF seg_inv_parts(1)[OF assms(2)] q(1) remove_order(3)]]
  show ?thesis unfolding q(2) by (auto intro!: same_controlI)
next
  case (retry r api addr w d ph)
  then obtain rc q where q: "retry_add addr w d (opt_parent_info api ph) (src_queue r s) = Inr (rc, q)"
    "s' = (if rc = 0 then requeue_retries (put_src r q s) else put_src r q s)"
    by (auto simp: queue_retry_in_def)
  have ri: "retry_inv (src_queue r s)" by (rule retry_inv_src[OF seg_inv_parts(2)[OF assms(2)]])
  from retry_add_inv[OF ri q(1) retry(2)] have q': "retry_inv q" "marker_set q = marker_set (src_queue r s)"
    by blast+
  have c: "same_control s (put_src r q s)" using q'(2) by (simp add: same_control_def)
  with put_src_inv[OF assms(2) q'(1), of r] show ?thesis
    unfolding q(2) by (auto intro: requeue_retries_inv same_control_trans[OF c requeue_control])
next
  case (remove_instance w)
  from remove_workflow_instance_ok[OF assms(2), of w] remove_instance have
    1: "seg_inv s'" "workflow_seg_map s' = workflow_seg_map s" "retry_waiting s' = retry_waiting s" by auto
  from remove_instance obtain t where "s' = requeue_retries t"
    by (auto simp: remove_workflow_instance_def)
  with 1 show ?thesis by (simp add: same_control_def)
next
  case (init_retry api r l)
  show ?thesis
  proof (cases "l = []")
    case True
    with init_retry assms(2) show ?thesis by (simp add: init_retry_intern_def same_control_def)
  next
    case False
    with init_retry obtain t where t: "rfold (init_retry_step api (src_queue r) (put_src r)) s l = Inr t"
      "s' = requeue_retries t" by (auto simp: init_retry_intern_def)
    from init_retry_fold_inv[OF assms(2) t(1) init_retry(2,3)] show ?thesis
      unfolding t(2) using requeue_retries_inv requeue_control same_control_trans by blast
  qed
qed

text \<open>The removal that is not in the relation breaks the invariant.\<close>

lemma removal_breaks:
  assumes inv: "seg_inv s" and w: "psmap (sq_primary s) w \<noteq> None"
  shows "\<exists>s'. removeWorkflowOrder w prio s = Inr s' \<and> \<not> seg_inv s'"
proof -
  let ?q = "(sq_primary s)\<lparr>psmap := (psmap (sq_primary s))(w := None)\<rparr>"
  from w obtain n where n: "psmap (sq_primary s) w = Some n" by auto
  then obtain t e where e: "(n, t, e) \<in> set (psq ?q)" "pe_wfiid e = w"
    using pq_inv_parts(8)[OF seg_inv_parts(1)[OF inv], of w n] by auto
  have "\<not> pq_inv ?q"
  proof
    assume "pq_inv ?q"
    from pq_inv_parts(8)[OF this, of w n] e show False by auto
  qed
  moreover have "removeWorkflowOrder w prio s = Inr (s\<lparr>sq_primary := ?q\<rparr>)"
    using w by (simp add: removeWorkflowOrder_def primary_removeWorkflowOrder_def)
  ultimately show ?thesis using seg_inv_parts(1) by fastforce
qed

end
