(* ===== verification/Segment_Feed.thy ===== *)
theory Segment_Feed
  imports Segment_System
begin

text \<open>
  The critical sections of \<^verbatim>\<open>SegmentEventQueue\<close> that add events to the back end queues,
  each with the work that it adds, and that all others leave the queued work as it is.
\<close>

section \<open>Adding events\<close>

text \<open>
  The operations that add events, with the work that they add.  \<^verbatim>\<open>merge_all\<close> is in the
  relation as far as the code keeps the invariant: the other object, which may be in any state that satisfies
  it, has no retries, and events of the same segment, workflow instance and status are not in both.
\<close>

inductive seg_feed :: "seg_queue \<Rightarrow> work list \<Rightarrow> seg_queue \<Rightarrow> bool" where
  event: "queue_workflow_event api now i w k prio ph s = Inr s' \<Longrightarrow> seg_feed s [(i, CHR 0x00, w, k)] s'"
| async: "queue_async_event api now i w k prio c key d ph s = Inr s' \<Longrightarrow> seg_feed s [(i, CHR 0x00, w, k)] s'"
| sub: "queue_subworkflow_event api now i w k prio st sw ph s = Inr s' \<Longrightarrow> seg_feed s [(i, st, w, k)] s'"
| init_event: "init_event_queue api i l s = Inr s' \<Longrightarrow>
    seg_feed s (concat (map (listed_work api no_status i) l)) s'"
| init_async: "init_async_queue api i l s = Inr s' \<Longrightarrow>
    seg_feed s (concat (map (listed_work api no_status i) l)) s'"
| init_sub: "init_subworkflow_queue api i l s = Inr s' \<Longrightarrow>
    seg_feed s (concat (map (listed_work api (sub_status api) i) l)) s'"
| merge: "merge_all s t = Inr (s', t') \<Longrightarrow> seg_inv t \<Longrightarrow> no_retries t \<Longrightarrow> works_apart (pending s) (pending t) \<Longrightarrow>
    distinct ws \<Longrightarrow> set ws = {x \<in> pending t. find_segment (fst x) s \<noteq> None} \<Longrightarrow> seg_feed s ws s'"

section \<open>Lists of events\<close>

lemma init_event_step_done:
  assumes "event_inv q" "init_event_step api q v = Inr q'"
  shows "event_inv q' \<and> queue_work i (AnyEvent q') =
    queue_work i (AnyEvent q) \<union> set (listed_work api no_status i v)"
proof -
  from assms(2) obtain h e where h: "get_hash_arg v = Inr h" "get_backend_event_info api h = Inr e"
    and add: "add_event (ei_mod e) (ei_wfiid e) (ei_ind e) (ei_prio e) (ei_pi e) q = Inr q'"
    by (auto simp: init_event_step_def)
  from add_event_done[OF assms(1) add] add_event_work[OF assms(1) add, of i] show ?thesis
    by (simp add: listed_work_def h no_status_def)
qed

lemma init_async_step_done:
  assumes "async_inv q" "init_async_step api q v = Inr q'"
  shows "async_inv q' \<and> queue_work i (AnyAsync q') =
    queue_work i (AnyAsync q) \<union> set (listed_work api no_status i v)"
proof -
  from assms(2) obtain h e where h: "get_hash_arg v = Inr h" "get_backend_event_info api h = Inr e"
    by (auto simp: init_async_step_def)
  with assms(2) obtain k where "hash_get ''queuekey'' h = QString k"
    by (cases "hash_get ''queuekey'' h") (auto simp: init_async_step_def)
  with assms(2) h have add: "add_async_event (ei_mod e) (ei_wfiid e) (ei_ind e) (ei_prio e)
      (getAsBigInt api (hash_get ''corrected'' h) \<noteq> 0) (ei_pi e) k QNothing q = Inr q'"
    by (auto simp: init_async_step_def)
  from add_async_done[OF assms(1) add] add_async_work[OF assms(1) add, of i] show ?thesis
    by (simp add: listed_work_def h no_status_def)
qed

lemma init_sub_step_done:
  assumes "sub_inv q" "init_sub_step api q v = Inr q'"
  shows "sub_inv q' \<and> queue_work i (AnySub q') =
    queue_work i (AnySub q) \<union> set (listed_work api (sub_status api) i v)"
proof -
  from assms(2) obtain h e st where h: "get_hash_arg v = Inr h" "get_backend_event_info api h = Inr e"
    "init_sub_status api h = Inr st" and add: "add_subworkflow_event (ei_mod e) (ei_wfiid e) (ei_ind e)
      (ei_prio e) (ei_pi e) st (getAsBigInt api (hash_get ''subworkflow_instanceid'' h)) q = Inr q'"
    by (auto simp: init_sub_step_def Let_def)
  from add_sub_done[OF assms(1) add] add_sub_work[OF assms(1) add, of i] show ?thesis
    by (simp add: listed_work_def h sub_status_def)
qed

lemma fold_work:
  assumes "rfold f q l = Inr q'" "P q"
    and "\<And>q v q'. P q \<Longrightarrow> f q v = Inr q' \<Longrightarrow> P q' \<and> work q' = work q \<union> set (g v)"
  shows "P q' \<and> work q' = work q \<union> set (concat (map g l))"
  using assms(1,2)
proof (induction l arbitrary: q)
  case Nil
  then show ?case by simp
next
  case (Cons v l)
  then obtain q1 where q1: "f q v = Inr q1" "rfold f q1 l = Inr q'" by auto
  from assms(3)[OF Cons.prems(2) q1(1)] Cons.IH[OF q1(2)] show ?case by (simp add: Un_assoc)
qed

lemma wakeup_any [simp]:
  "any_inv (AnyEvent (bq_wakeup q1)) = event_inv q1" "any_inv (AnyAsync (bq_wakeup q2)) = async_inv q2"
  "any_inv (AnySub (bq_wakeup q3)) = sub_inv q3"
  "queue_work i (AnyEvent (bq_wakeup q1)) = queue_work i (AnyEvent q1)"
  "queue_work i (AnyAsync (bq_wakeup q2)) = queue_work i (AnyAsync q2)"
  "queue_work i (AnySub (bq_wakeup q3)) = queue_work i (AnySub q3)"
  by (simp_all add: queue_work_def)

text \<open>All six operations replace one queue by one that holds the added work too.\<close>

lemma feed_segment:
  assumes "seg_inv s" "find_segment i s = Some q" "any_inv q'"
    "queue_work i q' = queue_work i q \<union> set ws"
  shows "seg_inv (put_segment i q' s) \<and> same_control s (put_segment i q' s) \<and>
    pending (put_segment i q' s) = pending s \<union> set ws"
  using put_segment_inv[OF assms(1,3)] pending_put_change(1)[OF assms(1,2,4)]
  by (auto intro!: same_controlI)

lemma seg_feed_inv:
  assumes "seg_feed s ws s'" "seg_inv s"
  shows "seg_inv s' \<and> same_control s s' \<and> pending s' = pending s \<union> set ws"
  using assms(1)
proof (cases rule: seg_feed.cases)
  case (event api now i w k prio ph)
  then obtain q q' where q: "find_segment i s = Some (AnyEvent q)" "s' = put_segment i (AnyEvent q') s"
    and add: "add_event now w k prio (opt_parent_info api ph) q = Inr q'"
    by (auto simp: queue_workflow_event_def event_segment_iff)
  have inv: "event_inv q" using find_segment_inv[OF assms(2) q(1)] by simp
  show ?thesis unfolding q(2) event(1)
    by (rule feed_segment[OF assms(2) q(1)])
      (use add_event_done[OF inv add] add_event_work[OF inv add, of i] in simp_all)
next
  case (async api now i w k prio c key d ph)
  then obtain q q' where q: "find_segment i s = Some (AnyAsync q)" "s' = put_segment i (AnyAsync q') s"
    and add: "add_async_event now w k prio c (opt_parent_info api ph) key d q = Inr q'"
    by (auto simp: queue_async_event_def async_segment_iff)
  have inv: "async_inv q" using find_segment_inv[OF assms(2) q(1)] by simp
  show ?thesis unfolding q(2) async(1)
    by (rule feed_segment[OF assms(2) q(1)])
      (use add_async_done[OF inv add] add_async_work[OF inv add, of i] in simp_all)
next
  case (sub api now i w k prio st sw ph)
  then obtain q q' where q: "find_segment i s = Some (AnySub q)" "s' = put_segment i (AnySub q') s"
    and add: "add_subworkflow_event now w k prio (opt_parent_info api ph) st sw q = Inr q'"
    by (auto simp: queue_subworkflow_event_def sub_segment_iff)
  have inv: "sub_inv q" using find_segment_inv[OF assms(2) q(1)] by simp
  show ?thesis unfolding q(2) sub(1)
    by (rule feed_segment[OF assms(2) q(1)])
      (use add_sub_done[OF inv add] add_sub_work[OF inv add, of i] in simp_all)
next
  case (init_event api i l)
  then obtain q q' where q: "find_segment i s = Some (AnyEvent q)" "s' = put_segment i (AnyEvent (bq_wakeup q')) s"
    and r: "rfold (init_event_step api) q l = Inr q'"
    by (auto simp: init_event_queue_def event_segment_iff)
  have inv: "event_inv q" using find_segment_inv[OF assms(2) q(1)] by simp
  have added: "event_inv q' \<and> queue_work i (AnyEvent q') =
      queue_work i (AnyEvent q) \<union> set (concat (map (listed_work api no_status i) l))"
    by (rule fold_work[OF r, of event_inv "\<lambda>q. queue_work i (AnyEvent q)"]) (fact inv, erule (1) init_event_step_done)
  show ?thesis unfolding q(2) init_event(1)
    by (rule feed_segment[OF assms(2) q(1)]) (use added in simp_all)
next
  case (init_async api i l)
  then obtain q q' where q: "find_segment i s = Some (AnyAsync q)" "s' = put_segment i (AnyAsync (bq_wakeup q')) s"
    and r: "rfold (init_async_step api) q l = Inr q'"
    by (auto simp: init_async_queue_def async_segment_iff)
  have inv: "async_inv q" using find_segment_inv[OF assms(2) q(1)] by simp
  have added: "async_inv q' \<and> queue_work i (AnyAsync q') =
      queue_work i (AnyAsync q) \<union> set (concat (map (listed_work api no_status i) l))"
    by (rule fold_work[OF r, of async_inv "\<lambda>q. queue_work i (AnyAsync q)"]) (fact inv, erule (1) init_async_step_done)
  show ?thesis unfolding q(2) init_async(1)
    by (rule feed_segment[OF assms(2) q(1)]) (use added in simp_all)
next
  case (init_sub api i l)
  then obtain q q' where q: "find_segment i s = Some (AnySub q)" "s' = put_segment i (AnySub (bq_wakeup q')) s"
    and r: "rfold (init_sub_step api) q l = Inr q'"
    by (auto simp: init_subworkflow_queue_def sub_segment_iff)
  have inv: "sub_inv q" using find_segment_inv[OF assms(2) q(1)] by simp
  have added: "sub_inv q' \<and> queue_work i (AnySub q') =
      queue_work i (AnySub q) \<union> set (concat (map (listed_work api (sub_status api) i) l))"
    by (rule fold_work[OF r, of sub_inv "\<lambda>q. queue_work i (AnySub q)"]) (fact inv, erule (1) init_sub_step_done)
  show ?thesis unfolding q(2) init_sub(1)
    by (rule feed_segment[OF assms(2) q(1)]) (use added in simp_all)
next
  case (merge t t')
  from merge_all_ok[OF merge(1) assms(2) merge(2-4)] have m: "seg_inv s'" "same_rest (requeue_retries s) s'"
    "pending s' = pending s \<union> set ws" using merge(6) by simp_all
  from m(2) have "same_control (requeue_retries s) s'"
    using same_rest_fields by (intro same_controlI) blast+
  with m(1,3) show ?thesis using same_control_trans[OF requeue_control] by blast
qed

section \<open>All other updates\<close>

lemma pending_same: "backend_queue_map s' = backend_queue_map s \<Longrightarrow> pending s' = pending s"
  by (rule pending_cong) simp

lemma any_map_notify [simp]:
  "any_map (any_wakeup q) = any_map q" "any_map (any_wait_end q) = any_map q"
  by (cases q; simp add: bq_wait_end_def)+

lemma requeue_map [simp]:
  "backend_queue_map (retry_broadcast s) = backend_queue_map s"
  "backend_queue_map (requeue_retries s) = backend_queue_map s"
  "backend_queue_map (put_src r q s) = backend_queue_map s"
  by (simp_all add: retry_broadcast_def requeue_retries_def put_src_def put_retry_def
      put_async_retry_def put_fixed_retry_def split: retry_src.splits)

lemma pending_broadcast [simp]: "pending (broadcast s) = pending s"
  by (rule pending_cong) (simp add: broadcast_def Let_def comp_def)

lemma pending_backend_broadcast [simp]: "pending (backend_broadcast s) = pending s"
  by (rule pending_cong) (simp add: backend_broadcast_def comp_def)

lemma pending_resume: "pending (backend_resume i u s) = pending s"
  by (rule pending_cong) (simp add: backend_resume_def comp_def cong: if_cong)

lemma pending_add_segment:
  assumes "seg_inv s" "add_segment q i s = Inr s'" "any_map q = []"
  shows "pending s' = pending s"
proof -
  from assms(2) have "find_segment i s = None" "s' = put_segment i q s" by (auto simp: add_segment_def)
  moreover from this(1) have "x \<in> pending s \<Longrightarrow> fst x \<noteq> i" for x
    by (auto simp: in_pending find_segment_def map_of_eq_None_iff rev_image_eqI)
  ultimately show ?thesis by (auto simp: pending_put[OF assms(1)] queue_work_def assms(3))
qed

lemma init_retry_step_map:
  assumes "init_retry_step api (src_queue r) (put_src r) s x = Inr s'"
  shows "backend_queue_map s' = backend_queue_map s"
proof -
  from assms obtain h w p where h: "get_hash_arg (snd x) = Inr h" "get_event_info api h = Inr (w, p)"
    by (auto simp: init_retry_step_def)
  define v u where "v = hash_get ''retry_trigger'' h" and "u = hash_get ''modified'' h"
  from assms show ?thesis
    unfolding init_retry_step_def h rbind_simps prod.case v_def[symmetric] u_def[symmetric]
    by (cases v; cases u) (auto simp del: hash_get_simps)
qed

lemma init_retry_map:
  assumes "init_retry_intern api (src_queue r) (put_src r) l s = Inr s'"
  shows "backend_queue_map s' = backend_queue_map s"
proof (cases "l = []")
  case True
  with assms show ?thesis by (simp add: init_retry_intern_def)
next
  case False
  with assms obtain t where t: "rfold (init_retry_step api (src_queue r) (put_src r)) s l = Inr t"
    "s' = requeue_retries t" by (auto simp: init_retry_intern_def)
  have "backend_queue_map t = backend_queue_map s"
    by (rule rfold_invariant[OF t(1), where P = "\<lambda>t. backend_queue_map t = backend_queue_map s"])
      (simp_all add: init_retry_step_map)
  then show ?thesis by (simp add: t(2))
qed

lemma seg_update_pending:
  assumes "seg_update s s'" "seg_inv s"
  shows "pending s' = pending s"
  using assms(1)
proof (cases rule: seg_update.cases)
  case (reprio w prio now b)
  from reprio_primary[OF assms(2) this] show ?thesis by (intro pending_same) auto
next
  case (remove_order w prio)
  from remove_primary[OF this] show ?thesis by (intro pending_same) auto
next
  case (init_retry api r l)
  from init_retry_map[OF this(1)] show ?thesis by (rule pending_same)
next
  case (add_sub_seg i)
  with pending_add_segment[OF assms(2)] show ?thesis
    by (simp add: add_subworkflow_segment_def new_SubWorkflowQueue_def)
next
  case (add_async_seg i)
  with pending_add_segment[OF assms(2)] show ?thesis
    by (simp add: add_async_segment_def new_AsyncQueue_def)
next
  case (add_event_seg i)
  with pending_add_segment[OF assms(2)] show ?thesis
    by (simp add: add_event_segment_def new_EventQueue_def)
next
  case (backend_wake i u)
  then show ?thesis by (simp add: pending_resume)
next
  case destroy
  then show ?thesis by (simp add: destructor_def) (rule pending_same, simp)
next
  case (stop i)
  then show ?thesis by (simp add: terminate_connection_def) (rule pending_same, simp)
next
  case (stop_retry i)
  then show ?thesis by (intro pending_same) (auto simp: terminate_retry_connection_def)
next
  case (cleanup i)
  then show ?thesis by (intro pending_same) (auto simp: cleanup_connection_def)
next
  case requeue
  then show ?thesis by (intro pending_same) simp
next
  case (init_primary api now l)
  then show ?thesis by (intro pending_same) (auto simp: init_primary_queue_def)
next
  case (primary api now w prio ph sched)
  then show ?thesis by (intro pending_same) (auto simp: queue_primary_event_def)
next
  case (primary_round conn now a)
  then show ?thesis by (intro pending_same) (auto simp: primary_attempt_def split: if_splits)
next
  case (primary_wake t)
  then show ?thesis by (intro pending_same) (auto simp: primary_resume_def)
next
  case (resched w sched now b)
  then show ?thesis by (intro pending_same) (auto simp: resched_primary_event_def)
next
  case (retry r api addr w d ph)
  then show ?thesis by (intro pending_same) (auto simp: queue_retry_in_def)
next
  case (remove_instance w)
  then show ?thesis by (intro pending_same) (auto simp: remove_workflow_instance_def)
qed

end
