(* ===== verification/Segment_Threads.thy ===== *)
theory Segment_Threads
  imports Segment_Feed
begin

text \<open>
  Any number of threads around one \<^verbatim>\<open>SegmentEventQueue\<close>: what each holds, the steps of
  the whole system and the invariant of its reachable states.
\<close>

section \<open>The threads\<close>

record seg_system =
  ss_queue :: seg_queue
  ss_held :: "int \<Rightarrow> nat"
  ss_retrying :: "int \<Rightarrow> nat"
  ss_sleep :: "retry_wait list"

definition event_wfiid :: "qhash \<Rightarrow> int \<Rightarrow> bool" where
  "event_wfiid h w \<longleftrightarrow> hash_get ''workflow_instanceid'' h = QInt w"

text \<open>A round of one of the three calls that return backend events.\<close>

definition backend_round :: "int \<Rightarrow> int \<Rightarrow> seg_queue
    \<Rightarrow> ((unit, qhash option) attempt \<times> seg_queue) result" where
  "backend_round conn i s =
     (case find_segment i s of
        Some (AnyEvent _) \<Rightarrow> event_attempt conn i () s
      | Some (AnyAsync _) \<Rightarrow> async_attempt conn i () s
      | Some (AnySub _) \<Rightarrow> sub_attempt conn i () s
      | None \<Rightarrow> Inl Assertion_failed)"

text \<open>
  \<open>quiet_step\<close>: one critical section that neither adds nor delivers a back end event, with what the
  threads hold: the number of segments of a workflow instance taken and not yet released, the
  retries taken and not yet released, and the threads asleep in \<^verbatim>\<open>get_retry_event\<close>. A thread
  releases only what it has taken.  \<open>seg_step\<close> is one critical section of any thread.
\<close>

inductive quiet_step :: "seg_system \<Rightarrow> seg_system \<Rightarrow> bool" where
  update: "seg_update (ss_queue z) s' \<Longrightarrow> quiet_step z (z\<lparr>ss_queue := s'\<rparr>)"
| grab: "grab_segment_inc w (ss_queue z) = Inr (False, s') \<Longrightarrow>
    quiet_step z (z\<lparr>ss_queue := s', ss_held := (ss_held z)(w := ss_held z w + 1)\<rparr>)"
| grab_refused: "grab_segment_inc w (ss_queue z) = Inr (True, s') \<Longrightarrow> quiet_step z (z\<lparr>ss_queue := s'\<rparr>)"
| no_event: "backend_round conn i (ss_queue z) = Inr (Finished None, s') \<Longrightarrow>
    quiet_step z (z\<lparr>ss_queue := s'\<rparr>)"
| wait_event: "backend_round conn i (ss_queue z) = Inr (Waiting u, s') \<Longrightarrow>
    quiet_step z (z\<lparr>ss_queue := s'\<rparr>)"
| release: "ss_held z w > 0 \<Longrightarrow> release_segment w (ss_queue z) = Inr s' \<Longrightarrow>
    quiet_step z (z\<lparr>ss_queue := s', ss_held := (ss_held z)(w := ss_held z w - 1)\<rparr>)"
| take_retry: "retry_attempt api conn cn (ss_queue z) = Inr (Finished (Some h), s') \<Longrightarrow> event_wfiid h w \<Longrightarrow>
    quiet_step z (z\<lparr>ss_queue := s', ss_retrying := (ss_retrying z)(w := ss_retrying z w + 1)\<rparr>)"
| no_retry: "retry_attempt api conn cn (ss_queue z) = Inr (Finished None, s') \<Longrightarrow>
    quiet_step z (z\<lparr>ss_queue := s'\<rparr>)"
| sleep_retry: "retry_attempt api conn cn (ss_queue z) = Inr (Waiting v, s') \<Longrightarrow>
    quiet_step z (z\<lparr>ss_queue := s', ss_sleep := v # ss_sleep z\<rparr>)"
| wake_retry: "v \<in> set (ss_sleep z) \<Longrightarrow>
    quiet_step z (z\<lparr>ss_queue := retry_resume v (ss_queue z), ss_sleep := remove1 v (ss_sleep z)\<rparr>)"
| release_retry: "ss_retrying z w > 0 \<Longrightarrow> release_retry_segment w (ss_queue z) = Inr s' \<Longrightarrow>
    quiet_step z (z\<lparr>ss_queue := s', ss_retrying := (ss_retrying z)(w := ss_retrying z w - 1)\<rparr>)"

inductive seg_step :: "seg_system \<Rightarrow> seg_system \<Rightarrow> bool" where
  quiet: "quiet_step z z' \<Longrightarrow> seg_step z z'"
| feed: "seg_feed (ss_queue z) ws s' \<Longrightarrow> seg_step z (z\<lparr>ss_queue := s'\<rparr>)"
| take_event: "backend_round conn i (ss_queue z) = Inr (Finished (Some h), s') \<Longrightarrow> event_wfiid h w \<Longrightarrow>
    seg_step z (z\<lparr>ss_queue := s', ss_held := (ss_held z)(w := ss_held z w + 1)\<rparr>)"

definition initial_system :: seg_system where
  "initial_system = \<lparr>ss_queue = new_SegmentEventQueue, ss_held = (\<lambda>_. 0), ss_retrying = (\<lambda>_. 0), ss_sleep = []\<rparr>"

inductive reachable :: "seg_system \<Rightarrow> bool" where
  init: "reachable initial_system"
| step: "reachable z \<Longrightarrow> seg_step z z' \<Longrightarrow> reachable z'"

section \<open>The invariant of the reachable states\<close>

definition refs_agree :: "seg_queue \<Rightarrow> (int \<Rightarrow> nat) \<Rightarrow> (int \<Rightarrow> nat) \<Rightarrow> bool" where
  "refs_agree s held retrying \<longleftrightarrow>
     (\<forall>w. seg_refs w s = (if retrying w > 0 then Some (-1)
        else if held w = 0 then None else Some (int (held w)))) \<and>
     (\<forall>w. retrying w \<le> 1 \<and> (retrying w = 1 \<longrightarrow> held w = 0))"

definition marks_agree :: "seg_queue \<Rightarrow> retry_wait list \<Rightarrow> bool" where
  "marks_agree s sleep \<longleftrightarrow> retry_waiting s = int (length sleep) \<and>
     (\<forall>r. \<forall>a\<in>set (marker_set (src_queue r s)). \<exists>t. Wait_trigger r a t \<in> set sleep)"

definition sys_inv :: "seg_system \<Rightarrow> bool" where
  "sys_inv z \<longleftrightarrow> seg_inv (ss_queue z) \<and> refs_agree (ss_queue z) (ss_held z) (ss_retrying z) \<and>
     marks_agree (ss_queue z) (ss_sleep z)"

lemma sys_inv_init: "sys_inv initial_system"
  unfolding sys_inv_def
proof (intro conjI)
  show "seg_inv (ss_queue initial_system)" by (simp add: initial_system_def seg_inv_new)
  have "marker_set (src_queue r new_SegmentEventQueue) = []" for r
    by (cases r) (simp_all add: src_queue_def new_SegmentEventQueue_def new_RetryQueue_def)
  then show "marks_agree (ss_queue initial_system) (ss_sleep initial_system)"
    by (simp add: marks_agree_def initial_system_def) (simp add: new_SegmentEventQueue_def)
  show "refs_agree (ss_queue initial_system) (ss_held initial_system) (ss_retrying initial_system)"
    by (simp add: refs_agree_def initial_system_def seg_refs_def new_SegmentEventQueue_def)
qed

lemma agree_control:
  assumes "same_control s s'"
  shows "refs_agree s held retrying \<Longrightarrow> refs_agree s' held retrying"
    and "marks_agree s sleep \<Longrightarrow> marks_agree s' sleep"
  using assms by (simp_all add: same_control_def refs_agree_def marks_agree_def seg_refs_def) blast+

lemma refs_agree_grab:
  assumes "refs_agree s held retrying" "\<not> in_retry s w"
  shows "refs_agree (put_refs w (grab_count (seg_refs w s)) s) (held(w := held w + 1)) retrying"
proof -
  have "retrying w = 0"
    using assms by (auto simp: refs_agree_def in_retry_def split: if_splits)
  then show ?thesis using assms(1) by (auto simp: refs_agree_def grab_count_def)
qed

lemma refs_agree_cong:
  "workflow_seg_map s' = workflow_seg_map s \<Longrightarrow> refs_agree s' held retrying = refs_agree s held retrying"
  by (simp add: refs_agree_def seg_refs_def)

lemma marks_agree_cong:
  "retry_waiting s' = retry_waiting s \<Longrightarrow> (\<And>r. marker_set (src_queue r s') = marker_set (src_queue r s)) \<Longrightarrow>
     marks_agree s' sleep = marks_agree s sleep"
  by (simp add: marks_agree_def)

lemma get_hash_wfiid: "event_wfiid (get_hash e) w \<longleftrightarrow> w = entry_wfiid e"
  by (cases e) (auto simp: event_wfiid_def get_hash_intern_def)

lemma retry_hash_wfiid: "event_wfiid (retry_get_hash e) w \<longleftrightarrow> w = re_wfiid e"
  by (auto simp: event_wfiid_def retry_get_hash_def doHash_other_keys)

text \<open>What a round on a backend queue does to the segments in progress.\<close>

lemma round_shape:
  assumes "(if conn_stopped conn s then Inr (Finished None, s)
     else case take_ready (in_retry s) mm of
       None \<Rightarrow> Inr (Waiting (), put_segment i wt s)
     | Some (e, m) \<Rightarrow> Inr (Finished (Some (get_hash e)), put_segment i (d e m)
         (put_refs (entry_wfiid e) (grab_count (seg_refs (entry_wfiid e) s)) s))) = Inr (a, s')"
  shows "retry_waiting s' = retry_waiting s \<and> (\<forall>r. src_queue r s' = src_queue r s) \<and>
    (case a of
       Finished (Some h) \<Rightarrow> \<exists>e. h = get_hash e \<and> \<not> in_retry s (entry_wfiid e) \<and>
         workflow_seg_map s' = workflow_seg_map (put_refs (entry_wfiid e) (grab_count (seg_refs (entry_wfiid e) s)) s)
     | _ \<Rightarrow> workflow_seg_map s' = workflow_seg_map s)"
proof (cases "conn_stopped conn s")
  case True
  with assms show ?thesis by auto
next
  case False
  show ?thesis
  proof (cases "take_ready (in_retry s) mm")
    case None
    with False assms show ?thesis by auto
  next
    case (Some em)
    then obtain e m where em: "take_ready (in_retry s) mm = Some (e, m)" by (cases em) auto
    with False assms have "a = Finished (Some (get_hash e))" and s': "s' = put_segment i (d e m)
         (put_refs (entry_wfiid e) (grab_count (seg_refs (entry_wfiid e) s)) s)" by simp_all
    with take_ready_not[OF em] show ?thesis by (auto intro!: exI[of _ e])
  qed
qed

lemma backend_round_cases:
  assumes inv: "seg_inv s" and r: "backend_round conn i s = Inr (a, s')"
  shows "seg_inv s' \<and> retry_waiting s' = retry_waiting s \<and> (\<forall>r. src_queue r s' = src_queue r s) \<and>
    (case a of
       Finished (Some h) \<Rightarrow> \<exists>e. h = get_hash e \<and> \<not> in_retry s (entry_wfiid e) \<and>
         workflow_seg_map s' = workflow_seg_map (put_refs (entry_wfiid e) (grab_count (seg_refs (entry_wfiid e) s)) s)
     | _ \<Rightarrow> workflow_seg_map s' = workflow_seg_map s)"
proof -
  from r obtain aq where i: "find_segment i s = Some aq" by (auto simp: backend_round_def split: option.splits)
  show ?thesis
  proof (cases aq)
    case (AnyEvent q)
    with i r have r': "event_attempt conn i () s = Inr (a, s')" and i': "find_segment i s = Some (AnyEvent q)"
      by (simp_all add: backend_round_def)
    have "seg_inv s'" by (rule any_attempt_inv(1)[OF inv i' r'])
    with round_shape[OF r'[unfolded event_attempt_ok[OF inv i']]] show ?thesis by blast
  next
    case (AnyAsync q)
    with i r have r': "async_attempt conn i () s = Inr (a, s')" and i': "find_segment i s = Some (AnyAsync q)"
      by (simp_all add: backend_round_def)
    have "seg_inv s'" by (rule any_attempt_inv(2)[OF inv i' r'])
    with round_shape[OF r'[unfolded async_attempt_ok[OF inv i']]] show ?thesis by blast
  next
    case (AnySub q)
    with i r have r': "sub_attempt conn i () s = Inr (a, s')" and i': "find_segment i s = Some (AnySub q)"
      by (simp_all add: backend_round_def)
    have "seg_inv s'" by (rule any_attempt_inv(3)[OF inv i' r'])
    with round_shape[OF r'[unfolded sub_attempt_ok[OF inv i']]] show ?thesis by blast
  qed
qed

text \<open>What a round on the retry queues does.\<close>

lemma retry_values_of_attempt:
  assumes "retry_attempt api conn cn s = Inr (a, s')" "\<not> conn_stopped conn s" "conn \<notin> set (retry_conn_set s)"
  shows "\<exists>retry async. get_retry_values api (fst cn) conn = Inr (retry, async)"
  using assms by (cases "get_retry_values api (fst cn) conn") (auto simp: retry_attempt_def)

lemma retry_round_cases:
  assumes inv: "seg_inv s" and r: "retry_attempt api conn cn s = Inr (a, s')"
  shows "seg_inv s' \<and>
    (case a of
       Finished (Some h) \<Rightarrow> \<exists>e. h = retry_get_hash e \<and> seg_refs (re_wfiid e) s = None \<and>
         retry_waiting s' = retry_waiting s \<and> (\<forall>r. marker_set (src_queue r s') = marker_set (src_queue r s)) \<and>
         (\<forall>v. seg_refs v s' = (if v = re_wfiid e then Some (-1) else seg_refs v s))
     | Finished None \<Rightarrow> same_control s s'
     | Waiting v \<Rightarrow> workflow_seg_map s' = workflow_seg_map s \<and> retry_waiting s' = retry_waiting s + 1 \<and>
         (\<forall>r. \<forall>a\<in>set (marker_set (src_queue r s')). a \<in> set (marker_set (src_queue r s)) \<or>
            (\<exists>t. v = Wait_trigger r a t)))"
proof (cases "conn_stopped conn s \<or> conn \<in> set (retry_conn_set s)")
  case True
  with r inv show ?thesis
    by (auto simp: retry_attempt_def same_control_def split: if_splits)
next
  case False
  then have go: "\<not> conn_stopped conn s" "conn \<notin> set (retry_conn_set s)" by auto
  from retry_values_of_attempt[OF r go] obtain retry async where
    rv: "get_retry_values api (fst cn) conn = Inr (retry, async)" by blast
  obtain fi ri ari trig where se: "retry_search retry async s = (fi, ri, ari, trig)"
    by (metis prod_cases4)
  note ok = retry_attempt_ok[OF inv rv go se, of "snd cn"]
  show ?thesis
  proof (cases "trig = -1")
    case True
    with ok r inv show ?thesis by auto
  next
    case nt: False
    from ok[unfolded if_not_P[OF nt] prod.collapse] obtain rs x where x: "x \<in> set (rq_nodes (src_queue rs s))"
      "free_entry (seg_busy s) (src_queue rs s) (snd (snd x))" and
      at: "if trig = 0 \<or> trig \<le> snd cn then retry_attempt api conn cn s = take_retry rs x s
       else retry_attempt api conn cn s =
         Inr (Waiting (Wait_trigger rs (re_addr (snd (snd x))) ((trig - snd cn) * 1000)),
           (put_src rs (mark_entry (re_addr (snd (snd x))) (src_queue rs s)) s)
             \<lparr>retry_waiting := retry_waiting s + 1\<rparr>)" by blast
    show ?thesis
    proof (cases "trig = 0 \<or> trig \<le> snd cn")
      case True
      from take_retry_ok[OF inv x] obtain q where q: "take_retry rs x s =
          Inr (Finished (Some (retry_get_hash (snd (snd x)))), put_refs (re_wfiid (snd (snd x))) (-1) (put_src rs q s))"
        "seg_inv (put_refs (re_wfiid (snd (snd x))) (-1) (put_src rs q s))"
        "seg_refs (re_wfiid (snd (snd x))) s = None" "marker_set q = marker_set (src_queue rs s)" by blast
      with True at r have "a = Finished (Some (retry_get_hash (snd (snd x))))"
        "s' = put_refs (re_wfiid (snd (snd x))) (-1) (put_src rs q s)" by simp_all
      with q show ?thesis by (auto intro!: exI[of _ "snd (snd x)"])
    next
      case False
      with at r have "a = Waiting (Wait_trigger rs (re_addr (snd (snd x))) ((trig - snd cn) * 1000))"
        and s': "s' = (put_src rs (mark_entry (re_addr (snd (snd x))) (src_queue rs s)) s)
             \<lparr>retry_waiting := retry_waiting s + 1\<rparr>" by simp_all
      with put_src_inv[OF inv mark_inv[OF inv x(1)], of rs] show ?thesis
        by (auto simp: mark_entry_def set_insort_insert split: if_splits)
    qed
  qed
qed

section \<open>Preservation\<close>

lemma refs_agree_held: "refs_agree s held retrying \<Longrightarrow> held w > 0 \<Longrightarrow>
    seg_refs w s = Some (int (held w)) \<and> retrying w = 0"
proof -
  assume a: "refs_agree s held retrying" "held w > 0"
  then have "retrying w \<le> 1 \<and> (retrying w = 1 \<longrightarrow> held w = 0)" by (simp add: refs_agree_def)
  with a(2) have "retrying w = 0" by linarith
  with a show ?thesis by (simp add: refs_agree_def)
qed

lemma refs_agree_retrying: "refs_agree s held retrying \<Longrightarrow> retrying w > 0 \<Longrightarrow>
    seg_refs w s = Some (-1) \<and> retrying w = 1 \<and> held w = 0"
proof -
  assume a: "refs_agree s held retrying" "retrying w > 0"
  then have "retrying w \<le> 1 \<and> (retrying w = 1 \<longrightarrow> held w = 0)" by (simp add: refs_agree_def)
  with a(2) have "retrying w = 1" "held w = 0" by linarith+
  with a show ?thesis by (simp add: refs_agree_def)
qed

lemma refs_agree_free: "refs_agree s held retrying \<Longrightarrow> seg_refs w s = None \<Longrightarrow>
    retrying w = 0 \<and> held w = 0"
proof -
  assume a: "refs_agree s held retrying" "seg_refs w s = None"
  then have "(if retrying w > 0 then Some (-1) else if held w = 0 then None else Some (int (held w))) = None"
    by (simp add: refs_agree_def)
  then show ?thesis by (simp split: if_splits)
qed

lemma step_grab:
  assumes inv: "sys_inv z" and g: "grab_segment_inc w (ss_queue z) = Inr (b, s')"
  shows "b = in_retry (ss_queue z) w \<and> sys_inv (z\<lparr>ss_queue := s',
    ss_held := (if b then ss_held z else (ss_held z)(w := ss_held z w + 1))\<rparr>)"
proof -
  from inv have si: "seg_inv (ss_queue z)" and ra: "refs_agree (ss_queue z) (ss_held z) (ss_retrying z)"
    and ma: "marks_agree (ss_queue z) (ss_sleep z)" by (simp_all add: sys_inv_def)
  have w: "w \<noteq> 0" using g by (auto simp: grab_segment_inc_def)
  from grab_segment_inc_ok[OF si w] g have b: "b = in_retry (ss_queue z) w" and inv': "seg_inv s'" and
    s': "s' = (if in_retry (ss_queue z) w then ss_queue z
          else put_refs w (grab_count (seg_refs w (ss_queue z))) (ss_queue z))"
    by (auto simp: grab_count_def)
  have "refs_agree s' (if b then ss_held z else (ss_held z)(w := ss_held z w + 1)) (ss_retrying z)"
    using ra refs_agree_grab[OF ra] b s' by simp
  moreover have "marks_agree s' (ss_sleep z)"
    using ma marks_agree_cong[of s' "ss_queue z"] s' by simp
  ultimately show ?thesis using b inv' by (simp add: sys_inv_def)
qed

lemma step_backend:
  assumes inv: "sys_inv z" and r: "backend_round conn i (ss_queue z) = Inr (a, s')"
  shows "case a of Finished (Some h) \<Rightarrow> \<forall>w. event_wfiid h w \<longrightarrow>
      sys_inv (z\<lparr>ss_queue := s', ss_held := (ss_held z)(w := ss_held z w + 1)\<rparr>)
    | _ \<Rightarrow> sys_inv (z\<lparr>ss_queue := s'\<rparr>)"
proof -
  from inv have si: "seg_inv (ss_queue z)" and ra: "refs_agree (ss_queue z) (ss_held z) (ss_retrying z)"
    and ma: "marks_agree (ss_queue z) (ss_sleep z)" by (simp_all add: sys_inv_def)
  note c = backend_round_cases[OF si r]
  then have inv': "seg_inv s'" and ma': "marks_agree s' (ss_sleep z)"
    using ma marks_agree_cong[of s' "ss_queue z"] by simp_all
  show ?thesis
  proof (cases "\<exists>h. a = Finished (Some h)")
    case True
    then obtain h where a: "a = Finished (Some h)" by blast
    with c obtain e where e: "h = get_hash e" "\<not> in_retry (ss_queue z) (entry_wfiid e)"
      "workflow_seg_map s' = workflow_seg_map (put_refs (entry_wfiid e)
         (grab_count (seg_refs (entry_wfiid e) (ss_queue z))) (ss_queue z))" by auto
    show ?thesis
      using a refs_agree_grab[OF ra e(2)] inv' ma'
      by (auto simp: sys_inv_def e(1) get_hash_wfiid refs_agree_cong[OF e(3)])
  next
    case False
    with c have m: "workflow_seg_map s' = workflow_seg_map (ss_queue z)"
      by (cases a) (auto split: option.splits)
    have "sys_inv (z\<lparr>ss_queue := s'\<rparr>)"
      using inv' ma' ra refs_agree_cong[OF m] by (simp add: sys_inv_def)
    with False show ?thesis by (cases a) (auto split: option.splits)
  qed
qed

lemma step_retry:
  assumes inv: "sys_inv z" and r: "retry_attempt api conn cn (ss_queue z) = Inr (a, s')"
  shows "case a of Finished (Some h) \<Rightarrow> \<forall>w. event_wfiid h w \<longrightarrow>
      sys_inv (z\<lparr>ss_queue := s', ss_retrying := (ss_retrying z)(w := ss_retrying z w + 1)\<rparr>)
    | Finished None \<Rightarrow> sys_inv (z\<lparr>ss_queue := s'\<rparr>)
    | Waiting v \<Rightarrow> sys_inv (z\<lparr>ss_queue := s', ss_sleep := v # ss_sleep z\<rparr>)"
proof -
  from inv have si: "seg_inv (ss_queue z)" and ra: "refs_agree (ss_queue z) (ss_held z) (ss_retrying z)"
    and ma: "marks_agree (ss_queue z) (ss_sleep z)" by (simp_all add: sys_inv_def)
  note c = retry_round_cases[OF si r]
  then have inv': "seg_inv s'" by blast
  show ?thesis
  proof (cases a)
    case (Waiting v)
    with c have m: "workflow_seg_map s' = workflow_seg_map (ss_queue z)"
      and wt: "retry_waiting s' = retry_waiting (ss_queue z) + 1"
      and mk: "\<forall>r. \<forall>a\<in>set (marker_set (src_queue r s')). a \<in> set (marker_set (src_queue r (ss_queue z))) \<or>
            (\<exists>t. v = Wait_trigger r a t)" by simp_all
    have "marks_agree s' (v # ss_sleep z)"
      using ma wt mk unfolding marks_agree_def by (auto; metis)
    with Waiting inv' ra refs_agree_cong[OF m] show ?thesis by (simp add: sys_inv_def)
  next
    case (Finished o1)
    show ?thesis
    proof (cases o1)
      case None
      with Finished c have sc: "same_control (ss_queue z) s'" by simp
      with Finished None inv' agree_control[OF sc] ra ma show ?thesis by (simp add: sys_inv_def)
    next
      case (Some h)
      with Finished c obtain e where e: "h = retry_get_hash e" "seg_refs (re_wfiid e) (ss_queue z) = None"
        "retry_waiting s' = retry_waiting (ss_queue z)"
        "\<forall>r. marker_set (src_queue r s') = marker_set (src_queue r (ss_queue z))"
        "\<forall>v. seg_refs v s' = (if v = re_wfiid e then Some (-1) else seg_refs v (ss_queue z))" by auto
      from refs_agree_free[OF ra e(2)] have free: "ss_retrying z (re_wfiid e) = 0" "ss_held z (re_wfiid e) = 0"
        by simp_all
      have "refs_agree s' (ss_held z) ((ss_retrying z)(re_wfiid e := ss_retrying z (re_wfiid e) + 1))"
        using ra free e(5) by (auto simp: refs_agree_def)
      moreover have "marks_agree s' (ss_sleep z)"
        using ma marks_agree_cong[of s' "ss_queue z"] e(3,4) by simp
      ultimately show ?thesis
        using Finished Some inv' by (auto simp: sys_inv_def e(1) retry_hash_wfiid)
    qed
  qed
qed

lemma step_release:
  assumes inv: "sys_inv z" and h: "ss_held z w > 0"
  shows "\<exists>s'. release_segment w (ss_queue z) = Inr s' \<and>
    sys_inv (z\<lparr>ss_queue := s', ss_held := (ss_held z)(w := ss_held z w - 1)\<rparr>)"
proof -
  from inv have si: "seg_inv (ss_queue z)" and ra: "refs_agree (ss_queue z) (ss_held z) (ss_retrying z)"
    and ma: "marks_agree (ss_queue z) (ss_sleep z)" by (simp_all add: sys_inv_def)
  from refs_agree_held[OF ra h] have n: "seg_refs w (ss_queue z) = Some (int (ss_held z w))"
    "ss_retrying z w = 0" by blast+
  from release_segment_ok[OF si n(1)] h obtain s' where s': "release_segment w (ss_queue z) = Inr s'"
    "seg_inv s'" "retry_waiting s' = retry_waiting (ss_queue z)"
    "\<forall>v. seg_refs v s' = (if v = w then if int (ss_held z w) = 1 then None else Some (int (ss_held z w) - 1)
        else seg_refs v (ss_queue z))" "\<forall>r. src_queue r s' = src_queue r (ss_queue z)" by auto
  have "refs_agree s' ((ss_held z)(w := ss_held z w - 1)) (ss_retrying z)"
    using ra s'(4) n h by (auto simp: refs_agree_def of_nat_diff)
  moreover have "marks_agree s' (ss_sleep z)"
    using ma marks_agree_cong[of s' "ss_queue z"] s'(3,5) by simp
  ultimately show ?thesis using s'(1,2) by (simp add: sys_inv_def)
qed

lemma step_release_retry:
  assumes inv: "sys_inv z" and h: "ss_retrying z w > 0"
  shows "\<exists>s'. release_retry_segment w (ss_queue z) = Inr s' \<and>
    sys_inv (z\<lparr>ss_queue := s', ss_retrying := (ss_retrying z)(w := ss_retrying z w - 1)\<rparr>)"
proof -
  from inv have si: "seg_inv (ss_queue z)" and ra: "refs_agree (ss_queue z) (ss_held z) (ss_retrying z)"
    and ma: "marks_agree (ss_queue z) (ss_sleep z)" by (simp_all add: sys_inv_def)
  from refs_agree_retrying[OF ra h] have n: "seg_refs w (ss_queue z) = Some (-1)"
    "ss_retrying z w = 1" "ss_held z w = 0" by blast+
  from release_retry_segment_ok[OF si n(1)] obtain s' where s': "release_retry_segment w (ss_queue z) = Inr s'"
    "seg_inv s'" "retry_waiting s' = retry_waiting (ss_queue z)"
    "\<forall>v. seg_refs v s' = (if v = w then None else seg_refs v (ss_queue z))"
    "\<forall>r. src_queue r s' = src_queue r (ss_queue z)" by blast
  have "refs_agree s' (ss_held z) ((ss_retrying z)(w := ss_retrying z w - 1))"
    using ra s'(4) n by (auto simp: refs_agree_def)
  moreover have "marks_agree s' (ss_sleep z)"
    using ma marks_agree_cong[of s' "ss_queue z"] s'(3,5) by simp
  ultimately show ?thesis using s'(1,2) by (simp add: sys_inv_def)
qed

lemma step_wake:
  assumes inv: "sys_inv z" and v: "v \<in> set (ss_sleep z)"
  shows "sys_inv (z\<lparr>ss_queue := retry_resume v (ss_queue z), ss_sleep := remove1 v (ss_sleep z)\<rparr>)"
proof -
  from inv have si: "seg_inv (ss_queue z)" and ra: "refs_agree (ss_queue z) (ss_held z) (ss_retrying z)"
    and ma: "marks_agree (ss_queue z) (ss_sleep z)" by (simp_all add: sys_inv_def)
  let ?s' = "retry_resume v (ss_queue z)"
  have m: "workflow_seg_map ?s' = workflow_seg_map (ss_queue z)"
    and wt: "retry_waiting ?s' = retry_waiting (ss_queue z) - 1"
    by (cases v; simp add: retry_resume_def Let_def)+
  have dist: "distinct (marker_set (src_queue r (ss_queue z)))" for r
    using retry_inv_src[OF seg_inv_parts(2)[OF si], of r] by (simp add: retry_inv_def markers_ok_def)
  have mk: "a \<in> set (marker_set (src_queue r (ss_queue z))) \<and> (\<forall>t. v \<noteq> Wait_trigger r a t)"
    if "a \<in> set (marker_set (src_queue r ?s'))" for r a
  proof (cases v)
    case Wait_data
    with that show ?thesis by (simp add: retry_resume_def Let_def)
  next
    case (Wait_trigger rs b t)
    with that dist show ?thesis
      by (auto simp: retry_resume_def Let_def unmark_entry_def split: if_splits)
  qed
  obtain n where n: "length (ss_sleep z) = Suc n" using v by (cases "ss_sleep z") auto
  then have "retry_waiting ?s' = int (length (remove1 v (ss_sleep z)))"
    using ma wt v by (simp add: marks_agree_def length_remove1)
  moreover have "\<exists>t. Wait_trigger r a t \<in> set (remove1 v (ss_sleep z))"
    if a: "a \<in> set (marker_set (src_queue r ?s'))" for r a
  proof -
    from mk[OF a] ma obtain t where "Wait_trigger r a t \<in> set (ss_sleep z)" "v \<noteq> Wait_trigger r a t"
      unfolding marks_agree_def by blast
    then have "Wait_trigger r a t \<in> set (remove1 v (ss_sleep z))" by (metis in_set_remove1)
    then show ?thesis by blast
  qed
  ultimately have "marks_agree ?s' (remove1 v (ss_sleep z))" unfolding marks_agree_def by blast
  with retry_resume_inv[OF si, of v] ra refs_agree_cong[OF m] show ?thesis by (simp add: sys_inv_def)
qed

lemma quiet_step_inv:
  assumes "quiet_step z z'" "sys_inv z"
  shows "sys_inv z'"
  using assms
proof (cases rule: quiet_step.cases)
  case (update s')
  from assms(2) seg_update_inv[OF update(2)] agree_control[of "ss_queue z" s'] update(1) show ?thesis
    by (simp add: sys_inv_def)
next
  case (grab w s')
  with step_grab[OF assms(2) grab(2)] show ?thesis by simp
next
  case (grab_refused w s')
  with step_grab[OF assms(2) grab_refused(2)] show ?thesis by simp
next
  case (no_event conn i s')
  with step_backend[OF assms(2) no_event(2)] show ?thesis by simp
next
  case (wait_event conn i u s')
  with step_backend[OF assms(2) wait_event(2)] show ?thesis by simp
next
  case (release w s')
  with step_release[OF assms(2) release(2)] show ?thesis by auto
next
  case (take_retry api conn cn h s' w)
  with step_retry[OF assms(2) take_retry(2)] show ?thesis by simp
next
  case (no_retry api conn cn s')
  with step_retry[OF assms(2) no_retry(2)] show ?thesis by simp
next
  case (sleep_retry api conn cn v s')
  with step_retry[OF assms(2) sleep_retry(2)] show ?thesis by simp
next
  case (wake_retry v)
  with step_wake[OF assms(2)] show ?thesis by simp
next
  case (release_retry w s')
  with step_release_retry[OF assms(2) release_retry(2)] show ?thesis by auto
qed

lemma seg_step_inv:
  assumes "seg_step z z'" "sys_inv z"
  shows "sys_inv z'"
  using assms
proof (cases rule: seg_step.cases)
  case quiet
  from quiet_step_inv[OF this assms(2)] show ?thesis .
next
  case (feed ws s')
  from assms(2) have "seg_inv (ss_queue z)" by (simp add: sys_inv_def)
  from seg_feed_inv[OF feed(2) this] agree_control[of "ss_queue z" s'] assms(2) show ?thesis
    by (simp add: sys_inv_def feed(1))
next
  case (take_event conn i h s' w)
  with step_backend[OF assms(2) take_event(2)] show ?thesis by simp
qed

lemma reachable_inv: "reachable z \<Longrightarrow> sys_inv z"
  by (induction rule: reachable.induct) (auto intro: sys_inv_init seg_step_inv)

end
