(* ===== verification/Segment_Properties.thy ===== *)
theory Segment_Properties
  imports Segment_Threads Backend_Merge Primary_Properties
begin

text \<open>
  What \<^verbatim>\<open>SegmentEventQueue\<close> does for its callers: queueing and delivery of back end
  events, merging, the retry queues, and the exclusion of retries and other segments of a workflow
  instance in every reachable state.
\<close>

section \<open>A round on a back end queue\<close>

lemma bq_shape_map:
  assumes "bq_shape q"
  shows "om_ok (bq_map q)" "\<forall>x\<in>set (bq_map q). sorted (mm_keys (snd x))"
    "distinct (mm_ids (map_nodes (bq_map q)))"
  using assms unfolding bq_shape_def bq_nodes_def by blast+

lemma any_map_ok:
  assumes "any_inv aq"
  shows "om_ok (any_map aq) \<and> (\<forall>x\<in>set (any_map aq). sorted (mm_keys (snd x))) \<and>
    distinct (mm_ids (map_nodes (any_map aq)))"
proof (cases aq)
  case (AnyEvent q)
  with assms have "bq_shape q" by (simp add: event_inv_def bq_indexed_def)
  with bq_shape_map[OF this] AnyEvent show ?thesis by simp
next
  case (AnyAsync q)
  with assms have "bq_shape q" by (simp add: async_inv_def bq_indexed_def)
  with bq_shape_map[OF this] AnyAsync show ?thesis by simp
next
  case (AnySub q)
  with assms have "bq_shape q" by (simp add: sub_inv_def bq_indexed_def)
  with bq_shape_map[OF this] AnySub show ?thesis by simp
qed

fun any_drop :: "backend_entry \<Rightarrow> (int, backend_entry nodes) omap \<Rightarrow> any_queue \<Rightarrow> any_queue" where
  "any_drop e m (AnyEvent q) = AnyEvent (event_drop e (q\<lparr>bq_map := m\<rparr>))"
| "any_drop e m (AnyAsync q) = AnyAsync (async_drop e (q\<lparr>bq_map := m\<rparr>))"
| "any_drop e m (AnySub q) = AnySub (sub_drop e (q\<lparr>bq_map := m\<rparr>))"

fun any_wait_begin :: "any_queue \<Rightarrow> any_queue" where
  "any_wait_begin (AnyEvent q) = AnyEvent (bq_wait_begin q)"
| "any_wait_begin (AnyAsync q) = AnyAsync (bq_wait_begin q)"
| "any_wait_begin (AnySub q) = AnySub (bq_wait_begin q)"

lemma backend_round_eq:
  assumes inv: "seg_inv s" and i: "find_segment i s = Some aq"
  shows "backend_round conn i s =
    (if conn_stopped conn s then Inr (Finished None, s)
     else case take_ready (in_retry s) (any_map aq) of
       None \<Rightarrow> Inr (Waiting (), put_segment i (any_wait_begin aq) s)
     | Some (e, m) \<Rightarrow> Inr (Finished (Some (get_hash e)), put_segment i (any_drop e m aq)
         (put_refs (entry_wfiid e) (grab_count (seg_refs (entry_wfiid e) s)) s)))"
proof (cases aq)
  case (AnyEvent q)
  from event_attempt_ok[OF inv i[unfolded AnyEvent], of conn "()"] i show ?thesis
    unfolding AnyEvent by (simp add: backend_round_def cong: option.case_cong)
next
  case (AnyAsync q)
  from async_attempt_ok[OF inv i[unfolded AnyAsync], of conn "()"] i show ?thesis
    unfolding AnyAsync by (simp add: backend_round_def cong: option.case_cong)
next
  case (AnySub q)
  from sub_attempt_ok[OF inv i[unfolded AnySub], of conn "()"] i show ?thesis
    unfolding AnySub by (simp add: backend_round_def cong: option.case_cong)
qed

lemma backend_round_take:
  assumes "seg_inv s" "find_segment i s = Some aq" "backend_round conn i s = Inr (Finished (Some h), s')"
  obtains e m where "take_ready (in_retry s) (any_map aq) = Some (e, m)" "h = get_hash e"
    "s' = put_segment i (any_drop e m aq) (put_refs (entry_wfiid e) (grab_count (seg_refs (entry_wfiid e) s)) s)"
proof -
  from assms(3)[unfolded backend_round_eq[OF assms(1,2)]] obtain em where
    "take_ready (in_retry s) (any_map aq) = Some em" by (auto split: if_splits option.splits)
  moreover obtain e m where "em = (e, m)" by (cases em)
  ultimately show ?thesis
    using that[of e m] assms(3)[unfolded backend_round_eq[OF assms(1,2)]] by (auto split: if_splits)
qed

text \<open>
  A state for the examples: segment 5 has an event of workflow 1 with priority 500 and one of
  workflow 2 with priority 10.
\<close>

definition two_queue :: event_queue where
  "two_queue = \<lparr>bq_map =
       [(10, [(1, 200, EventQueueEntry \<lparr>be_wfiid = 2, be_prio = 10, be_pi = ParentInfo\<rparr> [3])]),
        (500, [(0, 100, EventQueueEntry \<lparr>be_wfiid = 1, be_prio = 500, be_pi = ParentInfo\<rparr> [4])])],
     bq_next = 2, bq_waiting = 0, bq_cond = [], ev_wfmap = [1 \<mapsto> 0, 2 \<mapsto> 1]\<rparr>"

definition two_events :: seg_queue where
  "two_events = put_segment 5 (AnyEvent two_queue) new_SegmentEventQueue"

lemma two_queue_added:
  "rbind (add_event 100 1 4 500 ParentInfo new_EventQueue) (add_event 200 2 3 10 ParentInfo) = Inr two_queue"
  by (simp add: add_event_def new_EventQueue_def two_queue_def bq_insert_def prio_nodes_def bq_signal_def)

lemma two_events_laws:
  "event_inv two_queue" "seg_inv two_events" "find_segment 5 two_events = Some (AnyEvent two_queue)"
  "\<not> conn_stopped c two_events"
proof -
  from two_queue_added obtain q where q: "add_event 100 1 4 500 ParentInfo new_EventQueue = Inr q"
    "add_event 200 2 3 10 ParentInfo q = Inr two_queue" by auto
  show inv: "event_inv two_queue"
    using add_event_done[OF conjunct1[OF add_event_done[OF new_queues_inv(1) q(1)]] q(2)] by blast
  show "seg_inv two_events" unfolding two_events_def by (rule put_segment_inv[OF seg_inv_new]) (simp add: inv)
  show "find_segment 5 two_events = Some (AnyEvent two_queue)" by (simp add: two_events_def)
  show "\<not> conn_stopped c two_events"
    by (simp add: two_events_def conn_stopped_def put_segment_def new_SegmentEventQueue_def)
qed

definition one_async :: async_queue where
  "one_async = \<lparr>bq_map = [(500, [(0, 100, AsyncQueueEntry \<lparr>be_wfiid = 1, be_prio = 500, be_pi = ParentInfo\<rparr>
       [(4, \<lparr>queuekey = ''k'', async_data = QInt 6, corrected = False\<rparr>)])])],
     bq_next = 1, bq_waiting = 0, bq_cond = [], as_wfmap = [1 \<mapsto> 0]\<rparr>"

definition one_sub :: sub_queue where
  "one_sub = \<lparr>bq_map = [(500, [(0, 100, SubWorkflowQueueEntry \<lparr>be_wfiid = 1, be_prio = 500, be_pi = ParentInfo\<rparr>
       [4] (CHR ''C'') 77)])],
     bq_next = 1, bq_waiting = 0, bq_cond = [], c_wfmap = [1 \<mapsto> 0], e_wfmap = Map.empty\<rparr>"

definition one_each :: seg_queue where
  "one_each = put_segment 7 (AnySub one_sub) (put_segment 6 (AnyAsync one_async) new_SegmentEventQueue)"

lemma one_each_laws:
  "async_inv one_async" "sub_inv one_sub" "seg_inv one_each"
  "find_segment 6 one_each = Some (AnyAsync one_async)" "find_segment 7 one_each = Some (AnySub one_sub)"
  "\<not> conn_stopped c one_each" "\<not> in_retry one_each w"
proof -
  have a: "add_async_event 100 1 4 500 False ParentInfo ''k'' (QInt 6) new_AsyncQueue = Inr one_async"
    by (simp add: add_async_event_def new_AsyncQueue_def one_async_def bq_insert_def prio_nodes_def bq_signal_def)
  have c: "add_subworkflow_event 100 1 4 500 ParentInfo (CHR ''C'') 77 new_SubWorkflowQueue = Inr one_sub"
    by (simp add: add_subworkflow_event_def new_SubWorkflowQueue_def one_sub_def bq_insert_def prio_nodes_def
      bq_signal_def sub_wfmap_def set_sub_wfmap_def)
  show ai: "async_inv one_async" using add_async_done[OF new_queues_inv(2) a] by blast
  show si: "sub_inv one_sub" using add_sub_done[OF new_queues_inv(3) c] by blast
  show "seg_inv one_each" unfolding one_each_def using ai si
    by (intro put_segment_inv seg_inv_new) simp_all
  show "find_segment 6 one_each = Some (AnyAsync one_async)" "find_segment 7 one_each = Some (AnySub one_sub)"
    by (simp_all add: one_each_def)
  show "\<not> conn_stopped c one_each" "\<not> in_retry one_each w"
    by (simp_all add: one_each_def conn_stopped_def in_retry_def seg_refs_def put_segment_def new_SegmentEventQueue_def)
qed

section \<open>Properties\<close>

text \<open>
  C4.  The order of back end events: the event delivered to a segment is the first, by
  priority and then by time, among those whose workflow instance is not being retried; the number of
  segments in progress for its workflow instance grows by one.
\<close>

theorem backend_event_first:
  assumes "seg_inv s" and "find_segment i s = Some aq"
    and "backend_round conn i s = Inr (Finished (Some h), s')"
  shows "\<exists>d e. (d, e) \<in> set (bq_schedule (any_map aq)) \<and> h = get_hash e \<and> \<not> in_retry s (entry_wfiid e) \<and>
    (\<forall>(d', e')\<in>set (bq_schedule (any_map aq)). \<not> in_retry s (entry_wfiid e') \<longrightarrow> due_le d d') \<and>
    seg_refs (entry_wfiid e) s' = Some (grab_count (seg_refs (entry_wfiid e) s)) \<and> seg_inv s'"
proof -
  obtain e m where em: "take_ready (in_retry s) (any_map aq) = Some (e, m)" "h = get_hash e"
    "s' = put_segment i (any_drop e m aq) (put_refs (entry_wfiid e) (grab_count (seg_refs (entry_wfiid e) s)) s)"
    using backend_round_take[OF assms] .
  from any_map_ok[OF find_segment_inv[OF assms(1,2)]] take_ready_first[OF em(1)] obtain d where
    d: "(d, e) \<in> set (bq_schedule (any_map aq))" "\<not> in_retry s (entry_wfiid e)"
    "\<forall>(d', e')\<in>set (bq_schedule (any_map aq)). \<not> in_retry s (entry_wfiid e') \<longrightarrow> due_le d d'" by blast
  have "seg_refs (entry_wfiid e) s' = Some (grab_count (seg_refs (entry_wfiid e) s))"
    using em(3) by (simp add: seg_refs_def put_refs_def put_segment_def)
  moreover have "seg_inv s'" using backend_round_cases[OF assms(1,3)] by blast
  ultimately show ?thesis using d em(2) by blast
qed

theorem backend_event_first_witness:
  "\<exists>s'. backend_round 1 5 two_events = Inr (Finished (Some
      (get_hash (EventQueueEntry \<lparr>be_wfiid = 2, be_prio = 10, be_pi = ParentInfo\<rparr> [3]))), s') \<and>
    seg_refs 2 s' = Some 1 \<and> seg_inv s'"
proof -
  let ?e = "EventQueueEntry \<lparr>be_wfiid = 2, be_prio = 10, be_pi = ParentInfo\<rparr> [3]"
  have no_refs: "seg_refs w two_events = None" for w
    by (simp add: two_events_def seg_refs_def put_segment_def new_SegmentEventQueue_def)
  obtain s' where s': "backend_round 1 5 two_events = Inr (Finished (Some (get_hash ?e)), s')"
    using no_refs two_events_laws(4)[of 1]
    by (simp add: backend_round_eq[OF two_events_laws(2,3)] two_queue_def in_retry_def)
  from backend_event_first[OF two_events_laws(2,3) s'] obtain e where
    "get_hash ?e = get_hash e" "seg_refs (entry_wfiid e) s' = Some (grab_count (seg_refs (entry_wfiid e) two_events))"
    "seg_inv s'" by blast
  moreover from this(1) have "entry_wfiid e = 2"
    using get_hash_wfiid[of ?e "entry_wfiid e"] get_hash_wfiid[of e "entry_wfiid e"] by simp
  ultimately show ?thesis using s' no_refs by (auto simp: grab_count_def)
qed

text \<open>
  A thread waits for a back end event only when its connection is not stopped and every
  event that is queued for the segment belongs to a workflow instance that is being retried.
\<close>

theorem backend_waits_only_for_retries:
  assumes "seg_inv s" and "find_segment i s = Some aq"
    and "backend_round conn i s = Inr (Waiting u, s')"
  shows "\<not> conn_stopped conn s \<and> (\<forall>x\<in>set (bq_schedule (any_map aq)). in_retry s (entry_wfiid (snd x)))"
proof -
  from assms(3)[unfolded backend_round_eq[OF assms(1,2)]] have
    n: "\<not> conn_stopped conn s" "take_ready (in_retry s) (any_map aq) = None"
    by (auto split: if_splits option.splits)
  have "\<forall>x\<in>set (bq_schedule m). in_retry s (entry_wfiid (snd x))" if "take_ready (in_retry s) m = None" for m
    using that
  proof (induction m)
    case Nil
    then show ?case by (simp add: bq_schedule_def)
  next
    case (Cons x m)
    then have "find (\<lambda>n. \<not> in_retry s (entry_wfiid (snd (snd n)))) (snd x) = None" "take_ready (in_retry s) m = None"
      by (auto simp: Let_def split: option.splits)
    with Cons.IH show ?case by (fastforce simp: bq_schedule_def find_None_iff)
  qed
  with n show ?thesis by blast
qed

theorem backend_waits_only_for_retries_witness:
  "\<exists>s'. backend_round 1 5 (put_refs 1 (-1) (put_refs 2 (-1) two_events)) = Inr (Waiting (), s') \<and>
    in_retry (put_refs 1 (-1) (put_refs 2 (-1) two_events)) 1 \<and>
    \<not> conn_stopped 1 (put_refs 1 (-1) (put_refs 2 (-1) two_events))"
proof -
  let ?s = "put_refs 1 (-1) (put_refs 2 (-1) two_events)"
  have inv: "seg_inv ?s" by (intro put_refs_inv two_events_laws(2)) auto
  have i: "find_segment 5 ?s = Some (AnyEvent two_queue)" using two_events_laws(3) by simp
  have go: "\<not> conn_stopped 1 ?s"
    using two_events_laws(4)[of 1] by (simp add: conn_stopped_def put_refs_def)
  obtain s' where s': "backend_round 1 5 ?s = Inr (Waiting (), s')"
    unfolding backend_round_eq[OF inv i] using go by (simp add: two_queue_def in_retry_def)
  have "(((500, 100), EventQueueEntry \<lparr>be_wfiid = 1, be_prio = 500, be_pi = ParentInfo\<rparr> [4]))
      \<in> set (bq_schedule (any_map (AnyEvent two_queue)))"
    by (simp add: bq_schedule_def two_queue_def)
  with backend_waits_only_for_retries[OF inv i s'] have "in_retry ?s 1" "\<not> conn_stopped 1 ?s" by fastforce+
  with s' show ?thesis by blast
qed

text \<open>
  C12.  Workflow events: the steps queued for a workflow instance are delivered in one event,
  which lists every queued step index once and in order; nothing else changes in the queue.
\<close>

theorem workflow_event_complete:
  assumes "seg_inv s" and "find_segment i s = Some (AnyEvent q)"
    and "event_attempt conn i u s = Inr (Finished (Some h), s')"
  shows "\<exists>w is q'. event_wfiid h w \<and> hash_get ''ind'' h = QList (map QInt is) \<and> sorted is \<and> distinct is \<and>
    event_content q w = Some (set is) \<and> find_segment i s' = Some (AnyEvent q') \<and>
    event_content q' = (event_content q)(w := None)"
proof -
  have inv: "event_inv q" using find_segment_inv[OF assms(1,2)] by simp
  from assms(3)[unfolded event_attempt_ok[OF assms(1,2)]] obtain e m where
    em: "take_ready (in_retry s) (bq_map q) = Some (e, m)" "h = get_hash e"
    "find_segment i s' = Some (AnyEvent (event_drop e (q\<lparr>bq_map := m\<rparr>)))"
    by (auto split: if_splits option.splits)
  note content = evs.take_content[OF inv em(1), of event_inds]
  from evs.take_inv[OF inv em(1)] obtain b "is" where e: "e = EventQueueEntry b is" "sorted is" "distinct is"
    by (cases e) auto
  have "event_wfiid h (entry_wfiid e)" by (simp add: em(2) get_hash_wfiid)
  moreover have "hash_get ''ind'' h = QList (map QInt is)" by (simp add: em(2) e(1))
  moreover have "event_inds e = set is" by (simp add: e(1))
  ultimately show ?thesis using content e(2,3) em(3) by metis
qed

theorem workflow_event_complete_witness:
  "\<exists>h s' w is q'. event_attempt 1 5 () two_events = Inr (Finished (Some h), s') \<and> event_wfiid h w \<and>
    hash_get ''ind'' h = QList (map QInt is) \<and> event_content two_queue w = Some (set is) \<and>
    find_segment 5 s' = Some (AnyEvent q') \<and> event_content q' = (event_content two_queue)(w := None)"
proof -
  obtain h s' where hs: "event_attempt 1 5 () two_events = Inr (Finished (Some h), s')"
    unfolding event_attempt_ok[OF two_events_laws(2,3)] using two_events_laws(4)[of 1]
    by (simp add: two_queue_def in_retry_def seg_refs_def two_events_def put_segment_def new_SegmentEventQueue_def)
  from workflow_event_complete[OF two_events_laws(2,3) hs] hs show ?thesis by blast
qed

text \<open>
  C13.  Asynchronous events: all messages queued for a workflow instance are delivered in one
  event, as parallel lists of their step indices, queue keys, data and correction flags, one per step
  index.
\<close>

theorem async_event_complete:
  assumes "seg_inv s" and "find_segment i s = Some (AnyAsync q)"
    and "async_attempt conn i u s = Inr (Finished (Some h), s')"
  shows "\<exists>w m q'. event_wfiid h w \<and> distinct (map fst m) \<and> async_content q w = Some (map_of m) \<and>
    hash_get ''ind'' h = QList (map (\<lambda>x. QInt (fst x)) m) \<and>
    hash_get ''queuekey'' h = QList (map (\<lambda>x. QString (queuekey (snd x))) m) \<and>
    hash_get ''data'' h = QList (map (\<lambda>x. async_data (snd x)) m) \<and>
    hash_get ''corrected'' h = QList (map (\<lambda>x. QBool (corrected (snd x))) m) \<and>
    find_segment i s' = Some (AnyAsync q') \<and> async_content q' = (async_content q)(w := None)"
proof -
  have inv: "async_inv q" using find_segment_inv[OF assms(1,2)] by simp
  from assms(3)[unfolded async_attempt_ok[OF assms(1,2)]] obtain e m where
    em: "take_ready (in_retry s) (bq_map q) = Some (e, m)" "h = get_hash e"
    "find_segment i s' = Some (AnyAsync (async_drop e (q\<lparr>bq_map := m\<rparr>)))"
    by (auto split: if_splits option.splits)
  note content = ass.take_content[OF inv em(1), of async_msgs]
  from ass.take_inv[OF inv em(1)] obtain b ms where e: "e = AsyncQueueEntry b ms" "om_ok ms"
    by (cases e) auto
  have "event_wfiid h (entry_wfiid e)" by (simp add: em(2) get_hash_wfiid)
  moreover have "hash_get ''ind'' h = QList (map (\<lambda>x. QInt (fst x)) ms)"
    "hash_get ''queuekey'' h = QList (map (\<lambda>x. QString (queuekey (snd x))) ms)"
    "hash_get ''data'' h = QList (map (\<lambda>x. async_data (snd x)) ms)"
    "hash_get ''corrected'' h = QList (map (\<lambda>x. QBool (corrected (snd x))) ms)"
    by (simp_all add: em(2) e(1))
  moreover have "async_msgs e = map_of ms" "distinct (map fst ms)" using e(2) by (simp_all add: e(1) om_ok_def)
  ultimately show ?thesis using content em(3)
    by (intro exI[of _ "entry_wfiid e"] exI[of _ ms] exI[of _ "async_drop e (q\<lparr>bq_map := m\<rparr>)"]) simp
qed

theorem async_event_complete_witness:
  "\<exists>h s' w m. async_attempt 1 6 () one_each = Inr (Finished (Some h), s') \<and> event_wfiid h w \<and>
    async_content one_async w = Some (map_of m) \<and> hash_get ''ind'' h = QList (map (\<lambda>x. QInt (fst x)) m)"
proof -
  obtain h s' where hs: "async_attempt 1 6 () one_each = Inr (Finished (Some h), s')"
    unfolding async_attempt_ok[OF one_each_laws(3,4)] using one_each_laws(6,7)
    by (simp add: one_async_def)
  from async_event_complete[OF one_each_laws(3,4) hs] hs show ?thesis by blast
qed

text \<open>
  C14.  Subworkflow events: completed and failed subworkflows of a workflow instance are kept
  apart; the event delivered lists exactly the step indices queued with its status and removes only
  those.
\<close>

theorem subworkflow_event_complete:
  assumes "seg_inv s" and "find_segment i s = Some (AnySub q)"
    and "sub_attempt conn i u s = Inr (Finished (Some h), s')"
  shows "\<exists>w st is q'. event_wfiid h w \<and> (st = CHR ''C'' \<or> st = CHR ''E'') \<and> hash_get ''status'' h = QString [st] \<and>
    hash_get ''ind'' h = QList (map QInt is) \<and> sorted is \<and> distinct is \<and>
    sub_content q (w, st = CHR ''C'') = Some (set is) \<and> find_segment i s' = Some (AnySub q') \<and>
    sub_content q' = (sub_content q)((w, st = CHR ''C'') := None)"
proof -
  have inv: "sub_inv q" using find_segment_inv[OF assms(1,2)] by simp
  from assms(3)[unfolded sub_attempt_ok[OF assms(1,2)]] obtain e m where
    em: "take_ready (in_retry s) (bq_map q) = Some (e, m)" "h = get_hash e"
    "find_segment i s' = Some (AnySub (sub_drop e (q\<lparr>bq_map := m\<rparr>)))"
    by (auto split: if_splits option.splits)
  note content = sws.take_content[OF inv em(1), of event_inds]
  from sws.take_inv[OF inv em(1)] obtain b "is" st sw where e: "e = SubWorkflowQueueEntry b is st sw"
    "sorted is" "distinct is" "st = CHR ''C'' \<or> st = CHR ''E''"
    by (cases e) auto
  have "event_wfiid h (entry_wfiid e)" by (simp add: em(2) get_hash_wfiid)
  moreover have "hash_get ''ind'' h = QList (map QInt is)" "hash_get ''status'' h = QString [st]"
    by (simp_all add: em(2) e(1))
  moreover have "sub_key e = (entry_wfiid e, st = CHR ''C'')" "event_inds e = set is"
    by (simp_all add: e(1) sub_key_def)
  ultimately show ?thesis using content e(2-4) em(3) by metis
qed

theorem subworkflow_event_complete_witness:
  "\<exists>h s' w st is. sub_attempt 1 7 () one_each = Inr (Finished (Some h), s') \<and> event_wfiid h w \<and>
    hash_get ''status'' h = QString [st] \<and> sub_content one_sub (w, st = CHR ''C'') = Some (set is) \<and>
    hash_get ''ind'' h = QList (map QInt is)"
proof -
  obtain h s' where hs: "sub_attempt 1 7 () one_each = Inr (Finished (Some h), s')"
    unfolding sub_attempt_ok[OF one_each_laws(3,5)] using one_each_laws(6,7)
    by (simp add: one_sub_def)
  from subworkflow_event_complete[OF one_each_laws(3,5) hs] hs show ?thesis by blast
qed

text \<open>
  Queueing a workflow event: the step index joins those already queued for the
  workflow instance, in the one entry it has, and every other workflow instance keeps its steps.
\<close>

theorem workflow_event_queued:
  assumes "seg_inv s" and "find_segment i s = Some (AnyEvent q)" and "w \<noteq> 0"
  shows "\<exists>q' s'. queue_workflow_event api now i w ind prio ph s = Inr s' \<and> seg_inv s' \<and>
    find_segment i s' = Some (AnyEvent q') \<and>
    event_content q' = (event_content q)
      (w \<mapsto> insert ind (case event_content q w of None \<Rightarrow> {} | Some s \<Rightarrow> s))"
  using queue_workflow_event_ok[OF assms, of api now ind prio ph] by auto

theorem workflow_event_queued_witness:
  "\<exists>q' s'. queue_workflow_event plain_api 300 5 2 9 10 None two_events = Inr s' \<and> seg_inv s' \<and>
    find_segment 5 s' = Some (AnyEvent q') \<and> event_content q' 2 = Some {3, 9} \<and> event_content q' 1 = Some {4}"
proof -
  have c: "event_content two_queue 2 = Some {3}" "event_content two_queue 1 = Some {4}"
    by (simp_all add: bq_content_def bq_entries_def bq_nodes_def two_queue_def)
  from workflow_event_queued[OF two_events_laws(2,3), of 2 plain_api 300 9 10 None] show ?thesis
    by (auto simp: c insert_commute)
qed

text \<open>
  Queueing an asynchronous event: the message of a step index is stored with its
  queue key and data; a second message for the same workflow instance and step index is dropped.
\<close>

theorem async_event_queued:
  assumes "seg_inv s" and "find_segment i s = Some (AnyAsync q)" and "w \<noteq> 0"
  shows "\<exists>q' s'. queue_async_event api now i w ind prio c k d ph s = Inr s' \<and> seg_inv s' \<and>
    find_segment i s' = Some (AnyAsync q') \<and>
    async_content q' = (async_content q)
      (w \<mapsto> async_upd ind \<lparr>queuekey = k, async_data = d, corrected = c\<rparr> (async_content q w))"
  using queue_async_event_ok[OF assms, of api now ind prio c k d ph] by auto

theorem async_event_queued_witness:
  "\<exists>q' s' m. queue_async_event plain_api 300 6 1 4 500 True ''other'' QNothing None one_each = Inr s' \<and>
    seg_inv s' \<and> find_segment 6 s' = Some (AnyAsync q') \<and> async_content q' 1 = Some m \<and>
    m 4 = Some \<lparr>queuekey = ''k'', async_data = QInt 6, corrected = False\<rparr>"
proof -
  have c: "async_content one_async 1 = Some [4 \<mapsto> \<lparr>queuekey = ''k'', async_data = QInt 6, corrected = False\<rparr>]"
    by (simp add: bq_content_def bq_entries_def bq_nodes_def one_async_def)
  from async_event_queued[OF one_each_laws(3,4), of 1 plain_api 300 4 500 True "''other''" QNothing None]
  show ?thesis by (auto simp: c async_upd_def)
qed

text \<open>
  C23.  Merging two queues of workflow events that hold different workflow instances gives
  one queue with the steps of both, with its index intact, and leaves the other queue empty.
\<close>

theorem merged_events_union:
  assumes "event_inv q" "event_inv bq" "dom (event_content q) \<inter> dom (event_content bq) = {}"
  shows "\<exists>q' bq'. event_merge q bq = Inr (q', bq') \<and> event_inv q' \<and> event_inv bq' \<and>
    event_content q' = event_content q ++ event_content bq \<and> event_content bq' = Map.empty"
  using event_merge_ok[OF assms] .

theorem merged_events_union_witness:
  "\<exists>q' bq'. event_merge new_EventQueue two_queue = Inr (q', bq') \<and> event_inv q' \<and>
    event_content q' 1 = Some {4} \<and> event_content q' 2 = Some {3} \<and> event_content bq' = Map.empty"
proof -
  have e: "event_content new_EventQueue = Map.empty"
    by (simp add: bq_content_def bq_entries_def bq_nodes_def new_EventQueue_def)
  have c: "event_content two_queue 2 = Some {3}" "event_content two_queue 1 = Some {4}"
    by (simp_all add: bq_content_def bq_entries_def bq_nodes_def two_queue_def)
  have "dom (event_content new_EventQueue) \<inter> dom (event_content two_queue) = {}" by (simp add: e)
  from merged_events_union[OF new_queues_inv(1) two_events_laws(1) this] show ?thesis
    by (auto simp: e c)
qed

lemma merged_nodes:
  "set (rq_nodes (foldl (\<lambda>q x. retry_insert (fst (snd x)) (snd (snd x)) q) q xs)) \<supseteq> set (rq_nodes q) \<and>
   (\<forall>x\<in>set xs. \<exists>n. (n, snd x) \<in> set (rq_nodes (foldl (\<lambda>q x. retry_insert (fst (snd x)) (snd (snd x)) q) q xs))) \<and>
   rwmap (foldl (\<lambda>q x. retry_insert (fst (snd x)) (snd (snd x)) q) q xs) = rwmap q"
proof (induction xs arbitrary: q)
  case Nil
  then show ?case by simp
next
  case (Cons x xs)
  let ?q = "retry_insert (fst (snd x)) (snd (snd x)) q"
  have "set (rq_nodes ?q) \<supseteq> set (rq_nodes q)" "(rq_next q, snd x) \<in> set (rq_nodes ?q)" "rwmap ?q = rwmap q"
    by (auto simp: retry_insert_def)
  with Cons.IH[of ?q] show ?case by (simp; blast)
qed

text \<open>
  Merging retry queues: the entries are moved, but not their look-up index; an entry that
  came with a merge, of a workflow instance that had none here, is an assertion failure as soon as it
  is taken.
\<close>

theorem merged_retry_not_indexed:
  assumes "retry_inv rq" and "retry_content rq w = Some e" and "rwmap q w = None"
  shows "\<exists>n. (n, re_mod e, e) \<in> set (rq_nodes (fst (retry_merge q rq))) \<and>
    get_event (n, re_mod e, e) (fst (retry_merge q rq)) = Inl Assertion_failed \<and>
    rq_nodes (snd (retry_merge q rq)) = []"
proof -
  have core: "retry_core rq" using assms(1) by (simp add: retry_inv_def)
  from assms(2) retry_content_Some[OF core] obtain n t where n: "(n, t, e) \<in> set (rq_nodes rq)" "re_wfiid e = w"
    by blast
  with retry_core_parts(2)[OF core n(1)] have "(n, re_mod e, e) \<in> set (rq_nodes rq)" by simp
  with merged_nodes[of q "rq_nodes rq"] obtain k where
    "(k, re_mod e, e) \<in> set (rq_nodes (fst (retry_merge q rq)))"
    "rwmap (fst (retry_merge q rq)) = rwmap q" by (fastforce simp: retry_merge_def)
  with assms(3) n(2) show ?thesis
    by (intro exI[of _ k]) (simp add: get_event_def Let_def retry_merge_def)
qed

definition one_retry :: retry_queue where
  "one_retry = \<lparr>rq_nodes = [(0, 20, \<lparr>re_addr = 1, re_wfiid = 7, re_mod = 20, re_pi = ParentInfo\<rparr>)],
     rwmap = [7 \<mapsto> 0], marker_set = [], rq_next = 1\<rparr>"

lemma one_retry_laws:
  "retry_inv one_retry" "retry_content one_retry 7 = Some \<lparr>re_addr = 1, re_wfiid = 7, re_mod = 20, re_pi = ParentInfo\<rparr>"
proof -
  have "retry_add 1 7 20 ParentInfo new_RetryQueue = Inr (0, one_retry)"
    by (simp add: retry_add_def retry_insert_def new_RetryQueue_def one_retry_def)
  moreover have "1 \<notin> live_addr new_RetryQueue" by (simp add: live_addr_def new_RetryQueue_def)
  ultimately show "retry_inv one_retry" using retry_add_inv[OF retry_inv_new] by blast
  show "retry_content one_retry 7 = Some \<lparr>re_addr = 1, re_wfiid = 7, re_mod = 20, re_pi = ParentInfo\<rparr>"
    by (simp add: retry_content_def one_retry_def)
qed

theorem merged_retry_not_indexed_witness:
  "\<exists>n. get_event (n, 20, \<lparr>re_addr = 1, re_wfiid = 7, re_mod = 20, re_pi = ParentInfo\<rparr>)
      (fst (retry_merge new_RetryQueue one_retry)) = Inl Assertion_failed"
proof -
  have "rwmap new_RetryQueue 7 = None" by (simp add: new_RetryQueue_def)
  from merged_retry_not_indexed[OF one_retry_laws this] show ?thesis by auto
qed

text \<open>
  C38.  Changing the priority of an order and removing it when it is no longer in the primary
  queue: the back end queues are searched for nodes whose key, a modification time, is the workflow
  instance identifier.  Unless an event happens to have that time, the events of the order keep their
  priority and stay queued.
\<close>

theorem backend_entries_missed:
  assumes "pmap (sq_primary s) w = None" "psmap (sq_primary s) w = None"
    and "\<forall>x\<in>set (backend_queue_map s). \<forall>n\<in>set (map_nodes (any_map (snd x))). fst (snd n) \<noteq> w"
  shows "reprioritize w prio now s = Inr (False, s) \<and> removeWorkflowOrder w prio s = Inr s"
proof -
  have p: "primary_reprioritize w prio now (sq_primary s) = Inr (False, sq_primary s)"
    "primary_removeWorkflowOrder w (sq_primary s) = Inr (False, sq_primary s)"
    using assms(1,2) by (simp_all add: primary_reprioritize_def primary_removeWorkflowOrder_def)
  have r: "any_reprioritize w prio (snd x) = (False, snd x)" "any_erase_key w p (snd x) = snd x"
    if "x \<in> set (backend_queue_map s)" for x p
    using any_missed assms(3) that by blast+
  have "map (\<lambda>x. (fst x, snd (any_reprioritize w prio (snd x)))) (backend_queue_map s) = backend_queue_map s"
    "map (\<lambda>x. (fst x, any_erase_key w (to_int32 prio) (snd x))) (backend_queue_map s) = backend_queue_map s"
    by (rule map_idI, simp add: r)+
  with r(1) show ?thesis by (auto simp: reprioritize_def removeWorkflowOrder_def p Let_def)
qed

theorem backend_entries_missed_witness:
  "reprioritize 2 1 300 two_events = Inr (False, two_events) \<and> removeWorkflowOrder 2 10 two_events = Inr two_events \<and>
    event_content two_queue 2 = Some {3}"
proof -
  have "pmap (sq_primary two_events) 2 = None" "psmap (sq_primary two_events) 2 = None"
    by (simp_all add: two_events_def new_SegmentEventQueue_def new_PrimaryQueue_def)
  moreover have "\<forall>x\<in>set (backend_queue_map two_events). \<forall>n\<in>set (map_nodes (any_map (snd x))). fst (snd n) \<noteq> 2"
    by (simp add: two_events_def put_segment_def new_SegmentEventQueue_def two_queue_def)
  moreover have "event_content two_queue 2 = Some {3}"
    by (simp add: bq_content_def bq_entries_def bq_nodes_def two_queue_def)
  ultimately show ?thesis
    using backend_entries_missed[of two_events 2 1 300] backend_entries_missed[of two_events 2 10 300] by blast
qed

end
