(* ===== verification/Retry_Properties.thy ===== *)
theory Retry_Properties
  imports Segment_Properties
begin

text \<open>
  The retry queues of \<^verbatim>\<open>SegmentEventQueue\<close>: what is queued, which retry is taken and
  when, how long a thread sleeps, and where the retry delays come from.
\<close>

section \<open>A state for the examples\<close>

text \<open>Workflow 7 is in the fixed retry queue with the trigger time 20.\<close>

definition retry_state :: seg_queue where
  "retry_state = put_src Fixed_src one_retry new_SegmentEventQueue"

definition plain_config :: retry_config where
  "plain_config = \<lparr>wp_member = (\<lambda>k. if k = ''retry'' then QInt 300 else QNothing), opts_member = QNothing\<rparr>"

lemma retry_state_laws:
  "seg_inv retry_state" "src_queue Fixed_src retry_state = one_retry"
  "src_queue Retry_src retry_state = new_RetryQueue" "src_queue Async_src retry_state = new_RetryQueue"
  "seg_refs w retry_state = None" "\<not> conn_stopped c retry_state" "retry_conn_set retry_state = []"
  unfolding retry_state_def
  by (simp_all add: put_src_inv seg_inv_new one_retry_laws)
    (simp_all add: src_queue_def new_SegmentEventQueue_def seg_refs_def conn_stopped_def)

lemma retry_state_free:
  "free_entry (seg_busy retry_state) (src_queue r retry_state) e \<longleftrightarrow>
     r = Fixed_src \<and> e = \<lparr>re_addr = 1, re_wfiid = 7, re_mod = 20, re_pi = ParentInfo\<rparr>"
proof -
  have "free_entry b new_RetryQueue e \<longleftrightarrow> False" for b
    by (simp add: free_entry_def retry_content_def new_RetryQueue_def)
  moreover have "free_entry (seg_busy retry_state) one_retry e \<longleftrightarrow>
      e = \<lparr>re_addr = 1, re_wfiid = 7, re_mod = 20, re_pi = ParentInfo\<rparr>"
    by (auto simp: free_entry_def retry_content_def one_retry_def seg_busy_def retry_state_laws(5) split: if_splits)
  ultimately show ?thesis by (cases r) (simp_all add: retry_state_laws)
qed

lemma retry_state_values: "get_retry_values plain_api plain_config c = Inr (300, 0)"
  by (simp add: get_retry_values_def plain_config_def set_delay_def delay_option_def getOptionBigInt_def plain_api_def)

section \<open>Properties\<close>

text \<open>
  C22.  Queueing a retry: a workflow instance has at most one entry in a retry queue, with
  the earliest of the times it was queued with; the other queues are untouched.
\<close>

theorem retry_queued_earliest:
  assumes "seg_inv s" and "w \<noteq> 0" and "addr \<notin> live_addr (src_queue r s)"
  shows "\<exists>s'. queue_retry_in (src_queue r) (put_src r) api addr w d ph s = Inr s' \<and> seg_inv s' \<and>
    retry_content (src_queue r s') = (retry_content (src_queue r s))
      (w \<mapsto> retry_upd addr w d (opt_parent_info api ph) (retry_content (src_queue r s) w)) \<and>
    (\<forall>r'. r' \<noteq> r \<longrightarrow> retry_content (src_queue r' s') = retry_content (src_queue r' s))"
  using queue_retry_ok[OF assms, of api d ph] by blast

theorem retry_queued_earliest_witness:
  "\<exists>s' e. queue_retry_event_fixed plain_api 2 7 15 None retry_state = Inr s' \<and> seg_inv s' \<and>
    retry_content (src_queue Fixed_src s') 7 = Some e \<and> re_mod e = 15 \<and> re_addr e = 1"
proof -
  have "2 \<notin> live_addr (src_queue Fixed_src retry_state)"
    by (simp add: retry_state_laws live_addr_def one_retry_def)
  from retry_queued_earliest[OF retry_state_laws(1) _ this, of 7 plain_api 15 None] show ?thesis
    by (auto simp: queue_retry_event_fixed_def src_queue_eq put_src_eq one_retry_laws retry_upd_def
      retry_state_laws(2)[unfolded src_queue_eq])
qed

text \<open>
  C8.  Which retry is taken: an entry whose workflow instance is not in progress and on
  which no thread sleeps, whose trigger time has come and is the earliest of all such entries in the
  three queues; it leaves its queue and its workflow instance is marked as being retried.  The hypothesis
  excludes a trigger time of -1, which the code uses to say that there is no entry.
\<close>

theorem retry_taken_earliest:
  assumes "seg_inv s" and "get_retry_values api c conn = Inr (retry, async)"
    and "no_sentinel retry async s"
    and "retry_attempt api conn (c, now) s = Inr (Finished (Some h), s')"
  shows "\<exists>r e. h = retry_get_hash e \<and> free_entry (seg_busy s) (src_queue r s) e \<and>
    (trigger_time retry async r e = 0 \<or> trigger_time retry async r e \<le> now) \<and>
    (\<forall>r' e'. free_entry (seg_busy s) (src_queue r' s) e' \<longrightarrow>
      trigger_time retry async r e \<le> trigger_time retry async r' e') \<and>
    retry_content (src_queue r s') = (retry_content (src_queue r s))(re_wfiid e := None) \<and>
    seg_refs (re_wfiid e) s' = Some (-1) \<and> seg_inv s'"
proof -
  have go: "\<not> conn_stopped conn s" "conn \<notin> set (retry_conn_set s)"
    using assms(4) by (auto simp: retry_attempt_def split: if_splits)
  obtain fi ri ari trig where se: "retry_search retry async s = (fi, ri, ari, trig)"
    by (metis prod_cases4)
  note ok = retry_attempt_ok[OF assms(1,2) go se, of now]
  have nt: "trig \<noteq> -1" using ok assms(4) by auto
  from ok[unfolded if_not_P[OF nt]] obtain r x where x: "x \<in> set (rq_nodes (src_queue r s))"
    "free_entry (seg_busy s) (src_queue r s) (snd (snd x))"
    "trigger_time retry async r (snd (snd x)) = trig" and
    at: "if trig = 0 \<or> trig \<le> now then retry_attempt api conn (c, now) s = take_retry r x s
       else retry_attempt api conn (c, now) s =
         Inr (Waiting (Wait_trigger r (re_addr (snd (snd x))) ((trig - now) * 1000)),
           (put_src r (mark_entry (re_addr (snd (snd x))) (src_queue r s)) s)
             \<lparr>retry_waiting := retry_waiting s + 1\<rparr>)" by blast
  have due: "trig = 0 \<or> trig \<le> now" using at assms(4) by (auto split: if_splits)
  from take_retry_ok[OF assms(1) x(1,2)] obtain q where q: "take_retry r x s =
      Inr (Finished (Some (retry_get_hash (snd (snd x)))), put_refs (re_wfiid (snd (snd x))) (-1) (put_src r q s))"
    "seg_inv (put_refs (re_wfiid (snd (snd x))) (-1) (put_src r q s))"
    "retry_content q = (retry_content (src_queue r s))(re_wfiid (snd (snd x)) := None)" by blast
  with due at assms(4) have "h = retry_get_hash (snd (snd x))"
    "s' = put_refs (re_wfiid (snd (snd x))) (-1) (put_src r q s)" by auto
  moreover have "trig \<le> trigger_time retry async r' e'" if "free_entry (seg_busy s) (src_queue r' s) e'" for r' e'
    using retry_search_earliest[OF assms(1) se assms(3) that] by blast
  ultimately show ?thesis using x(2,3) due q(2,3)
    by (intro exI[of _ r] exI[of _ "snd (snd x)"]) auto
qed

theorem retry_taken_earliest_witness:
  "\<exists>s'. retry_attempt plain_api 1 (plain_config, 25) retry_state
      = Inr (Finished (Some [(''workflow_instanceid'', QInt 7)]), s') \<and>
    seg_refs 7 s' = Some (-1) \<and> seg_inv s'"
proof -
  have ns: "no_sentinel 300 0 retry_state"
    unfolding no_sentinel_def retry_state_free by (simp add: trigger_time_def)
  obtain s' where s': "retry_attempt plain_api 1 (plain_config, 25) retry_state
      = Inr (Finished (Some [(''workflow_instanceid'', QInt 7)]), s')"
    using retry_state_laws(6)[of 1] retry_state_laws(5)
    by (simp add: retry_attempt_def retry_state_values retry_state_laws(7) retry_search_def first_free_def
      seg_busy_def later_search_cases retry_choice_def take_retry_def get_event_def mark_in_progress_def
      retry_state_laws(2-4)[unfolded src_queue_eq] retry_state_laws(2) one_retry_def new_RetryQueue_def
      retry_get_hash_def doHash_def ParentInfo_def)
  from retry_taken_earliest[OF retry_state_laws(1) retry_state_values ns s'] obtain r e where
    "free_entry (seg_busy retry_state) (src_queue r retry_state) e" "seg_refs (re_wfiid e) s' = Some (-1)"
    "seg_inv s'" by blast
  with s' show ?thesis unfolding retry_state_free by auto
qed

text \<open>
  C17.  How long a thread sleeps: it waits without a time-out only when there is no entry that
  it could take; otherwise it marks an entry and sleeps until exactly the earliest trigger time of all entries it
  could take.
\<close>

theorem retry_sleep_until_earliest:
  assumes "seg_inv s" and "get_retry_values api c conn = Inr (retry, async)"
    and "no_sentinel retry async s"
    and "retry_attempt api conn (c, now) s = Inr (Waiting v, s')"
  shows "(case v of
      Wait_data \<Rightarrow> \<forall>r e. \<not> free_entry (seg_busy s) (src_queue r s) e
    | Wait_trigger r a ms \<Rightarrow> \<exists>e. free_entry (seg_busy s) (src_queue r s) e \<and> a = re_addr e \<and>
        ms = (trigger_time retry async r e - now) * 1000 \<and> now < trigger_time retry async r e \<and>
        a \<in> set (marker_set (src_queue r s')) \<and>
        (\<forall>r' e'. free_entry (seg_busy s) (src_queue r' s) e' \<longrightarrow>
          trigger_time retry async r e \<le> trigger_time retry async r' e')) \<and>
    retry_waiting s' = retry_waiting s + 1 \<and> seg_inv s'"
proof -
  have go: "\<not> conn_stopped conn s" "conn \<notin> set (retry_conn_set s)"
    using assms(4) by (auto simp: retry_attempt_def split: if_splits)
  obtain fi ri ari trig where se: "retry_search retry async s = (fi, ri, ari, trig)"
    by (metis prod_cases4)
  note ok = retry_attempt_ok[OF assms(1,2) go se, of now]
  have inv': "seg_inv s'" using retry_attempt_defined[OF assms(1,2), of now] assms(4) by auto
  have early: "trig \<noteq> -1 \<and> trig \<le> trigger_time retry async r' e'" if "free_entry (seg_busy s) (src_queue r' s) e'" for r' e'
    using retry_search_earliest[OF assms(1) se assms(3) that] by blast
  show ?thesis
  proof (cases "trig = -1")
    case True
    with ok assms(4) have "v = Wait_data" "s' = s\<lparr>retry_waiting := retry_waiting s + 1\<rparr>" by auto
    with early True inv' show ?thesis by auto
  next
    case nt: False
    from ok[unfolded if_not_P[OF nt]] obtain r x where x: "x \<in> set (rq_nodes (src_queue r s))"
      "free_entry (seg_busy s) (src_queue r s) (snd (snd x))"
      "trigger_time retry async r (snd (snd x)) = trig" and
      at: "if trig = 0 \<or> trig \<le> now then retry_attempt api conn (c, now) s = take_retry r x s
         else retry_attempt api conn (c, now) s =
           Inr (Waiting (Wait_trigger r (re_addr (snd (snd x))) ((trig - now) * 1000)),
             (put_src r (mark_entry (re_addr (snd (snd x))) (src_queue r s)) s)
               \<lparr>retry_waiting := retry_waiting s + 1\<rparr>)" by blast
    from take_retry_ok[OF assms(1) x(1,2)] obtain q where "take_retry r x s =
      Inr (Finished (Some (retry_get_hash (snd (snd x)))), put_refs (re_wfiid (snd (snd x))) (-1) (put_src r q s))"
      by blast
    with at assms(4) have late: "\<not> (trig = 0 \<or> trig \<le> now)" by auto
    with at assms(4) have v: "v = Wait_trigger r (re_addr (snd (snd x))) ((trig - now) * 1000)"
      "s' = (put_src r (mark_entry (re_addr (snd (snd x))) (src_queue r s)) s)\<lparr>retry_waiting := retry_waiting s + 1\<rparr>"
      by auto
    have "re_addr (snd (snd x)) \<in> set (marker_set (src_queue r s'))"
      by (simp add: v(2) mark_entry_def set_insort_insert)
    moreover have "retry_waiting s' = retry_waiting s + 1" by (simp add: v(2))
    moreover have "now < trig" using late by simp
    ultimately show ?thesis using x(2,3) early inv' unfolding v(1)
      by (auto intro!: exI[of _ "snd (snd x)"])
  qed
qed

theorem retry_sleep_until_earliest_witness:
  "\<exists>s'. retry_attempt plain_api 1 (plain_config, 5) retry_state = Inr (Waiting (Wait_trigger Fixed_src 1 15000), s') \<and>
    1 \<in> set (marker_set (src_queue Fixed_src s')) \<and> seg_inv s'"
proof -
  have ns: "no_sentinel 300 0 retry_state"
    unfolding no_sentinel_def retry_state_free by (simp add: trigger_time_def)
  obtain s' where s': "retry_attempt plain_api 1 (plain_config, 5) retry_state
      = Inr (Waiting (Wait_trigger Fixed_src 1 15000), s')"
    using retry_state_laws(6)[of 1] retry_state_laws(5)
    by (simp add: retry_attempt_def retry_state_values retry_state_laws(7) retry_search_def first_free_def
      seg_busy_def later_search_cases retry_choice_def
      retry_state_laws(2-4)[unfolded src_queue_eq] retry_state_laws(2) one_retry_def new_RetryQueue_def)
  from retry_sleep_until_earliest[OF retry_state_laws(1) retry_state_values ns s'] s' show ?thesis by auto
qed

text \<open>
  Removing a workflow instance takes its entry out of the three retry queues and only
  that, and wakes the threads that sleep on retries.
\<close>

theorem retries_removed:
  assumes "seg_inv s"
  shows "\<exists>s'. remove_workflow_instance w s = Inr s' \<and> seg_inv s' \<and>
    (\<forall>r. retry_content (src_queue r s') = (retry_content (src_queue r s))(w := None) \<and>
      marker_set (src_queue r s') = []) \<and>
    retry_cond s' = retry_cond s @ (if retry_waiting s = 0 then [] else [Broadcast])"
proof -
  from remove_workflow_instance_ok[OF assms, of w] obtain s' where s':
    "remove_workflow_instance w s = Inr s'" "seg_inv s'"
    "\<forall>r. retry_content (src_queue r s') = (retry_content (src_queue r s))(w := None)" by blast
  then obtain r a f where "s' = requeue_retries (s\<lparr>sq_retry := r, sq_async_retry := a, sq_fixed_retry := f\<rparr>)"
    by (auto simp: remove_workflow_instance_def)
  then have "marker_set (src_queue r s') = []"
    "retry_cond s' = retry_cond s @ (if retry_waiting s = 0 then [] else [Broadcast])" for r
    by simp (simp add: \<open>s' = _\<close> requeue_retries_def retry_broadcast_def)
  with s' show ?thesis by blast
qed

theorem retries_removed_witness:
  "\<exists>s'. remove_workflow_instance 7 retry_state = Inr s' \<and> seg_inv s' \<and>
    retry_content (src_queue Fixed_src s') 7 = None"
  using retries_removed[OF retry_state_laws(1), of 7] by fastforce

text \<open>The delay that the configuration gives, with its precedence.\<close>

definition delay_of :: "qore_api \<Rightarrow> retry_config \<Rightarrow> int \<Rightarrow> string \<Rightarrow> string \<Rightarrow> int" where
  "delay_of api c conn key opt =
     (let inst = (case wp_member c (dec conn) of QHash h \<Rightarrow> getAsBigInt api (hash_get key h) | _ \<Rightarrow> 0);
          wf = getAsBigInt api (wp_member c key)
      in if inst > 0 then inst else if wf > 0 then wf
         else (case opts_member c of QHash h \<Rightarrow> getAsBigInt api (hash_get opt h) | _ \<Rightarrow> 0))"

text \<open>
  The retry delays: for each of the two delays the value set for the execution instance
  comes first, then the one of the workflow type, then the system option, where only positive values
  count in the first two.
\<close>

theorem retry_delays_precedence:
  assumes "opts_member c = QNothing \<or> (\<exists>h. opts_member c = QHash h)"
  shows "get_retry_values api c conn =
    Inr (delay_of api c conn ''retry'' ''recover_delay'', delay_of api c conn ''async'' ''async_delay'')"
proof -
  have opt: "getOptionBigInt api c o' = Inr (case opts_member c of QHash h \<Rightarrow> getAsBigInt api (hash_get o' h) | _ \<Rightarrow> 0)"
    for o' using assms by (auto simp: getOptionBigInt_def)
  show ?thesis
    by (cases "wp_member c (dec conn)")
      (simp_all add: get_retry_values_def delay_of_def Let_def set_delay_def delay_option_def opt)
qed

theorem retry_delays_precedence_witness:
  "get_retry_values plain_api \<lparr>wp_member = (\<lambda>k. if k = ''1'' then QHash [(''retry'', QInt 60)]
       else if k = ''async'' then QInt 120 else QInt 5), opts_member = QNothing\<rparr> 1 = Inr (60, 120)"
proof -
  have "dec 1 = ''1''" by code_simp
  with retry_delays_precedence[of "\<lparr>wp_member = (\<lambda>k. if k = ''1'' then QHash [(''retry'', QInt 60)]
       else if k = ''async'' then QInt 120 else QInt 5), opts_member = QNothing\<rparr>" plain_api 1]
  show ?thesis by (simp add: delay_of_def plain_api_def)
qed

end
