(* ===== verification/Lost_Wakeups.thy ===== *)
theory Lost_Wakeups
  imports Segment_Threads Retry_Properties
begin

text \<open>
  The condition variables of the primary queue and of the retry queues.  In contrast to the back end queues
  wake-ups can be lost there.
\<close>

section \<open>Scheduled orders\<close>

text \<open>
  An order that is scheduled notifies only if no order is ready.  While a thread that was woken for a ready
  order has not entered the critical section yet, other threads can be asleep without a time-out.
\<close>

definition asleep_for_orders :: "int \<Rightarrow> notify list \<Rightarrow> seg_queue" where
  "asleep_for_orders n ns = new_SegmentEventQueue\<lparr>sq_primary := new_PrimaryQueue\<lparr>pq_waiting := n, pq_cond := ns\<rparr>\<rparr>"

definition order_of :: "int \<Rightarrow> primary_event" where
  "order_of w = \<lparr>pe_wfiid = w, pe_prio = 500, pe_pi = ParentInfo\<rparr>"

text \<open>One order ready, one scheduled, and what is left of them when the first was taken.\<close>

definition ready_order :: "int \<Rightarrow> seg_queue \<Rightarrow> seg_queue" where
  "ready_order w s = s\<lparr>sq_primary := (sq_primary s)\<lparr>pq := [(500, [(Some 0, order_of w)])], pmap := [w \<mapsto> 0],
     pq_next := 1\<rparr>\<rparr>"

definition later_order :: "int \<Rightarrow> int \<Rightarrow> seg_queue \<Rightarrow> seg_queue" where
  "later_order v t s = s\<lparr>sq_primary := (sq_primary s)\<lparr>psq := [(1, t, order_of v)], psmap := [v \<mapsto> 1],
     pq_next := 2\<rparr>\<rparr>"

lemma asleep_steps:
  "primary_attempt conn now new_SegmentEventQueue = Inr (Waiting None, asleep_for_orders 1 [])"
  "primary_attempt conn now (asleep_for_orders 1 []) = Inr (Waiting None, asleep_for_orders 2 [])"
  by (simp_all add: asleep_for_orders_def primary_attempt_def conn_stopped_def new_SegmentEventQueue_def new_PrimaryQueue_def
    checkEvent_def activate_def primary_wait_begin_def)

lemma order_queued:
  "w \<noteq> 0 \<Longrightarrow> queue_primary_event api now w 500 None None (asleep_for_orders 2 []) =
     Inr (ready_order w (asleep_for_orders 2 [Signal]))"
  by (simp add: queue_primary_event_def primary_add_def opt_parent_info_def addToPrimary_def asleep_for_orders_def
    ready_order_def order_of_def new_SegmentEventQueue_def new_PrimaryQueue_def prio_deque_def dq_push_def dq_forget_def
    pq_signal_def)

lemma order_scheduled:
  "v \<noteq> 0 \<Longrightarrow> v \<noteq> w \<Longrightarrow> now < t \<Longrightarrow>
     queue_primary_event api now v 500 None (Some t) (ready_order w (asleep_for_orders 2 [Signal])) =
     Inr (later_order v t (ready_order w (asleep_for_orders 2 [Signal])))"
  by (simp add: queue_primary_event_def primary_add_def opt_parent_info_def addToScheduled_def asleep_for_orders_def
    ready_order_def later_order_def order_of_def new_SegmentEventQueue_def new_PrimaryQueue_def)

lemma order_taken:
  "now < t \<Longrightarrow> \<exists>s'. primary_attempt conn now (primary_resume None (later_order v t (ready_order w (asleep_for_orders 2 [Signal])))) =
     Inr (Finished (Some (primary_get_hash (order_of w))), s') \<and>
     sq_primary s' = sq_primary (later_order v t (asleep_for_orders 1 [Signal]))\<lparr>pmap := Map.empty\<rparr> \<and> \<not> conn_stopped c s'"
  by (simp add: primary_attempt_def primary_resume_def primary_wait_end_def conn_stopped_def later_order_def ready_order_def
    asleep_for_orders_def new_SegmentEventQueue_def new_PrimaryQueue_def checkEvent_def activate_def getEvent_def order_of_def fun_upd_def fun_eq_iff)

text \<open>
  C40.  A lost wake-up of the primary queue: with two threads asleep, an order that is ready wakes
  one of them; if another order is scheduled before that thread enters the critical section, no notification is
  sent for it, so that the second thread goes on sleeping without a time-out.  When the trigger time has
  come the only notification there was has been used, and the order is there for the thread that sleeps.
\<close>

theorem schedule_wakeup_lost:
  assumes "w \<noteq> 0" and "v \<noteq> 0" and "v \<noteq> w" and "now < t"
  shows "\<exists>s1 s2 s3 s4 s5 s6.
     primary_attempt 1 now new_SegmentEventQueue = Inr (Waiting None, s1) \<and>
     primary_attempt 2 now s1 = Inr (Waiting None, s2) \<and>
     queue_primary_event api now w 500 None None s2 = Inr s3 \<and> pq_cond (sq_primary s3) = [Signal] \<and>
     queue_primary_event api now v 500 None (Some t) s3 = Inr s4 \<and>
     primary_attempt 1 now (primary_resume None s4) = Inr (Finished (Some (primary_get_hash (order_of w))), s5) \<and>
     pq_cond (sq_primary s5) = [Signal] \<and> pq_waiting (sq_primary s5) = 1 \<and>
     primary_attempt 2 t (primary_resume None s5) = Inr (Finished (Some (primary_get_hash (order_of v))), s6)"
proof -
  from order_taken[OF assms(4), of 1 v w 2] obtain s5 where
    s5: "primary_attempt 1 now (primary_resume None (later_order v t (ready_order w (asleep_for_orders 2 [Signal])))) =
      Inr (Finished (Some (primary_get_hash (order_of w))), s5)"
    "sq_primary s5 = sq_primary (later_order v t (asleep_for_orders 1 [Signal]))\<lparr>pmap := Map.empty\<rparr>"
    "\<not> conn_stopped 2 s5" by blast
  have "\<exists>s6. primary_attempt 2 t (primary_resume None s5) = Inr (Finished (Some (primary_get_hash (order_of v))), s6)"
    using s5(2,3) by (simp add: primary_attempt_def primary_resume_def primary_wait_end_def conn_stopped_def later_order_def
      asleep_for_orders_def new_SegmentEventQueue_def new_PrimaryQueue_def checkEvent_def activate_def addToPrimary_def
      prio_deque_def dq_push_def dq_forget_def getEvent_def order_of_def)
  moreover have "pq_cond (sq_primary s5) = [Signal]" "pq_waiting (sq_primary s5) = 1"
    "pq_cond (sq_primary (ready_order w (asleep_for_orders 2 [Signal]))) = [Signal]"
    using s5(2) by (simp_all add: later_order_def ready_order_def asleep_for_orders_def new_PrimaryQueue_def)
  ultimately show ?thesis
    using asleep_steps order_queued[OF assms(1)] order_scheduled[OF assms(2-4)] s5(1) by blast
qed

theorem schedule_wakeup_lost_witness:
  "\<exists>s5 s6. pq_waiting (sq_primary s5) = 1 \<and> pq_cond (sq_primary s5) = [Signal] \<and>
     primary_attempt 2 200 (primary_resume None s5) = Inr (Finished (Some [(''workflow_instanceid'', QInt 8)]), s6)"
proof -
  have "primary_get_hash (order_of 8) = [(''workflow_instanceid'', QInt 8)]"
    by (simp add: primary_get_hash_def order_of_def doHash_def ParentInfo_def)
  with schedule_wakeup_lost[of 7 8 100 200 plain_api] show ?thesis by auto
qed

section \<open>Retries\<close>

text \<open>
  The end of a retry makes other retries of its workflow instance free, but notifies no thread that sleeps for
  retries.
\<close>

text \<open>
  Workflow 7 is queued to be retried at 310 and, for an asynchronous step, at 20.  At 1000 a thread takes the
  second, another one finds nothing that it could take and falls asleep, and the first releases the retry.
\<close>

definition one_entry :: "nat \<Rightarrow> int \<Rightarrow> retry_queue" where
  "one_entry a t = \<lparr>rq_nodes = [(0, t, \<lparr>re_addr = a, re_wfiid = 7, re_mod = t, re_pi = ParentInfo\<rparr>)],
     rwmap = [7 \<mapsto> 0], marker_set = [], rq_next = 1\<rparr>"

definition two_retries :: seg_queue where
  "two_retries = new_SegmentEventQueue\<lparr>sq_retry := one_entry 1 10, sq_async_retry := one_entry 2 20\<rparr>"

definition retry_taken :: seg_queue where
  "retry_taken = put_refs 7 (-1) (two_retries\<lparr>sq_async_retry := \<lparr>rq_nodes = [], rwmap = Map.empty, marker_set = [], rq_next = 1\<rparr>\<rparr>)"

lemma queue_two:
  "queue_retry_in (src_queue Retry_src) (put_src Retry_src) plain_api 1 7 10 None new_SegmentEventQueue =
     Inr (new_SegmentEventQueue\<lparr>sq_retry := one_entry 1 10\<rparr>)"
  "queue_retry_in (src_queue Async_src) (put_src Async_src) plain_api 2 7 20 None
     (new_SegmentEventQueue\<lparr>sq_retry := one_entry 1 10\<rparr>) = Inr two_retries"
  by (simp_all add: queue_retry_in_def retry_add_def src_queue_def put_src_def put_retry_def put_async_retry_def
    new_SegmentEventQueue_def new_RetryQueue_def retry_insert_def requeue_retries_def retry_broadcast_def
    clear_markers_def one_entry_def opt_parent_info_def two_retries_def)

lemma fresh_addresses:
  "1 \<notin> live_addr (src_queue Retry_src new_SegmentEventQueue)"
  "2 \<notin> live_addr (src_queue Async_src (new_SegmentEventQueue\<lparr>sq_retry := q\<rparr>))"
  by (simp_all add: src_queue_def live_addr_def new_SegmentEventQueue_def new_RetryQueue_def mm_vals_def)

lemma initial_queue: "ss_queue initial_system = new_SegmentEventQueue"
  by (simp add: initial_system_def)

lemma one_retry_reachable:
  "reachable (initial_system\<lparr>ss_queue := new_SegmentEventQueue\<lparr>sq_retry := one_entry 1 10\<rparr>\<rparr>)"
  using reachable.step[OF reachable.init seg_step.quiet[OF quiet_step.update[OF seg_update.retry]],
    unfolded initial_queue, OF queue_two(1) fresh_addresses(1)] .

lemma search_values [simp]: "get_retry_values plain_api plain_config c = Inr (300, 0)"
  by (rule retry_state_values)

lemma take_async:
  "retry_attempt plain_api 1 (plain_config, 1000) two_retries =
     Inr (Finished (Some [(''workflow_instanceid'', QInt 7)]), retry_taken)"
  by (simp add: retry_attempt_def conn_stopped_def two_retries_def new_SegmentEventQueue_def new_RetryQueue_def one_entry_def
    retry_search_def first_free_def seg_busy_def seg_refs_def later_search_def retry_choice_def take_retry_def get_event_def
    mark_in_progress_def src_queue_def put_src_def put_async_retry_def put_refs_def retry_get_hash_def doHash_def
    ParentInfo_def retry_taken_def)

lemma sleep_after:
  "retry_attempt plain_api 2 (plain_config, 1000) retry_taken =
     Inr (Waiting Wait_data, retry_taken\<lparr>retry_waiting := 1\<rparr>)"
  by (simp add: retry_attempt_def conn_stopped_def two_retries_def new_SegmentEventQueue_def new_RetryQueue_def one_entry_def
    retry_search_def first_free_def seg_busy_def seg_refs_def later_search_def put_refs_def retry_taken_def)

lemma release_after:
  "release_retry_segment 7 (retry_taken\<lparr>retry_waiting := 1\<rparr>) =
     Inr (retry_taken\<lparr>retry_waiting := 1, workflow_seg_map := []\<rparr>)"
  by (simp add: release_retry_segment_def seg_refs_def put_refs_def retry_taken_def two_retries_def
    new_SegmentEventQueue_def backend_broadcast_def om_del_def)

lemma resume_taken:
  "retry_resume Wait_data (retry_taken\<lparr>retry_waiting := 1\<rparr>) = retry_taken"
  "retry_resume Wait_data (retry_taken\<lparr>retry_waiting := 1, workflow_seg_map := []\<rparr>) = retry_taken\<lparr>workflow_seg_map := []\<rparr>"
  by (simp_all add: retry_resume_def retry_taken_def two_retries_def put_refs_def new_SegmentEventQueue_def)

lemma take_left:
  "\<exists>s'. retry_attempt plain_api 2 (plain_config, 1000) (retry_taken\<lparr>workflow_seg_map := []\<rparr>) =
     Inr (Finished (Some [(''workflow_instanceid'', QInt 7)]), s')"
  by (simp add: retry_attempt_def conn_stopped_def two_retries_def new_SegmentEventQueue_def new_RetryQueue_def one_entry_def
    retry_search_def first_free_def seg_busy_def seg_refs_def later_search_def retry_choice_def take_retry_def get_event_def
    mark_in_progress_def src_queue_def put_src_def put_retry_def put_refs_def retry_get_hash_def doHash_def
    ParentInfo_def retry_taken_def)

lemma release_retry_silent:
  "case release_retry_segment w s of
     Inl e \<Rightarrow> True
   | Inr s' \<Rightarrow> retry_cond s' = retry_cond s \<and> retry_waiting s' = retry_waiting s"
  by (auto simp: release_retry_segment_def backend_broadcast_def split: sum.split option.splits)

text \<open>
  C39.  A lost wake-up: the end of a retry notifies no thread that sleeps for retries, in any state.
  And there is a reachable state in which the only thread asleep for retries sleeps without a time-out and would find
  nothing if it woke up, because the instance of the only retry that is due is being retried by another thread; when
  that thread ends its retry, nothing was ever sent to the condition variable of the retries, although the thread
  asleep would now get the retry if it woke up.
\<close>

theorem retry_wakeup_lost:
  "(case release_retry_segment w s of
      Inl e \<Rightarrow> True
    | Inr s' \<Rightarrow> retry_cond s' = retry_cond s \<and> retry_waiting s' = retry_waiting s) \<and>
   (\<exists>z z' u h u'. reachable z \<and> ss_retrying z 7 = 1 \<and> ss_sleep z = [Wait_data] \<and> retry_waiting (ss_queue z) = 1 \<and>
     retry_attempt plain_api 2 (plain_config, 1000) (retry_resume Wait_data (ss_queue z)) = Inr (Waiting Wait_data, u) \<and>
     quiet_step z z' \<and> release_retry_segment 7 (ss_queue z) = Inr (ss_queue z') \<and>
     ss_sleep z' = [Wait_data] \<and> retry_cond (ss_queue z') = [] \<and>
     retry_attempt plain_api 2 (plain_config, 1000) (retry_resume Wait_data (ss_queue z')) = Inr (Finished (Some h), u'))"
proof (intro conjI)
  show "case release_retry_segment w s of
      Inl e \<Rightarrow> True
    | Inr s' \<Rightarrow> retry_cond s' = retry_cond s \<and> retry_waiting s' = retry_waiting s" by (rule release_retry_silent)
next
  let ?z2 = "initial_system\<lparr>ss_queue := two_retries\<rparr>"
  note 1 = one_retry_reachable
  let ?z1 = "initial_system\<lparr>ss_queue := new_SegmentEventQueue\<lparr>sq_retry := one_entry 1 10\<rparr>\<rparr>"
  have "seg_update (ss_queue ?z1) two_retries"
    using seg_update.retry[OF queue_two(2) fresh_addresses(2)] by simp
  from reachable.step[OF 1 seg_step.quiet[OF quiet_step.update[OF this]]] have 2: "reachable ?z2" by simp
  let ?z3 = "?z2\<lparr>ss_queue := retry_taken, ss_retrying := (\<lambda>_. 0)(7 := 1)\<rparr>"
  from reachable.step[OF 2 seg_step.quiet[OF quiet_step.take_retry, of plain_api 1 "(plain_config, 1000)" _ _ retry_taken 7]] take_async
  have 3: "reachable ?z3" by (simp add: event_wfiid_def) (simp add: initial_system_def)
  let ?z4 = "?z3\<lparr>ss_queue := retry_taken\<lparr>retry_waiting := 1\<rparr>, ss_sleep := [Wait_data]\<rparr>"
  from reachable.step[OF 3 seg_step.quiet[OF quiet_step.sleep_retry]] sleep_after have 4: "reachable ?z4"
    by (fastforce simp: initial_system_def)
  let ?z5 = "?z4\<lparr>ss_queue := retry_taken\<lparr>retry_waiting := 1, workflow_seg_map := []\<rparr>, ss_retrying := (\<lambda>_. 0)\<rparr>"
  from quiet_step.release_retry[of ?z4 7] release_after have 5: "quiet_step ?z4 ?z5"
    by (simp add: fun_upd_def if_distrib cong: if_cong)
  from take_left obtain u' where
    u': "retry_attempt plain_api 2 (plain_config, 1000) (retry_resume Wait_data (ss_queue ?z5)) =
      Inr (Finished (Some [(''workflow_instanceid'', QInt 7)]), u')" by (auto simp: resume_taken)
  have b: "retry_attempt plain_api 2 (plain_config, 1000) (retry_resume Wait_data (ss_queue ?z4)) =
      Inr (Waiting Wait_data, retry_taken\<lparr>retry_waiting := 1\<rparr>)" using sleep_after by (simp add: resume_taken)
  have r: "release_retry_segment 7 (ss_queue ?z4) = Inr (ss_queue ?z5)" using release_after by simp
  have "retry_cond (ss_queue ?z5) = []" by (simp add: retry_taken_def two_retries_def put_refs_def new_SegmentEventQueue_def)
  moreover have "ss_retrying ?z4 7 = 1" "ss_sleep ?z4 = [Wait_data]" "retry_waiting (ss_queue ?z4) = 1"
    "ss_sleep ?z5 = [Wait_data]" by simp_all
  ultimately show "\<exists>z z' u h u'. reachable z \<and> ss_retrying z 7 = 1 \<and> ss_sleep z = [Wait_data] \<and> retry_waiting (ss_queue z) = 1 \<and>
     retry_attempt plain_api 2 (plain_config, 1000) (retry_resume Wait_data (ss_queue z)) = Inr (Waiting Wait_data, u) \<and>
     quiet_step z z' \<and> release_retry_segment 7 (ss_queue z) = Inr (ss_queue z') \<and>
     ss_sleep z' = [Wait_data] \<and> retry_cond (ss_queue z') = [] \<and>
     retry_attempt plain_api 2 (plain_config, 1000) (retry_resume Wait_data (ss_queue z')) = Inr (Finished (Some h), u')"
    using 4 5 b r u' by (intro exI conjI)
qed

end
