(* ===== verification/Segment_Conservation.thy ===== *)
theory Segment_Conservation
  imports Segment_Threads
begin

text \<open>
  No back end event is lost, and none is delivered that was not queued: the system of
  \<^theory_text>\<open>Segment_Threads\<close> with a record of the work that has been queued and of the work that
  has been delivered since the start.
\<close>

section \<open>What a step does to the queued work\<close>

context work_server
begin

lemma attempt_pending:
  assumes inv: "seg_inv s" and q: "find_segment i s = Some (mk q)" "inv q"
    and r: "(if conn_stopped conn s then Inr (Finished None, s)
     else case take_ready (in_retry s) (bq_map q) of
       None \<Rightarrow> Inr (Waiting (), put_segment i (mk (bq_wait_begin q)) s)
     | Some (e, m) \<Rightarrow> Inr (Finished (Some (get_hash e)), put_segment i (mk (drop e (q\<lparr>bq_map := m\<rparr>)))
         (put_refs (entry_wfiid e) (grab_count (seg_refs (entry_wfiid e) s)) s))) = Inr (a, s')"
  shows "case a of Finished (Some h) \<Rightarrow> distinct (hash_work i h) \<and> set (hash_work i h) \<subseteq> pending s \<and>
      pending s' = pending s - set (hash_work i h)
    | _ \<Rightarrow> pending s' = pending s"
proof (cases "conn_stopped conn s")
  case True
  with r show ?thesis by auto
next
  case go: False
  show ?thesis
  proof (cases "take_ready (in_retry s) (bq_map q)")
    case None
    have "queue_work i (mk (bq_wait_begin q)) = queue_work i (mk q) \<union> {}"
      by (simp add: queue_work_def mk_map bq_wait_begin_def)
    from pending_put_change(1)[OF inv q(1) this] r go None show ?thesis by auto
  next
    case (Some em)
    then obtain e m where tk: "take_ready (in_retry s) (bq_map q) = Some (e, m)" by (cases em) auto
    let ?q = "mk (drop e (q\<lparr>bq_map := m\<rparr>))"
    from r go tk have a: "a = Finished (Some (get_hash e))"
      "s' = put_segment i ?q (put_refs (entry_wfiid e) (grab_count (seg_refs (entry_wfiid e) s)) s)" by auto
    have "pending s' = pending (put_segment i ?q s)"
      unfolding a(2) by (rule pending_same) (simp add: put_segment_def put_refs_def)
    moreover from take_inv[OF q(2) tk] have "good e" by blast
    note good_hash[OF this, of i]
    moreover note take_work[OF q(2) tk, of i]
    ultimately show ?thesis using pending_put_change(2)[OF inv q(1), of ?q "entry_work i e"] by (simp add: a(1))
  qed
qed

end

lemma round_pending:
  assumes inv: "seg_inv s" and r: "backend_round conn i s = Inr (a, s')"
  shows "case a of Finished (Some h) \<Rightarrow> distinct (hash_work i h) \<and> set (hash_work i h) \<subseteq> pending s \<and>
      pending s' = pending s - set (hash_work i h)
    | _ \<Rightarrow> pending s' = pending s"
proof (cases "find_segment i s")
  case None
  with r show ?thesis by (simp add: backend_round_def)
next
  case (Some any)
  note q = find_segment_inv[OF inv Some]
  show ?thesis
  proof (cases any)
    case (AnyEvent q1)
    with Some q r show ?thesis
      by (intro evw.attempt_pending[OF inv, of i q1]) (simp_all add: backend_round_def event_attempt_ok[OF inv])
  next
    case (AnyAsync q2)
    with Some q r show ?thesis
      by (intro asw.attempt_pending[OF inv, of i q2]) (simp_all add: backend_round_def async_attempt_ok[OF inv])
  next
    case (AnySub q3)
    with Some q r show ?thesis
      by (intro sww.attempt_pending[OF inv, of i q3]) (simp_all add: backend_round_def sub_attempt_ok[OF inv])
  qed
qed

lemma take_retry_map: "take_retry r x s = Inr (a, s') \<Longrightarrow> backend_queue_map s' = backend_queue_map s"
  by (auto simp: take_retry_def mark_in_progress_def put_refs_def split: option.split_asm)

lemma retry_attempt_map:
  assumes r: "retry_attempt api conn cn s = Inr (a, s')"
  shows "backend_queue_map s' = backend_queue_map s"
proof (cases "conn_stopped conn s \<or> conn \<in> set (retry_conn_set s)")
  case True
  with r show ?thesis by (auto simp: retry_attempt_def split: if_splits)
next
  case False
  with r obtain retry async where v: "get_retry_values api (fst cn) conn = Inr (retry, async)"
    by (auto simp: retry_attempt_def)
  obtain fi ri ari trig where se: "retry_search retry async s = (fi, ri, ari, trig)"
    by (metis prod_cases4)
  from False r show ?thesis
    by (auto simp: retry_attempt_def v se Let_def dest: take_retry_map split: if_splits)
qed

lemma quiet_step_pending:
  assumes "quiet_step z z'" "seg_inv (ss_queue z)"
  shows "pending (ss_queue z') = pending (ss_queue z)"
  using assms(1)
proof (cases rule: quiet_step.cases)
  case (update s')
  with seg_update_pending[OF update(2) assms(2)] show ?thesis by simp
next
  case (grab w s')
  then show ?thesis
    by (intro pending_same) (auto simp: grab_segment_inc_def put_refs_def split: option.splits if_splits)
next
  case (grab_refused w s')
  then show ?thesis
    by (intro pending_same) (auto simp: grab_segment_inc_def put_refs_def split: option.splits if_splits)
next
  case (no_event conn i s')
  with round_pending[OF assms(2) no_event(2)] show ?thesis by simp
next
  case (wait_event conn i u s')
  with round_pending[OF assms(2) wait_event(2)] show ?thesis by simp
next
  case (release w s')
  then show ?thesis
    by (intro pending_same) (auto simp: release_segment_def put_refs_def Let_def split: option.splits if_splits)
next
  case (take_retry api conn cn h s' w)
  with retry_attempt_map[OF take_retry(2)] show ?thesis by (intro pending_same) simp
next
  case (no_retry api conn cn s')
  with retry_attempt_map[OF no_retry(2)] show ?thesis by (intro pending_same) simp
next
  case (sleep_retry api conn cn v s')
  with retry_attempt_map[OF sleep_retry(2)] show ?thesis by (intro pending_same) simp
next
  case (wake_retry v)
  then show ?thesis by (intro pending_same) (simp add: retry_resume_def Let_def split: retry_wait.splits)
next
  case (release_retry w s')
  then have "s' = backend_broadcast (ss_queue z\<lparr>workflow_seg_map := om_del w (workflow_seg_map (ss_queue z))\<rparr>)"
    by (auto simp: release_retry_segment_def split: option.splits)
  then have "pending s' = pending (ss_queue z)"
    by (simp add: pending_same[of "ss_queue z\<lparr>workflow_seg_map := _\<rparr>" "ss_queue z"])
  then show ?thesis by (simp add: release_retry(1))
qed

section \<open>The record of the work\<close>

record work_log =
  requested :: "work multiset"
  queued :: "work multiset"
  delivered :: "work multiset"

text \<open>
  \<open>logged z l\<close>: the system can reach \<open>z\<close>, and \<open>l\<close> is what was requested, queued and delivered on the
  way.  A request for an item that is queued already adds nothing; one for an item that was delivered queues it
  once more.
\<close>

inductive logged :: "seg_system \<Rightarrow> work_log \<Rightarrow> bool" where
  start: "logged initial_system \<lparr>requested = {#}, queued = {#}, delivered = {#}\<rparr>"
| quiet: "logged z l \<Longrightarrow> quiet_step z z' \<Longrightarrow> logged z' l"
| feed: "logged z l \<Longrightarrow> seg_feed (ss_queue z) ws s' \<Longrightarrow>
    logged (z\<lparr>ss_queue := s'\<rparr>) (l\<lparr>requested := requested l + mset ws,
      queued := queued l + mset_set (set ws - pending (ss_queue z))\<rparr>)"
| take_event: "logged z l \<Longrightarrow> backend_round conn i (ss_queue z) = Inr (Finished (Some h), s') \<Longrightarrow>
    event_wfiid h w \<Longrightarrow>
    logged (z\<lparr>ss_queue := s', ss_held := (ss_held z)(w := ss_held z w + 1)\<rparr>)
      (l\<lparr>delivered := delivered l + mset (hash_work i h)\<rparr>)"

lemma logged_reachable: "logged z l \<Longrightarrow> reachable z"
proof (induction rule: logged.induct)
  case start
  show ?case by (rule reachable.init)
next
  case (quiet z l z')
  from reachable.step[OF quiet.IH seg_step.quiet[OF quiet(2)]] show ?case .
next
  case (feed z l ws s')
  from reachable.step[OF feed.IH seg_step.feed[OF feed(2)]] show ?case .
next
  case (take_event z l conn i h s' w)
  from reachable.step[OF take_event.IH seg_step.take_event[OF take_event(2,3)]] show ?case .
qed

lemma reachable_logged: "reachable z \<Longrightarrow> \<exists>l. logged z l"
proof (induction rule: reachable.induct)
  case init
  show ?case using logged.start by blast
next
  case (step z z')
  then obtain l where "logged z l" by blast
  with step(2) show ?case by (cases rule: seg_step.cases) (blast intro: logged.intros)+
qed

lemma mset_set_add_work: "finite P \<Longrightarrow> mset_set (P \<union> set ws) = mset_set P + mset_set (set ws - P)"
  by (metis Diff_disjoint Un_Diff_cancel finite_Diff finite_set mset_set_Union)

lemma mset_set_requested: "mset_set (set ws - P) \<subseteq># mset ws"
  by (rule mset_subset_eqI) (auto simp: count_mset_set' count_mset_gt_0 Suc_leI)

lemma mset_set_take_work: "finite P \<Longrightarrow> S \<subseteq> P \<Longrightarrow> mset_set S + mset_set (P - S) = mset_set P"
  by (metis Diff_disjoint Diff_partition finite_Diff finite_subset mset_set_Union)

text \<open>
  C2.  Conservation of events, in every state that the threads can reach: the step indices that were queued,
  each counted with its segment, workflow instance and status as often as it was requested while it was not
  queued already, are those delivered and those still queued, each as often; nothing was queued that was not
  requested, and everything requested was queued.  The threads can call everything with two exceptions, where
  the code breaks its look-up maps: an order that is scheduled is not removed, and two objects are not merged if
  the other one has retries or both have events of the same segment, workflow instance and status; and no event
  has as its time the identifier of an order that is changed or removed and is not in the primary queue.
\<close>

theorem events_conserved:
  assumes "logged z l"
  shows "queued l = delivered l + mset_set (pending (ss_queue z)) \<and>
    queued l \<subseteq># requested l \<and> set_mset (requested l) = set_mset (queued l)"
  using assms
proof (induction rule: logged.induct)
  case start
  show ?case by (simp add: initial_system_def new_SegmentEventQueue_def pending_def)
next
  case (quiet z l z')
  have inv: "seg_inv (ss_queue z)" using reachable_inv[OF logged_reachable[OF quiet(1)]] by (simp add: sys_inv_def)
  from quiet.IH show ?case unfolding quiet_step_pending[OF quiet(2) inv] .
next
  case (feed z l ws s')
  let ?P = "pending (ss_queue z)" let ?N = "mset_set (set ws - ?P)"
  have "seg_inv (ss_queue z)" using reachable_inv[OF logged_reachable[OF feed(1)]] by (simp add: sys_inv_def)
  from seg_feed_inv[OF feed(2) this] have p: "pending s' = ?P \<union> set ws" by blast
  have q: "queued l + ?N = delivered l + mset_set (pending s')"
    using feed.IH mset_set_add_work[OF finite_pending, of "ss_queue z" ws] by (simp add: p add.assoc)
  have b: "queued l + ?N \<subseteq># requested l + mset ws"
    by (rule subset_mset.add_mono[OF _ mset_set_requested]) (use feed.IH in blast)
  have "set_mset (queued l) = set_mset (delivered l) \<union> ?P" using feed.IH finite_pending by simp
  then have c: "set_mset (requested l + mset ws) = set_mset (queued l + ?N)" using feed.IH by auto
  let ?l = "l\<lparr>requested := requested l + mset ws, queued := queued l + ?N\<rparr>"
  have e: "queued ?l = queued l + ?N" "requested ?l = requested l + mset ws" "delivered ?l = delivered l"
    "ss_queue (z\<lparr>ss_queue := s'\<rparr>) = s'" by simp_all
  show ?case unfolding e using q b c by blast
next
  case (take_event z l conn i h s' w)
  let ?P = "pending (ss_queue z)"
  have "seg_inv (ss_queue z)"
    using reachable_inv[OF logged_reachable[OF take_event(1)]] by (simp add: sys_inv_def)
  from round_pending[OF this take_event(2)] have h: "distinct (hash_work i h)" "set (hash_work i h) \<subseteq> ?P"
    "pending s' = ?P - set (hash_work i h)" by simp_all
  have "mset (hash_work i h) = mset_set (set (hash_work i h))" using mset_set_set[OF h(1)] by simp
  with mset_set_take_work[OF finite_pending h(2)] have
    "mset (hash_work i h) + mset_set (pending s') = mset_set ?P" by (simp add: h(3))
  then have q: "queued l = delivered l + mset (hash_work i h) + mset_set (pending s')"
    using take_event.IH by (simp add: add.assoc)
  let ?l = "l\<lparr>delivered := delivered l + mset (hash_work i h)\<rparr>"
    and ?z = "z\<lparr>ss_queue := s', ss_held := (ss_held z)(w := ss_held z w + 1)\<rparr>"
  have e: "queued ?l = queued l" "requested ?l = requested l" "delivered ?l = delivered l + mset (hash_work i h)"
    "ss_queue ?z = s'" by simp_all
  show ?case unfolding e using q take_event.IH by blast
qed

text \<open>One step is queued and delivered; nothing is left.\<close>

theorem events_conserved_witness:
  "\<exists>z l. logged z l \<and> requested l = {#(6, CHR 0x00, 7, 1)#} \<and> queued l = requested l \<and>
    delivered l = queued l \<and> pending (ss_queue z) = {}"
proof -
  let ?s1 = "put_segment 6 (AnyEvent new_EventQueue) new_SegmentEventQueue"
  have "seg_update new_SegmentEventQueue ?s1"
    by (rule seg_update.add_event_seg[of 6])
      (simp add: add_event_segment_def add_segment_def find_segment_def new_SegmentEventQueue_def)
  then have 1: "logged (initial_system\<lparr>ss_queue := ?s1\<rparr>) \<lparr>requested = {#}, queued = {#}, delivered = {#}\<rparr>"
    using logged.quiet[OF logged.start quiet_step.update, of ?s1] by (simp add: initial_system_def)
  let ?e = "EventQueueEntry \<lparr>be_wfiid = 7, be_prio = 500, be_pi = ParentInfo\<rparr> [1]"
  let ?q2 = "\<lparr>bq_map = [(500, [(0, 100, ?e)])], bq_next = 1, bq_waiting = 0, bq_cond = [], ev_wfmap = [7 \<mapsto> 0]\<rparr>"
  let ?s2 = "put_segment 6 (AnyEvent ?q2) ?s1"
  have "add_event 100 7 1 500 ParentInfo new_EventQueue = Inr ?q2"
    by (simp add: add_event_def new_EventQueue_def bq_signal_def bq_insert_def prio_nodes_def)
  then have "queue_workflow_event api 100 6 7 1 500 None ?s1 = Inr ?s2" for api
    by (simp add: queue_workflow_event_def event_segment_def opt_parent_info_def)
  moreover have "pending ?s1 = {}"
    by (simp add: pending_def put_segment_def queue_work_def new_EventQueue_def new_SegmentEventQueue_def mm_vals_def)
  ultimately have "logged (initial_system\<lparr>ss_queue := ?s2\<rparr>) \<lparr>requested = {#(6, CHR 0x00, 7, 1)#},
    queued = {#(6, CHR 0x00, 7, 1)#}, delivered = {#}\<rparr>"
    using logged.feed[OF 1 seg_feed.event, of undefined 100 6 7 1 500 None ?s2] by simp
  note 2 = this
  have inv: "seg_inv ?s2" using reachable_inv[OF logged_reachable[OF 2]] by (simp add: sys_inv_def)
  have i: "find_segment 6 ?s2 = Some (AnyEvent ?q2)" by simp
  have "\<exists>s3. backend_round 1 6 ?s2 = Inr (Finished (Some (get_hash ?e)), s3)"
    unfolding backend_round_def i option.case any_queue.case event_attempt_ok[OF inv i]
    by (simp add: conn_stopped_def in_retry_def seg_refs_def new_SegmentEventQueue_def)
  then obtain s3 where "backend_round 1 6 (ss_queue (initial_system\<lparr>ss_queue := ?s2\<rparr>)) =
    Inr (Finished (Some (get_hash ?e)), s3)" by auto
  from logged.take_event[OF 2 this, of 7] obtain z where
    3: "logged z \<lparr>requested = {#(6, CHR 0x00, 7, 1)#}, queued = {#(6, CHR 0x00, 7, 1)#}, delivered = {#(6, CHR 0x00, 7, 1)#}\<rparr>"
    by (auto simp: event_wfiid_def base_hash hash_work_def hash_status_def)
  from events_conserved[OF 3] have "mset_set (pending (ss_queue z)) = {#}" by simp
  then have "pending (ss_queue z) = {}" using finite_pending by (simp add: mset_set_empty_iff)
  with 3 show ?thesis
    by (intro exI[of _ z] exI[of _ "\<lparr>requested = {#(6, CHR 0x00, 7, 1)#}, queued = {#(6, CHR 0x00, 7, 1)#}, delivered = {#(6, CHR 0x00, 7, 1)#}\<rparr>"])
      simp
qed

end
