(* ===== verification/Segment_Notices.thy ===== *)
theory Segment_Notices
  imports Segment_Conservation
begin

text \<open>
  The notifications of the back end queues: what a condition variable makes of them, and that every critical
  section sends those that the threads asleep on a segment need (\<open>alerts\<close>).
\<close>

section \<open>Notifications of a condition variable\<close>

text \<open>
  \<open>wakes ns (A, N) (A', N')\<close>: with the notifications \<open>ns\<close> the threads \<open>A\<close> asleep and the threads
  \<open>N\<close> notified become \<open>A'\<close> and \<open>N'\<close>.  A signal wakes any one of the threads asleep, and is lost
  when there is none; a broadcast wakes them all.
\<close>

inductive wakes :: "notify list \<Rightarrow> int list \<times> int list \<Rightarrow> int list \<times> int list \<Rightarrow> bool" where
  quiet: "wakes [] x x"
| unheard: "wakes ns ([], N) y \<Longrightarrow> wakes (Signal # ns) ([], N) y"
| signal: "c \<in> set A \<Longrightarrow> wakes ns (remove1 c A, c # N) y \<Longrightarrow> wakes (Signal # ns) (A, N) y"
| broadcast: "wakes ns ([], A @ N) y \<Longrightarrow> wakes (Broadcast # ns) (A, N) y"

inductive_cases wakes_Signal: "wakes (Signal # ns) x y"
inductive_cases wakes_Broadcast: "wakes (Broadcast # ns) x y"

inductive_simps wakes_Nil [simp]: "wakes [] x y"

lemma wakes_threads:
  "wakes ns x y \<Longrightarrow> length (fst y) + length (snd y) = length (fst x) + length (snd x) \<and> set (fst y) \<subseteq> set (fst x)"
proof (induction rule: wakes.induct)
  case (signal c A ns N y)
  have "length (remove1 c A) = length A - 1" "length A > 0"
    using signal.hyps(1) by (auto simp: length_remove1)
  with signal.IH set_remove1_subset[of c A] show ?case by auto
qed auto

lemma wakes_all: "wakes (ns @ [Broadcast]) x y \<Longrightarrow> fst y = []"
proof (induction ns arbitrary: x)
  case Nil
  then show ?case by (auto elim!: wakes_Broadcast)
next
  case (Cons n ns)
  then show ?case by (cases n) (auto elim!: wakes_Signal wakes_Broadcast)
qed

lemma wakes_each:
  assumes "wakes (replicate n Signal) x y" "fst y \<noteq> []" "\<forall>c\<in>set (fst x). P c"
  shows "length (filter P (snd y)) = length (filter P (snd x)) + n"
  using assms
proof (induction n arbitrary: x)
  case 0
  then show ?case by simp
next
  case (Suc n)
  from Suc.prems(1) have "wakes (Signal # replicate n Signal) x y" by simp
  then consider (unheard) N where "wakes (replicate n Signal) ([], N) y"
    | (signal) c A N where "x = (A, N)" "c \<in> set A" "wakes (replicate n Signal) (remove1 c A, c # N) y"
    by (auto elim: wakes_Signal)
  then show ?case
  proof cases
    case unheard
    with wakes_threads[OF unheard] Suc.prems(2) show ?thesis by simp
  next
    case signal
    then have "\<forall>c\<in>set (fst (remove1 c A, c # N)). P c" "P c"
      using Suc.prems(3) set_remove1_subset[of c A] by auto
    from Suc.IH[OF signal(3) Suc.prems(2) this(1)] this(2) signal(1) show ?thesis by simp
  qed
qed

section \<open>The condition variable of a segment\<close>

fun any_cond :: "any_queue \<Rightarrow> notify list" where
  "any_cond (AnyEvent q) = bq_cond q"
| "any_cond (AnyAsync q) = bq_cond q"
| "any_cond (AnySub q) = bq_cond q"

fun any_waiting :: "any_queue \<Rightarrow> int" where
  "any_waiting (AnyEvent q) = bq_waiting q"
| "any_waiting (AnyAsync q) = bq_waiting q"
| "any_waiting (AnySub q) = bq_waiting q"

definition seg_cond :: "int \<Rightarrow> seg_queue \<Rightarrow> notify list" where
  "seg_cond i s = (case find_segment i s of None \<Rightarrow> [] | Some q \<Rightarrow> any_cond q)"

definition seg_waiting :: "int \<Rightarrow> seg_queue \<Rightarrow> int" where
  "seg_waiting i s = (case find_segment i s of None \<Rightarrow> 0 | Some q \<Rightarrow> any_waiting q)"

text \<open>The events of a segment that could be delivered: status and workflow instance.\<close>

definition ready_events :: "int \<Rightarrow> seg_queue \<Rightarrow> (char \<times> int) set" where
  "ready_events i s = {(st, w). (\<exists>k. (i, st, w, k) \<in> pending s) \<and> \<not> in_retry s w}"

lemma finite_ready [simp]: "finite (ready_events i s)"
proof -
  have "ready_events i s \<subseteq> (\<lambda>(i, st, w, k). (st, w)) ` pending s" by (force simp: ready_events_def)
  then show ?thesis using finite_pending finite_subset by blast
qed

lemma ready_mono:
  assumes "pending s' \<subseteq> pending s" "\<And>w. in_retry s w \<Longrightarrow> in_retry s' w"
  shows "card (ready_events i s') \<le> card (ready_events i s)"
  by (rule card_mono[OF finite_ready]) (use assms in \<open>auto simp: ready_events_def\<close>)

lemma map_of_snd: "map_of (map (\<lambda>x. (fst x, f (snd x))) m) i = map_option f (map_of m i)"
  by (induction m) auto

lemma find_broadcast: "find_segment i (broadcast s) = map_option any_wakeup (find_segment i s)"
  by (simp add: broadcast_def Let_def find_segment_def map_of_snd)

lemma find_backend_broadcast:
  "find_segment i (backend_broadcast s) =
     map_option (\<lambda>q. if any_map q \<noteq> [] then any_wakeup q else q) (find_segment i s)"
  using map_of_snd[of "\<lambda>q. if any_map q \<noteq> [] then any_wakeup q else q"]
  by (simp add: backend_broadcast_def find_segment_def)

lemma find_resume:
  "find_segment j (backend_resume i u s) =
     (if j = i then map_option any_wait_end (find_segment i s) else find_segment j s)"
proof -
  have "map_of (map (\<lambda>x. if fst x = i then (fst x, any_wait_end (snd x)) else x) m) j =
    (if j = i then map_option any_wait_end (map_of m i) else map_of m j)" for m
    by (induction m) auto
  then show ?thesis by (simp add: find_segment_def backend_resume_def)
qed

lemma any_wakeup_notes:
  "any_waiting (any_wakeup q) = any_waiting q"
  "any_cond (any_wakeup q) = any_cond q @ (if any_waiting q = 0 then [] else [Broadcast])"
  by (cases q; simp add: bq_wakeup_def)+

lemma any_wait_end_notes: "any_waiting (any_wait_end q) = any_waiting q - 1" "any_cond (any_wait_end q) = any_cond q"
  by (cases q; simp add: bq_wait_end_def)+

section \<open>What a step does for the threads of a segment\<close>

text \<open>
  Either all threads of the segment are woken, or each event that can be delivered after the step and could
  not before it comes with a signal, and no connection was stopped.
\<close>

definition alerts :: "int \<Rightarrow> seg_queue \<Rightarrow> seg_queue \<Rightarrow> bool" where
  "alerts i s s' \<longleftrightarrow> seg_waiting i s = 0 \<or> (\<exists>ns. seg_cond i s' = seg_cond i s @ ns @ [Broadcast]) \<or>
     ((\<forall>c. conn_stopped c s' \<longrightarrow> conn_stopped c s) \<and>
      (\<exists>n. seg_cond i s' = seg_cond i s @ replicate n Signal \<and>
        card (ready_events i s') \<le> card (ready_events i s) + n))"

definition same_conns :: "seg_queue \<Rightarrow> seg_queue \<Rightarrow> bool" where
  "same_conns s s' \<longleftrightarrow> backend_queue_map s' = backend_queue_map s \<and> sq_term s' = sq_term s \<and>
     (\<forall>c. c \<in> set (conn_set s') \<longrightarrow> c \<in> set (conn_set s))"

lemma alerts_quiet:
  assumes "seg_cond i s' = seg_cond i s" "\<And>c. conn_stopped c s' \<Longrightarrow> conn_stopped c s"
    "pending s' \<subseteq> pending s" "\<And>w. in_retry s w \<Longrightarrow> in_retry s' w"
  shows "alerts i s s'"
proof -
  have "card (ready_events i s') \<le> card (ready_events i s) + 0" using ready_mono[OF assms(3,4)] by simp
  moreover have "seg_cond i s' = seg_cond i s @ replicate 0 Signal" using assms(1) by simp
  ultimately show ?thesis using assms(2) unfolding alerts_def by blast
qed

lemma alerts_conns:
  assumes "same_conns s s'" "\<And>w. in_retry s w \<Longrightarrow> in_retry s' w"
  shows "alerts i s s'"
proof (rule alerts_quiet)
  show "seg_cond i s' = seg_cond i s" using assms(1) by (simp add: same_conns_def seg_cond_def find_segment_def)
  show "conn_stopped c s'  \<Longrightarrow> conn_stopped c s" for c using assms(1) by (auto simp: same_conns_def conn_stopped_def)
  show "pending s' \<subseteq> pending s" using assms(1) by (simp add: same_conns_def pending_def)
qed (use assms(2) in simp)

lemma alerts_broadcast: "alerts i s (broadcast (s\<lparr>sq_term := b, conn_set := cs\<rparr>))"
proof -
  have f: "find_segment i (s\<lparr>sq_term := b, conn_set := cs\<rparr>) = find_segment i s" by (simp add: find_segment_def)
  show ?thesis
  proof (cases "find_segment i s")
    case (Some q)
    then have "any_waiting q \<noteq> 0 \<Longrightarrow>
        seg_cond i (broadcast (s\<lparr>sq_term := b, conn_set := cs\<rparr>)) = seg_cond i s @ [] @ [Broadcast]"
      by (simp add: seg_cond_def find_broadcast f any_wakeup_notes)
    then show ?thesis using Some unfolding alerts_def seg_waiting_def by (metis option.simps(5))
  qed (simp add: alerts_def seg_waiting_def)
qed

lemma in_retry_cong: "workflow_seg_map s' = workflow_seg_map s \<Longrightarrow> in_retry s' w = in_retry s w"
  by (simp add: in_retry_def seg_refs_def)

lemma same_conns_refl [simp]: "same_conns s s"
  by (simp add: same_conns_def)

lemma same_conns_trans: "same_conns s t \<Longrightarrow> same_conns t u \<Longrightarrow> same_conns s u"
  by (simp add: same_conns_def)

lemma same_conns_requeue [simp]: "same_conns s (requeue_retries s)"
  by (simp add: same_conns_def) (simp add: requeue_retries_def)

lemma same_conns_put_src [simp]: "same_conns s (put_src r q s)"
  by (simp add: same_conns_def)

lemma init_retry_step_conns:
  assumes "init_retry_step api (src_queue r) (put_src r) s x = Inr s'"
  shows "same_conns s s'"
proof -
  from assms obtain h w p where h: "get_hash_arg (snd x) = Inr h" "get_event_info api h = Inr (w, p)"
    by (auto simp: init_retry_step_def)
  define v u where "v = hash_get ''retry_trigger'' h" and "u = hash_get ''modified'' h"
  from assms show ?thesis
    unfolding init_retry_step_def h rbind_simps prod.case v_def[symmetric] u_def[symmetric]
    by (cases v; cases u) (auto simp: same_conns_def simp del: hash_get_simps)
qed

lemma init_retry_conns:
  assumes "init_retry_intern api (src_queue r) (put_src r) l s = Inr s'"
  shows "same_conns s s'"
proof (cases "l = []")
  case True
  with assms show ?thesis by (simp add: init_retry_intern_def)
next
  case False
  with assms obtain t where t: "rfold (init_retry_step api (src_queue r) (put_src r)) s l = Inr t"
    "s' = requeue_retries t" by (auto simp: init_retry_intern_def)
  have "same_conns s t"
    by (rule rfold_invariant[OF t(1), where P = "same_conns s"])
      (auto intro: same_conns_trans init_retry_step_conns)
  then show ?thesis using same_conns_requeue same_conns_trans t(2) by blast
qed

text \<open>
  All updates but those that stop connections, add a segment or end a wait leave the connections and the back
  end queues as they are.
\<close>

lemma seg_update_conns:
  assumes "seg_update s s'" "seg_inv s"
  shows "same_conns s s' \<or> (\<exists>b cs. s' = broadcast (s\<lparr>sq_term := b, conn_set := cs\<rparr>)) \<or>
    (\<exists>i q. find_segment i s = None \<and> s' = put_segment i q s \<and> any_cond q = []) \<or>
    (\<exists>i u. s' = backend_resume i u s)"
  using assms(1)
proof (cases rule: seg_update.cases)
  case destroy
  have "s' = broadcast (s\<lparr>sq_term := True, conn_set := conn_set s\<rparr>)" by (simp add: destroy destructor_def)
  then show ?thesis by blast
next
  case (stop i)
  have "s' = broadcast (s\<lparr>sq_term := sq_term s, conn_set := insort_insert i (conn_set s)\<rparr>)"
    by (simp add: stop terminate_connection_def)
  then show ?thesis by blast
next
  case (stop_retry i)
  then show ?thesis by (simp add: terminate_retry_connection_def same_conns_def)
next
  case (cleanup i)
  then show ?thesis using notin_set_remove1[of _ "conn_set s" i]
    by (auto simp: cleanup_connection_def same_conns_def)
next
  case (add_sub_seg i)
  then have "find_segment i s = None \<and> s' = put_segment i (AnySub new_SubWorkflowQueue) s"
    by (auto simp: add_subworkflow_segment_def add_segment_def)
  moreover have "any_cond (AnySub new_SubWorkflowQueue) = []" by (simp add: new_SubWorkflowQueue_def)
  ultimately show ?thesis by blast
next
  case (add_async_seg i)
  then have "find_segment i s = None \<and> s' = put_segment i (AnyAsync new_AsyncQueue) s"
    by (auto simp: add_async_segment_def add_segment_def)
  moreover have "any_cond (AnyAsync new_AsyncQueue) = []" by (simp add: new_AsyncQueue_def)
  ultimately show ?thesis by blast
next
  case (add_event_seg i)
  then have "find_segment i s = None \<and> s' = put_segment i (AnyEvent new_EventQueue) s"
    by (auto simp: add_event_segment_def add_segment_def)
  moreover have "any_cond (AnyEvent new_EventQueue) = []" by (simp add: new_EventQueue_def)
  ultimately show ?thesis by blast
next
  case (init_primary api now l)
  then show ?thesis by (auto simp: init_primary_queue_def same_conns_def)
next
  case (primary api now w prio ph sched)
  then show ?thesis by (auto simp: queue_primary_event_def same_conns_def)
next
  case (primary_round conn now a)
  then show ?thesis by (auto simp: primary_attempt_def same_conns_def split: if_splits)
next
  case (primary_wake t)
  then show ?thesis by (simp add: primary_resume_def same_conns_def)
next
  case (resched w sched now b)
  then show ?thesis by (auto simp: resched_primary_event_def same_conns_def)
next
  case (reprio w prio now b)
  from reprio_primary[OF assms(2) this] show ?thesis by (auto simp: same_conns_def)
next
  case (remove_order w prio)
  from remove_primary[OF this] show ?thesis by (auto simp: same_conns_def)
next
  case (retry r api addr w d ph)
  then obtain q where "s' = put_src r q s \<or> s' = requeue_retries (put_src r q s)"
    by (auto simp: queue_retry_in_def split: if_splits)
  then show ?thesis using same_conns_trans[OF same_conns_put_src same_conns_requeue, of s r q] by auto
next
  case (remove_instance w)
  then obtain r a f where "s' = requeue_retries (s\<lparr>sq_retry := r, sq_async_retry := a, sq_fixed_retry := f\<rparr>)"
    by (auto simp: remove_workflow_instance_def)
  moreover have "same_conns s (s\<lparr>sq_retry := r, sq_async_retry := a, sq_fixed_retry := f\<rparr>)"
    by (simp add: same_conns_def)
  ultimately show ?thesis using same_conns_requeue same_conns_trans by blast
next
  case (init_retry api r l)
  then show ?thesis using init_retry_conns by blast
qed auto

lemma seg_update_alerts:
  assumes u: "seg_update s s'" and inv: "seg_inv s" and w: "seg_waiting i s' = seg_waiting i s"
  shows "alerts i s s'"
proof -
  have r: "in_retry s' v = in_retry s v" for v
    using seg_update_inv[OF u inv] in_retry_cong[of s' s v] by (simp add: same_control_def)
  have p: "pending s' = pending s" by (rule seg_update_pending[OF u inv])
  from seg_update_conns[OF u inv] consider "same_conns s s'" | b cs where "s' = broadcast (s\<lparr>sq_term := b, conn_set := cs\<rparr>)"
    | j q where "find_segment j s = None" "s' = put_segment j q s" "any_cond q = []" | j u where "s' = backend_resume j u s"
    by blast
  then show ?thesis
  proof cases
    case 1
    then show ?thesis using r by (intro alerts_conns) simp_all
  next
    case 2
    then show ?thesis using alerts_broadcast by simp
  next
    case 3
    then have "seg_cond i s' = seg_cond i s" by (simp add: seg_cond_def)
    moreover have "conn_stopped c s' = conn_stopped c s" for c by (simp add: 3(2) conn_stopped_def put_segment_def)
    ultimately show ?thesis using r p by (intro alerts_quiet) simp_all
  next
    case 4
    have "seg_cond i s' = seg_cond i s"
      by (auto simp: 4 seg_cond_def find_resume any_wait_end_notes split: option.split)
    moreover have "conn_stopped c s' = conn_stopped c s" for c
      by (simp add: 4 conn_stopped_def backend_resume_def)
    ultimately show ?thesis using r p by (intro alerts_quiet) simp_all
  qed
qed

section \<open>A round of the three calls\<close>

lemma pending_in_segment:
  assumes "seg_inv s" "find_segment i s = Some q"
  shows "(i, st, w, k) \<in> pending s \<longleftrightarrow> (i, st, w, k) \<in> queue_work i q"
proof -
  have "(i, st, w, k) \<in> {x \<in> pending s. fst x = i} \<longleftrightarrow> (i, st, w, k) \<in> queue_work i q"
    unfolding pending_segment[OF assms] ..
  then show ?thesis by simp
qed

definition seg_round :: "int \<Rightarrow> int \<Rightarrow> seg_queue \<Rightarrow> (unit, qhash option) attempt \<Rightarrow> seg_queue \<Rightarrow> bool" where
  "seg_round conn i s a s' \<longleftrightarrow> (\<forall>w. in_retry s' w = in_retry s w) \<and> (\<forall>c. conn_stopped c s' = conn_stopped c s) \<and>
     (\<forall>j. seg_cond j s' = seg_cond j s \<and>
       seg_waiting j s' = seg_waiting j s + (if a = Waiting () \<and> j = i then 1 else 0)) \<and> pending s' \<subseteq> pending s \<and>
     (case a of
        Waiting _ \<Rightarrow> \<not> conn_stopped conn s \<and> ready_events i s = {}
      | Finished None \<Rightarrow> conn_stopped conn s
      | Finished (Some _) \<Rightarrow> \<not> conn_stopped conn s \<and> card (ready_events i s') + 1 = card (ready_events i s))"

locale waiting_server = work_server drop idx key inv good mk
  for drop :: "backend_entry \<Rightarrow> 'a backend_queue_scheme \<Rightarrow> 'a backend_queue_scheme"
    and idx :: "'a backend_queue_scheme \<Rightarrow> 'k \<Rightarrow> nat option" and key inv good mk +
  assumes mk_notes: "any_cond (mk q) = bq_cond q" "any_waiting (mk q) = bq_waiting q"
    and drop_notes: "bq_cond (drop e q) = bq_cond q" "bq_waiting (drop e q) = bq_waiting q"
    and good_inds: "good e \<Longrightarrow> event_inds e \<noteq> {}"
begin

lemma entry_determined:
  assumes "inv q" "e \<in> set (bq_entries q)" "e' \<in> set (bq_entries q)"
    "entry_status e' = entry_status e" "entry_wfiid e' = entry_wfiid e"
  shows "e' = e"
proof -
  from assms(1) have ix: "bq_indexed key (idx q) q" and g: "\<forall>e\<in>set (bq_entries q). good e"
    by (simp_all add: inv_iff)
  have "key e' = key e" using key_work g assms by blast
  with bq_indexed_distinct[OF ix] assms(2,3) show ?thesis by (auto simp: distinct_map inj_on_def)
qed

text \<open>Taking an entry removes one event that could be delivered, and no other.\<close>

lemma take_ready_events:
  assumes inv: "seg_inv s" and q: "find_segment i s = Some (mk q)" "inv q"
    and tk: "take_ready (in_retry s) (bq_map q) = Some (e, m)"
    and p: "pending s' = pending s - entry_work i e"
    and r: "\<And>w. in_retry s' w = in_retry s w"
  shows "card (ready_events i s') + 1 = card (ready_events i s)"
proof -
  from q(2) have ix: "bq_indexed key (idx q) q" by (simp add: inv_iff)
  have e: "e \<in> set (bq_entries q)" using take_in_entries[OF tk bq_indexed_shape[OF ix]] by blast
  have own: "(i, entry_status e, entry_wfiid e, k) \<in> pending s \<Longrightarrow> (i, entry_status e, entry_wfiid e, k) \<in> entry_work i e" for k
  proof -
    assume "(i, entry_status e, entry_wfiid e, k) \<in> pending s"
    then have "(i, entry_status e, entry_wfiid e, k) \<in> queue_work i (mk q)"
      using pending_in_segment[OF inv q(1)] by blast
    then obtain e' where e': "e' \<in> set (bq_entries q)" "entry_status e' = entry_status e"
      "entry_wfiid e' = entry_wfiid e" "k \<in> event_inds e'"
      by (auto simp: in_queue_work mk_map entries_map)
    have "e' = e" by (rule entry_determined[OF q(2) e e'(1,2,3)])
    with e'(4) show ?thesis by (simp add: entry_work_def)
  qed
  have "good e" using q(2) e by (simp add: inv_iff)
  then obtain k where "k \<in> event_inds e" using good_inds by blast
  then have "(i, entry_status e, entry_wfiid e, k) \<in> queue_work i (mk q)"
    using e by (auto simp: in_queue_work mk_map entries_map)
  then have here: "(entry_status e, entry_wfiid e) \<in> ready_events i s"
    using take_ready_not[OF tk] pending_in_segment[OF inv q(1)] unfolding ready_events_def by blast
  have "ready_events i s' = ready_events i s - {(entry_status e, entry_wfiid e)}"
    using own by (auto simp: ready_events_def p r entry_work_def)
  with here show ?thesis by (simp add: card_gt_0_iff)
     (metis Suc_pred card_gt_0_iff empty_iff finite_ready)
qed

lemma none_ready:
  assumes inv: "seg_inv s" and q: "find_segment i s = Some (mk q)"
    and tk: "take_ready (in_retry s) (bq_map q) = None"
  shows "ready_events i s = {}"
proof -
  have "in_retry s w" if "(i, st, w, k) \<in> pending s" for st w k
  proof -
    have "(i, st, w, k) \<in> queue_work i (mk q)" using pending_in_segment[OF inv q] that by blast
    then obtain e where e: "e \<in> set (mm_vals (map_nodes (bq_map q)))" "entry_wfiid e = w"
      unfolding in_queue_work mk_map by blast
    from e(1) obtain x where "x \<in> set (map_nodes (bq_map q))" "snd (snd x) = e"
      unfolding mm_vals_def list.set_map by blast
    with tk[unfolded take_ready_None] e(2) show ?thesis by blast
  qed
  then show ?thesis by (auto simp: ready_events_def)
qed

lemma attempt_round:
  assumes inv: "seg_inv s" and q: "find_segment i s = Some (mk q)" "inv q"
    and r: "(if conn_stopped conn s then Inr (Finished None, s)
     else case take_ready (in_retry s) (bq_map q) of
       None \<Rightarrow> Inr (Waiting (), put_segment i (mk (bq_wait_begin q)) s)
     | Some (e, m) \<Rightarrow> Inr (Finished (Some (get_hash e)), put_segment i (mk (drop e (q\<lparr>bq_map := m\<rparr>)))
         (put_refs (entry_wfiid e) (grab_count (seg_refs (entry_wfiid e) s)) s))) = Inr (a, s')"
  shows "seg_round conn i s a s'"
proof (cases "conn_stopped conn s")
  case True
  with r show ?thesis by (auto simp: seg_round_def)
next
  case go: False
  show ?thesis
  proof (cases "take_ready (in_retry s) (bq_map q)")
    case None
    with r go have a: "a = Waiting ()" "s' = put_segment i (mk (bq_wait_begin q)) s" by auto
    have "in_retry s' w = in_retry s w" for w by (rule in_retry_cong) (simp add: a(2))
    moreover have "conn_stopped c s' = conn_stopped c s" for c
      by (simp add: a(2) conn_stopped_def put_segment_def)
    moreover have "seg_cond j s' = seg_cond j s \<and> seg_waiting j s' = seg_waiting j s + (if j = i then 1 else 0)" for j
      using q(1) by (simp add: a(2) seg_cond_def seg_waiting_def mk_notes bq_wait_begin_def)
    moreover have "pending s' = pending s" using attempt_pending[OF inv q r] by (simp add: a(1))
    ultimately show ?thesis using go none_ready[OF inv q(1) None] by (simp add: seg_round_def a(1))
  next
    case (Some em)
    then obtain e m where tk: "take_ready (in_retry s) (bq_map q) = Some (e, m)" by (cases em) auto
    let ?q = "mk (drop e (q\<lparr>bq_map := m\<rparr>))"
    let ?s = "put_refs (entry_wfiid e) (grab_count (seg_refs (entry_wfiid e) s)) s"
    from r go tk have a: "a = Finished (Some (get_hash e))" "s' = put_segment i ?q ?s" by auto
    have "in_retry s' w = in_retry ?s w" for w by (rule in_retry_cong) (simp add: a(2))
    moreover have "in_retry ?s w = in_retry s w" for w
      using take_ready_not[OF tk] by (auto simp: in_retry_def grab_count_def split: option.splits)
    ultimately have retry: "in_retry s' w = in_retry s w" for w by simp
    have "pending s' = pending (put_segment i ?q s)"
      unfolding a(2) by (rule pending_same) (simp add: put_segment_def put_refs_def)
    with pending_put_change(2)[OF inv q(1), of ?q "entry_work i e"] take_work[OF q(2) tk, of i]
    have p: "pending s' = pending s - entry_work i e" by simp
    have "conn_stopped c s' = conn_stopped c s" for c
      by (simp add: a(2) conn_stopped_def put_segment_def put_refs_def)
    moreover have "seg_cond j s' = seg_cond j s \<and> seg_waiting j s' = seg_waiting j s" for j
      using q(1) by (simp add: a(2) seg_cond_def seg_waiting_def mk_notes drop_notes)
    ultimately show ?thesis
      using go retry take_ready_events[OF inv q tk p retry] p by (auto simp: seg_round_def a(1))
  qed
qed

end

interpretation evt: waiting_server event_drop ev_wfmap entry_wfiid event_inv good_event AnyEvent
proof unfold_locales
  show "good_event e \<Longrightarrow> event_inds e \<noteq> {}" for e by (cases e) auto
qed (simp_all add: event_drop_def)

interpretation ast: waiting_server async_drop as_wfmap entry_wfiid async_inv good_async AnyAsync
proof unfold_locales
  show "good_async e \<Longrightarrow> event_inds e \<noteq> {}" for e by (cases e) auto
qed (simp_all add: async_drop_def)

interpretation swt: waiting_server sub_drop sub_index sub_key sub_inv good_sub AnySub
proof unfold_locales
  show "good_sub e \<Longrightarrow> event_inds e \<noteq> {}" for e by (cases e) auto
qed (simp_all add: sub_drop_def set_sub_wfmap_def)

lemma backend_round_parts:
  assumes inv: "seg_inv s" and r: "backend_round conn i s = Inr (a, s')"
  shows "seg_round conn i s a s'"
proof (cases "find_segment i s")
  case None
  with r show ?thesis by (simp add: backend_round_def)
next
  case (Some any)
  note q = find_segment_inv[OF inv Some]
  show ?thesis
  proof (cases any)
    case (AnyEvent q1)
    with Some q r show ?thesis
      by (intro evt.attempt_round[OF inv, of i q1]) (simp_all add: backend_round_def event_attempt_ok[OF inv])
  next
    case (AnyAsync q2)
    with Some q r show ?thesis
      by (intro ast.attempt_round[OF inv, of i q2]) (simp_all add: backend_round_def async_attempt_ok[OF inv])
  next
    case (AnySub q3)
    with Some q r show ?thesis
      by (intro swt.attempt_round[OF inv, of i q3]) (simp_all add: backend_round_def sub_attempt_ok[OF inv])
  qed
qed

section \<open>Adding events\<close>

text \<open>A signal is sent when the first event of a workflow instance is added.\<close>

lemma feed_alerts:
  assumes inv: "seg_inv s" and i: "find_segment i s = Some q"
    and work: "queue_work i q' = insert (i, st, w, k) (queue_work i q)"
    and cond: "any_cond q' = any_cond q @ replicate n Signal"
    and new: "any_waiting q \<noteq> 0 \<Longrightarrow> \<forall>k. (i, st, w, k) \<notin> queue_work i q \<Longrightarrow> n \<ge> 1"
  shows "alerts j s (put_segment i q' s)"
proof -
  let ?s = "put_segment i q' s"
  have p: "pending ?s = insert (i, st, w, k) (pending s)"
    using pending_put_change(1)[OF inv i, of q' "{(i, st, w, k)}"] work by simp
  have r: "in_retry ?s v = in_retry s v" for v by (rule in_retry_cong) simp
  have c: "conn_stopped c ?s = conn_stopped c s" for c by (simp add: conn_stopped_def)
  show ?thesis
  proof (cases "j = i")
    case False
    then have "seg_cond j ?s = seg_cond j s @ replicate 0 Signal" by (simp add: seg_cond_def)
    moreover have "ready_events j ?s = ready_events j s" using False by (auto simp: ready_events_def p r)
    ultimately show ?thesis using c unfolding alerts_def by (metis add.right_neutral order_refl)
  next
    case True
    have sub: "ready_events i ?s \<subseteq> insert (st, w) (ready_events i s)" by (auto simp: ready_events_def p r)
    have "card (ready_events i ?s) \<le> card (ready_events i s) + n" if w: "seg_waiting i s \<noteq> 0"
    proof (cases "\<exists>k. (i, st, w, k) \<in> queue_work i q")
      case True
      then have "ready_events i ?s = ready_events i s"
        using pending_in_segment[OF inv i] by (auto simp: ready_events_def p r)
      then show ?thesis by simp
    next
      case False
      with new w i have "n \<ge> 1" by (auto simp: seg_waiting_def)
      moreover have "card (ready_events i ?s) \<le> Suc (card (ready_events i s))"
        using card_mono[OF _ sub] card_insert_le_m1[of 0] by (simp add: card_insert_if split: if_splits)
      ultimately show ?thesis by linarith
    qed
    moreover have "seg_cond i ?s = seg_cond i s @ replicate n Signal" using i cond by (simp add: seg_cond_def)
    ultimately show ?thesis using c True unfolding alerts_def by blast
  qed
qed

context waiting_server
begin

lemma indexed_work:
  assumes "inv q" "idx q k = Some n"
  shows "\<exists>e j. key e = k \<and> good e \<and> (i, entry_status e, entry_wfiid e, j) \<in> queue_work i (mk q)"
proof -
  from assms obtain t e where e: "(n, t, e) \<in> set (bq_nodes q)" "key e = k"
    unfolding inv_iff bq_indexed_def by blast
  then have "e \<in> set (bq_entries q)" by (auto simp: in_bq_entries)
  moreover from this have g: "good e" using assms(1) by (simp add: inv_iff)
  moreover from good_inds[OF g] obtain j where "j \<in> event_inds e" by blast
  ultimately show ?thesis using e(2) by (auto simp: in_queue_work mk_map entries_map)
qed

end

definition signals_new :: "int \<Rightarrow> char \<Rightarrow> int \<Rightarrow> any_queue \<Rightarrow> any_queue \<Rightarrow> bool" where
  "signals_new i st w q q' \<longleftrightarrow> any_waiting q' = any_waiting q \<and>
     (\<exists>n. any_cond q' = any_cond q @ replicate n Signal \<and>
       (any_waiting q \<noteq> 0 \<longrightarrow> (\<forall>k. (i, st, w, k) \<notin> queue_work i q) \<longrightarrow> n \<ge> 1))"

lemma signals_newI:
  assumes "any_waiting q' = any_waiting q" "any_cond q' = any_cond q @ (if b \<and> any_waiting q \<noteq> 0 then [Signal] else [])"
    "\<not> b \<Longrightarrow> \<exists>k. (i, st, w, k) \<in> queue_work i q"
  shows "signals_new i st w q q'"
proof -
  let ?n = "if b \<and> any_waiting q \<noteq> 0 then 1 else 0 :: nat"
  have "any_cond q' = any_cond q @ replicate ?n Signal" using assms(2) by simp
  moreover have "any_waiting q \<noteq> 0 \<longrightarrow> (\<forall>k. (i, st, w, k) \<notin> queue_work i q) \<longrightarrow> ?n \<ge> 1" using assms(3) by auto
  ultimately show ?thesis using assms(1) unfolding signals_new_def by blast
qed

lemma bq_notes [simp]:
  "bq_waiting (bq_insert prio t e q) = bq_waiting q" "bq_waiting (bq_update n f q) = bq_waiting q"
  "bq_cond (bq_insert prio t e q) = bq_cond q" "bq_cond (bq_update n f q) = bq_cond q"
  "bq_cond (bq_signal q) = bq_cond q @ (if bq_waiting q \<noteq> 0 then [Signal] else [])"
  by (simp_all add: bq_insert_def bq_update_def bq_signal_def)

lemma add_event_old:
  assumes "add_event t w k prio p q = Inr q'" "ev_wfmap q w = Some n"
  shows "(\<exists>n f. q' = bq_update n f q) \<or> q' = q"
proof -
  from assms obtain x where "mm_find n (bq_nodes q) = Some x" by (auto simp: add_event_def)
  with assms show ?thesis by (cases "snd x") (auto simp: add_event_def split: if_split_asm)
qed

lemma add_event_signals:
  assumes inv: "event_inv q" and r: "add_event t w k prio p q = Inr q'"
  shows "signals_new i CHR 0x00 w (AnyEvent q) (AnyEvent q')"
proof (rule signals_newI[where b = "ev_wfmap q w = None"])
  assume "ev_wfmap q w \<noteq> None"
  then obtain n where "ev_wfmap q w = Some n" by blast
  from evt.indexed_work[OF inv this, of i] obtain e j where "entry_wfiid e = w" "good_event e"
    "(i, entry_status e, entry_wfiid e, j) \<in> queue_work i (AnyEvent q)" by blast
  then show "\<exists>k. (i, CHR 0x00, w, k) \<in> queue_work i (AnyEvent q)" by (cases e) auto
next
  show "any_waiting (AnyEvent q') = any_waiting (AnyEvent q)" "any_cond (AnyEvent q') = any_cond (AnyEvent q) @
      (if ev_wfmap q w = None \<and> any_waiting (AnyEvent q) \<noteq> 0 then [Signal] else [])"
    using r add_event_old[OF r] by (cases "ev_wfmap q w"; auto simp: add_event_def)+
qed

lemma add_async_old:
  assumes "add_async_event t w k prio c p key d q = Inr q'" "as_wfmap q w = Some n"
  shows "(\<exists>n f. q' = bq_update n f q) \<or> q' = q"
proof -
  from assms obtain x where "mm_find n (bq_nodes q) = Some x" by (auto simp: add_async_event_def Let_def)
  with assms show ?thesis by (cases "snd x") (auto simp: add_async_event_def Let_def split: if_split_asm)
qed

lemma add_async_signals:
  assumes inv: "async_inv q" and r: "add_async_event t w k prio c p key d q = Inr q'"
  shows "signals_new i CHR 0x00 w (AnyAsync q) (AnyAsync q')"
proof (rule signals_newI[where b = "as_wfmap q w = None"])
  assume "as_wfmap q w \<noteq> None"
  then obtain n where "as_wfmap q w = Some n" by blast
  from ast.indexed_work[OF inv this, of i] obtain e j where "entry_wfiid e = w" "good_async e"
    "(i, entry_status e, entry_wfiid e, j) \<in> queue_work i (AnyAsync q)" by blast
  then show "\<exists>k. (i, CHR 0x00, w, k) \<in> queue_work i (AnyAsync q)" by (cases e) auto
next
  show "any_waiting (AnyAsync q') = any_waiting (AnyAsync q)" "any_cond (AnyAsync q') = any_cond (AnyAsync q) @
      (if as_wfmap q w = None \<and> any_waiting (AnyAsync q) \<noteq> 0 then [Signal] else [])"
    using r add_async_old[OF r] by (cases "as_wfmap q w"; auto simp: add_async_event_def Let_def)+
qed

lemma add_sub_old:
  assumes "add_subworkflow_event t w k prio p st sw q = Inr q'" "sub_wfmap st q w = Some n"
  shows "(\<exists>n f. q' = bq_update n f q) \<or> q' = q"
proof -
  from assms obtain x where "mm_find n (bq_nodes q) = Some x" by (auto simp: add_subworkflow_event_def)
  with assms show ?thesis by (cases "snd x") (auto simp: add_subworkflow_event_def split: if_split_asm)
qed

lemma add_sub_signals:
  assumes inv: "sub_inv q" and r: "add_subworkflow_event t w k prio p st sw q = Inr q'"
  shows "signals_new i st w (AnySub q) (AnySub q')"
proof (rule signals_newI[where b = "sub_wfmap st q w = None"])
  assume "sub_wfmap st q w \<noteq> None"
  then obtain n where "sub_wfmap st q w = Some n" by blast
  moreover have st: "st = CHR ''E'' \<or> st = CHR ''C''" using r by (auto simp: add_subworkflow_event_def)
  ultimately have "sub_index q (w, st = CHR ''C'') = Some n" by (auto simp: sub_wfmap_index)
  from swt.indexed_work[OF inv this, of i] obtain e j where "sub_key e = (w, st = CHR ''C'')" "good_sub e"
    "(i, entry_status e, entry_wfiid e, j) \<in> queue_work i (AnySub q)" by blast
  then show "\<exists>k. (i, st, w, k) \<in> queue_work i (AnySub q)" using st by (cases e) (auto simp: sub_key_def)
next
  show "any_waiting (AnySub q') = any_waiting (AnySub q)" "any_cond (AnySub q') = any_cond (AnySub q) @
      (if sub_wfmap st q w = None \<and> any_waiting (AnySub q) \<noteq> 0 then [Signal] else [])"
    using r add_sub_old[OF r] by (cases "sub_wfmap st q w"; auto simp: add_subworkflow_event_def set_sub_wfmap_def)+
qed

text \<open>The functions that are given a list of events end with a broadcast.\<close>

lemma init_alerts:
  assumes inv: "seg_inv s" and i: "find_segment i s = Some q"
    and other: "pending (put_segment i q' s) = pending s \<union> set ws" "\<forall>x\<in>set ws. fst x = i"
    and woken: "any_waiting q \<noteq> 0 \<Longrightarrow> \<exists>ns. any_cond q' = any_cond q @ ns @ [Broadcast]"
  shows "alerts j s (put_segment i q' s)"
proof (cases "j = i")
  case True
  with i woken show ?thesis by (auto simp: alerts_def seg_waiting_def seg_cond_def)
next
  case False
  let ?s = "put_segment i q' s"
  have r: "in_retry ?s v = in_retry s v" for v by (rule in_retry_cong) simp
  have c: "conn_stopped c ?s = conn_stopped c s" for c by (simp add: conn_stopped_def)
  from False have "seg_cond j ?s = seg_cond j s @ replicate 0 Signal" by (simp add: seg_cond_def)
  moreover have "ready_events j ?s = ready_events j s" using False other by (auto simp: ready_events_def r)
  ultimately show ?thesis using c unfolding alerts_def by (metis add.right_neutral order_refl)
qed

lemma fold_notes:
  assumes "rfold f q l = Inr q'" "P q"
    and "\<And>q v q'. P q \<Longrightarrow> f q v = Inr q' \<Longrightarrow> P q' \<and> any_waiting (mk q') = any_waiting (mk q) \<and>
      (\<exists>ns. any_cond (mk q') = any_cond (mk q) @ ns)"
  shows "any_waiting (mk q') = any_waiting (mk q) \<and> (\<exists>ns. any_cond (mk q') = any_cond (mk q) @ ns)"
  using assms(1,2)
proof (induction l arbitrary: q)
  case Nil
  then show ?case by simp
next
  case (Cons v l)
  then obtain q1 where q1: "f q v = Inr q1" "rfold f q1 l = Inr q'" by auto
  from assms(3)[OF Cons.prems(2) q1(1)] Cons.IH[OF q1(2)] show ?case by auto
qed

lemma wakeup_after:
  assumes "any_waiting q1 = any_waiting q \<and> (\<exists>ns. any_cond q1 = any_cond q @ ns)"
  shows "any_waiting q \<noteq> 0 \<Longrightarrow> \<exists>ns. any_cond (any_wakeup q1) = any_cond q @ ns @ [Broadcast]"
  using assms by (auto simp: any_wakeup_notes)

lemma listed_segment: "x \<in> set (listed_work api st i v) \<Longrightarrow> fst x = i"
  by (auto simp: listed_work_def split: sum.splits)

lemma single_alerts:
  assumes "seg_inv s" "find_segment i s = Some q" "queue_work i q' = insert (i, st, w, k) (queue_work i q)"
    "signals_new i st w q q'"
  shows "alerts j s (put_segment i q' s)"
  using assms(4) feed_alerts[OF assms(1-3)] unfolding signals_new_def by blast

lemma listed_alerts:
  assumes "seg_inv s" "find_segment i s = Some q"
    "pending (put_segment i (any_wakeup q1) s) = pending s \<union> set (concat (map (listed_work api st i) l))"
    "any_waiting q1 = any_waiting q \<and> (\<exists>ns. any_cond q1 = any_cond q @ ns)"
  shows "alerts j s (put_segment i (any_wakeup q1) s)"
  by (rule init_alerts[OF assms(1,2,3) _ wakeup_after[OF assms(4)]]) (auto dest: listed_segment)

lemma init_async_step_adds:
  assumes "init_async_step api q v = Inr q'"
  shows "\<exists>t w k prio c p key d. add_async_event t w k prio c p key d q = Inr q'"
proof -
  from assms obtain h e where h: "get_hash_arg v = Inr h" "get_backend_event_info api h = Inr e"
    by (auto simp: init_async_step_def)
  with assms obtain k where "hash_get ''queuekey'' h = QString k"
    by (cases "hash_get ''queuekey'' h") (auto simp: init_async_step_def)
  with assms h have "add_async_event (ei_mod e) (ei_wfiid e) (ei_ind e) (ei_prio e)
      (getAsBigInt api (hash_get ''corrected'' h) \<noteq> 0) (ei_pi e) k QNothing q = Inr q'"
    by (auto simp: init_async_step_def)
  then show ?thesis by blast
qed

text \<open>A merge of two queues wakes all threads that sleep on the queue merged into.\<close>

lemma merge_loop_same:
  assumes "merge_loop one q m = Inr q'" "\<And>p q x. g (one p q x) = g q"
  shows "g q' = g q"
proof -
  have f: "g (foldl (one p) u l) = g u" for p u l by (induction l arbitrary: u) (simp_all add: assms(2))
  show ?thesis
    by (rule rfold_invariant[OF assms(1)[unfolded merge_loop_def], where P = "\<lambda>u. g u = g q"]) (auto simp: f)
qed

lemma merge_node_notes:
  "bq_cond (event_merge_node p q x) = bq_cond q" "bq_waiting (event_merge_node p q x) = bq_waiting q"
  "bq_cond (async_merge_node p r x) = bq_cond r" "bq_waiting (async_merge_node p r x) = bq_waiting r"
  "bq_cond (sub_merge_node p u x) = bq_cond u" "bq_waiting (sub_merge_node p u x) = bq_waiting u"
  by (simp_all add: event_merge_node_def async_merge_node_def sub_merge_node_def Let_def set_sub_wfmap_def)

lemma any_merge_notes:
  assumes "any_merge q d = Inr (q', d')"
  shows "any_cond q' = any_cond q" "any_waiting q' = any_waiting q"
  using assms
  by (cases q; cases d; auto simp: event_merge_def async_merge_def sub_merge_def merge_node_notes
    dest: merge_loop_same[where g = bq_cond] merge_loop_same[where g = bq_waiting])+

lemma merge_alerts:
  assumes inv: "seg_inv s" "seg_inv s'" and rest: "same_rest (requeue_retries s) s'"
    and p: "pending s' = pending s \<union> {x \<in> pending t. find_segment (fst x) s \<noteq> None}"
    and f: "case find_segment j s of
        None \<Rightarrow> find_segment j s' = None
      | Some q \<Rightarrow> \<exists>d q'. find_segment j t = Some d \<and> find_segment j s' = Some q' \<and> merged_queue q d q'"
  shows "alerts j s s'"
proof (cases "find_segment j s")
  case None
  then show ?thesis by (simp add: alerts_def seg_waiting_def)
next
  case (Some q)
  with f obtain d q' where q': "find_segment j s' = Some q'" "merged_queue q d q'" by auto
  show ?thesis
  proof (cases "q' = q")
    case True
    have "in_retry s' w = in_retry s w" for w by (rule in_retry_cong) (simp add: same_rest_fields(1)[OF rest])
    then have "ready_events j s' = ready_events j s"
      unfolding ready_events_def pending_in_segment[OF inv(2) q'(1)] pending_in_segment[OF inv(1) Some] True by simp
    moreover have "conn_stopped c s' = conn_stopped c s" for c
      using same_rest_fields(3,4)[OF rest] same_conns_requeue[of s] by (simp add: conn_stopped_def requeue_retries_def)
    moreover have "seg_cond j s' = seg_cond j s @ replicate 0 Signal" using q'(1) Some True by (simp add: seg_cond_def)
    ultimately show ?thesis unfolding alerts_def by (metis add.right_neutral order_refl)
  next
    case False
    with q'(2) obtain d' where "any_merge (any_wakeup q) d = Inr (q', d')" unfolding merged_queue_def by blast
    from any_merge_notes[OF this] have "any_waiting q \<noteq> 0 \<Longrightarrow> seg_cond j s' = seg_cond j s @ [] @ [Broadcast]"
      using q'(1) Some by (simp add: seg_cond_def any_wakeup_notes)
    then show ?thesis using Some unfolding alerts_def seg_waiting_def by (metis option.simps(5))
  qed
qed

lemma seg_feed_alerts:
  assumes "seg_feed s ws s'" "seg_inv s"
  shows "alerts j s s'"
  using assms(1)
proof (cases rule: seg_feed.cases)
  case (event api now i w k prio ph)
  then obtain q q' where q: "find_segment i s = Some (AnyEvent q)" "s' = put_segment i (AnyEvent q') s"
    and add: "add_event now w k prio (opt_parent_info api ph) q = Inr q'"
    by (auto simp: queue_workflow_event_def event_segment_iff)
  have inv: "event_inv q" using find_segment_inv[OF assms(2) q(1)] by simp
  show ?thesis unfolding q(2)
    by (rule single_alerts[OF assms(2) q(1) add_event_work[OF inv add] add_event_signals[OF inv add]])
next
  case (async api now i w k prio c key d ph)
  then obtain q q' where q: "find_segment i s = Some (AnyAsync q)" "s' = put_segment i (AnyAsync q') s"
    and add: "add_async_event now w k prio c (opt_parent_info api ph) key d q = Inr q'"
    by (auto simp: queue_async_event_def async_segment_iff)
  have inv: "async_inv q" using find_segment_inv[OF assms(2) q(1)] by simp
  show ?thesis unfolding q(2)
    by (rule single_alerts[OF assms(2) q(1) add_async_work[OF inv add] add_async_signals[OF inv add]])
next
  case (sub api now i w k prio st sw ph)
  then obtain q q' where q: "find_segment i s = Some (AnySub q)" "s' = put_segment i (AnySub q') s"
    and add: "add_subworkflow_event now w k prio (opt_parent_info api ph) st sw q = Inr q'"
    by (auto simp: queue_subworkflow_event_def sub_segment_iff)
  have inv: "sub_inv q" using find_segment_inv[OF assms(2) q(1)] by simp
  show ?thesis unfolding q(2)
    by (rule single_alerts[OF assms(2) q(1) add_sub_work[OF inv add] add_sub_signals[OF inv add]])
next
  case (init_event api i l)
  then obtain q q' where q: "find_segment i s = Some (AnyEvent q)" "s' = put_segment i (any_wakeup (AnyEvent q')) s"
    and r: "rfold (init_event_step api) q l = Inr q'"
    by (auto simp: init_event_queue_def event_segment_iff)
  have inv: "event_inv q" using find_segment_inv[OF assms(2) q(1)] by simp
  have "any_waiting (AnyEvent q') = any_waiting (AnyEvent q) \<and> (\<exists>ns. any_cond (AnyEvent q') = any_cond (AnyEvent q) @ ns)"
  proof (rule fold_notes[OF r, of event_inv AnyEvent])
    fix q v q' assume "event_inv q" "init_event_step api q v = Inr q'"
    moreover from this obtain t w k prio p where "add_event t w k prio p q = Inr q'" by (auto simp: init_event_step_def)
    ultimately show "event_inv q' \<and> any_waiting (AnyEvent q') = any_waiting (AnyEvent q) \<and>
      (\<exists>ns. any_cond (AnyEvent q') = any_cond (AnyEvent q) @ ns)"
      using add_event_done add_event_signals[of q t w k prio p q'] unfolding signals_new_def by blast
  qed (fact inv)
  then show ?thesis using seg_feed_inv[OF assms] unfolding q(2) init_event(1)
    by (intro listed_alerts[OF assms(2) q(1)]) simp_all
next
  case (init_async api i l)
  then obtain q q' where q: "find_segment i s = Some (AnyAsync q)" "s' = put_segment i (any_wakeup (AnyAsync q')) s"
    and r: "rfold (init_async_step api) q l = Inr q'"
    by (auto simp: init_async_queue_def async_segment_iff)
  have inv: "async_inv q" using find_segment_inv[OF assms(2) q(1)] by simp
  have "any_waiting (AnyAsync q') = any_waiting (AnyAsync q) \<and> (\<exists>ns. any_cond (AnyAsync q') = any_cond (AnyAsync q) @ ns)"
  proof (rule fold_notes[OF r, of async_inv AnyAsync])
    fix q v q' assume "async_inv q" "init_async_step api q v = Inr q'"
    moreover from init_async_step_adds[OF this(2)] obtain t w k prio c p key d where
      "add_async_event t w k prio c p key d q = Inr q'" by blast
    ultimately show "async_inv q' \<and> any_waiting (AnyAsync q') = any_waiting (AnyAsync q) \<and>
      (\<exists>ns. any_cond (AnyAsync q') = any_cond (AnyAsync q) @ ns)"
      using add_async_done add_async_signals[of q t w k prio c p key d q'] unfolding signals_new_def by blast
  qed (fact inv)
  then show ?thesis using seg_feed_inv[OF assms] unfolding q(2) init_async(1)
    by (intro listed_alerts[OF assms(2) q(1)]) simp_all
next
  case (init_sub api i l)
  then obtain q q' where q: "find_segment i s = Some (AnySub q)" "s' = put_segment i (any_wakeup (AnySub q')) s"
    and r: "rfold (init_sub_step api) q l = Inr q'"
    by (auto simp: init_subworkflow_queue_def sub_segment_iff)
  have inv: "sub_inv q" using find_segment_inv[OF assms(2) q(1)] by simp
  have "any_waiting (AnySub q') = any_waiting (AnySub q) \<and> (\<exists>ns. any_cond (AnySub q') = any_cond (AnySub q) @ ns)"
  proof (rule fold_notes[OF r, of sub_inv AnySub])
    fix q v q' assume "sub_inv q" "init_sub_step api q v = Inr q'"
    moreover from this obtain t w k prio p st sw where "add_subworkflow_event t w k prio p st sw q = Inr q'"
      by (auto simp: init_sub_step_def Let_def)
    ultimately show "sub_inv q' \<and> any_waiting (AnySub q') = any_waiting (AnySub q) \<and>
      (\<exists>ns. any_cond (AnySub q') = any_cond (AnySub q) @ ns)"
      using add_sub_done add_sub_signals[of q t w k prio p st sw q'] unfolding signals_new_def by blast
  qed (fact inv)
  then show ?thesis using seg_feed_inv[OF assms] unfolding q(2) init_sub(1)
    by (intro listed_alerts[OF assms(2) q(1)]) simp_all
next
  case (merge t t')
  from merge_all_ok[OF merge(1) assms(2) merge(2-4)] show ?thesis
    by (intro merge_alerts[OF assms(2), of s' t]) blast+
qed

section \<open>All steps of the threads\<close>

lemma alerts_refs:
  assumes "\<And>v. in_retry s v \<Longrightarrow> in_retry s' v" "backend_queue_map s' = backend_queue_map s"
    "sq_term s' = sq_term s" "conn_set s' = conn_set s"
  shows "alerts i s s'"
  by (rule alerts_conns) (simp_all add: assms same_conns_def)

lemma alerts_round: "seg_round conn i s a s' \<Longrightarrow> alerts j s s'"
  by (rule alerts_quiet) (auto simp: seg_round_def)

lemma take_retry_conns: "take_retry r x s = Inr (a, s') \<Longrightarrow>
    same_conns s s' \<and> (\<forall>v. in_retry s v \<longrightarrow> in_retry s' v)"
  by (auto simp: take_retry_def mark_in_progress_def put_refs_def same_conns_def in_retry_def seg_refs_def
    split: option.split_asm)

lemma retry_attempt_conns:
  assumes r: "retry_attempt api conn cn s = Inr (a, s')"
  shows "same_conns s s' \<and> (\<forall>v. in_retry s v \<longrightarrow> in_retry s' v)"
proof (cases "conn_stopped conn s \<or> conn \<in> set (retry_conn_set s)")
  case True
  with r show ?thesis by (auto simp: retry_attempt_def same_conns_def in_retry_def seg_refs_def split: if_splits)
next
  case False
  with r obtain retry async where v: "get_retry_values api (fst cn) conn = Inr (retry, async)"
    by (auto simp: retry_attempt_def)
  obtain fi ri ari trig where se: "retry_search retry async s = (fi, ri, ari, trig)"
    by (metis prod_cases4)
  from False r show ?thesis
    by (auto simp: retry_attempt_def v se Let_def same_conns_def in_retry_def seg_refs_def
      dest!: take_retry_conns split: if_splits)
qed

lemma alerts_release:
  assumes inv: "seg_inv s"
  shows "alerts i s (backend_broadcast (s\<lparr>workflow_seg_map := m\<rparr>))"
proof -
  let ?s = "backend_broadcast (s\<lparr>workflow_seg_map := m\<rparr>)"
  have f: "find_segment i ?s = map_option (\<lambda>q. if any_map q \<noteq> [] then any_wakeup q else q) (find_segment i s)"
    unfolding find_backend_broadcast by (simp add: find_segment_def)
  have p: "pending ?s = pending s" by simp (rule pending_same, simp)
  have c: "conn_stopped c ?s = conn_stopped c s" for c by (simp add: conn_stopped_def backend_broadcast_def)
  show ?thesis
  proof (cases "find_segment i s")
    case None
    then show ?thesis by (simp add: alerts_def seg_waiting_def)
  next
    case (Some q)
    show ?thesis
    proof (cases "any_map q = []")
      case True
      then have "queue_work i q = {}" by (simp add: queue_work_def mm_vals_def)
      then have "ready_events i ?s = {}"
        unfolding ready_events_def p using pending_in_segment[OF inv Some] by blast
      moreover have "seg_cond i ?s = seg_cond i s @ replicate 0 Signal" using f Some True by (simp add: seg_cond_def)
      ultimately show ?thesis using c unfolding alerts_def by (metis card.empty le0)
    next
      case False
      then have "any_waiting q \<noteq> 0 \<Longrightarrow> seg_cond i ?s = seg_cond i s @ [] @ [Broadcast]"
        using f Some by (simp add: seg_cond_def any_wakeup_notes)
      then show ?thesis using Some unfolding alerts_def seg_waiting_def by (metis option.simps(5))
    qed
  qed
qed

lemma quiet_step_alerts:
  assumes st: "quiet_step z z'" and inv: "sys_inv z"
    and w: "seg_waiting i (ss_queue z') = seg_waiting i (ss_queue z)"
  shows "alerts i (ss_queue z) (ss_queue z')"
proof -
  from inv have si: "seg_inv (ss_queue z)" by (simp add: sys_inv_def)
  show ?thesis using st
  proof (cases rule: quiet_step.cases)
    case (update s')
    with seg_update_alerts[OF update(2) si] w show ?thesis by simp
  next
    case (grab w s')
    then show ?thesis
      by (intro alerts_refs) (auto simp: grab_segment_inc_def put_refs_def in_retry_def seg_refs_def split: option.splits if_splits)
  next
    case (grab_refused w s')
    then show ?thesis
      by (intro alerts_refs) (auto simp: grab_segment_inc_def put_refs_def split: option.splits if_splits)
  next
    case (no_event conn i s')
    from alerts_round[OF backend_round_parts[OF si no_event(2)]] no_event(1) show ?thesis by simp
  next
    case (wait_event conn i u s')
    from alerts_round[OF backend_round_parts[OF si wait_event(2)]] wait_event(1) show ?thesis by simp
  next
    case (release w s')
    have pos: "seg_refs w (ss_queue z) = Some (int (ss_held z w))"
      using refs_agree_held[of "ss_queue z" "ss_held z" "ss_retrying z" w] inv release(2) by (simp add: sys_inv_def)
    then show ?thesis using release
      by (intro alerts_refs)
        (auto simp: release_segment_def put_refs_def in_retry_def seg_refs_def Let_def split: option.splits if_splits)
  next
    case (take_retry api conn cn h s' w)
    with alerts_conns retry_attempt_conns[OF take_retry(2)] show ?thesis by simp
  next
    case (no_retry api conn cn s')
    with alerts_conns retry_attempt_conns[OF no_retry(2)] show ?thesis by simp
  next
    case (sleep_retry api conn cn v s')
    with alerts_conns retry_attempt_conns[OF sleep_retry(2)] show ?thesis by simp
  next
    case (wake_retry v)
    then show ?thesis
      by (intro alerts_refs) (auto simp: retry_resume_def Let_def in_retry_def seg_refs_def split: retry_wait.splits)
  next
    case (release_retry w s')
    let ?t = "ss_queue z\<lparr>workflow_seg_map := om_del w (workflow_seg_map (ss_queue z))\<rparr>"
    from release_retry have s': "s' = backend_broadcast ?t" by (auto simp: release_retry_segment_def split: option.splits)
    then show ?thesis using alerts_release[OF si] release_retry(1) by simp
  qed
qed

end
