(* ===== verification/Segment_Wakeups.thy ===== *)
theory Segment_Wakeups
  imports Segment_Notices
begin

text \<open>
  Threads that fall asleep in the three calls for back end events, the notifications that wake them, and their
  return to the critical section.  No wake-up is lost.
\<close>

section \<open>Threads that sleep\<close>

text \<open>
  For each segment the connections of the threads that are asleep, and of those that were woken and have not
  entered the critical section yet.  \<open>work\<close> is a critical section that does not sleep; it wakes the threads
  that its notifications reach.  A thread can wake up without a notification (\<open>spurious\<close>).  A
  thread that was woken ends its wait and makes its next round in one critical section.
\<close>

record cond_system =
  cs_sys :: seg_system
  cs_asleep :: "int \<Rightarrow> int list"
  cs_notified :: "int \<Rightarrow> int list"

definition initial_cond :: cond_system where
  "initial_cond = \<lparr>cs_sys = initial_system, cs_asleep = (\<lambda>_. []), cs_notified = (\<lambda>_. [])\<rparr>"

abbreviation cs_queue :: "cond_system \<Rightarrow> seg_queue" where
  "cs_queue c \<equiv> ss_queue (cs_sys c)"

definition return_round :: "int \<Rightarrow> int \<Rightarrow> seg_queue \<Rightarrow> ((unit, qhash option) attempt \<times> seg_queue) result" where
  "return_round conn i s = backend_round conn i (backend_resume i () s)"

inductive cond_step :: "cond_system \<Rightarrow> cond_system \<Rightarrow> bool" where
  work: "seg_step (cs_sys c) z' \<Longrightarrow> \<forall>i. seg_waiting i (ss_queue z') = seg_waiting i (cs_queue c) \<Longrightarrow>
    \<forall>i. \<exists>ns. seg_cond i (ss_queue z') = seg_cond i (cs_queue c) @ ns \<and>
      wakes ns (cs_asleep c i, cs_notified c i) (A' i, N' i) \<Longrightarrow>
    cond_step c \<lparr>cs_sys = z', cs_asleep = A', cs_notified = N'\<rparr>"
| sleep: "backend_round conn i (cs_queue c) = Inr (Waiting u, s') \<Longrightarrow>
    cond_step c \<lparr>cs_sys = cs_sys c\<lparr>ss_queue := s'\<rparr>, cs_asleep = (cs_asleep c)(i := conn # cs_asleep c i),
      cs_notified = cs_notified c\<rparr>"
| spurious: "conn \<in> set (cs_asleep c i) \<Longrightarrow>
    cond_step c \<lparr>cs_sys = cs_sys c, cs_asleep = (cs_asleep c)(i := remove1 conn (cs_asleep c i)),
      cs_notified = (cs_notified c)(i := conn # cs_notified c i)\<rparr>"
| again: "conn \<in> set (cs_notified c i) \<Longrightarrow> return_round conn i (cs_queue c) = Inr (Waiting u, s') \<Longrightarrow>
    cond_step c \<lparr>cs_sys = cs_sys c\<lparr>ss_queue := s'\<rparr>, cs_asleep = (cs_asleep c)(i := conn # cs_asleep c i),
      cs_notified = (cs_notified c)(i := remove1 conn (cs_notified c i))\<rparr>"
| leave: "conn \<in> set (cs_notified c i) \<Longrightarrow> return_round conn i (cs_queue c) = Inr (Finished None, s') \<Longrightarrow>
    cond_step c \<lparr>cs_sys = cs_sys c\<lparr>ss_queue := s'\<rparr>, cs_asleep = cs_asleep c,
      cs_notified = (cs_notified c)(i := remove1 conn (cs_notified c i))\<rparr>"
| receive: "conn \<in> set (cs_notified c i) \<Longrightarrow> return_round conn i (cs_queue c) = Inr (Finished (Some h), s') \<Longrightarrow>
    event_wfiid h w \<Longrightarrow>
    cond_step c \<lparr>cs_sys = cs_sys c\<lparr>ss_queue := s', ss_held := (ss_held (cs_sys c))(w := ss_held (cs_sys c) w + 1)\<rparr>,
      cs_asleep = cs_asleep c, cs_notified = (cs_notified c)(i := remove1 conn (cs_notified c i))\<rparr>"

inductive cond_reachable :: "cond_system \<Rightarrow> bool" where
  init: "cond_reachable initial_cond"
| step: "cond_reachable c \<Longrightarrow> cond_step c c' \<Longrightarrow> cond_reachable c'"

text \<open>The threads woken that can take an event: those whose connection was not stopped.\<close>

definition live :: "seg_queue \<Rightarrow> int list \<Rightarrow> int list" where
  "live s cs = filter (\<lambda>c. \<not> conn_stopped c s) cs"

definition segment_awake :: "int \<Rightarrow> seg_queue \<Rightarrow> int list \<Rightarrow> int list \<Rightarrow> bool" where
  "segment_awake i s A N \<longleftrightarrow> seg_waiting i s = int (length A + length N) \<and> live s A = A \<and>
     (A \<noteq> [] \<longrightarrow> card (ready_events i s) \<le> length (live s N))"

definition cond_inv :: "cond_system \<Rightarrow> bool" where
  "cond_inv c \<longleftrightarrow> reachable (cs_sys c) \<and>
     (\<forall>i. segment_awake i (cs_queue c) (cs_asleep c i) (cs_notified c i))"

lemma live_all: "live s A = A \<longleftrightarrow> (\<forall>c\<in>set A. \<not> conn_stopped c s)"
  by (simp add: live_def filter_id_conv)

lemma live_cong: "(\<And>c. conn_stopped c s' = conn_stopped c s) \<Longrightarrow> live s' = live s"
  by (simp add: live_def fun_eq_iff)

lemma live_mono: "(\<And>c. conn_stopped c s' \<Longrightarrow> conn_stopped c s) \<Longrightarrow> length (live s N) \<le> length (live s' N)"
  by (induction N) (auto simp: live_def)

lemma length_remove1_Suc: "c \<in> set N \<Longrightarrow> length N = Suc (length (remove1 c N))"
  by (induction N) auto

lemma live_remove1:
  "c \<in> set N \<Longrightarrow> \<not> conn_stopped c s \<Longrightarrow> Suc (length (live s (remove1 c N))) = length (live s N)"
  "conn_stopped c s \<Longrightarrow> live s (remove1 c N) = live s N"
  by (induction N) (auto simp: live_def)

lemma awake_work:
  assumes al: "alerts i s s'" and c: "seg_cond i s' = seg_cond i s @ ns" and w: "wakes ns (A, N) (A', N')"
    and aw: "segment_awake i s A N" and same: "seg_waiting i s' = seg_waiting i s"
  shows "segment_awake i s' A' N'"
proof -
  from wakes_threads[OF w] have th: "length A' + length N' = length A + length N" "set A' \<subseteq> set A" by simp_all
  consider "A' = []" | n where "ns = replicate n Signal" "\<forall>c. conn_stopped c s' \<longrightarrow> conn_stopped c s"
      "card (ready_events i s') \<le> card (ready_events i s) + n"
    using al unfolding alerts_def
  proof (elim disjE)
    assume "seg_waiting i s = 0"
    then have "length A + length N = 0" using aw by (simp add: segment_awake_def del: of_nat_add)
    then have "A = []" by simp
    then show ?thesis using th(2) that(1) by simp
  next
    assume "\<exists>ns. seg_cond i s' = seg_cond i s @ ns @ [Broadcast]"
    then obtain ns1 where "ns = ns1 @ [Broadcast]" using c by auto
    with wakes_all w have "A' = []" by fastforce
    then show ?thesis by (rule that(1))
  qed (use c that(2) in auto)
  then show ?thesis
  proof cases
    case 1
    with aw same th(1) show ?thesis by (simp add: segment_awake_def live_def)
  next
    case (2 n)
    have lA: "\<forall>c\<in>set A. \<not> conn_stopped c s" using aw by (simp add: segment_awake_def live_all)
    then have "live s' A' = A'" using 2(2) th(2) by (auto simp: live_all)
    moreover have "card (ready_events i s') \<le> length (live s' N')" if "A' \<noteq> []"
    proof -
      have "length (live s N') = length (live s N) + n"
        using wakes_each[of n "(A, N)" "(A', N')" "\<lambda>c. \<not> conn_stopped c s"] w 2(1) that lA by (simp add: live_def)
      moreover have "A \<noteq> []" using that th(2) by auto
      then have "card (ready_events i s) \<le> length (live s N)" using aw by (simp add: segment_awake_def)
      moreover have "length (live s N') \<le> length (live s' N')" using 2(2) by (intro live_mono) blast
      ultimately show ?thesis using 2(3) by linarith
    qed
    ultimately show ?thesis using aw same th(1) by (simp add: segment_awake_def)
  qed
qed

text \<open>A thread that comes back ends its wait first.\<close>

lemma resume_parts:
  assumes "find_segment i s \<noteq> None"
  shows "seg_waiting j (backend_resume i u s) = seg_waiting j s - (if j = i then 1 else 0)"
    "seg_cond j (backend_resume i u s) = seg_cond j s" "pending (backend_resume i u s) = pending s"
    "in_retry (backend_resume i u s) w = in_retry s w" "conn_stopped c (backend_resume i u s) = conn_stopped c s"
    "ready_events j (backend_resume i u s) = ready_events j s"
proof -
  show p: "pending (backend_resume i u s) = pending s" by (rule pending_resume)
  have r: "in_retry (backend_resume i u s) w = in_retry s w" for w
    by (rule in_retry_cong) (simp add: backend_resume_def)
  then show "in_retry (backend_resume i u s) w = in_retry s w" .
  show "ready_events j (backend_resume i u s) = ready_events j s" unfolding ready_events_def p r ..
  show "conn_stopped c (backend_resume i u s) = conn_stopped c s" by (simp add: conn_stopped_def backend_resume_def)
  show "seg_waiting j (backend_resume i u s) = seg_waiting j s - (if j = i then 1 else 0)"
    "seg_cond j (backend_resume i u s) = seg_cond j s"
    using assms by (auto simp: seg_waiting_def seg_cond_def find_resume any_wait_end_notes split: option.split)
qed

lemma awake_other:
  assumes r: "seg_round conn i s a s'" and ne: "j \<noteq> i" and aw: "segment_awake j s A N"
  shows "segment_awake j s' A N"
proof -
  have "card (ready_events j s') \<le> card (ready_events j s)"
    using r by (intro ready_mono) (auto simp: seg_round_def)
  moreover have "live s' = live s" by (rule live_cong) (use r in \<open>simp add: seg_round_def\<close>)
  moreover have "seg_waiting j s' = seg_waiting j s" using r ne by (simp add: seg_round_def)
  ultimately show ?thesis using aw by (auto simp: segment_awake_def)
qed

lemma awake_sleep:
  assumes r: "seg_round conn i s (Waiting u) s'" and aw: "segment_awake i s A N"
  shows "segment_awake i s' (conn # A) N"
proof -
  have "card (ready_events i s') \<le> card (ready_events i s)"
    using r by (intro ready_mono) (auto simp: seg_round_def)
  moreover have "live s' = live s" by (rule live_cong) (use r in \<open>simp add: seg_round_def\<close>)
  moreover have "ready_events i s = {}" "\<not> conn_stopped conn s" "seg_waiting i s' = seg_waiting i s + 1"
    using r by (simp_all add: seg_round_def)
  ultimately show ?thesis using aw by (simp add: segment_awake_def live_def)
qed

text \<open>What the threads of the segment are before a thread that was woken makes its round.\<close>

lemma awake_resumed:
  assumes aw: "segment_awake i s A N" and c: "conn \<in> set N" and f: "find_segment i s \<noteq> None"
  shows "seg_waiting i (backend_resume i () s) = int (length A + length (remove1 conn N)) \<and> live (backend_resume i () s) A = A \<and>
    (A \<noteq> [] \<longrightarrow> card (ready_events i (backend_resume i () s)) \<le>
      length (live s (remove1 conn N)) + (if conn_stopped conn s then 0 else 1))"
proof -
  have "live (backend_resume i () s) = live s" by (rule live_cong) (simp add: resume_parts(5)[OF f])
  moreover have "length N = Suc (length (remove1 conn N))" by (rule length_remove1_Suc[OF c])
  then have "int (length A + length (remove1 conn N)) = int (length A + length N) - 1" by simp
  moreover have "length (live s N) \<le> length (live s (remove1 conn N)) + (if conn_stopped conn s then 0 else 1)"
    using live_remove1(1)[OF c, of s] live_remove1(2)[of conn s N] by auto
  ultimately show ?thesis using aw by (auto simp: segment_awake_def resume_parts[OF f])
qed

lemma round_segment: "backend_round conn i (backend_resume i u s) = Inr r \<Longrightarrow> find_segment i s \<noteq> None"
  by (auto simp: backend_round_def find_resume split: option.split_asm)

lemma awake_return_other:
  assumes inv: "seg_inv s" and r: "return_round conn i s = Inr (a, s')" and ne: "j \<noteq> i"
    and aw: "segment_awake j s A N"
  shows "segment_awake j s' A N"
proof -
  note f = round_segment[OF r[unfolded return_round_def]]
  have "live (backend_resume i () s) = live s" by (rule live_cong) (simp add: resume_parts(5)[OF f])
  with aw ne have "segment_awake j (backend_resume i () s) A N"
    by (simp add: segment_awake_def resume_parts[OF f])
  from awake_other[OF backend_round_parts[OF backend_resume_inv[OF inv] r[unfolded return_round_def]] ne this]
  show ?thesis .
qed

lemma awake_return:
  assumes inv: "seg_inv s" and r: "return_round conn i s = Inr (a, s')" and c: "conn \<in> set N"
    and aw: "segment_awake i s A N"
  shows "segment_awake i s' (case a of Waiting _ \<Rightarrow> conn # A | Finished _ \<Rightarrow> A) (remove1 conn N)"
proof -
  let ?t = "backend_resume i () s"
  note f = round_segment[OF r[unfolded return_round_def]]
  have rd: "seg_round conn i ?t a s'"
    by (rule backend_round_parts[OF backend_resume_inv[OF inv] r[unfolded return_round_def]])
  note p = awake_resumed[OF aw c f]
  have stopped: "conn_stopped x s' = conn_stopped x s" for x
    using rd by (simp add: seg_round_def resume_parts(5)[OF f])
  then have l: "live s' = live s" by (rule live_cong)
  have "live s A = A" using aw by (simp add: segment_awake_def)
  show ?thesis
  proof (cases a)
    case (Waiting u)
    then have "ready_events i ?t = {}" "\<not> conn_stopped conn s" "pending s' \<subseteq> pending ?t"
      "\<And>w. in_retry s' w = in_retry ?t w" "seg_waiting i s' = seg_waiting i ?t + 1"
      using rd by (simp_all add: seg_round_def resume_parts(5)[OF f])
    moreover from this(1,3,4) have "card (ready_events i s') = 0"
      using ready_mono[of s' ?t i] by simp
    ultimately show ?thesis using Waiting p \<open>live s A = A\<close> by (simp add: segment_awake_def l) (simp add: live_def)
  next
    case (Finished ho)
    then have w: "seg_waiting i s' = seg_waiting i ?t" using rd by (simp add: seg_round_def)
    have "card (ready_events i s') + (if conn_stopped conn s then 0 else 1) \<le> card (ready_events i ?t)"
    proof (cases ho)
      case None
      have "card (ready_events i s') \<le> card (ready_events i ?t)"
        using rd by (intro ready_mono) (auto simp: seg_round_def)
      then show ?thesis using None Finished rd by (simp add: seg_round_def resume_parts(5)[OF f])
    next
      case (Some h)
      then show ?thesis using Finished rd by (simp add: seg_round_def resume_parts(5)[OF f])
    qed
    with p w \<open>live s A = A\<close> show ?thesis by (auto simp: Finished segment_awake_def l)
  qed
qed

lemma backend_round_total:
  assumes inv: "seg_inv s" and f: "find_segment i s = Some q"
  shows "\<exists>a s'. backend_round conn i s = Inr (a, s')"
proof (cases q)
  case (AnyEvent q1)
  with f show ?thesis by (auto simp: backend_round_def event_attempt_ok[OF inv] split: option.split)
next
  case (AnyAsync q2)
  with f show ?thesis by (auto simp: backend_round_def async_attempt_ok[OF inv] split: option.split)
next
  case (AnySub q3)
  with f show ?thesis by (auto simp: backend_round_def sub_attempt_ok[OF inv] split: option.split)
qed

lemma cond_inv_init: "cond_inv initial_cond"
  using reachable.init
  by (auto simp: cond_inv_def initial_cond_def segment_awake_def live_def seg_waiting_def find_segment_def)
    (simp add: initial_system_def new_SegmentEventQueue_def)

lemma reachable_round: "reachable z \<Longrightarrow> backend_round conn i (ss_queue z) = Inr (Waiting u, s') \<Longrightarrow> reachable (z\<lparr>ss_queue := s'\<rparr>)"
  by (rule reachable.step[OF _ seg_step.quiet[OF quiet_step.wait_event]])

lemma reachable_resume: "reachable z \<Longrightarrow> reachable (z\<lparr>ss_queue := backend_resume i u (ss_queue z)\<rparr>)"
  by (rule reachable.step[OF _ seg_step.quiet[OF quiet_step.update[OF seg_update.backend_wake]]])

lemma reachable_return:
  assumes "reachable z" "return_round conn i (ss_queue z) = Inr (a, s')"
  shows "case a of Finished (Some h) \<Rightarrow> event_wfiid h w \<longrightarrow>
      reachable (z\<lparr>ss_queue := s', ss_held := (ss_held z)(w := ss_held z w + 1)\<rparr>)
    | _ \<Rightarrow> reachable (z\<lparr>ss_queue := s'\<rparr>)"
proof -
  let ?z = "z\<lparr>ss_queue := backend_resume i () (ss_queue z)\<rparr>"
  have r: "reachable ?z" by (rule reachable_resume[OF assms(1)])
  have b: "backend_round conn i (ss_queue ?z) = Inr (a, s')" using assms(2) by (simp add: return_round_def)
  show ?thesis
  proof (cases a)
    case (Waiting u)
    with reachable_round[OF r] b show ?thesis by simp
  next
    case (Finished ho)
    then show ?thesis
      using reachable.step[OF r seg_step.quiet[OF quiet_step.no_event]] reachable.step[OF r seg_step.take_event] b
      by (cases ho) auto
  qed
qed

lemma cond_inv_step:
  assumes "cond_step c c'" "cond_inv c"
  shows "cond_inv c'"
proof -
  from assms(2) have re: "reachable (cs_sys c)" and aw: "segment_awake i (cs_queue c) (cs_asleep c i) (cs_notified c i)" for i
    by (simp_all add: cond_inv_def)
  have sys: "sys_inv (cs_sys c)" by (rule reachable_inv[OF re])
  then have inv: "seg_inv (cs_queue c)" by (simp add: sys_inv_def)
  show ?thesis using assms(1)
  proof (cases rule: cond_step.cases)
    case (work z' A' N')
    have "alerts i (cs_queue c) (ss_queue z')" for i
      using work(2)
    proof (cases rule: seg_step.cases)
      case quiet
      with quiet_step_alerts[OF _ sys] work(3) show ?thesis by blast
    next
      case (feed ws s')
      with seg_feed_alerts[OF _ inv] show ?thesis by simp
    next
      case (take_event conn j h s' w)
      with alerts_round[OF backend_round_parts[OF inv]] show ?thesis by simp
    qed
    then have "segment_awake i (ss_queue z') (A' i) (N' i)" for i
      using work(3,4) awake_work[OF _ _ _ aw] by blast
    with work(1) reachable.step[OF re work(2)] show ?thesis by (simp add: cond_inv_def)
  next
    case (sleep conn i u s')
    note r = backend_round_parts[OF inv sleep(2)]
    with awake_sleep[OF r aw] awake_other[OF r _ aw] reachable_round[OF re sleep(2)] show ?thesis
      by (simp add: cond_inv_def sleep(1))
  next
    case (spurious conn i)
    have "segment_awake i (cs_queue c) (remove1 conn (cs_asleep c i)) (conn # cs_notified c i)"
    proof -
      have l: "live (cs_queue c) (cs_asleep c i) = cs_asleep c i" using aw by (simp add: segment_awake_def)
      then have "\<not> conn_stopped conn (cs_queue c)" using spurious(2) by (simp add: live_all)
      moreover have "live (cs_queue c) (remove1 conn (cs_asleep c i)) = remove1 conn (cs_asleep c i)"
        using l set_remove1_subset[of conn "cs_asleep c i"] by (auto simp: live_all)
      moreover have "length (cs_asleep c i) = Suc (length (remove1 conn (cs_asleep c i)))"
        by (rule length_remove1_Suc[OF spurious(2)])
      ultimately show ?thesis using aw[of i] by (auto simp: segment_awake_def) (auto simp: live_def)
    qed
    with aw re show ?thesis by (simp add: cond_inv_def spurious(1))
  next
    case (again conn i u s')
    note r = again(3)
    from awake_return[OF inv r again(2) aw] awake_return_other[OF inv r _ aw] reachable_return[OF re r]
    show ?thesis by (simp add: cond_inv_def again(1))
  next
    case (leave conn i s')
    note r = leave(3)
    from awake_return[OF inv r leave(2) aw] awake_return_other[OF inv r _ aw] reachable_return[OF re r]
    show ?thesis by (simp add: cond_inv_def leave(1))
  next
    case (receive conn i h s' w)
    note r = receive(3)
    from awake_return[OF inv r receive(2) aw] awake_return_other[OF inv r _ aw] reachable_return[OF re r, of w]
    show ?thesis using receive(4) by (simp add: cond_inv_def receive(1))
  qed
qed

lemma cond_reachable_inv: "cond_reachable c \<Longrightarrow> cond_inv c"
  by (induction rule: cond_reachable.induct) (auto intro: cond_inv_init cond_inv_step)

text \<open>
  C6.  No wake-up is lost: whatever the threads have done, when one of them is asleep although an
  event of its segment could be delivered, then at least as many threads of live connections have been woken
  as there are such events, and each of them gets an event when it enters the critical section.
\<close>

theorem wakeups_not_lost:
  assumes "cond_reachable c" and "cs_asleep c i \<noteq> []"
    and "(i, st, w, k) \<in> pending (cs_queue c)" and "\<not> in_retry (cs_queue c) w"
  shows "card (ready_events i (cs_queue c)) \<le> length (live (cs_queue c) (cs_notified c i)) \<and>
    live (cs_queue c) (cs_notified c i) \<noteq> [] \<and>
    (\<forall>conn\<in>set (live (cs_queue c) (cs_notified c i)).
       \<exists>h s'. return_round conn i (cs_queue c) = Inr (Finished (Some h), s'))"
proof -
  let ?s = "cs_queue c" let ?t = "backend_resume i () ?s"
  have "cond_inv c" by (rule cond_reachable_inv[OF assms(1)])
  then have inv: "seg_inv ?s" and aw: "segment_awake i ?s (cs_asleep c i) (cs_notified c i)"
    using reachable_inv by (auto simp: cond_inv_def sys_inv_def)
  have ready: "(st, w) \<in> ready_events i ?s" using assms(3,4) by (auto simp: ready_events_def)
  then have "card (ready_events i ?s) > 0" by (auto simp: card_gt_0_iff)
  moreover have n: "card (ready_events i ?s) \<le> length (live ?s (cs_notified c i))"
    using aw assms(2) by (simp add: segment_awake_def)
  ultimately have "live ?s (cs_notified c i) \<noteq> []" by auto
  moreover have "\<exists>h s'. return_round conn i ?s = Inr (Finished (Some h), s')"
    if "conn \<in> set (live ?s (cs_notified c i))" for conn
  proof -
    have live: "\<not> conn_stopped conn ?s" using that by (simp add: live_def)
    have "seg_waiting i ?s \<noteq> 0" using aw assms(2) by (simp add: segment_awake_def del: of_nat_add)
    then have f: "find_segment i ?s \<noteq> None" by (auto simp: seg_waiting_def split: option.splits)
    then obtain q where "find_segment i ?t = Some q" by (auto simp: find_resume)
    from backend_round_total[OF backend_resume_inv[OF inv] this, of conn] obtain a s' where
      r: "return_round conn i ?s = Inr (a, s')" unfolding return_round_def by blast
    from backend_round_parts[OF backend_resume_inv[OF inv] r[unfolded return_round_def]] live ready
    show ?thesis using r
      by (cases a) (auto simp: seg_round_def resume_parts[OF f] split: option.splits)
  qed
  ultimately show ?thesis using n by blast
qed

text \<open>Two threads sleep on segment 6; an event is queued and wakes one of them.\<close>

definition waiting_queue :: "int \<Rightarrow> event_queue" where
  "waiting_queue n = new_EventQueue\<lparr>bq_waiting := n\<rparr>"

definition waiting_system :: "int \<Rightarrow> int list \<Rightarrow> cond_system" where
  "waiting_system n cs = \<lparr>cs_sys = initial_system\<lparr>ss_queue := put_segment 6 (AnyEvent (waiting_queue n)) new_SegmentEventQueue\<rparr>,
     cs_asleep = (\<lambda>_. [])(6 := cs), cs_notified = (\<lambda>_. [])\<rparr>"

lemma waiting_system_0: "cond_reachable (waiting_system 0 [])"
proof -
  let ?s1 = "put_segment 6 (AnyEvent new_EventQueue) new_SegmentEventQueue"
  have "seg_update new_SegmentEventQueue ?s1"
    by (rule seg_update.add_event_seg[of 6])
      (simp add: add_event_segment_def add_segment_def find_segment_def new_SegmentEventQueue_def)
  then have st: "seg_step (cs_sys initial_cond) (initial_system\<lparr>ss_queue := ?s1\<rparr>)"
    using seg_step.quiet[OF quiet_step.update, of initial_system ?s1] by (simp add: initial_cond_def initial_system_def)
  have f: "find_segment i new_SegmentEventQueue = None" for i by (simp add: find_segment_def new_SegmentEventQueue_def)
  have "cond_step initial_cond \<lparr>cs_sys = initial_system\<lparr>ss_queue := ?s1\<rparr>, cs_asleep = (\<lambda>_. []), cs_notified = (\<lambda>_. [])\<rparr>"
    by (rule cond_step.work[OF st])
      (auto simp: initial_cond_def initial_system_def seg_waiting_def seg_cond_def f new_EventQueue_def)
  from cond_reachable.step[OF cond_reachable.init this] show ?thesis
    by (simp add: waiting_system_def waiting_queue_def new_EventQueue_def fun_upd_def)
qed

lemma waiting_system_sleep:
  assumes "cond_reachable (waiting_system n cs)"
  shows "cond_reachable (waiting_system (n + 1) (c # cs))"
proof -
  let ?s = "cs_queue (waiting_system n cs)"
  have inv: "seg_inv ?s" using cond_reachable_inv[OF assms] reachable_inv by (auto simp: cond_inv_def sys_inv_def)
  have i: "find_segment 6 ?s = Some (AnyEvent (waiting_queue n))" by (simp add: waiting_system_def)
  have q: "bq_wait_begin (waiting_queue n) = waiting_queue (n + 1)" "bq_map (waiting_queue n) = []"
    by (simp_all add: waiting_queue_def bq_wait_begin_def new_EventQueue_def)
  have go: "\<not> conn_stopped c ?s" by (simp add: waiting_system_def conn_stopped_def new_SegmentEventQueue_def)
  have "backend_round c 6 ?s = Inr (Waiting (), put_segment 6 (AnyEvent (waiting_queue (n + 1))) ?s)"
    using go by (simp add: backend_round_def i event_attempt_ok[OF inv i] q)
  from cond_reachable.step[OF assms cond_step.sleep[OF this]] show ?thesis by (simp add: waiting_system_def)
qed

theorem wakeups_not_lost_witness:
  "\<exists>c. cond_reachable c \<and> cs_asleep c 6 = [2] \<and> cs_notified c 6 = [1] \<and>
     (\<exists>h s'. return_round 1 6 (cs_queue c) = Inr (Finished (Some h), s'))"
proof -
  let ?c = "waiting_system 2 [1, 2]" let ?s = "cs_queue ?c"
  have re: "cond_reachable ?c"
    using waiting_system_sleep[OF waiting_system_sleep[OF waiting_system_0, of 2], of 1] by simp
  let ?e = "EventQueueEntry \<lparr>be_wfiid = 7, be_prio = 500, be_pi = ParentInfo\<rparr> [1]"
  let ?q = "\<lparr>bq_map = [(500, [(0, 100, ?e)])], bq_next = 1, bq_waiting = 2, bq_cond = [Signal], ev_wfmap = [7 \<mapsto> 0]\<rparr>"
  have i: "find_segment 6 ?s = Some (AnyEvent (waiting_queue 2))" by (simp add: waiting_system_def)
  have "add_event 100 7 1 500 ParentInfo (waiting_queue 2) = Inr ?q"
    by (simp add: add_event_def waiting_queue_def new_EventQueue_def bq_signal_def bq_insert_def prio_nodes_def)
  then have "queue_workflow_event undefined 100 6 7 1 500 None ?s = Inr (put_segment 6 (AnyEvent ?q) ?s)"
    by (simp add: queue_workflow_event_def event_segment_def opt_parent_info_def i)
  from seg_step.feed[OF seg_feed.event[OF this]] have
    st: "seg_step (cs_sys ?c) (cs_sys ?c\<lparr>ss_queue := put_segment 6 (AnyEvent ?q) ?s\<rparr>)" .
  let ?c' = "\<lparr>cs_sys = cs_sys ?c\<lparr>ss_queue := put_segment 6 (AnyEvent ?q) ?s\<rparr>, cs_asleep = (\<lambda>_. [])(6 := [2]),
    cs_notified = (\<lambda>_. [])(6 := [1])\<rparr>"
  have w: "wakes [Signal] ([1, 2], []) ([2], [1])" by (rule wakes.signal[of 1]) simp_all
  have "cond_step ?c ?c'"
  proof (rule cond_step.work[OF st])
    show "\<forall>j. seg_waiting j (ss_queue (cs_sys ?c\<lparr>ss_queue := put_segment 6 (AnyEvent ?q) ?s\<rparr>)) = seg_waiting j ?s"
      by (simp add: seg_waiting_def i) (simp add: waiting_queue_def)
    show "\<forall>j. \<exists>ns. seg_cond j (ss_queue (cs_sys ?c\<lparr>ss_queue := put_segment 6 (AnyEvent ?q) ?s\<rparr>)) = seg_cond j ?s @ ns \<and>
        wakes ns (cs_asleep ?c j, cs_notified ?c j) (((\<lambda>_. [])(6 := [2])) j, ((\<lambda>_. [])(6 := [1])) j)"
    proof
      fix j
      show "\<exists>ns. seg_cond j (ss_queue (cs_sys ?c\<lparr>ss_queue := put_segment 6 (AnyEvent ?q) ?s\<rparr>)) = seg_cond j ?s @ ns \<and>
        wakes ns (cs_asleep ?c j, cs_notified ?c j) (((\<lambda>_. [])(6 := [2])) j, ((\<lambda>_. [])(6 := [1])) j)"
        using w i by (cases "j = 6") (auto simp: seg_cond_def waiting_system_def waiting_queue_def new_EventQueue_def)
    qed
  qed
  from cond_reachable.step[OF re this] have re': "cond_reachable ?c'" .
  have "(6, CHR 0x00, 7, 1) \<in> pending (cs_queue ?c')"
    by (auto simp: in_pending waiting_system_def put_segment_def new_SegmentEventQueue_def queue_work_def
      entry_work_def mm_vals_def)
  moreover have "\<not> in_retry (cs_queue ?c') 7"
    by (simp add: in_retry_def seg_refs_def waiting_system_def new_SegmentEventQueue_def)
  ultimately have "\<forall>conn\<in>set (live (cs_queue ?c') (cs_notified ?c' 6)).
       \<exists>h s'. return_round conn 6 (cs_queue ?c') = Inr (Finished (Some h), s')"
    using wakeups_not_lost[OF re', of 6] by simp
  moreover have "1 \<in> set (live (cs_queue ?c') (cs_notified ?c' 6))"
    by (simp add: live_def waiting_system_def conn_stopped_def new_SegmentEventQueue_def)
  ultimately have "\<exists>h s'. return_round 1 6 (cs_queue ?c') = Inr (Finished (Some h), s')" by blast
  with re' show ?thesis by (intro exI[of _ ?c']) simp
qed

end
