(* ===== verification/Segment_Waiting.thy ===== *)
theory Segment_Waiting
  imports Segment_Wakeups
begin

text \<open>
  The blocking calls of the segment event queue end when their connection is stopped.
\<close>

section \<open>Threads of stopped connections\<close>

lemma stopped_round:
  assumes "conn_stopped conn s" "find_segment i s \<noteq> None" "seg_inv s"
  shows "return_round conn i s = Inr (Finished None, backend_resume i () s)"
proof -
  let ?t = "backend_resume i () s"
  from assms(2) obtain q where "find_segment i ?t = Some q" by (auto simp: find_resume)
  from backend_round_total[OF backend_resume_inv[OF assms(3)] this, of conn] obtain a s' where
    r: "backend_round conn i ?t = Inr (a, s')" by blast
  have st: "conn_stopped conn ?t" using assms(1) by (simp add: resume_parts(5)[OF assms(2)])
  from backend_round_parts[OF backend_resume_inv[OF assms(3)] r] st have a: "a = Finished None"
    by (auto simp: seg_round_def split: attempt.splits option.splits)
  from \<open>find_segment i ?t = Some q\<close> r st have "s' = ?t"
    by (cases q)
      (auto simp: backend_round_def event_attempt_ok[OF backend_resume_inv[OF assms(3)]]
        async_attempt_ok[OF backend_resume_inv[OF assms(3)]] sub_attempt_ok[OF backend_resume_inv[OF assms(3)]])
  with r a show ?thesis by (simp add: return_round_def)
qed

lemma terminate_notices:
  "pq_waiting (sq_primary s) \<noteq> 0 \<Longrightarrow>
     pq_cond (sq_primary (terminate_connection conn s)) = pq_cond (sq_primary s) @ [Broadcast]"
  "retry_waiting s \<noteq> 0 \<Longrightarrow> retry_cond (terminate_connection conn s) = retry_cond s @ [Broadcast]"
  "conn_stopped conn (terminate_connection conn s)"
  by (auto simp: terminate_connection_def broadcast_def retry_broadcast_def primary_wakeup_def pq_broadcast_def
      Let_def conn_stopped_def set_insort_insert)

lemma stopped_attempts:
  assumes "conn_stopped conn s"
  shows "primary_attempt conn now (primary_resume t s) = Inr (Finished None, primary_resume t s)"
    "retry_attempt api conn cn (retry_resume v s) = Inr (Finished None, retry_resume v s)"
proof -
  have "conn_stopped conn (primary_resume t s)" "conn_stopped conn (retry_resume v s)"
    using assms by (auto simp: conn_stopped_def primary_resume_def retry_resume_def Let_def split: retry_wait.split)
  then show "primary_attempt conn now (primary_resume t s) = Inr (Finished None, primary_resume t s)"
    "retry_attempt api conn cn (retry_resume v s) = Inr (Finished None, retry_resume v s)"
    by (simp_all add: primary_attempt_def retry_attempt_def)
qed

text \<open>
  C18.  Stopping a connection ends its calls.  Whatever the threads have done, while a connection is
  stopped no thread sleeps for it in the calls for back end events, and one that was woken and has not returned
  yet ends its wait and returns nothing.  And stopping a connection sends a broadcast to the threads that wait
  for primary events and to those that wait for retries; the next round of each of them for this connection ends
  its wait and returns nothing.
\<close>

theorem terminated_calls_return:
  assumes "cond_reachable c" and "conn_stopped conn (cs_queue c)" and "terminate_connection conn s = s'"
  shows "conn \<notin> set (cs_asleep c i) \<and>
    (conn \<in> set (cs_notified c i) \<longrightarrow>
       return_round conn i (cs_queue c) = Inr (Finished None, backend_resume i () (cs_queue c))) \<and>
    (pq_waiting (sq_primary s) \<noteq> 0 \<longrightarrow> pq_cond (sq_primary s') = pq_cond (sq_primary s) @ [Broadcast]) \<and>
    (retry_waiting s \<noteq> 0 \<longrightarrow> retry_cond s' = retry_cond s @ [Broadcast]) \<and>
    primary_attempt conn now (primary_resume t s') = Inr (Finished None, primary_resume t s') \<and>
    retry_attempt api conn cn (retry_resume v s') = Inr (Finished None, retry_resume v s')"
proof -
  have "cond_inv c" by (rule cond_reachable_inv[OF assms(1)])
  then have inv: "seg_inv (cs_queue c)" and aw: "segment_awake i (cs_queue c) (cs_asleep c i) (cs_notified c i)"
    using reachable_inv by (auto simp: cond_inv_def sys_inv_def)
  have "conn \<notin> set (cs_asleep c i)" using aw assms(2) by (auto simp: segment_awake_def live_all)
  moreover have "find_segment i (cs_queue c) \<noteq> None" if "conn \<in> set (cs_notified c i)"
  proof -
    have "seg_waiting i (cs_queue c) \<noteq> 0" using aw that by (auto simp: segment_awake_def simp del: of_nat_add)
    then show ?thesis by (auto simp: seg_waiting_def split: option.splits)
  qed
  moreover have "conn_stopped conn s'" using terminate_notices(3) assms(3) by blast
  ultimately show ?thesis
    using stopped_round[OF assms(2) _ inv] stopped_attempts terminate_notices(1,2)[of s conn] assms(3) by blast
qed

text \<open>Two threads sleep on segment 6; stopping the first connection wakes both, and the first returns.\<close>

theorem terminated_calls_return_witness:
  "\<exists>c s. cond_reachable c \<and> cs_asleep c 6 = [] \<and> cs_notified c 6 = [1, 2] \<and>
     return_round 1 6 (cs_queue c) = Inr (Finished None, backend_resume 6 () (cs_queue c)) \<and>
     pq_waiting (sq_primary s) = 1 \<and> pq_cond (sq_primary (terminate_connection 1 s)) = [Broadcast]"
proof -
  let ?c = "waiting_system 2 [1, 2]" let ?s = "cs_queue ?c"
  have re: "cond_reachable ?c"
    using waiting_system_sleep[OF waiting_system_sleep[OF waiting_system_0, of 2], of 1] by simp
  have i: "find_segment 6 ?s = Some (AnyEvent (waiting_queue 2))" by (simp add: waiting_system_def)
  have o: "j \<noteq> 6 \<Longrightarrow> find_segment j ?s = None" for j
    by (simp add: waiting_system_def) (simp add: find_segment_def new_SegmentEventQueue_def)
  have f: "find_segment j (terminate_connection 1 ?s) = map_option any_wakeup (find_segment j ?s)" for j
    by (simp add: terminate_connection_def find_broadcast) (simp add: find_segment_def)
  have st: "seg_step (cs_sys ?c) (cs_sys ?c\<lparr>ss_queue := terminate_connection 1 ?s\<rparr>)"
    by (rule seg_step.quiet[OF quiet_step.update[OF seg_update.stop]])
  let ?c' = "\<lparr>cs_sys = cs_sys ?c\<lparr>ss_queue := terminate_connection 1 ?s\<rparr>, cs_asleep = (\<lambda>_. []),
    cs_notified = (\<lambda>_. [])(6 := [1, 2])\<rparr>"
  have w: "wakes [Broadcast] ([1, 2], []) ([], [1, 2])" by (rule wakes.broadcast) simp
  have "cond_step ?c ?c'"
  proof (rule cond_step.work[OF st])
    show "\<forall>j. seg_waiting j (ss_queue (cs_sys ?c\<lparr>ss_queue := terminate_connection 1 ?s\<rparr>)) = seg_waiting j ?s"
      by (auto simp: seg_waiting_def f any_wakeup_notes split: option.split)
    show "\<forall>j. \<exists>ns. seg_cond j (ss_queue (cs_sys ?c\<lparr>ss_queue := terminate_connection 1 ?s\<rparr>)) = seg_cond j ?s @ ns \<and>
        wakes ns (cs_asleep ?c j, cs_notified ?c j) ([], ((\<lambda>_. [])(6 := [1, 2])) j)"
    proof
      fix j
      show "\<exists>ns. seg_cond j (ss_queue (cs_sys ?c\<lparr>ss_queue := terminate_connection 1 ?s\<rparr>)) = seg_cond j ?s @ ns \<and>
        wakes ns (cs_asleep ?c j, cs_notified ?c j) ([], ((\<lambda>_. [])(6 := [1, 2])) j)"
      proof (cases "j = 6")
        case True
        have "seg_cond 6 (terminate_connection 1 ?s) = seg_cond 6 ?s @ [Broadcast]"
          using i by (simp add: seg_cond_def f any_wakeup_notes)
            (simp add: waiting_queue_def bq_wakeup_def new_EventQueue_def)
        with w True show ?thesis by (intro exI[of _ "[Broadcast]"]) (simp add: waiting_system_def)
      next
        case False
        then have "seg_cond j (terminate_connection 1 ?s) = seg_cond j ?s" unfolding seg_cond_def f o[OF False] by simp
        moreover have "cs_asleep ?c j = []" "cs_notified ?c j = []" using False by (simp_all add: waiting_system_def)
        ultimately show ?thesis using False by (intro exI[of _ "[]"]) simp
      qed
    qed
  qed
  from cond_reachable.step[OF re this] have re': "cond_reachable ?c'" .
  let ?p = "new_SegmentEventQueue\<lparr>sq_primary := new_PrimaryQueue\<lparr>pq_waiting := 1\<rparr>\<rparr>"
  have st: "conn_stopped 1 (cs_queue ?c')" using terminate_notices(3) by simp
  have "return_round 1 6 (cs_queue ?c') = Inr (Finished None, backend_resume 6 () (cs_queue ?c')) \<and>
    pq_cond (sq_primary (terminate_connection 1 ?p)) = [Broadcast]"
    using terminated_calls_return[where s = ?p and i = 6, OF re' st refl] by (simp add: new_PrimaryQueue_def)
  with re' show ?thesis by (intro exI[of _ ?c'] exI[of _ ?p]) simp
qed

end
