(* ===== verification/Segment_Drain.thy ===== *)
theory Segment_Drain
  imports Segment_Wakeups Segment_Properties
begin

text \<open>
  Consecutive rounds of one thread: they deliver everything that can be delivered, in the order of priority and
  time, and then the thread sleeps.
\<close>

fun backend_rounds :: "int \<Rightarrow> int \<Rightarrow> nat \<Rightarrow> seg_queue \<Rightarrow> ((unit, qhash option) attempt list \<times> seg_queue) result" where
  "backend_rounds conn i 0 s = Inr ([], s)"
| "backend_rounds conn i (Suc n) s = rbind (backend_round conn i s) (\<lambda>(a, s1).
     rbind (backend_rounds conn i n s1) (\<lambda>(as, s2). Inr (a # as, s2)))"

text \<open>The entries of a segment with their priority and time, without those of workflows that are being retried.\<close>

definition deliverable :: "int \<Rightarrow> seg_queue \<Rightarrow> ((int \<times> int) \<times> backend_entry) list" where
  "deliverable i s = (case find_segment i s of None \<Rightarrow> []
     | Some q \<Rightarrow> filter (\<lambda>x. \<not> in_retry s (entry_wfiid (snd x))) (bq_schedule (any_map q)))"

abbreviation deliverable_events :: "int \<Rightarrow> seg_queue \<Rightarrow> backend_entry list" where
  "deliverable_events i s \<equiv> map snd (deliverable i s)"

lemma deliverable_events:
  "find_segment i s = Some q \<Longrightarrow>
     deliverable_events i s = filter (\<lambda>e. \<not> in_retry s (entry_wfiid e)) (mm_vals (map_nodes (any_map q)))"
  by (simp add: deliverable_def entries_schedule[symmetric] filter_map comp_def)

lemma filter_none: "\<forall>x\<in>set xs. P x \<Longrightarrow> filter (\<lambda>x. \<not> P x) xs = []"
  by simp

lemma any_map_drop [simp]: "any_map (any_drop e m q) = m"
  by (cases q) (simp_all add: event_drop_def async_drop_def sub_drop_def set_sub_wfmap_def)

lemma backend_round_next:
  assumes inv: "seg_inv s" and f: "find_segment i s = Some q" and go: "\<not> conn_stopped conn s"
  shows "case deliverable_events i s of
      [] \<Rightarrow> \<exists>s'. backend_round conn i s = Inr (Waiting (), s')
    | e # es \<Rightarrow> \<exists>s'. backend_round conn i s = Inr (Finished (Some (get_hash e)), s') \<and>
      deliverable_events i s' = es \<and> find_segment i s' \<noteq> None"
proof (cases "take_ready (in_retry s) (any_map q)")
  case None
  then have "deliverable_events i s = []"
    unfolding deliverable_events[OF f] by (intro filter_none) (auto simp: take_ready_None mm_vals_def)
  with None go show ?thesis by (simp add: backend_round_eq[OF inv f])
next
  case (Some em)
  then obtain e m where tk: "take_ready (in_retry s) (any_map q) = Some (e, m)" by (cases em) auto
  let ?q = "any_drop e m q"
  let ?s = "put_segment i ?q (put_refs (entry_wfiid e) (grab_count (seg_refs (entry_wfiid e) s)) s)"
  have r: "backend_round conn i s = Inr (Finished (Some (get_hash e)), ?s)"
    using go tk by (simp add: backend_round_eq[OF inv f])
  with backend_round_parts[OF inv r] have retry: "in_retry ?s w = in_retry s w" for w by (simp add: seg_round_def)
  from any_map_ok[OF find_segment_inv[OF inv f]] have "distinct (mm_ids (map_nodes (any_map q)))" by blast
  from take_ready_Some[OF tk this] obtain pre n t post where
    n: "map_nodes (any_map q) = pre @ (n, t, e) # post" "map_nodes m = pre @ post"
    "\<forall>x\<in>set pre. in_retry s (entry_wfiid (snd (snd x)))" "\<not> in_retry s (entry_wfiid e)" by blast
  let ?P = "\<lambda>e. \<not> in_retry s (entry_wfiid e)"
  have pre: "filter ?P (mm_vals pre) = []" using n(3) by (auto simp: mm_vals_def)
  then have "deliverable_events i s = e # filter ?P (mm_vals post)"
    unfolding deliverable_events[OF f] n(1) using n(4) by (simp add: mm_vals_def)
  moreover have f': "find_segment i ?s = Some ?q" by simp
  have "deliverable_events i ?s = filter ?P (mm_vals (pre @ post))"
    by (simp only: deliverable_events[OF f'] retry any_map_drop n(2))
  with pre have "deliverable_events i ?s = filter ?P (mm_vals post)" by (simp add: mm_vals_def)
  ultimately show ?thesis using r f' by simp
qed

lemma rounds_deliver:
  assumes "seg_inv s" "find_segment i s \<noteq> None" "\<not> conn_stopped conn s" "deliverable_events i s = es"
  shows "\<exists>s'. backend_rounds conn i (Suc (length es)) s =
      Inr (map (\<lambda>e. Finished (Some (get_hash e))) es @ [Waiting ()], s') \<and> seg_inv s' \<and>
    (\<forall>st w k. (i, st, w, k) \<in> pending s' \<longrightarrow> in_retry s w)"
  using assms
proof (induction es arbitrary: s)
  case Nil
  then obtain q where "find_segment i s = Some q" by blast
  from backend_round_next[OF Nil(1) this Nil(3), unfolded Nil(4) list.case] obtain s' where
    q: "backend_round conn i s = Inr (Waiting (), s')" by blast
  from backend_round_parts[OF Nil(1) q] have rd: "ready_events i s = {}" "pending s' \<subseteq> pending s"
    by (simp_all add: seg_round_def)
  then have "\<forall>st w k. (i, st, w, k) \<in> pending s' \<longrightarrow> in_retry s w" unfolding ready_events_def by blast
  moreover from backend_round_cases[OF Nil(1) q] have "seg_inv s'" by simp
  ultimately show ?case using q by simp
next
  case (Cons e es)
  then obtain q where q: "find_segment i s = Some q" by blast
  from backend_round_next[OF Cons.prems(1) this Cons.prems(3), unfolded Cons.prems(4) list.case] obtain s1 where
    r: "backend_round conn i s = Inr (Finished (Some (get_hash e)), s1)" "deliverable_events i s1 = es"
    "find_segment i s1 \<noteq> None" by blast
  from backend_round_parts[OF Cons.prems(1) r(1)] Cons.prems(3) have
    rd: "\<And>w. in_retry s1 w = in_retry s w" "\<not> conn_stopped conn s1" by (simp_all add: seg_round_def)
  from backend_round_cases[OF Cons.prems(1) r(1)] have inv: "seg_inv s1" by simp
  from Cons.IH[OF inv r(3) rd(2) r(2)] obtain s' where s': "backend_rounds conn i (Suc (length es)) s1 =
      Inr (map (\<lambda>e. Finished (Some (get_hash e))) es @ [Waiting ()], s')" "seg_inv s'"
    "\<forall>st w k. (i, st, w, k) \<in> pending s' \<longrightarrow> in_retry s1 w" by blast
  show ?case
  proof (intro exI[of _ s'] conjI)
    show "backend_rounds conn i (Suc (length (e # es))) s =
        Inr (map (\<lambda>e. Finished (Some (get_hash e))) (e # es) @ [Waiting ()], s')"
      unfolding list.size(4) add_Suc_right add_0_right backend_rounds.simps(2)[of conn i "Suc (length es)"]
      by (simp only: r(1) s'(1) rbind_simps prod.case list.map append_Cons)
  qed (use s' rd(1) in simp_all)
qed

lemma deliverable_sorted:
  assumes "seg_inv s"
  shows "sorted_wrt due_le (map fst (deliverable i s))"
proof (cases "find_segment i s")
  case (Some q)
  from any_map_ok[OF find_segment_inv[OF assms Some]] have "sorted_wrt due_le (map fst (bq_schedule (any_map q)))"
    by (intro bq_schedule_sorted) blast+
  then show ?thesis using Some by (simp add: deliverable_def sorted_wrt_map sorted_wrt_filter)
qed (simp add: deliverable_def)

text \<open>
  C7.  Delivery of everything that is ready: consecutive rounds of a thread return the events of
  its segment whose workflow instance is not being retried, each once, in the order of priority and time; the next
  round sleeps, and what is still queued then belongs to workflow instances that are being retried.
\<close>

theorem backend_delivered_in_order:
  assumes "seg_inv s" and "find_segment i s \<noteq> None" and "\<not> conn_stopped conn s"
  shows "\<exists>s'. backend_rounds conn i (Suc (length (deliverable i s))) s =
      Inr (map (\<lambda>x. Finished (Some (get_hash (snd x)))) (deliverable i s) @ [Waiting ()], s') \<and>
    sorted_wrt due_le (map fst (deliverable i s)) \<and> seg_inv s' \<and>
    (\<forall>st w k. (i, st, w, k) \<in> pending s' \<longrightarrow> in_retry s w)"
  using rounds_deliver[OF assms refl] deliverable_sorted[OF assms(1), of i] by (simp add: comp_def)

text \<open>Workflow 2 has the lower priority number; both events come out.\<close>

theorem backend_delivered_in_order_witness:
  "\<exists>s'. backend_rounds 1 5 3 two_events =
      Inr ([Finished (Some (get_hash (EventQueueEntry \<lparr>be_wfiid = 2, be_prio = 10, be_pi = ParentInfo\<rparr> [3]))),
        Finished (Some (get_hash (EventQueueEntry \<lparr>be_wfiid = 1, be_prio = 500, be_pi = ParentInfo\<rparr> [4]))), Waiting ()], s') \<and>
    (\<forall>st w k. (5, st, w, k) \<notin> pending s')"
proof -
  have no_refs: "\<not> in_retry two_events w" for w
    by (simp add: two_events_def in_retry_def seg_refs_def put_segment_def new_SegmentEventQueue_def)
  have d: "deliverable 5 two_events =
    [((10, 200), EventQueueEntry \<lparr>be_wfiid = 2, be_prio = 10, be_pi = ParentInfo\<rparr> [3]),
     ((500, 100), EventQueueEntry \<lparr>be_wfiid = 1, be_prio = 500, be_pi = ParentInfo\<rparr> [4])]"
    by (simp add: deliverable_def two_events_laws(3) no_refs bq_schedule_def two_queue_def)
  have "find_segment 5 two_events \<noteq> None" by (simp add: two_events_laws(3))
  from backend_delivered_in_order[OF two_events_laws(2) this two_events_laws(4)[of 1]] show ?thesis
    unfolding d by (simp add: no_refs numeral_3_eq_3 del: backend_rounds.simps get_hash.simps) blast
qed

end
