(* ===== verification/Segment_Bindings.thy ===== *)
theory Segment_Bindings
  imports Lost_Wakeups
begin

text \<open>
  The methods of the Qore class \<^verbatim>\<open>SegmentEventQueue\<close>,
  \<^verbatim>\<open>exec/QC_SegmentEventQueue.qpp\<close>: each passes its arguments to the C++ class.  Qore
  integers have 64 bits; where the parameter of the C++ function is an \<^verbatim>\<open>int\<close>, the value is
  narrowed.

  The queue \<open>beq\<close> that three of the methods are given is passed on and not used.

  A method that blocks is a number of rounds, each ended by a wait; between them other threads call the
  object.  \<open>seg_method\<close> is one call, or one round of it, and \<open>seg_resume\<close> the end of a wait.
\<close>

section \<open>Calls\<close>


text \<open>What a thread waits for at the end of a round.\<close>

datatype seg_sleep = Sleep_primary "int option" | Sleep_backend int | Sleep_retry retry_wait

datatype seg_return =
    R_nothing | R_bool bool | R_string string | R_hash "qhash option" | R_wait seg_sleep
  | R_exception string string

definition no_value :: "seg_queue result \<Rightarrow> (seg_return \<times> seg_queue) result" where
  "no_value r = rbind r (\<lambda>s. Inr (R_nothing, s))"

definition bool_value :: "(bool \<times> seg_queue) result \<Rightarrow> (seg_return \<times> seg_queue) result" where
  "bool_value r = rbind r (\<lambda>(b, s). Inr (R_bool b, s))"

definition hash_value :: "('w \<Rightarrow> seg_sleep) \<Rightarrow> (('w, qhash option) attempt \<times> seg_queue) result
    \<Rightarrow> (seg_return \<times> seg_queue) result" where
  "hash_value sl r = rbind r (\<lambda>(a, s). Inr (case a of Waiting w \<Rightarrow> R_wait (sl w) | Finished h \<Rightarrow> R_hash h, s))"



section \<open>The protocol\<close>






section \<open>Every call is a step of a thread\<close>


lemma no_value_Inr: "no_value r = Inr (v, s) \<longleftrightarrow> v = R_nothing \<and> r = Inr s"
  by (cases r) (auto simp: no_value_def)

lemma bool_value_Inr: "bool_value r = Inr (v, s) \<longleftrightarrow> (\<exists>b. v = R_bool b \<and> r = Inr (b, s))"
  by (cases r) (auto simp: bool_value_def)

lemma hash_value_Inr:
  "hash_value sl r = Inr (v, s) \<longleftrightarrow> (\<exists>a. r = Inr (a, s) \<and> v = (case a of Waiting w \<Rightarrow> R_wait (sl w) | Finished h \<Rightarrow> R_hash h))"
  by (cases r) (auto simp: hash_value_def)

lemmas value_Inr = no_value_Inr bool_value_Inr hash_value_Inr








section \<open>Calls that return\<close>







lemma value_returns:
  "\<exists>s'. r = Inr s' \<Longrightarrow> \<exists>v s'. no_value r = Inr (v, s')"
  "\<exists>b s'. rb = Inr (b, s') \<Longrightarrow> \<exists>v s'. bool_value rb = Inr (v, s')"
  "\<exists>a s'. ra = Inr (a, s') \<Longrightarrow> \<exists>v s'. hash_value sl ra = Inr (v, s')"
  by (auto simp: value_Inr)







section \<open>The objects of the server\<close>







end
