(* ===== verification/Timed_Cache.thy ===== *)
theory Timed_Cache
  imports Parent_Info
begin

text \<open>
  The timed data cache: \<^verbatim>\<open>exec/CacheEntryBase.h\<close>,
  \<^verbatim>\<open>exec/TimedDataCacheBase.h\<close> and \<^verbatim>\<open>exec/QC_TimedSyncCache.h\<close>.

  The cache is a \<^verbatim>\<open>std::list\<close> of entries in the order in which they were put in, and a
  two-level map from class identifiers and key values to iterators into the list.  A list node
  is a number with its entry, and the number is the iterator; \<open>tc_next\<close> is the next one.  The
  class template is the type parameter \<open>'k\<close>; its specializations for \<^verbatim>\<open>std::string\<close> and
  \<^verbatim>\<open>int64\<close> are the two values of \<open>key_kind\<close>.  The first level of the map has the key
  type \<^verbatim>\<open>int\<close>, so that a class identifier is narrowed to 32 bits.  The time of an operation
  and the option hash are arguments.
\<close>

section \<open>Entries\<close>

record 'k key_kind =
  getClassName :: string
  getKeyName :: string
  getValue :: "'k \<Rightarrow> qval"
  keyText :: "'k \<Rightarrow> string"

definition string_kind :: "string key_kind" where
  "string_kind = \<lparr>getClassName = ''eventtype'', getKeyName = ''eventkey'', getValue = QString,
     keyText = (\<lambda>s. s)\<rparr>"

definition int64_kind :: "int key_kind" where
  "int64_kind = \<lparr>getClassName = ''wfid'', getKeyName = ''wfiid'', getValue = QInt, keyText = dec\<rparr>"

record 'k cache_entry =
  ce_time :: int
  keyvalue :: 'k
  classid :: int

definition entry_getHash :: "'k key_kind \<Rightarrow> 'k cache_entry \<Rightarrow> qhash" where
  "entry_getHash kd e =
     hash_set (getKeyName kd) (getValue kd (keyvalue e))
       (hash_set (getClassName kd) (QInt (classid e)) [])"

definition addKeyValue :: "'k key_kind \<Rightarrow> 'k cache_entry \<Rightarrow> string" where
  "addKeyValue kd e = getKeyName kd @ '': '' @ keyText kd (keyvalue e)"

section \<open>The cache\<close>

type_synonym 'k cache_nodes = "(nat \<times> 'k cache_entry) list"

record 'k timed_cache =
  tc_cache :: "'k cache_nodes"
  classmap :: "(int, ('k, nat) omap) omap"
  tc_next :: nat
  tc_term :: bool
  tc_size :: int
  tc_cond :: "notify list"
  delay_name :: string
  max_name :: string

definition new_TimedDataCache :: "string \<Rightarrow> string option \<Rightarrow> 'k timed_cache" where
  "new_TimedDataCache delay mx = \<lparr>tc_cache = [], classmap = [], tc_next = 0, tc_term = False, tc_size = 0,
     tc_cond = [], delay_name = delay, max_name = (case mx of None \<Rightarrow> [] | Some m \<Rightarrow> m)\<rparr>"

definition tc_getOptionBigInt :: "qore_api \<Rightarrow> qval \<Rightarrow> string \<Rightarrow> int result" where
  "tc_getOptionBigInt api opts opt =
     (case opts of QNothing \<Rightarrow> Inr 0 | QHash h \<Rightarrow> Inr (getAsBigInt api (hash_get opt h))
      | _ \<Rightarrow> Inl Undefined_behaviour)"

definition tc_signal :: "'k timed_cache \<Rightarrow> 'k timed_cache" where
  "tc_signal c = c\<lparr>tc_cond := tc_cond c @ [Signal]\<rparr>"

definition list_erase :: "nat \<Rightarrow> 'k cache_nodes \<Rightarrow> 'k cache_nodes" where
  "list_erase n xs = filter (\<lambda>x. fst x \<noteq> n) xs"

text \<open>\<^verbatim>\<open>ci == cache.begin()\<close>\<close>

definition at_begin :: "nat \<Rightarrow> 'k cache_nodes \<Rightarrow> bool" where
  "at_begin n xs = (case xs of [] \<Rightarrow> False | x # _ \<Rightarrow> fst x = n)"

text \<open>\<^verbatim>\<open>cache.insert(cache.end(), CacheEntry(keyvalue, classid))\<close>; the iterator is \<open>tc_next\<close>.\<close>

definition list_push :: "int \<Rightarrow> 'k \<Rightarrow> int \<Rightarrow> 'k timed_cache \<Rightarrow> 'k timed_cache" where
  "list_push now k cid c =
     c\<lparr>tc_cache := tc_cache c @ [(tc_next c, \<lparr>ce_time = now, keyvalue = k, classid = cid\<rparr>)],
       tc_next := Suc (tc_next c)\<rparr>"

text \<open>\<^verbatim>\<open>set\<close>: 0 when the value was stored and -1 when the cache was full.\<close>

definition cache_full :: "int \<Rightarrow> 'k timed_cache \<Rightarrow> bool" where
  "cache_full max_size c \<longleftrightarrow> max_size \<ge> 0 \<and> tc_size c \<ge> max_size"

definition cache_set :: "qore_api \<Rightarrow> qval \<Rightarrow> int \<Rightarrow> 'k::linorder \<Rightarrow> int \<Rightarrow> 'k timed_cache
    \<Rightarrow> (int \<times> 'k timed_cache) result" where
  "cache_set api opts now k cid c =
     rbind (if max_name c = [] then Inr (-1) else tc_getOptionBigInt api opts (max_name c)) (\<lambda>max_size.
       let n = tc_next c in
       case map_of (classmap c) (to_int32 cid) of
         Some km \<Rightarrow>
           (case map_of km k of
              Some ci \<Rightarrow> rbind (deref (map_of (tc_cache c) ci)) (\<lambda>e.
                rbind (assert_that (classid e = cid)) (\<lambda>_.
                  let c1 = list_push now k cid (c\<lparr>tc_cache := list_erase ci (tc_cache c)\<rparr>);
                      c2 = c1\<lparr>classmap := om_put (to_int32 cid) (om_put k n km) (classmap c)\<rparr>
                  in Inr (0, if at_begin ci (tc_cache c) then tc_signal c2 else c2)))
            | None \<Rightarrow>
                if cache_full max_size c then Inr (-1, c)
                else Inr (0, (list_push now k cid c)
                       \<lparr>classmap := om_put (to_int32 cid) (om_put k n km) (classmap c), tc_size := tc_size c + 1\<rparr>))
       | None \<Rightarrow>
           if cache_full max_size c then Inr (-1, c)
           else
             let c1 = (list_push now k cid c)
                        \<lparr>classmap := om_put (to_int32 cid) [(k, n)] (classmap c), tc_size := tc_size c + 1\<rparr>
             in Inr (0, if tc_size c = 0 then tc_signal c1 else c1))"

text \<open>Erasing a key from the second level, and the second level when it is empty.\<close>

definition erase_key :: "int \<Rightarrow> 'k::linorder \<Rightarrow> ('k, nat) omap \<Rightarrow> (int, ('k, nat) omap) omap
    \<Rightarrow> (int, ('k, nat) omap) omap" where
  "erase_key cid k km m = (let km' = om_del k km in if km' = [] then om_del cid m else om_put cid km' m)"

definition deleteKey :: "'k::linorder \<Rightarrow> int \<Rightarrow> 'k timed_cache \<Rightarrow> 'k timed_cache result" where
  "deleteKey k cid c =
     (case map_of (classmap c) (to_int32 cid) of
        None \<Rightarrow> Inr c
      | Some km \<Rightarrow>
        (case map_of km k of
           None \<Rightarrow> Inr c
         | Some ci \<Rightarrow> rbind (deref (map_of (tc_cache c) ci)) (\<lambda>_.
             let c1 = (if at_begin ci (tc_cache c) then tc_signal c else c) in
             Inr (c1\<lparr>tc_cache := list_erase ci (tc_cache c), tc_size := tc_size c - 1,
                     classmap := erase_key (to_int32 cid) k km (classmap c)\<rparr>))))"

text \<open>
  The loop of \<^verbatim>\<open>purgeClass\<close> over the second level.  The flag that it computes for a
  notification is not used after the loop, so it is not part of the state.
\<close>

definition purge_step :: "'k timed_cache \<Rightarrow> 'k \<times> nat \<Rightarrow> 'k timed_cache result" where
  "purge_step c x = rbind (deref (map_of (tc_cache c) (snd x))) (\<lambda>_.
     Inr (c\<lparr>tc_cache := list_erase (snd x) (tc_cache c), tc_size := tc_size c - 1\<rparr>))"

definition purgeClass :: "'k key_kind \<Rightarrow> int \<Rightarrow> 'k timed_cache \<Rightarrow> (qval list \<times> 'k timed_cache) result" where
  "purgeClass kd cid c =
     (case map_of (classmap c) (to_int32 cid) of
        None \<Rightarrow> Inr ([], c)
      | Some km \<Rightarrow> rbind (rfold purge_step c km) (\<lambda>c'.
          Inr (map (\<lambda>x. getValue kd (fst x)) km, c'\<lparr>classmap := om_del (to_int32 cid) (classmap c)\<rparr>)))"

section \<open>Delivery\<close>

text \<open>
  One round of \<^verbatim>\<open>getEvent\<close>; a round that waits gives the time-out in milliseconds, if any.
\<close>

definition cache_attempt :: "qore_api \<Rightarrow> 'k::linorder key_kind \<Rightarrow> qval \<times> int \<Rightarrow> 'k timed_cache
    \<Rightarrow> ((int option, qhash option) attempt \<times> 'k timed_cache) result" where
  "cache_attempt api kd on c =
     (if tc_term c then Inr (Finished None, c)
      else case tc_cache c of
        [] \<Rightarrow> Inr (Waiting None, c)
      | (n, ce) # rest \<Rightarrow>
          rbind (tc_getOptionBigInt api (fst on) (delay_name c)) (\<lambda>detach_delay.
            let diff = ce_time ce + detach_delay - snd on in
            if diff > 0 then Inr (Waiting (Some (diff * 1000)), c)
            else case map_of (classmap c) (to_int32 (classid ce)) of
              None \<Rightarrow> Inl Assertion_failed
            | Some km \<Rightarrow> rbind (assert_that (map_of km (keyvalue ce) \<noteq> None)) (\<lambda>_.
                Inr (Finished (Some (entry_getHash kd ce)),
                  c\<lparr>classmap := erase_key (to_int32 (classid ce)) (keyvalue ce) km (classmap c),
                    tc_cache := rest, tc_size := tc_size c - 1\<rparr>))))"

definition cache_getEvent :: "qore_api \<Rightarrow> 'k::linorder key_kind
    \<Rightarrow> ((qval \<times> int) \<times> ('k timed_cache \<Rightarrow> 'k timed_cache)) list \<Rightarrow> 'k timed_cache
    \<Rightarrow> (qhash option option \<times> 'k timed_cache) result" where
  "cache_getEvent api kd = wait_loop (cache_attempt api kd) (\<lambda>_ c. c)"

definition cache_requeue :: "'k timed_cache \<Rightarrow> 'k timed_cache" where
  "cache_requeue c = tc_signal c"

definition terminateIntern :: "'k timed_cache \<Rightarrow> 'k timed_cache result" where
  "terminateIntern c = rbind (assert_that (tc_size c = 0)) (\<lambda>_. Inr (tc_signal (c\<lparr>tc_term := True\<rparr>)))"

definition cache_terminate :: "'k timed_cache \<Rightarrow> 'k timed_cache result" where
  "cache_terminate c = terminateIntern c"

text \<open>\<^verbatim>\<open>TimedSyncCache::terminate\<close>\<close>

definition sync_terminate :: "string timed_cache \<Rightarrow> string timed_cache result" where
  "sync_terminate c = terminateIntern (c\<lparr>tc_cache := [], classmap := [], tc_size := 0\<rparr>)"

section \<open>Text\<close>

definition class_toString :: "qore_api \<Rightarrow> 'k key_kind \<Rightarrow> 'k cache_nodes \<Rightarrow> ('k, nat) omap \<Rightarrow> string result" where
  "class_toString a kd xs km =
     rfold (\<lambda>s x. rbind (deref (map_of xs (snd x))) (\<lambda>e.
       Inr (s @ (if s = [] then [] else '', '') @ ''{time='' @ formatDate a (ce_time e) @ '', ''
              @ addKeyValue kd e @ ''}''))) [] km"

definition cache_toString :: "qore_api \<Rightarrow> 'k key_kind \<Rightarrow> 'k timed_cache \<Rightarrow> string result" where
  "cache_toString a kd c =
     rfold (\<lambda>s x. rbind (class_toString a kd (tc_cache c) (snd x)) (\<lambda>t.
       Inr (s @ CHR 0x0A # ''classid: '' @ dec (fst x) @ '' size: '' @ dec_size (length (snd x)) @ '' ['' @ t @ '']'')))
       (''size: '' @ dec (tc_size c)) (classmap c)"

definition cache_getSummary :: "'k key_kind \<Rightarrow> 'k timed_cache \<Rightarrow> string" where
  "cache_getSummary kd c = ''size: '' @ dec (tc_size c)
     @ concat (map (\<lambda>x. '', '' @ getClassName kd @ '': '' @ dec (fst x) @ '' size: '' @ dec_size (length (snd x)))
         (classmap c))"

end
