(* ===== verification/Timed_Laws.thy ===== *)
theory Timed_Laws
  imports Timed_Cache "HOL-Library.List_Lexorder" "HOL-Library.Char_ord"
begin

text \<open>
  The timed data cache against its contract.  Abstractly the cache is the list of its entries in
  the order of submission, no two of the same class and key (\<open>tc_abs\<close>); the two-level map is an
  exact index of it and \<open>tc_size\<close> its length (\<open>tc_inv\<close>).  Every operation keeps the invariant and
  has the effect on the list that its comment in the source promises.
\<close>

section \<open>Invariant\<close>

definition tc_lookup :: "'k timed_cache \<Rightarrow> int \<Rightarrow> 'k \<Rightarrow> nat option" where
  "tc_lookup c cid k = (case map_of (classmap c) cid of None \<Rightarrow> None | Some km \<Rightarrow> map_of km k)"

definition maps_ok :: "(int, ('k::linorder, nat) omap) omap \<Rightarrow> bool" where
  "maps_ok m \<longleftrightarrow> om_ok m \<and> (\<forall>x\<in>set m. om_ok (snd x) \<and> snd x \<noteq> [])"

definition tc_inv :: "'k::linorder timed_cache \<Rightarrow> bool" where
  "tc_inv c \<longleftrightarrow> maps_ok (classmap c) \<and> distinct (map fst (tc_cache c)) \<and>
     (\<forall>x\<in>set (tc_cache c). fst x < tc_next c \<and> is_int32 (classid (snd x))) \<and>
     (\<forall>cid k n. tc_lookup c cid k = Some n \<longleftrightarrow>
        (\<exists>e. (n, e) \<in> set (tc_cache c) \<and> classid e = cid \<and> keyvalue e = k)) \<and>
     tc_size c = int (length (tc_cache c))"

definition tc_abs :: "'k timed_cache \<Rightarrow> 'k cache_entry list" where
  "tc_abs c = map snd (tc_cache c)"

abbreviation entry_is :: "int \<Rightarrow> 'k \<Rightarrow> 'k cache_entry \<Rightarrow> bool" where
  "entry_is cid k e \<equiv> classid e = cid \<and> keyvalue e = k"

lemma tc_inv_parts:
  assumes "tc_inv c"
  shows "maps_ok (classmap c)" "distinct (map fst (tc_cache c))"
    "\<And>x. x \<in> set (tc_cache c) \<Longrightarrow> fst x < tc_next c \<and> is_int32 (classid (snd x))"
    "\<And>cid k n. tc_lookup c cid k = Some n \<longleftrightarrow> (\<exists>e. (n, e) \<in> set (tc_cache c) \<and> entry_is cid k e)"
    "tc_size c = int (length (tc_cache c))"
  using assms unfolding tc_inv_def by blast+

lemma tc_inv_new: "tc_inv (new_TimedDataCache d m)"
  by (simp add: tc_inv_def new_TimedDataCache_def maps_ok_def tc_lookup_def)

lemma tc_inv_cong:
  assumes "tc_cache c' = tc_cache c" "classmap c' = classmap c" "tc_next c' = tc_next c" "tc_size c' = tc_size c"
  shows "tc_inv c' = tc_inv c" and "tc_abs c' = tc_abs c"
  using assms by (simp_all add: tc_inv_def tc_lookup_def tc_abs_def)

lemma tc_signal_simps [simp]:
  "tc_cache (tc_signal c) = tc_cache c" "classmap (tc_signal c) = classmap c" "tc_next (tc_signal c) = tc_next c"
  "tc_size (tc_signal c) = tc_size c" "tc_inv (tc_signal c) = tc_inv c" "tc_abs (tc_signal c) = tc_abs c"
  "delay_name (tc_signal c) = delay_name c" "max_name (tc_signal c) = max_name c" "tc_term (tc_signal c) = tc_term c"
  "tc_cond (tc_signal c) = tc_cond c @ [Signal]"
  using tc_inv_cong[of "tc_signal c" c] by (simp_all add: tc_signal_def)

text \<open>A class and key is in the cache at most once.\<close>

lemma entry_unique:
  assumes inv: "tc_inv c" and "(n, e) \<in> set (tc_cache c)" "(n', e') \<in> set (tc_cache c)"
    and "classid e = classid e'" "keyvalue e = keyvalue e'"
  shows "n = n' \<and> e = e'"
proof -
  have "tc_lookup c (classid e) (keyvalue e) = Some n"
    using tc_inv_parts(4)[OF inv] assms(2) by blast
  moreover have "tc_lookup c (classid e) (keyvalue e) = Some n'"
    using tc_inv_parts(4)[OF inv, of "classid e" "keyvalue e" n'] assms(3-5) by metis
  ultimately have "n = n'" by simp
  with assms(2,3) tc_inv_parts(2)[OF inv] show ?thesis
    using eq_key_imp_eq_value by fastforce
qed

lemma found_node:
  assumes inv: "tc_inv c" and "(n, e) \<in> set (tc_cache c)"
  shows "map_of (tc_cache c) n = Some e"
  using tc_inv_parts(2)[OF inv] assms(2) by simp

lemma abs_erase:
  assumes inv: "tc_inv c" and e: "(n, e) \<in> set (tc_cache c)"
  shows "map snd (list_erase n (tc_cache c)) = filter (\<lambda>x. \<not> entry_is (classid e) (keyvalue e) x) (tc_abs c)"
proof -
  have "fst x \<noteq> n \<longleftrightarrow> \<not> entry_is (classid e) (keyvalue e) (snd x)" if "x \<in> set (tc_cache c)" for x
    using that e entry_unique[OF inv e, of "fst x" "snd x"] found_node[OF inv e] found_node[OF inv, of "fst x" "snd x"]
    by (cases x) auto
  then have "list_erase n (tc_cache c) = filter (\<lambda>x. \<not> entry_is (classid e) (keyvalue e) (snd x)) (tc_cache c)"
    unfolding list_erase_def by (rule filter_cong[OF refl])
  then show ?thesis by (simp add: tc_abs_def filter_map comp_def)
qed

lemma length_list_erase:
  "distinct (map fst xs) \<Longrightarrow> (n, e) \<in> set xs \<Longrightarrow> Suc (length (list_erase n xs)) = length xs"
proof (induction xs)
  case Nil
  then show ?case by simp
next
  case (Cons x xs)
  show ?case
  proof (cases "fst x = n")
    case True
    with Cons.prems(1) have "\<forall>y\<in>set xs. fst y \<noteq> n" by simp (metis imageI)
    then have "filter (\<lambda>y. fst y \<noteq> n) xs = xs" by (simp add: filter_id_conv)
    with True show ?thesis by (simp add: list_erase_def)
  next
    case False
    then have "(n, e) \<in> set xs" using Cons.prems(2) by auto
    with Cons False show ?thesis by (simp add: list_erase_def)
  qed
qed

lemma length_erase:
  "tc_inv c \<Longrightarrow> (n, e) \<in> set (tc_cache c) \<Longrightarrow> Suc (length (list_erase n (tc_cache c))) = length (tc_cache c)"
  by (rule length_list_erase[OF tc_inv_parts(2)])

lemma set_list_erase [simp]: "set (list_erase n xs) = {x \<in> set xs. fst x \<noteq> n}"
  by (auto simp: list_erase_def)

lemma distinct_list_erase: "distinct (map fst xs) \<Longrightarrow> distinct (map fst (list_erase n xs))"
  by (simp add: list_erase_def distinct_map_filter)

section \<open>The two-level map\<close>

definition map_lookup :: "(int, ('k, nat) omap) omap \<Rightarrow> int \<Rightarrow> 'k \<Rightarrow> nat option" where
  "map_lookup m cid k = (case map_of m cid of None \<Rightarrow> None | Some km \<Rightarrow> map_of km k)"

lemma tc_lookup_map: "tc_lookup c = map_lookup (classmap c)"
  by (intro ext) (simp add: tc_lookup_def map_lookup_def)

lemma maps_ok_inner: "maps_ok m \<Longrightarrow> map_of m cid = Some km \<Longrightarrow> om_ok km \<and> km \<noteq> []"
  unfolding maps_ok_def by (force dest: map_of_SomeD)

lemma maps_ok_put: "maps_ok m \<Longrightarrow> om_ok km \<Longrightarrow> km \<noteq> [] \<Longrightarrow> maps_ok (om_put cid km m)"
  using set_om_put[of cid km m] by (auto simp: maps_ok_def om_ok_put)

lemma maps_ok_del: "maps_ok m \<Longrightarrow> maps_ok (om_del cid m)"
  by (auto simp: maps_ok_def om_ok_del)

lemma map_lookup_put:
  "map_lookup (om_put cid km m) c k = (if c = cid then map_of km k else map_lookup m c k)"
  by (simp add: map_lookup_def)

lemma map_lookup_del: "map_lookup (om_del cid m) c k = (if c = cid then None else map_lookup m c k)"
  by (simp add: map_lookup_def)

lemma erase_key_ok:
  assumes "maps_ok m" "map_of m cid = Some km"
  shows "maps_ok (erase_key cid k km m)"
    and "map_lookup (erase_key cid k km m) c k' = (if c = cid \<and> k' = k then None else map_lookup m c k')"
proof -
  from maps_ok_inner[OF assms] have km: "om_ok km" by simp
  show "maps_ok (erase_key cid k km m)"
    using assms(1) km by (auto simp: erase_key_def Let_def intro!: maps_ok_put maps_ok_del om_ok_del)
  have none: "map_of km k' = None" if "om_del k km = []" "k' \<noteq> k"
    using that om_del_get[of k km] by (metis fun_upd_apply map_of.simps(1))
  show "map_lookup (erase_key cid k km m) c k' = (if c = cid \<and> k' = k then None else map_lookup m c k')"
    using assms(2) none by (auto simp: erase_key_def Let_def map_lookup_def)
qed

section \<open>Operations\<close>

lemma inv_push:
  assumes inv: "tc_inv c" and cid: "is_int32 cid" and new: "tc_lookup c cid k = None" and m: "maps_ok m"
    and look: "\<And>c' k'. map_lookup m c' k' = (if c' = cid \<and> k' = k then Some (tc_next c) else tc_lookup c c' k')"
  shows "tc_inv ((list_push now k cid c)\<lparr>classmap := m, tc_size := tc_size c + 1\<rparr>)"
proof -
  let ?e = "\<lparr>ce_time = now, keyvalue = k, classid = cid\<rparr>"
  let ?c = "(list_push now k cid c)\<lparr>classmap := m, tc_size := tc_size c + 1\<rparr>"
  have cache: "tc_cache ?c = tc_cache c @ [(tc_next c, ?e)]" "tc_next ?c = Suc (tc_next c)"
    by (simp_all add: list_push_def)
  have fresh: "tc_next c \<notin> fst ` set (tc_cache c)" using tc_inv_parts(3)[OF inv] by fastforce
  have lk: "tc_lookup ?c c' k' = Some n \<longleftrightarrow> (\<exists>e. (n, e) \<in> set (tc_cache ?c) \<and> entry_is c' k' e)" for c' k' n
  proof (cases "c' = cid \<and> k' = k")
    case True
    have "\<not> (\<exists>e. (n, e) \<in> set (tc_cache c) \<and> entry_is cid k e)"
      using tc_inv_parts(4)[OF inv, of cid k n] new by simp
    with True show ?thesis by (auto simp: tc_lookup_map look cache)
  next
    case False
    then show ?thesis using tc_inv_parts(4)[OF inv, of c' k' n]
      by (auto simp: tc_lookup_map[of ?c] look cache)
  qed
  show ?thesis unfolding tc_inv_def
  proof (intro conjI)
    show "maps_ok (classmap ?c)" using m by simp
    show "distinct (map fst (tc_cache ?c))" using tc_inv_parts(2)[OF inv] fresh by (simp add: cache)
    show "\<forall>x\<in>set (tc_cache ?c). fst x < tc_next ?c \<and> is_int32 (classid (snd x))"
      using tc_inv_parts(3)[OF inv] cid by (auto simp: cache less_SucI)
    show "tc_size ?c = int (length (tc_cache ?c))" using tc_inv_parts(5)[OF inv] by (simp add: list_push_def)
  qed (use lk in blast)
qed

lemma inv_erase:
  assumes inv: "tc_inv c" and e: "(n, e) \<in> set (tc_cache c)" and m: "maps_ok m"
    and look: "\<And>c' k'. map_lookup m c' k' = (if entry_is c' k' e then None else tc_lookup c c' k')"
  shows "tc_inv (c\<lparr>tc_cache := list_erase n (tc_cache c), tc_size := tc_size c - 1, classmap := m\<rparr>)"
proof -
  let ?c = "c\<lparr>tc_cache := list_erase n (tc_cache c), tc_size := tc_size c - 1, classmap := m\<rparr>"
  have same: "j \<noteq> n \<longleftrightarrow> \<not> (classid e = classid e' \<and> keyvalue e = keyvalue e')" if "(j, e') \<in> set (tc_cache c)" for j e'
  proof
    assume "j \<noteq> n"
    then show "\<not> (classid e = classid e' \<and> keyvalue e = keyvalue e')" using entry_unique[OF inv e that] by blast
  next
    assume ne: "\<not> (classid e = classid e' \<and> keyvalue e = keyvalue e')"
    show "j \<noteq> n"
    proof
      assume "j = n"
      with found_node[OF inv e] found_node[OF inv that] have "e = e'" by simp
      with ne show False by simp
    qed
  qed
  have lk: "tc_lookup ?c c' k' = Some j \<longleftrightarrow> (\<exists>e'. (j, e') \<in> set (tc_cache ?c) \<and> entry_is c' k' e')" for c' k' j
  proof -
    have "tc_lookup ?c c' k' = Some j \<longleftrightarrow> \<not> entry_is c' k' e \<and> (\<exists>e'. (j, e') \<in> set (tc_cache c) \<and> entry_is c' k' e')"
      by (simp add: tc_lookup_map[of ?c] look tc_inv_parts(4)[OF inv])
    also have "\<dots> \<longleftrightarrow> (\<exists>e'. (j, e') \<in> set (tc_cache ?c) \<and> entry_is c' k' e')"
    proof
      assume l: "\<not> entry_is c' k' e \<and> (\<exists>e'. (j, e') \<in> set (tc_cache c) \<and> entry_is c' k' e')"
      then obtain e' where e': "(j, e') \<in> set (tc_cache c)" "entry_is c' k' e'" by blast
      with same[OF e'(1)] l have "j \<noteq> n" by auto
      with e' show "\<exists>e'. (j, e') \<in> set (tc_cache ?c) \<and> entry_is c' k' e'" by auto
    next
      assume "\<exists>e'. (j, e') \<in> set (tc_cache ?c) \<and> entry_is c' k' e'"
      then obtain e' where e': "(j, e') \<in> set (tc_cache c)" "j \<noteq> n" "entry_is c' k' e'" by auto
      with same[OF e'(1)] show "\<not> entry_is c' k' e \<and> (\<exists>e'. (j, e') \<in> set (tc_cache c) \<and> entry_is c' k' e')" by auto
    qed
    finally show ?thesis .
  qed
  show ?thesis unfolding tc_inv_def
  proof (intro conjI)
    show "maps_ok (classmap ?c)" using m by simp
    show "distinct (map fst (tc_cache ?c))" using distinct_list_erase[OF tc_inv_parts(2)[OF inv]] by simp
    show "\<forall>x\<in>set (tc_cache ?c). fst x < tc_next ?c \<and> is_int32 (classid (snd x))"
      using tc_inv_parts(3)[OF inv] by simp
    show "tc_size ?c = int (length (tc_cache ?c))"
      using tc_inv_parts(5)[OF inv] length_erase[OF inv e] by simp
  qed (use lk in blast)
qed

definition has_entry :: "int \<Rightarrow> 'k \<Rightarrow> 'k timed_cache \<Rightarrow> bool" where
  "has_entry cid k c \<longleftrightarrow> (\<exists>e\<in>set (tc_abs c). entry_is cid k e)"

lemma lookup_has: "tc_inv c \<Longrightarrow> tc_lookup c cid k \<noteq> None \<longleftrightarrow> has_entry cid k c"
  by (force simp: has_entry_def tc_abs_def tc_inv_parts(4))

lemma lookup_node:
  assumes "tc_inv c" "tc_lookup c cid k = Some n"
  obtains e where "(n, e) \<in> set (tc_cache c)" "entry_is cid k e" "map_of (tc_cache c) n = Some e"
  using tc_inv_parts(4)[OF assms(1), of cid k n] assms(2) found_node[OF assms(1)] by blast

lemma at_begin_hd:
  assumes "tc_inv c" "(n, e) \<in> set (tc_cache c)"
  shows "at_begin n (tc_cache c) \<longleftrightarrow> hd (tc_abs c) = e \<and> tc_abs c \<noteq> []"
proof (cases "tc_cache c")
  case Nil
  with assms(2) show ?thesis by simp
next
  case (Cons x xs)
  then have "(fst x, snd x) \<in> set (tc_cache c)" by simp
  with entry_unique[OF assms(1,2), of "fst x" "snd x"] found_node[OF assms] found_node[OF assms(1), of "fst x" "snd x"]
  have "fst x = n \<longleftrightarrow> snd x = e" by auto
  with Cons show ?thesis by (simp add: at_begin_def tc_abs_def)
qed

definition tc_same :: "'k timed_cache \<Rightarrow> 'k timed_cache \<Rightarrow> bool" where
  "tc_same c c' \<longleftrightarrow> delay_name c' = delay_name c \<and> max_name c' = max_name c \<and> tc_term c' = tc_term c"

definition max_size_of :: "qore_api \<Rightarrow> qval \<Rightarrow> 'k timed_cache \<Rightarrow> int result" where
  "max_size_of api opts c = (if max_name c = [] then Inr (-1) else tc_getOptionBigInt api opts (max_name c))"

definition has_room :: "int \<Rightarrow> int \<Rightarrow> 'k \<Rightarrow> 'k timed_cache \<Rightarrow> bool" where
  "has_room mx cid k c \<longleftrightarrow> has_entry cid k c \<or> mx < 0 \<or> int (length (tc_abs c)) < mx"

lemma length_abs: "tc_inv c \<Longrightarrow> int (length (tc_abs c)) = tc_size c"
  by (simp add: tc_abs_def tc_inv_parts(5))

lemma filter_absent:
  "tc_inv c \<Longrightarrow> \<not> has_entry cid k c \<Longrightarrow> filter (\<lambda>x. \<not> entry_is cid k x) (tc_abs c) = tc_abs c"
  by (auto simp: has_entry_def filter_id_conv)

text \<open>Storing: what is in the cache afterwards, and when a listener is signalled.\<close>

lemma cache_set_new:
  assumes inv: "tc_inv c" and cid: "is_int32 cid" and mx: "max_size_of api opts c = Inr mx"
    and new: "tc_lookup c cid k = None" and room: "\<not> cache_full mx c"
  shows "\<exists>c'. cache_set api opts now k cid c = Inr (0, c') \<and> tc_inv c' \<and> tc_same c c' \<and>
    tc_abs c' = tc_abs c @ [\<lparr>ce_time = now, keyvalue = k, classid = cid\<rparr>] \<and>
    tc_cond c' = tc_cond c @ (if tc_abs c = [] then [Signal] else [])"
proof (cases "map_of (classmap c) cid")
  case None
  let ?m = "om_put cid [(k, tc_next c)] (classmap c)"
  let ?c = "(list_push now k cid c)\<lparr>classmap := ?m, tc_size := tc_size c + 1\<rparr>"
  have "tc_inv ?c"
    by (rule inv_push[OF inv cid new])
      (use None tc_inv_parts(1)[OF inv] in \<open>auto simp: map_lookup_put tc_lookup_map map_lookup_def om_ok_Cons intro!: maps_ok_put\<close>)
  moreover have "cache_set api opts now k cid c = Inr (0, if tc_size c = 0 then tc_signal ?c else ?c)"
    using mx None room cid by (simp add: cache_set_def max_size_of_def Let_def)
  moreover have "tc_size c = 0 \<longleftrightarrow> tc_abs c = []" using length_abs[OF inv] by auto
  ultimately show ?thesis
    by (intro exI[of _ "if tc_size c = 0 then tc_signal ?c else ?c"]) (auto simp: tc_same_def tc_abs_def list_push_def)
next
  case (Some km)
  have km: "om_ok km" "km \<noteq> []" "map_of km k = None"
    using maps_ok_inner[OF tc_inv_parts(1)[OF inv] Some] new Some by (simp_all add: tc_lookup_def)
  let ?m = "om_put cid (om_put k (tc_next c) km) (classmap c)"
  let ?c = "(list_push now k cid c)\<lparr>classmap := ?m, tc_size := tc_size c + 1\<rparr>"
  have "tc_inv ?c"
    by (rule inv_push[OF inv cid new])
      (use Some km tc_inv_parts(1)[OF inv] in \<open>auto simp: map_lookup_put tc_lookup_map map_lookup_def intro!: maps_ok_put om_ok_put\<close>)
  moreover have "cache_set api opts now k cid c = Inr (0, ?c)"
    using mx Some km room cid by (simp add: cache_set_def max_size_of_def Let_def)
  moreover have "tc_abs c \<noteq> []"
  proof
    assume "tc_abs c = []"
    then have none: "tc_lookup c cid k' = None" for k'
      using lookup_has[OF inv, of cid k'] by (simp add: has_entry_def)
    from km(2) obtain x xs where "km = x # xs" by (cases km) auto
    then have "map_of km (fst x) \<noteq> None" by simp
    with none[of "fst x"] Some show False by (simp add: tc_lookup_def)
  qed
  ultimately show ?thesis
    by (auto simp: tc_same_def tc_abs_def list_push_def)
qed

lemma cache_set_old:
  assumes inv: "tc_inv c" and cid: "is_int32 cid" and mx: "max_size_of api opts c = Inr mx"
    and n: "tc_lookup c cid k = Some n"
  shows "\<exists>c'. cache_set api opts now k cid c = Inr (0, c') \<and> tc_inv c' \<and> tc_same c c' \<and>
    tc_abs c' = filter (\<lambda>x. \<not> entry_is cid k x) (tc_abs c) @ [\<lparr>ce_time = now, keyvalue = k, classid = cid\<rparr>] \<and>
    tc_cond c' = tc_cond c @ (if entry_is cid k (hd (tc_abs c)) then [Signal] else [])"
proof -
  obtain e where e: "(n, e) \<in> set (tc_cache c)" "entry_is cid k e" "map_of (tc_cache c) n = Some e"
    using lookup_node[OF inv n] .
  from n obtain km where km: "map_of (classmap c) cid = Some km" "map_of km k = Some n"
    by (auto simp: tc_lookup_def split: option.splits)
  let ?cE = "c\<lparr>tc_cache := list_erase n (tc_cache c), tc_size := tc_size c - 1, classmap := erase_key cid k km (classmap c)\<rparr>"
  have lookE: "map_lookup (erase_key cid k km (classmap c)) c' k' = (if entry_is c' k' e then None else tc_lookup c c' k')"
    for c' k' using erase_key_ok(2)[OF tc_inv_parts(1)[OF inv] km(1), of k c' k'] e(2) by (auto simp: tc_lookup_map)
  have invE: "tc_inv ?cE"
    by (rule inv_erase[OF inv e(1) erase_key_ok(1)[OF tc_inv_parts(1)[OF inv] km(1)] lookE])
  let ?m = "om_put cid (om_put k (tc_next c) km) (classmap c)"
  let ?c = "(list_push now k cid ?cE)\<lparr>classmap := ?m, tc_size := tc_size ?cE + 1\<rparr>"
  have km_ok: "om_ok km" using maps_ok_inner[OF tc_inv_parts(1)[OF inv] km(1)] by simp
  have "tc_inv ?c"
  proof (rule inv_push[OF invE cid])
    show "tc_lookup ?cE cid k = None" using e(2) by (simp add: tc_lookup_map lookE)
    show "maps_ok ?m" using km_ok tc_inv_parts(1)[OF inv] by (intro maps_ok_put om_ok_put) auto
    show "map_lookup ?m c' k' = (if c' = cid \<and> k' = k then Some (tc_next ?cE) else tc_lookup ?cE c' k')" for c' k'
    proof -
      have "tc_lookup c cid k' = map_of km k'" using km by (simp add: tc_lookup_def)
      then show ?thesis using e(2) tc_lookup_map[of c]
        by (auto simp: map_lookup_put tc_lookup_map[of ?cE] lookE)
    qed
  qed
  moreover have "cache_set api opts now k cid c = Inr (0, if at_begin n (tc_cache c) then tc_signal ?c else ?c)"
    using mx km e(2,3) cid by (simp add: cache_set_def max_size_of_def Let_def list_push_def)
  moreover have "tc_abs ?c = filter (\<lambda>x. \<not> entry_is cid k x) (tc_abs c) @ [\<lparr>ce_time = now, keyvalue = k, classid = cid\<rparr>]"
    using abs_erase[OF inv e(1)] e(2) by (simp add: tc_abs_def list_push_def)
  moreover have "at_begin n (tc_cache c) \<longleftrightarrow> entry_is cid k (hd (tc_abs c))"
  proof -
    have ne: "tc_abs c \<noteq> []" using e(1) by (auto simp: tc_abs_def)
    then have "hd (tc_abs c) \<in> set (tc_abs c)" by simp
    then obtain j where j: "(j, hd (tc_abs c)) \<in> set (tc_cache c)" by (auto simp: tc_abs_def)
    show ?thesis
      using at_begin_hd[OF inv e(1)] ne e(2) entry_unique[OF inv e(1) j] by auto
  qed
  ultimately show ?thesis
    by (intro exI[of _ "if at_begin n (tc_cache c) then tc_signal ?c else ?c"]) (auto simp: tc_same_def list_push_def)
qed

lemma cache_set_ok:
  assumes inv: "tc_inv c" and cid: "is_int32 cid" and mx: "max_size_of api opts c = Inr mx"
  shows "\<exists>c'. cache_set api opts now k cid c = Inr (if has_room mx cid k c then 0 else -1, c') \<and>
    tc_inv c' \<and> tc_same c c' \<and>
    (if has_room mx cid k c then
       tc_abs c' = filter (\<lambda>x. \<not> entry_is cid k x) (tc_abs c) @ [\<lparr>ce_time = now, keyvalue = k, classid = cid\<rparr>] \<and>
       tc_cond c' = tc_cond c @ (if tc_abs c = [] \<or> entry_is cid k (hd (tc_abs c)) then [Signal] else [])
     else c' = c)"
proof (cases "tc_lookup c cid k")
  case (Some n)
  then have has: "has_entry cid k c" using lookup_has[OF inv, of cid k] by simp
  then have "tc_abs c \<noteq> []" by (auto simp: has_entry_def)
  with has cache_set_old[OF inv cid mx Some, of now] show ?thesis by (auto simp: has_room_def)
next
  case None
  then have no: "\<not> has_entry cid k c" using lookup_has[OF inv, of cid k] by simp
  have full: "cache_full mx c \<longleftrightarrow> \<not> has_room mx cid k c"
    using no length_abs[OF inv] by (auto simp: cache_full_def has_room_def)
  have nh: "(tc_abs c = [] \<or> entry_is cid k (hd (tc_abs c))) = (tc_abs c = [])"
    using no by (cases "tc_abs c") (auto simp: has_entry_def)
  show ?thesis
  proof (cases "has_room mx cid k c")
    case True
    with full have "\<not> cache_full mx c" by simp
    from cache_set_new[OF inv cid mx None this, of now] show ?thesis
      unfolding nh filter_absent[OF inv no] using True by simp
  next
    case False
    have "cache_set api opts now k cid c = Inr (-1, c)"
      using mx None cid full False
      by (cases "map_of (classmap c) cid") (auto simp: cache_set_def max_size_of_def tc_lookup_def Let_def)
    with False inv show ?thesis by (simp add: tc_same_def)
  qed
qed

lemma deleteKey_ok:
  assumes inv: "tc_inv c" and cid: "is_int32 cid"
  shows "\<exists>c'. deleteKey k cid c = Inr c' \<and> tc_inv c' \<and> tc_same c c' \<and>
    tc_abs c' = filter (\<lambda>x. \<not> entry_is cid k x) (tc_abs c) \<and>
    tc_cond c' = tc_cond c @ (if tc_abs c \<noteq> [] \<and> entry_is cid k (hd (tc_abs c)) then [Signal] else [])"
proof (cases "tc_lookup c cid k")
  case None
  then have no: "\<not> has_entry cid k c" using lookup_has[OF inv, of cid k] by simp
  have "deleteKey k cid c = Inr c"
    using None cid by (auto simp: deleteKey_def tc_lookup_def split: option.splits)
  moreover have "tc_abs c \<noteq> [] \<Longrightarrow> \<not> entry_is cid k (hd (tc_abs c))"
    using no by (auto simp: has_entry_def)
  ultimately show ?thesis using inv filter_absent[OF inv no] by (auto simp: tc_same_def)
next
  case (Some n)
  obtain e where e: "(n, e) \<in> set (tc_cache c)" "entry_is cid k e" "map_of (tc_cache c) n = Some e"
    using lookup_node[OF inv Some] .
  from Some obtain km where km: "map_of (classmap c) cid = Some km" "map_of km k = Some n"
    by (auto simp: tc_lookup_def split: option.splits)
  let ?c = "c\<lparr>tc_cache := list_erase n (tc_cache c), tc_size := tc_size c - 1, classmap := erase_key cid k km (classmap c)\<rparr>"
  have "map_lookup (erase_key cid k km (classmap c)) c' k' = (if entry_is c' k' e then None else tc_lookup c c' k')"
    for c' k' using erase_key_ok(2)[OF tc_inv_parts(1)[OF inv] km(1), of k c' k'] e(2) by (auto simp: tc_lookup_map)
  from inv_erase[OF inv e(1) erase_key_ok(1)[OF tc_inv_parts(1)[OF inv] km(1)] this] have invE: "tc_inv ?c" .
  have d: "deleteKey k cid c = Inr (if at_begin n (tc_cache c) then tc_signal ?c else ?c)"
    using km e(3) cid by (simp add: deleteKey_def Let_def tc_signal_def)
  have abs: "tc_abs ?c = filter (\<lambda>x. \<not> entry_is cid k x) (tc_abs c)"
    using abs_erase[OF inv e(1)] e(2) by (simp add: tc_abs_def)
  have ne: "tc_abs c \<noteq> []" using e(1) by (auto simp: tc_abs_def)
  then have "hd (tc_abs c) \<in> set (tc_abs c)" by simp
  then obtain j where j: "(j, hd (tc_abs c)) \<in> set (tc_cache c)" by (auto simp: tc_abs_def)
  have "at_begin n (tc_cache c) \<longleftrightarrow> entry_is cid k (hd (tc_abs c))"
    using at_begin_hd[OF inv e(1)] ne e(2) entry_unique[OF inv e(1) j] by auto
  with d invE abs ne show ?thesis
    by (intro exI[of _ "if at_begin n (tc_cache c) then tc_signal ?c else ?c"]) (auto simp: tc_same_def)
qed

text \<open>One round of delivery.\<close>

lemma first_node:
  assumes inv: "tc_inv c" and c: "tc_cache c = (n, e) # rest"
  obtains km where "map_of (classmap c) (classid e) = Some km" "map_of km (keyvalue e) = Some n"
    "to_int32 (classid e) = classid e"
    "tc_inv (c\<lparr>classmap := erase_key (classid e) (keyvalue e) km (classmap c), tc_cache := rest,
                tc_size := tc_size c - 1\<rparr>)"
proof -
  have e: "(n, e) \<in> set (tc_cache c)" using c by simp
  then have "tc_lookup c (classid e) (keyvalue e) = Some n" using tc_inv_parts(4)[OF inv] by blast
  then obtain km where km: "map_of (classmap c) (classid e) = Some km" "map_of km (keyvalue e) = Some n"
    by (auto simp: tc_lookup_def split: option.splits)
  have "n \<notin> fst ` set rest" using tc_inv_parts(2)[OF inv] c by simp
  then have "filter (\<lambda>x. fst x \<noteq> n) rest = rest" by (auto simp: filter_id_conv)
  then have rest: "list_erase n (tc_cache c) = rest" by (simp add: list_erase_def c)
  have look: "map_lookup (erase_key (classid e) (keyvalue e) km (classmap c)) c' k' =
      (if entry_is c' k' e then None else tc_lookup c c' k')" for c' k'
    using erase_key_ok(2)[OF tc_inv_parts(1)[OF inv] km(1), of "keyvalue e" c' k'] by (auto simp: tc_lookup_map)
  from inv_erase[OF inv e erase_key_ok(1)[OF tc_inv_parts(1)[OF inv] km(1)] look]
  have "tc_inv (c\<lparr>classmap := erase_key (classid e) (keyvalue e) km (classmap c), tc_cache := rest,
      tc_size := tc_size c - 1\<rparr>)"
    unfolding rest by (rule tc_inv_cong(1)[THEN iffD1, rotated -1]) simp_all
  moreover have "to_int32 (classid e) = classid e" using tc_inv_parts(3)[OF inv e] by simp
  ultimately show ?thesis using that km by blast
qed

lemma cache_attempt_ok:
  assumes inv: "tc_inv c" and d: "tc_getOptionBigInt api opts (delay_name c) = Inr delay"
  shows "\<exists>a c'. cache_attempt api kd (opts, now) c = Inr (a, c') \<and> tc_inv c' \<and> tc_same c c' \<and>
    tc_cond c' = tc_cond c \<and>
    (if tc_term c then a = Finished None \<and> c' = c
     else case tc_abs c of
       [] \<Rightarrow> a = Waiting None \<and> c' = c
     | e # es \<Rightarrow> if ce_time e + delay > now then a = Waiting (Some ((ce_time e + delay - now) * 1000)) \<and> c' = c
         else a = Finished (Some (entry_getHash kd e)) \<and> tc_abs c' = es)"
proof (cases "tc_term c \<or> tc_cache c = []")
  case True
  with inv show ?thesis by (auto simp: cache_attempt_def tc_same_def tc_abs_def)
next
  case False
  then obtain n e rest where c: "tc_cache c = (n, e) # rest" by (cases "tc_cache c") auto
  obtain km where km: "map_of (classmap c) (classid e) = Some km" "map_of km (keyvalue e) = Some n"
    "to_int32 (classid e) = classid e" and inv': "tc_inv (c\<lparr>classmap := erase_key (classid e) (keyvalue e) km (classmap c),
      tc_cache := rest, tc_size := tc_size c - 1\<rparr>)" using first_node[OF inv c] .
  show ?thesis
  proof (cases "ce_time e + delay > now")
    case True
    with False c d inv show ?thesis by (simp add: cache_attempt_def tc_same_def tc_abs_def Let_def)
  next
    case due: False
    with False c d km have "cache_attempt api kd (opts, now) c = Inr (Finished (Some (entry_getHash kd e)),
      c\<lparr>classmap := erase_key (classid e) (keyvalue e) km (classmap c), tc_cache := rest, tc_size := tc_size c - 1\<rparr>)"
      by (simp add: cache_attempt_def Let_def)
    with False c due inv' show ?thesis by (simp add: tc_same_def tc_abs_def)
  qed
qed

text \<open>Purging a class.\<close>

lemma purge_steps:
  assumes "distinct (map fst xs)" "distinct (map snd km)" "\<forall>x\<in>set km. snd x \<in> fst ` set xs" "tc_cache c = xs"
  shows "\<exists>c'. rfold purge_step c km = Inr c' \<and> tc_cache c' = filter (\<lambda>x. fst x \<notin> snd ` set km) xs \<and>
    c' = c\<lparr>tc_cache := tc_cache c', tc_size := tc_size c - int (length km)\<rparr>"
  using assms
proof (induction km arbitrary: c xs)
  case Nil
  then show ?case by simp
next
  case (Cons x km)
  have "snd x \<in> fst ` set xs" using Cons.prems(3) by simp
  then obtain e where "(snd x, e) \<in> set xs" by force
  then have found: "map_of (tc_cache c) (snd x) = Some e" using Cons.prems(1,4) by simp
  let ?c = "c\<lparr>tc_cache := list_erase (snd x) (tc_cache c), tc_size := tc_size c - 1\<rparr>"
  have step: "purge_step c x = Inr ?c" by (simp add: purge_step_def found)
  have "\<forall>y\<in>set km. snd y \<in> fst ` set (list_erase (snd x) xs)"
  proof
    fix y assume y: "y \<in> set km"
    then have "snd y \<noteq> snd x" using Cons.prems(2) by (metis distinct.simps(2) image_eqI image_set list.simps(9))
    moreover have "snd y \<in> fst ` set xs" using Cons.prems(3) y by simp
    ultimately show "snd y \<in> fst ` set (list_erase (snd x) xs)" by force
  qed
  from Cons.IH[OF distinct_list_erase[OF Cons.prems(1)] _ this, of ?c] Cons.prems(2,4) obtain c' where
    c': "rfold purge_step ?c km = Inr c'" "tc_cache c' = filter (\<lambda>x. fst x \<notin> snd ` set km) (list_erase (snd x) xs)"
    "c' = ?c\<lparr>tc_cache := tc_cache c', tc_size := tc_size ?c - int (length km)\<rparr>" by auto
  have "filter (\<lambda>x. fst x \<notin> snd ` set km) (list_erase (snd x) xs) = filter (\<lambda>y. fst y \<notin> snd ` set (x # km)) xs"
    by (auto simp: list_erase_def intro!: filter_cong)
  moreover have "c' = c\<lparr>tc_cache := tc_cache c', tc_size := tc_size c - int (length (x # km))\<rparr>"
    using c'(3) by (simp add: diff_diff_eq)
  ultimately show ?case using step c' by (metis rbind_simps(2) rfold.simps(2))
qed

lemma class_nodes:
  assumes inv: "tc_inv c" and km: "map_of (classmap c) cid = Some km"
  shows "om_ok km" "distinct (map snd km)"
    "(k, n) \<in> set km \<longleftrightarrow> (\<exists>e. (n, e) \<in> set (tc_cache c) \<and> entry_is cid k e)"
proof -
  show ok: "om_ok km" using maps_ok_inner[OF tc_inv_parts(1)[OF inv] km] by simp
  have look: "(k, n) \<in> set km \<longleftrightarrow> tc_lookup c cid k = Some n" for k n
    using om_get_in_set[OF ok, of k n] km by (simp add: tc_lookup_def)
  show node: "(k, n) \<in> set km \<longleftrightarrow> (\<exists>e. (n, e) \<in> set (tc_cache c) \<and> entry_is cid k e)" for k n
    unfolding look by (rule tc_inv_parts(4)[OF inv])
  have same: "k = k'" if k: "(k, n) \<in> set km" and k': "(k', n) \<in> set km" for k k' n
  proof -
    from k node obtain e where e: "(n, e) \<in> set (tc_cache c)" "keyvalue e = k" by blast
    from k' node obtain e' where e': "(n, e') \<in> set (tc_cache c)" "keyvalue e' = k'" by blast
    from found_node[OF inv e(1)] found_node[OF inv e'(1)] e(2) e'(2) show ?thesis by simp
  qed
  have "distinct km" using ok by (simp add: om_ok_def distinct_map)
  then show "distinct (map snd km)"
    using same by (auto simp: distinct_map inj_on_def)
qed

lemma purgeClass_ok:
  assumes inv: "tc_inv c" and cid: "is_int32 cid"
  shows "\<exists>ks c'. purgeClass kd cid c = Inr (map (getValue kd) ks, c') \<and> tc_inv c' \<and> tc_same c c' \<and>
    tc_abs c' = filter (\<lambda>e. classid e \<noteq> cid) (tc_abs c) \<and>
    sorted ks \<and> distinct ks \<and> set ks = keyvalue ` {e \<in> set (tc_abs c). classid e = cid} \<and>
    tc_cond c' = tc_cond c"
proof (cases "map_of (classmap c) cid")
  case None
  have none: "classid e \<noteq> cid" if "e \<in> set (tc_abs c)" for e
  proof
    assume "classid e = cid"
    with that have "has_entry cid (keyvalue e) c" by (auto simp: has_entry_def)
    with lookup_has[OF inv, of cid "keyvalue e"] None show False by (simp add: tc_lookup_def)
  qed
  then have "filter (\<lambda>e. classid e \<noteq> cid) (tc_abs c) = tc_abs c" by (simp add: filter_id_conv)
  moreover have "{e \<in> set (tc_abs c). classid e = cid} = {}" using none by auto
  ultimately show ?thesis using None inv cid
    by (intro exI[of _ "[]"] exI[of _ c]) (simp add: purgeClass_def tc_same_def)
next
  case (Some km)
  note cn = class_nodes[OF inv Some]
  have nodes: "n \<in> snd ` set km \<longleftrightarrow> classid e = cid" if "(n, e) \<in> set (tc_cache c)" for n e
  proof
    assume "n \<in> snd ` set km"
    then obtain k where "(k, n) \<in> set km" by force
    then obtain e' where "(n, e') \<in> set (tc_cache c)" "classid e' = cid" using cn(3) by blast
    with found_node[OF inv that] found_node[OF inv this(1)] show "classid e = cid" by simp
  next
    assume "classid e = cid"
    then have "(keyvalue e, n) \<in> set km" using cn(3) that by blast
    then show "n \<in> snd ` set km" by force
  qed
  let ?xs = "filter (\<lambda>x. classid (snd x) \<noteq> cid) (tc_cache c)"
  have "\<forall>x\<in>set km. snd x \<in> fst ` set (tc_cache c)"
  proof
    fix x assume "x \<in> set km"
    then have "(fst x, snd x) \<in> set km" by simp
    then obtain e where "(snd x, e) \<in> set (tc_cache c)" using cn(3) by blast
    then show "snd x \<in> fst ` set (tc_cache c)" by force
  qed
  from purge_steps[OF tc_inv_parts(2)[OF inv] cn(2) this refl] obtain c' where
    c': "rfold purge_step c km = Inr c'" "tc_cache c' = filter (\<lambda>x. fst x \<notin> snd ` set km) (tc_cache c)"
    "c' = c\<lparr>tc_cache := tc_cache c', tc_size := tc_size c - int (length km)\<rparr>" by blast
  have xs: "tc_cache c' = ?xs" unfolding c'(2) by (rule filter_cong[OF refl]) (use nodes in force)
  let ?c = "c\<lparr>tc_cache := ?xs, tc_size := tc_size c - int (length km), classmap := om_del cid (classmap c)\<rparr>"
  have res: "purgeClass kd cid c = Inr (map (getValue kd) (map fst km), ?c)"
    using Some cid c'(1) c'(3)[unfolded xs] by (simp add: purgeClass_def)
  have len: "length km + length ?xs = length (tc_cache c)"
  proof -
    have "distinct (map fst (filter (\<lambda>x. \<not> classid (snd x) \<noteq> cid) (tc_cache c)))"
      using tc_inv_parts(2)[OF inv] by (simp add: distinct_map_filter)
    then have "length (filter (\<lambda>x. \<not> classid (snd x) \<noteq> cid) (tc_cache c)) =
        card (fst ` set (filter (\<lambda>x. \<not> classid (snd x) \<noteq> cid) (tc_cache c)))"
      using distinct_card by (metis length_map set_map)
    also have "fst ` set (filter (\<lambda>x. \<not> classid (snd x) \<noteq> cid) (tc_cache c)) = snd ` set km"
    proof
      show "fst ` set (filter (\<lambda>x. \<not> classid (snd x) \<noteq> cid) (tc_cache c)) \<subseteq> snd ` set km"
        using nodes by auto
      show "snd ` set km \<subseteq> fst ` set (filter (\<lambda>x. \<not> classid (snd x) \<noteq> cid) (tc_cache c))"
      proof
        fix n assume "n \<in> snd ` set km"
        then obtain k where "(k, n) \<in> set km" by force
        then obtain e where "(n, e) \<in> set (tc_cache c)" "classid e = cid" using cn(3) by blast
        then show "n \<in> fst ` set (filter (\<lambda>x. \<not> classid (snd x) \<noteq> cid) (tc_cache c))" by force
      qed
    qed
    also have "card (snd ` set km) = length km" using cn(2) distinct_card by (metis length_map set_map)
    finally show ?thesis using sum_length_filter_compl[of "\<lambda>x. classid (snd x) \<noteq> cid" "tc_cache c"] by simp
  qed
  have look: "tc_lookup ?c c' k = Some n \<longleftrightarrow> (\<exists>e. (n, e) \<in> set (tc_cache ?c) \<and> entry_is c' k e)" for c' k n
    using tc_inv_parts(4)[OF inv, of c' k n] by (auto simp: tc_lookup_map map_lookup_del)
  have "tc_inv ?c" unfolding tc_inv_def
  proof (intro conjI)
    show "maps_ok (classmap ?c)" using maps_ok_del[OF tc_inv_parts(1)[OF inv]] by simp
    show "distinct (map fst (tc_cache ?c))" using tc_inv_parts(2)[OF inv] by (simp add: distinct_map_filter)
    show "\<forall>x\<in>set (tc_cache ?c). fst x < tc_next ?c \<and> is_int32 (classid (snd x))"
      using tc_inv_parts(3)[OF inv] by simp
    show "tc_size ?c = int (length (tc_cache ?c))" using tc_inv_parts(5)[OF inv] len by simp
  qed (use look in blast)
  moreover have "tc_abs ?c = filter (\<lambda>e. classid e \<noteq> cid) (tc_abs c)"
    by (simp add: tc_abs_def filter_map comp_def)
  moreover have "set (map fst km) = keyvalue ` {e \<in> set (tc_abs c). classid e = cid}"
  proof
    show "set (map fst km) \<subseteq> keyvalue ` {e \<in> set (tc_abs c). classid e = cid}"
    proof
      fix k assume "k \<in> set (map fst km)"
      then obtain n where "(k, n) \<in> set km" by force
      then obtain e where "(n, e) \<in> set (tc_cache c)" "entry_is cid k e" using cn(3) by blast
      then show "k \<in> keyvalue ` {e \<in> set (tc_abs c). classid e = cid}" by (force simp: tc_abs_def)
    qed
    show "keyvalue ` {e \<in> set (tc_abs c). classid e = cid} \<subseteq> set (map fst km)"
    proof
      fix k assume "k \<in> keyvalue ` {e \<in> set (tc_abs c). classid e = cid}"
      then obtain n e where "(n, e) \<in> set (tc_cache c)" "entry_is cid k e" by (auto simp: tc_abs_def)
      then have "(k, n) \<in> set km" using cn(3) by blast
      then show "k \<in> set (map fst km)" by force
    qed
  qed
  ultimately show ?thesis using res cn(1)
    by (intro exI[of _ "map fst km"] exI[of _ ?c]) (simp add: tc_same_def om_ok_def)
qed

end
