(* ===== verification/Timed_Clients.thy ===== *)
theory Timed_Clients
  imports Timed_Laws
begin

text \<open>
  What the clients of a timed cache rely on, as the interface \<open>keyed_queue\<close>: values are put in
  at the end, a value put in again moves to the end, and the first value is taken when it has been in the
  cache for the delay.  The cache of the code without a size limit (\<^verbatim>\<open>TimedSyncCache\<close>) is its
  interpretation \<open>tdq\<close>.
\<close>

fun put_all :: "(int \<Rightarrow> 'k \<Rightarrow> int \<Rightarrow> 'q \<Rightarrow> (int \<times> 'q) result) \<Rightarrow> 'k cache_entry list \<Rightarrow> 'q \<Rightarrow> 'q result" where
  "put_all put [] q = Inr q"
| "put_all put (e # es) q = rbind (put (ce_time e) (keyvalue e) (classid e) q) (\<lambda>r. put_all put es (snd r))"

fun take_all :: "(int \<Rightarrow> 'q \<Rightarrow> (('w, qhash option) attempt \<times> 'q) result) \<Rightarrow> int list \<Rightarrow> 'q
    \<Rightarrow> (('w, qhash option) attempt list \<times> 'q) result" where
  "take_all tk [] q = Inr ([], q)"
| "take_all tk (now # nows) q = rbind (tk now q) (\<lambda>r.
     rbind (take_all tk nows (snd r)) (\<lambda>rs. Inr (fst r # fst rs, snd rs)))"

definition entry_key :: "'k cache_entry \<Rightarrow> int \<times> 'k" where
  "entry_key e = (classid e, keyvalue e)"

locale keyed_queue =
  fixes put :: "int \<Rightarrow> 'k \<Rightarrow> int \<Rightarrow> 'q \<Rightarrow> (int \<times> 'q) result"
    and tk :: "int \<Rightarrow> 'q \<Rightarrow> ((int option, qhash option) attempt \<times> 'q) result"
    and hash :: "'k cache_entry \<Rightarrow> qhash"
    and delay :: int
    and inv :: "'q \<Rightarrow> bool"
    and abs :: "'q \<Rightarrow> 'k cache_entry list"
  assumes put_law: "inv q \<Longrightarrow> is_int32 cid \<Longrightarrow> \<exists>q'. put now k cid q = Inr (0, q') \<and> inv q' \<and>
      abs q' = filter (\<lambda>x. \<not> entry_is cid k x) (abs q) @ [\<lparr>ce_time = now, keyvalue = k, classid = cid\<rparr>]"
    and take_law: "inv q \<Longrightarrow> \<exists>a q'. tk now q = Inr (a, q') \<and> inv q' \<and>
      (case abs q of
         [] \<Rightarrow> a = Waiting None \<and> abs q' = []
       | e # es \<Rightarrow> if ce_time e + delay > now then a = Waiting (Some ((ce_time e + delay - now) * 1000)) \<and> abs q' = abs q
           else a = Finished (Some (hash e)) \<and> abs q' = es)"
begin

lemma put_batch:
  assumes "inv q" "\<forall>e\<in>set es. is_int32 (classid e)" "distinct (map entry_key es)"
    "entry_key ` set es \<inter> entry_key ` set (abs q) = {}"
  shows "\<exists>q'. put_all put es q = Inr q' \<and> inv q' \<and> abs q' = abs q @ es"
  using assms
proof (induction es arbitrary: q)
  case Nil
  then show ?case by simp
next
  case (Cons e es)
  have "is_int32 (classid e)" using Cons.prems(2) by simp
  from put_law[OF Cons.prems(1) this, of "ce_time e" "keyvalue e"] obtain q1 where q1:
    "put (ce_time e) (keyvalue e) (classid e) q = Inr (0, q1)" "inv q1"
    "abs q1 = filter (\<lambda>x. \<not> entry_is (classid e) (keyvalue e) x) (abs q) @ [e]" by auto
  have "filter (\<lambda>x. \<not> entry_is (classid e) (keyvalue e) x) (abs q) = abs q"
    using Cons.prems(4) by (force simp: filter_id_conv entry_key_def image_iff)
  with q1 have abs: "abs q1 = abs q @ [e]" by simp
  have "entry_key ` set es \<inter> entry_key ` set (abs q1) = {}"
    using Cons.prems(3,4) by (auto simp: abs)
  from Cons.IH[OF q1(2) _ _ this] Cons.prems(2,3) obtain q' where
    "put_all put es q1 = Inr q'" "inv q'" "abs q' = abs q1 @ es" by auto
  with q1 abs show ?case by simp
qed

lemma take_batch:
  assumes "inv q" "length nows = length (abs q)" "\<forall>e\<in>set (abs q). \<forall>now\<in>set nows. ce_time e + delay \<le> now"
  shows "\<exists>q'. take_all tk nows q = Inr (map (\<lambda>e. Finished (Some (hash e))) (abs q), q') \<and> inv q' \<and> abs q' = []"
  using assms
proof (induction nows arbitrary: q)
  case Nil
  then show ?case by simp
next
  case (Cons now nows)
  then obtain e es where e: "abs q = e # es" by (cases "abs q") auto
  have due: "\<not> ce_time e + delay > now" using Cons.prems(3) e by force
  from take_law[OF Cons.prems(1), of now] obtain q1 where q1: "tk now q = Inr (Finished (Some (hash e)), q1)"
    "inv q1" "abs q1 = es" using e due by auto
  from Cons.IH[OF q1(2)] q1(3) Cons.prems(2,3) e obtain q' where
    "take_all tk nows q1 = Inr (map (\<lambda>e. Finished (Some (hash e))) es, q')" "inv q'" "abs q' = []" by auto
  with q1 e show ?case by simp
qed

lemma batch_delivered:
  assumes "inv q" "abs q = []" "\<forall>e\<in>set es. is_int32 (classid e)" "distinct (map entry_key es)"
    "length nows = length es" "\<forall>e\<in>set es. \<forall>now\<in>set nows. ce_time e + delay \<le> now"
  shows "\<exists>q'. rbind (put_all put es q) (take_all tk nows) =
    Inr (map (\<lambda>e. Finished (Some (hash e))) es, q') \<and> inv q' \<and> abs q' = []"
proof -
  from put_batch[OF assms(1,3,4)] assms(2) obtain q1 where q1: "put_all put es q = Inr q1" "inv q1" "abs q1 = es"
    by auto
  from take_batch[OF q1(2), of nows] q1 assms(5,6) show ?thesis by auto
qed

lemma taken_due:
  assumes "inv q" "tk now q = Inr (Finished (Some h), q')"
  shows "\<exists>e es. abs q = e # es \<and> h = hash e \<and> ce_time e + delay \<le> now \<and> abs q' = es \<and> inv q'"
  using take_law[OF assms(1), of now] assms(2) by (auto split: list.splits if_splits)

end

section \<open>The code's cache\<close>

definition tdq_inv :: "qore_api \<Rightarrow> qval \<Rightarrow> int \<Rightarrow> 'k::linorder timed_cache \<Rightarrow> bool" where
  "tdq_inv api opts delay c \<longleftrightarrow> tc_inv c \<and> max_name c = [] \<and> \<not> tc_term c \<and>
     tc_getOptionBigInt api opts (delay_name c) = Inr delay"

interpretation tdq: keyed_queue "cache_set api opts" "\<lambda>now. cache_attempt api kd (opts, now)" "entry_getHash kd"
    delay "tdq_inv api opts delay" tc_abs
  for api opts delay and kd :: "'k::linorder key_kind"
proof unfold_locales
  fix q :: "'k timed_cache" and cid now k
  assume inv: "tdq_inv api opts delay q" and cid: "is_int32 cid"
  then have "tc_inv q" "max_size_of api opts q = Inr (-1)" by (simp_all add: tdq_inv_def max_size_of_def)
  from cache_set_ok[OF this(1) cid this(2), of now k] inv
  show "\<exists>q'. cache_set api opts now k cid q = Inr (0, q') \<and> tdq_inv api opts delay q' \<and>
      tc_abs q' = filter (\<lambda>x. \<not> entry_is cid k x) (tc_abs q) @ [\<lparr>ce_time = now, keyvalue = k, classid = cid\<rparr>]"
    by (auto simp: has_room_def tdq_inv_def tc_same_def)
next
  fix q :: "'k timed_cache" and now
  assume inv: "tdq_inv api opts delay q"
  then have "tc_inv q" "tc_getOptionBigInt api opts (delay_name q) = Inr delay" by (simp_all add: tdq_inv_def)
  from cache_attempt_ok[OF this, of kd now] obtain a q' where at: "cache_attempt api kd (opts, now) q = Inr (a, q')"
    "tc_inv q'" "tc_same q q'" and r: "if tc_term q then a = Finished None \<and> q' = q
     else case tc_abs q of
       [] \<Rightarrow> a = Waiting None \<and> q' = q
     | e # es \<Rightarrow> if ce_time e + delay > now then a = Waiting (Some ((ce_time e + delay - now) * 1000)) \<and> q' = q
         else a = Finished (Some (entry_getHash kd e)) \<and> tc_abs q' = es" by blast
  have "tdq_inv api opts delay q'" using inv at(2,3) by (simp add: tdq_inv_def tc_same_def)
  moreover have "(case tc_abs q of
         [] \<Rightarrow> a = Waiting None \<and> tc_abs q' = []
       | e # es \<Rightarrow> if ce_time e + delay > now
           then a = Waiting (Some ((ce_time e + delay - now) * 1000)) \<and> tc_abs q' = tc_abs q
           else a = Finished (Some (entry_getHash kd e)) \<and> tc_abs q' = es)"
    using r inv by (cases "tc_abs q") (auto simp: tdq_inv_def split: if_splits)
  ultimately show "\<exists>a q'. cache_attempt api kd (opts, now) q = Inr (a, q') \<and> tdq_inv api opts delay q' \<and>
      (case tc_abs q of
         [] \<Rightarrow> a = Waiting None \<and> tc_abs q' = []
       | e # es \<Rightarrow> if ce_time e + delay > now
           then a = Waiting (Some ((ce_time e + delay - now) * 1000)) \<and> tc_abs q' = tc_abs q
           else a = Finished (Some (entry_getHash kd e)) \<and> tc_abs q' = es)"
    using at(1) by blast
qed

section \<open>Properties\<close>

text \<open>
  Storing a value: it is at the end of the cache afterwards and nowhere else; it is
  refused exactly when it is new and the cache has reached its maximum size; the listener is signalled when
  the first entry of the cache, from which its time-out was computed, has changed.
\<close>

theorem stored_value_last:
  assumes "tc_inv c" and "is_int32 cid" and "max_size_of api opts c = Inr mx"
  shows "\<exists>c'. cache_set api opts now k cid c = Inr (if has_room mx cid k c then 0 else -1, c') \<and> tc_inv c' \<and>
    (if has_room mx cid k c then
       tc_abs c' = filter (\<lambda>x. \<not> entry_is cid k x) (tc_abs c) @ [\<lparr>ce_time = now, keyvalue = k, classid = cid\<rparr>] \<and>
       tc_cond c' = tc_cond c @ (if tc_abs c = [] \<or> entry_is cid k (hd (tc_abs c)) then [Signal] else [])
     else c' = c)"
  using cache_set_ok[OF assms, of now k] by blast

text \<open>A cache of workflow instances with one entry, a limit of one entry and a delay of 60 seconds.\<close>

definition small_opts :: qval where
  "small_opts = QHash [(''max'', QInt 1), (''delay'', QInt 60)]"

definition small_cache :: "int timed_cache" where
  "small_cache = \<lparr>tc_cache = [(0, \<lparr>ce_time = 100, keyvalue = 7, classid = 3\<rparr>)], classmap = [(3, [(7, 0)])],
     tc_next = 1, tc_term = False, tc_size = 1, tc_cond = [Signal], delay_name = ''delay'', max_name = ''max''\<rparr>"

lemma small_cache_laws:
  "tc_inv small_cache" "max_size_of plain_api small_opts small_cache = Inr 1"
  "tc_getOptionBigInt plain_api small_opts (delay_name small_cache) = Inr 60"
  "is_int32 3"
proof -
  show i: "is_int32 3" by (simp add: is_int32_def)
  have "max_size_of plain_api small_opts (new_TimedDataCache ''delay'' (Some ''max'') :: int timed_cache) = Inr 1"
    by (simp add: max_size_of_def new_TimedDataCache_def tc_getOptionBigInt_def small_opts_def plain_api_def)
  from cache_set_ok[OF tc_inv_new i this, of 100 7] show "tc_inv small_cache"
    by (auto simp: cache_set_def new_TimedDataCache_def tc_getOptionBigInt_def small_opts_def plain_api_def
      cache_full_def list_push_def tc_signal_def small_cache_def i)
  show "max_size_of plain_api small_opts small_cache = Inr 1"
    "tc_getOptionBigInt plain_api small_opts (delay_name small_cache) = Inr 60"
    by (simp_all add: max_size_of_def small_cache_def tc_getOptionBigInt_def small_opts_def plain_api_def)
qed

theorem stored_value_last_witness:
  "(\<exists>c'. cache_set plain_api small_opts 150 8 3 small_cache = Inr (-1, c') \<and> c' = small_cache) \<and>
   (\<exists>c'. cache_set plain_api small_opts 150 7 3 small_cache = Inr (0, c') \<and>
      tc_abs c' = [\<lparr>ce_time = 150, keyvalue = 7, classid = 3\<rparr>] \<and> tc_cond c' = [Signal, Signal])"
proof -
  have r: "\<not> has_room 1 3 8 small_cache" "has_room 1 3 7 small_cache"
    by (simp_all add: has_room_def has_entry_def tc_abs_def small_cache_def)
  from stored_value_last[OF small_cache_laws(1,4,2), of 150 8] stored_value_last[OF small_cache_laws(1,4,2), of 150 7] r
  show ?thesis by (auto simp: tc_abs_def small_cache_def)
qed

text \<open>
  Delivery order: values of different class or key that are put into an empty cache
  without a size limit are delivered in the order in which they were put in, each once, by requests that come when
  each has been in the cache for the delay.
\<close>

theorem values_delivered_in_order:
  assumes "tdq_inv api opts delay c" and "tc_abs c = []"
    and "\<forall>e\<in>set es. is_int32 (classid e)" and "distinct (map entry_key es)"
    and "length nows = length es" and "\<forall>e\<in>set es. \<forall>now\<in>set nows. ce_time e + delay \<le> now"
  shows "\<exists>c'. rbind (put_all (cache_set api opts) es c) (take_all (\<lambda>now. cache_attempt api kd (opts, now)) nows) =
    Inr (map (\<lambda>e. Finished (Some (entry_getHash kd e))) es, c') \<and> tdq_inv api opts delay c' \<and> tc_abs c' = []"
  by (rule tdq.batch_delivered[OF assms])

theorem values_delivered_in_order_witness:
  "\<exists>c'. rbind (put_all (cache_set plain_api small_opts)
        [\<lparr>ce_time = 100, keyvalue = ''b'', classid = 3\<rparr>, \<lparr>ce_time = 110, keyvalue = ''a'', classid = 3\<rparr>]
        (new_TimedDataCache ''delay'' None))
      (take_all (\<lambda>now. cache_attempt plain_api string_kind (small_opts, now)) [170, 171]) =
    Inr ([Finished (Some [(''eventtype'', QInt 3), (''eventkey'', QString ''b'')]),
          Finished (Some [(''eventtype'', QInt 3), (''eventkey'', QString ''a'')])], c') \<and> tc_abs c' = []"
proof -
  let ?c = "new_TimedDataCache ''delay'' None :: string timed_cache"
  have inv: "tdq_inv plain_api small_opts 60 ?c"
    using tc_inv_new[of "''delay''" None, where ?'a = string]
    by (simp add: tdq_inv_def new_TimedDataCache_def tc_getOptionBigInt_def small_opts_def plain_api_def)
  have "tc_abs ?c = []" by (simp add: tc_abs_def new_TimedDataCache_def)
  from values_delivered_in_order[OF inv this, where kd = string_kind and nows = "[170, 171]" and
    es = "[\<lparr>ce_time = 100, keyvalue = ''b'', classid = 3\<rparr>, \<lparr>ce_time = 110, keyvalue = ''a'', classid = 3\<rparr>]"]
  show ?thesis by (auto simp: small_cache_laws(4) entry_key_def entry_getHash_def string_kind_def)
qed

text \<open>
  When a value is delivered: a request gets the first value of the cache once it has
  been in the cache for the delay; before that it sleeps for exactly the rest of the delay, and with no time-out
  only when the cache is empty.
\<close>

theorem first_value_when_due:
  assumes "tc_inv c" and "tc_getOptionBigInt api opts (delay_name c) = Inr delay" and "\<not> tc_term c"
  shows "\<exists>a c'. cache_attempt api kd (opts, now) c = Inr (a, c') \<and> tc_inv c' \<and>
    (case tc_abs c of
       [] \<Rightarrow> a = Waiting None \<and> c' = c
     | e # es \<Rightarrow> if ce_time e + delay > now then a = Waiting (Some ((ce_time e + delay - now) * 1000)) \<and> c' = c
         else a = Finished (Some (entry_getHash kd e)) \<and> tc_abs c' = es)"
proof -
  from cache_attempt_ok[OF assms(1,2), of kd now] obtain a c' where "cache_attempt api kd (opts, now) c = Inr (a, c')"
    "tc_inv c'" "if tc_term c then a = Finished None \<and> c' = c
     else case tc_abs c of
       [] \<Rightarrow> a = Waiting None \<and> c' = c
     | e # es \<Rightarrow> if ce_time e + delay > now then a = Waiting (Some ((ce_time e + delay - now) * 1000)) \<and> c' = c
         else a = Finished (Some (entry_getHash kd e)) \<and> tc_abs c' = es" by blast
  with assms(3) show ?thesis by (intro exI[of _ a] exI[of _ c']) simp
qed

theorem first_value_when_due_witness:
  "(\<exists>c'. cache_attempt plain_api int64_kind (small_opts, 159) small_cache = Inr (Waiting (Some 1000), c')) \<and>
   (\<exists>c'. cache_attempt plain_api int64_kind (small_opts, 160) small_cache =
      Inr (Finished (Some [(''wfid'', QInt 3), (''wfiid'', QInt 7)]), c') \<and> tc_abs c' = [])"
proof -
  have abs: "tc_abs small_cache = [\<lparr>ce_time = 100, keyvalue = 7, classid = 3\<rparr>]" "\<not> tc_term small_cache"
    by (simp_all add: tc_abs_def small_cache_def)
  from first_value_when_due[OF small_cache_laws(1,3) abs(2), of int64_kind 159]
    first_value_when_due[OF small_cache_laws(1,3) abs(2), of int64_kind 160]
  show ?thesis by (auto simp: abs entry_getHash_def int64_kind_def)
qed

text \<open>
  Deleting a value removes it and nothing else, and signals the listener exactly when it
  was the first one.
\<close>

theorem value_deleted:
  assumes "tc_inv c" and "is_int32 cid"
  shows "\<exists>c'. deleteKey k cid c = Inr c' \<and> tc_inv c' \<and>
    tc_abs c' = filter (\<lambda>x. \<not> entry_is cid k x) (tc_abs c) \<and>
    tc_cond c' = tc_cond c @ (if tc_abs c \<noteq> [] \<and> entry_is cid k (hd (tc_abs c)) then [Signal] else [])"
  using deleteKey_ok[OF assms, of k] by blast

theorem value_deleted_witness:
  "\<exists>c'. deleteKey 7 3 small_cache = Inr c' \<and> tc_abs c' = [] \<and> tc_cond c' = [Signal, Signal]"
  using value_deleted[OF small_cache_laws(1,4), of 7]
  by (auto simp: tc_abs_def small_cache_def)

text \<open>
  Purging a class returns the key values of all its entries, once each and in order, and
  removes exactly those; but it never sends a notification, also when it removes the first entry of the
  cache.
\<close>

theorem class_purged:
  assumes "tc_inv c" and "is_int32 cid"
  shows "\<exists>ks c'. purgeClass kd cid c = Inr (map (getValue kd) ks, c') \<and> tc_inv c' \<and>
    tc_abs c' = filter (\<lambda>e. classid e \<noteq> cid) (tc_abs c) \<and>
    sorted ks \<and> distinct ks \<and> set ks = keyvalue ` {e \<in> set (tc_abs c). classid e = cid} \<and>
    tc_cond c' = tc_cond c"
  using purgeClass_ok[OF assms, of kd] by blast

theorem class_purged_witness:
  "\<exists>ks c'. purgeClass int64_kind 3 small_cache = Inr (map QInt ks, c') \<and> set ks = {7} \<and> tc_abs c' = [] \<and>
    tc_cond c' = tc_cond small_cache"
proof -
  have abs: "tc_abs small_cache = [\<lparr>ce_time = 100, keyvalue = 7, classid = 3\<rparr>]"
    by (simp add: tc_abs_def small_cache_def)
  have "keyvalue ` {e \<in> set (tc_abs small_cache). classid e = 3} = {7}"
    unfolding abs by auto
  with class_purged[OF small_cache_laws(1,4), of int64_kind] show ?thesis
    unfolding abs by (auto simp: int64_kind_def)
qed

text \<open>
  Class identifiers: the first level of the look-up map narrows them to 32 bits.  Storing a
  value under an identifier that does not fit, when the same value is stored under the narrowed one, is a failed
  assertion.
\<close>

theorem wide_class_id_fails:
  assumes "tc_inv c" and "max_size_of api opts c = Inr mx"
    and "\<not> is_int32 cid" and "has_entry (to_int32 cid) k c"
  shows "cache_set api opts now k cid c = Inl Assertion_failed"
proof -
  from assms(4) lookup_has[OF assms(1), of "to_int32 cid" k] obtain n where n: "tc_lookup c (to_int32 cid) k = Some n"
    by auto
  obtain e where e: "(n, e) \<in> set (tc_cache c)" "entry_is (to_int32 cid) k e" "map_of (tc_cache c) n = Some e"
    using lookup_node[OF assms(1) n] .
  from n obtain km where km: "map_of (classmap c) (to_int32 cid) = Some km" "map_of km k = Some n"
    by (auto simp: tc_lookup_def split: option.splits)
  have "classid e \<noteq> cid" using e(2) is_int32_to_int32[of cid] assms(3) by metis
  with assms(2) km e(3) show ?thesis by (simp add: cache_set_def max_size_of_def Let_def)
qed

theorem wide_class_id_fails_witness:
  "cache_set plain_api small_opts 150 7 4294967299 small_cache = Inl Assertion_failed"
proof (rule wide_class_id_fails[OF small_cache_laws(1,2)])
  show "\<not> is_int32 4294967299" by (simp add: is_int32_def)
  have "to_int32 4294967299 = 3" by (simp add: to_int32_def signed_take_bit_def)
  then show "has_entry (to_int32 4294967299) 7 small_cache"
    by (simp add: has_entry_def tc_abs_def small_cache_def)
qed

end
