(* ===== verification/Order_Expiry.thy ===== *)
theory Order_Expiry
  imports Parent_Info
begin

text \<open>
  The order expiry cache, \<^verbatim>\<open>class OrderExpiryCache\<close> of
  \<^verbatim>\<open>exec/QC_OrderExpiryCache.h\<close>: for every workflow the orders that have not yet
  exceeded their service level agreement, in the order in which they were queued, each with its creation
  time.  One operation is one critical section; the current time is an argument.
\<close>

section \<open>Model\<close>

type_synonym order_vec = "(int \<times> int) list"

type_synonym expiry_cache = "(int, order_vec) omap"

definition queueOrder :: "int \<Rightarrow> int \<Rightarrow> int \<Rightarrow> expiry_cache \<Rightarrow> expiry_cache result" where
  "queueOrder wfid wfiid created c =
     (let v = (case map_of c wfid of None \<Rightarrow> [] | Some v \<Rightarrow> v) in
      rbind (assert_that (v = [] \<or> snd (last v) < created \<or> snd (last v) - created < 30)) (\<lambda>_.
        Inr (om_put wfid (v @ [(wfiid, created)]) c)))"

definition DEFAULT_SLA_THRESHOLD :: int where
  "DEFAULT_SLA_THRESHOLD = 1800"

definition sla_seconds :: "qore_api \<Rightarrow> qhash option \<Rightarrow> int \<Rightarrow> int \<Rightarrow> int" where
  "sla_seconds api wf_slas delay wfid =
     (case wf_slas of
        None \<Rightarrow> DEFAULT_SLA_THRESHOLD
      | Some h \<Rightarrow>
          (let seconds = getAsBigInt api (hash_get (dec wfid) h) in
           if seconds = 0 then DEFAULT_SLA_THRESHOLD else seconds)) + delay"

text \<open>The inner loop of \<^verbatim>\<open>getEvents\<close>.\<close>

fun expired_offset :: "int \<Rightarrow> int \<Rightarrow> order_vec \<Rightarrow> nat" where
  "expired_offset now seconds [] = 0"
| "expired_offset now seconds (x # v) =
     (if now - snd x < seconds then 0 else Suc (expired_offset now seconds v))"

text \<open>The result hash is made when the first count is put into it.\<close>

definition put_count :: "int \<Rightarrow> nat \<Rightarrow> qhash option \<Rightarrow> qhash option" where
  "put_count wfid n rv = Some (hash_set (dec wfid) (QInt (int n)) (case rv of None \<Rightarrow> [] | Some h \<Rightarrow> h))"

fun events_from :: "(int \<Rightarrow> int) \<Rightarrow> int \<Rightarrow> expiry_cache \<Rightarrow> qhash option \<Rightarrow> qhash option \<times> expiry_cache" where
  "events_from secs now [] rv = (rv, [])"
| "events_from secs now (x # c) rv =
     (let offset = expired_offset now (secs (fst x)) (snd x);
          v = drop offset (snd x) in
      if offset = 0 then
        (case events_from secs now c rv of (rv', c') \<Rightarrow> (rv', x # c'))
      else
        (case events_from secs now c (put_count (fst x) offset rv) of (rv', c') \<Rightarrow>
           (rv', if v = [] then c' else (fst x, v) # c')))"

definition getEvents :: "qore_api \<Rightarrow> qhash option \<Rightarrow> int \<Rightarrow> int \<Rightarrow> expiry_cache \<Rightarrow> qhash option \<times> expiry_cache" where
  "getEvents api wf_slas delay now c = events_from (sla_seconds api wf_slas delay) now c None"

fun remove_first :: "int \<Rightarrow> order_vec \<Rightarrow> order_vec option" where
  "remove_first wfiid [] = None"
| "remove_first wfiid (x # v) = (if fst x = wfiid then Some v else map_option ((#) x) (remove_first wfiid v))"

definition removeOrder :: "int \<Rightarrow> int \<Rightarrow> expiry_cache \<Rightarrow> int \<times> expiry_cache" where
  "removeOrder wfid wfiid c =
     (case map_of c wfid of
        None \<Rightarrow> (0, c)
      | Some v \<Rightarrow>
        (case remove_first wfiid v of
           None \<Rightarrow> (-1, c)
         | Some v' \<Rightarrow> (0, om_put wfid v' c)))"

section \<open>Text\<close>

definition int_cast :: "int \<Rightarrow> string" where
  "int_cast i = dec (to_int32 i)"

definition expiry_getSummary :: "expiry_cache \<Rightarrow> string" where
  "expiry_getSummary c =
     (let s = ''['' @ concat (map (\<lambda>x. ''wfid '' @ int_cast (fst x) @ '': size: '' @ int_cast (int (length (snd x)))
                                 @ '', '') c)
      in (if length s > 1 then drop2 s else s) @ '']'')"

definition expiry_getDetails :: "expiry_cache \<Rightarrow> string" where
  "expiry_getDetails c =
     (let s = ''['' @ concat (map (\<lambda>x.
            (let t = ''wfid '' @ int_cast (fst x) @ '': size: '' @ int_cast (int (length (snd x))) @ '': [''
                   @ concat (map (\<lambda>w. ''wfid: '' @ dec (fst w) @ '' created: '' @ dec (snd w) @ '', '') (snd x))
             in (if snd x \<noteq> [] then drop2 t else t)) @ ''], '') c)
      in (if length s > 1 then drop2 s else s) @ '']'')"

section \<open>Laws\<close>

definition orders_of :: "expiry_cache \<Rightarrow> int \<Rightarrow> order_vec" where
  "orders_of c w = (case map_of c w of None \<Rightarrow> [] | Some v \<Rightarrow> v)"

lemma expired_offset_takeWhile:
  "expired_offset now s v = length (takeWhile (\<lambda>x. s \<le> now - snd x) v)"
  by (induction v) auto

lemma drop_offset: "drop (expired_offset now s v) v = dropWhile (\<lambda>x. s \<le> now - snd x) v"
  by (simp add: expired_offset_takeWhile dropWhile_eq_drop)

lemma orders_of_Cons:
  "orders_of (x # c) w = (if fst x = w then snd x else orders_of c w)"
  by (simp add: orders_of_def)

definition kept :: "(int \<Rightarrow> int) \<Rightarrow> int \<Rightarrow> int \<times> order_vec \<Rightarrow> expiry_cache" where
  "kept secs now x = (if expired_offset now (secs (fst x)) (snd x) = 0 then [x]
     else if drop (expired_offset now (secs (fst x)) (snd x)) (snd x) = [] then []
     else [(fst x, drop (expired_offset now (secs (fst x)) (snd x)) (snd x))])"

definition counted :: "(int \<Rightarrow> int) \<Rightarrow> int \<Rightarrow> int \<times> order_vec \<Rightarrow> qhash option \<Rightarrow> qhash option" where
  "counted secs now x rv = (if expired_offset now (secs (fst x)) (snd x) = 0 then rv
     else put_count (fst x) (expired_offset now (secs (fst x)) (snd x)) rv)"

lemma events_from_Cons:
  "snd (events_from secs now (x # c) rv) = kept secs now x @ snd (events_from secs now c (counted secs now x rv))"
  "fst (events_from secs now (x # c) rv) = fst (events_from secs now c (counted secs now x rv))"
  by (simp_all add: kept_def counted_def Let_def split: prod.splits)

lemma kept_key: "y \<in> set (kept secs now x) \<Longrightarrow> fst y = fst x"
  by (auto simp: kept_def split: if_splits)

lemma events_from_keys: "y \<in> set (snd (events_from secs now c rv)) \<Longrightarrow> fst y \<in> fst ` set c"
proof (induction c arbitrary: rv)
  case Nil
  then show ?case by simp
next
  case (Cons x c)
  then show ?case by (auto simp: events_from_Cons(1) dest: kept_key simp del: events_from.simps)
qed

lemma events_from_ok: "om_ok c \<Longrightarrow> om_ok (snd (events_from secs now c rv))"
proof (induction c arbitrary: rv)
  case Nil
  then show ?case by simp
next
  case (Cons x c)
  then have ok: "om_ok c" "\<forall>q\<in>set c. fst x < fst q" by (simp_all add: om_ok_Cons)
  let ?rest = "snd (events_from secs now c (counted secs now x rv))"
  have "\<forall>q\<in>set ?rest. fst x < fst q" using ok(2) events_from_keys by fastforce
  with Cons.IH[OF ok(1), of "counted secs now x rv"] show ?case
    unfolding events_from_Cons(1) by (auto simp: kept_def om_ok_Cons)
qed

lemma orders_of_absent: "w \<notin> fst ` set c \<Longrightarrow> orders_of c w = []"
  unfolding orders_of_def by (force split: option.splits dest: map_of_SomeD)

lemma orders_of_kept:
  "orders_of (kept secs now x @ c) w =
     (if fst x = w \<and> kept secs now x \<noteq> [] then dropWhile (\<lambda>y. secs w \<le> now - snd y) (snd x) else orders_of c w)"
proof (cases "expired_offset now (secs (fst x)) (snd x) = 0")
  case True
  then have "dropWhile (\<lambda>y. secs (fst x) \<le> now - snd y) (snd x) = snd x"
    using drop_offset[of now "secs (fst x)" "snd x"] by simp
  with True show ?thesis by (auto simp: kept_def orders_of_Cons)
next
  case False
  then show ?thesis by (auto simp: kept_def orders_of_Cons drop_offset simp del: dropWhile_eq_Nil_conv)
qed

lemma kept_Nil: "kept secs now x = [] \<Longrightarrow> dropWhile (\<lambda>y. secs (fst x) \<le> now - snd y) (snd x) = []"
  unfolding kept_def drop_offset by (simp split: if_splits)

lemma events_from_orders:
  assumes "om_ok c"
  shows "orders_of (snd (events_from secs now c rv)) w = dropWhile (\<lambda>x. secs w \<le> now - snd x) (orders_of c w)"
  using assms
proof (induction c arbitrary: rv)
  case Nil
  then show ?case by (simp add: orders_of_def)
next
  case (Cons x c)
  then have ok: "om_ok c" "\<forall>q\<in>set c. fst x < fst q" by (simp_all add: om_ok_Cons)
  let ?rest = "snd (events_from secs now c (counted secs now x rv))"
  have absent: "orders_of ?rest (fst x) = []"
    using ok(2) events_from_keys by (intro orders_of_absent) fastforce
  show ?case
  proof (cases "w = fst x")
    case True
    with absent kept_Nil[of secs now x] show ?thesis
      by (simp add: events_from_Cons(1) orders_of_kept orders_of_Cons del: events_from.simps dropWhile_eq_Nil_conv)
  next
    case False
    with Cons.IH[OF ok(1), of "counted secs now x rv"] show ?thesis
      by (simp add: events_from_Cons(1) orders_of_kept orders_of_Cons del: events_from.simps)
  qed
qed

definition count_of :: "qhash option \<Rightarrow> int \<Rightarrow> qval" where
  "count_of rv w = (case rv of None \<Rightarrow> QNothing | Some h \<Rightarrow> hash_get (dec w) h)"

lemma count_of_put: "count_of (put_count w n rv) v = (if v = w then QInt (int n) else count_of rv v)"
  using dec_inj[of v w] by (auto simp: count_of_def put_count_def split: option.splits)

lemma events_from_counts:
  assumes "om_ok c"
  shows "count_of (fst (events_from secs now c rv)) w =
    (if expired_offset now (secs w) (orders_of c w) = 0 then count_of rv w
     else QInt (int (expired_offset now (secs w) (orders_of c w))))"
  using assms
proof (induction c arbitrary: rv)
  case Nil
  then show ?case by (simp add: orders_of_def)
next
  case (Cons x c)
  then have ok: "om_ok c" "\<forall>q\<in>set c. fst x < fst q" by (simp_all add: om_ok_Cons)
  have absent: "orders_of c (fst x) = []" using ok(2) by (intro orders_of_absent) fastforce
  have cnt: "count_of (counted secs now x rv) w = (if w = fst x \<and> expired_offset now (secs w) (snd x) \<noteq> 0
      then QInt (int (expired_offset now (secs w) (snd x))) else count_of rv w)"
    by (auto simp: counted_def count_of_put)
  show ?case unfolding events_from_Cons(2) Cons.IH[OF ok(1)] cnt
    by (cases "w = fst x") (simp_all add: orders_of_Cons absent)
qed

section \<open>Properties\<close>

text \<open>
  C26.  Expiry: one call takes from the orders of every workflow, from the oldest on, all
  that have reached the threshold of the workflow plus the delay, up to the first one that has not, and
  reports how many it took, and nothing for a workflow of which it took none.
\<close>

theorem expired_orders_counted:
  assumes "om_ok c" and "getEvents api wf_slas delay now c = (rv, c')"
  shows "om_ok c' \<and>
    orders_of c w = takeWhile (\<lambda>x. sla_seconds api wf_slas delay w \<le> now - snd x) (orders_of c w) @ orders_of c' w \<and>
    (orders_of c' w \<noteq> [] \<longrightarrow> now - snd (hd (orders_of c' w)) < sla_seconds api wf_slas delay w) \<and>
    count_of rv w = (if length (orders_of c w) = length (orders_of c' w) then QNothing
      else QInt (int (length (orders_of c w)) - int (length (orders_of c' w))))"
proof -
  let ?P = "\<lambda>x. sla_seconds api wf_slas delay w \<le> now - snd x"
  have c': "c' = snd (events_from (sla_seconds api wf_slas delay) now c None)"
    and rv: "rv = fst (events_from (sla_seconds api wf_slas delay) now c None)"
    using assms(2) by (simp_all add: getEvents_def)
  have w: "orders_of c' w = dropWhile ?P (orders_of c w)"
    unfolding c' by (rule events_from_orders[OF assms(1)])
  have split: "orders_of c w = takeWhile ?P (orders_of c w) @ orders_of c' w" by (simp add: w)
  have len: "int (length (orders_of c w)) - int (length (orders_of c' w)) = int (length (takeWhile ?P (orders_of c w)))"
    using arg_cong[OF split, of length] by simp
  have "count_of rv w = (if length (takeWhile ?P (orders_of c w)) = 0 then QNothing
      else QInt (int (length (takeWhile ?P (orders_of c w)))))"
    unfolding rv events_from_counts[OF assms(1)] expired_offset_takeWhile by (simp add: count_of_def)
  then have "count_of rv w = (if length (orders_of c w) = length (orders_of c' w) then QNothing
      else QInt (int (length (orders_of c w)) - int (length (orders_of c' w))))"
    using len by auto
  moreover have "now - snd (hd (orders_of c' w)) < sla_seconds api wf_slas delay w" if "orders_of c' w \<noteq> []"
    using hd_dropWhile[of ?P "orders_of c w"] that w by simp
  moreover have "om_ok c'" unfolding c' by (rule events_from_ok[OF assms(1)])
  ultimately show ?thesis using split by blast
qed

theorem expired_orders_counted_witness:
  "\<exists>rv c'. getEvents plain_api None 10 3000 [(3, [(7, 1000), (8, 1190), (9, 1191)])] = (rv, c') \<and>
    orders_of c' 3 = [(9, 1191)] \<and> count_of rv 3 = QInt 2"
proof -
  obtain rv c' where r: "getEvents plain_api None 10 3000 [(3, [(7, 1000), (8, 1190), (9, 1191)])] = (rv, c')"
    by (cases "getEvents plain_api None 10 3000 [(3, [(7, 1000), (8, 1190), (9, 1191)])]")
  have "om_ok [(3::int, [(7::int, 1000::int), (8, 1190), (9, 1191)])]" by (simp add: om_ok_Cons)
  note counted = expired_orders_counted[OF this r, of 3]
  have o: "orders_of [(3::int, [(7::int, 1000::int), (8, 1190), (9, 1191)])] 3 = [(7, 1000), (8, 1190), (9, 1191)]"
    "sla_seconds plain_api None 10 3 = 1810"
    by (simp_all add: orders_of_def sla_seconds_def DEFAULT_SLA_THRESHOLD_def)
  from counted have left: "orders_of c' 3 = [(9, 1191)]" unfolding o by simp
  from counted have "count_of rv 3 = QInt 2" unfolding o left by simp
  with r left show ?thesis by blast
qed

text \<open>
  No order is missed when the orders of a workflow were queued in the order of their
  creation: after a call, every order left is younger than the threshold.
\<close>

theorem no_expired_order_left:
  assumes "om_ok c" and "getEvents api wf_slas delay now c = (rv, c')"
    and "sorted (map snd (orders_of c w))"
  shows "\<forall>x\<in>set (orders_of c' w). now - snd x < sla_seconds api wf_slas delay w"
proof -
  let ?P = "\<lambda>x. sla_seconds api wf_slas delay w \<le> now - snd x"
  have w: "orders_of c' w = dropWhile ?P (orders_of c w)"
    using assms(2) events_from_orders[OF assms(1), of "sla_seconds api wf_slas delay" now None w]
    by (simp add: getEvents_def)
  have "\<forall>x\<in>set (dropWhile ?P v). \<not> ?P x" if "sorted (map snd v)" for v :: order_vec
    using that
  proof (induction v)
    case Nil
    then show ?case by simp
  next
    case (Cons x v)
    show ?case
    proof (cases "?P x")
      case True
      have "sorted (map snd v)" using Cons.prems by simp
      from Cons.IH[OF this] show ?thesis unfolding dropWhile.simps if_P[OF True] .
    next
      case False
      have "\<forall>y\<in>set v. snd x \<le> snd y" using Cons.prems by simp
      then have "\<forall>y\<in>set (x # v). \<not> ?P y" using False by fastforce
      then show ?thesis unfolding dropWhile.simps if_not_P[OF False] .
    qed
  qed
  from this[OF assms(3)] show ?thesis unfolding w by (simp add: not_le)
qed

theorem no_expired_order_left_witness:
  "\<exists>rv c'. getEvents plain_api None 10 3000 [(3, [(7, 1000), (8, 1190), (9, 1191)])] = (rv, c') \<and>
    (\<forall>x\<in>set (orders_of c' 3). 3000 - snd x < 1810)"
proof -
  obtain rv c' where r: "getEvents plain_api None 10 3000 [(3, [(7, 1000), (8, 1190), (9, 1191)])] = (rv, c')"
    by (cases "getEvents plain_api None 10 3000 [(3, [(7, 1000), (8, 1190), (9, 1191)])]")
  have "om_ok [(3::int, [(7::int, 1000::int), (8, 1190), (9, 1191)])]" by (simp add: om_ok_Cons)
  from no_expired_order_left[OF this r, of 3] r show ?thesis
    by (simp add: orders_of_def sla_seconds_def DEFAULT_SLA_THRESHOLD_def)
qed

text \<open>
  Removing an order: the first order with its identifier is taken out of the orders of its
  workflow and every other order stays; -1 is returned only when the workflow has orders on record and this
  is not one of them, and 0 also when nothing is known of the workflow.
\<close>

theorem order_removed:
  assumes "removeOrder wfid wfiid c = (rc, c')"
  shows "(\<forall>w. w \<noteq> wfid \<longrightarrow> orders_of c' w = orders_of c w) \<and>
    (if wfiid \<in> fst ` set (orders_of c wfid) then rc = 0 \<and>
       (\<exists>us t vs. orders_of c wfid = us @ (wfiid, t) # vs \<and> wfiid \<notin> fst ` set us \<and> orders_of c' wfid = us @ vs)
     else c' = c \<and> rc = (if map_of c wfid = None then 0 else -1))"
proof -
  have some: "\<exists>us t vs. v = us @ (i, t) # vs \<and> i \<notin> fst ` set us \<and> v' = us @ vs" if "remove_first i v = Some v'" for i v v'
    using that
  proof (induction v arbitrary: v')
    case Nil
    then show ?case by simp
  next
    case (Cons x v)
    show ?case
    proof (cases "fst x = i")
      case True
      with Cons.prems show ?thesis by (intro exI[of _ "[]"] exI[of _ "snd x"] exI[of _ v]) auto
    next
      case False
      with Cons.prems obtain v1 where v1: "remove_first i v = Some v1" "v' = x # v1" by auto
      from Cons.IH[OF v1(1)] obtain us t vs where "v = us @ (i, t) # vs" "i \<notin> fst ` set us" "v1 = us @ vs" by blast
      with False v1(2) show ?thesis by (intro exI[of _ "x # us"] exI[of _ t] exI[of _ vs]) auto
    qed
  qed
  have none: "remove_first i v = None \<longleftrightarrow> i \<notin> fst ` set v" for i v
    by (induction v) auto
  show ?thesis
  proof (cases "map_of c wfid")
    case None
    with assms show ?thesis by (auto simp: removeOrder_def orders_of_def)
  next
    case (Some v)
    show ?thesis
    proof (cases "remove_first wfiid v")
      case None
      with Some assms none[of wfiid v] show ?thesis by (auto simp: removeOrder_def orders_of_def)
    next
      case (Some v')
      with \<open>map_of c wfid = Some v\<close> assms have r: "rc = 0" "c' = om_put wfid v' c" by (simp_all add: removeOrder_def)
      have "wfiid \<in> fst ` set v" using none[of wfiid v] Some by simp
      with some[OF Some] r \<open>map_of c wfid = Some v\<close> show ?thesis by (simp add: orders_of_def)
    qed
  qed
qed

theorem order_removed_witness:
  "removeOrder 3 8 [(3, [(7, 1000), (8, 1190)])] = (0, [(3, [(7, 1000)])]) \<and>
   orders_of [(3, [(7, 1000)])] 3 = [(7, 1000)] \<and> removeOrder 4 8 [(3, [(7, 1000)])] = (0, [(3, [(7, 1000)])])"
proof -
  have r: "removeOrder 3 8 [(3, [(7, 1000), (8, 1190)])] = (0, [(3, [(7, 1000)])])"
    "removeOrder 4 8 [(3, [(7, 1000)])] = (0, [(3, [(7, 1000)])])"
    by (simp_all add: removeOrder_def)
  from order_removed[OF r(1)] r show ?thesis by (simp add: orders_of_def)
qed

end
