(* ===== verification/Cache_Bindings.thy ===== *)
theory Cache_Bindings
  imports Timed_Clients Order_Expiry
begin

text \<open>
  The Qore classes \<^verbatim>\<open>TimedSyncCache\<close>, \<^verbatim>\<open>TimedWorkflowCache\<close> and
  \<^verbatim>\<open>OrderExpiryCache\<close>: \<^verbatim>\<open>exec/QC_TimedSyncCache.qpp\<close>,
  \<^verbatim>\<open>exec/QC_TimedWorkflowCache.qpp\<close> and \<^verbatim>\<open>exec/QC_OrderExpiryCache.qpp\<close>.  Each method
  passes its arguments to the C++ class.  A call of \<^verbatim>\<open>getEvent\<close> is one round of it.
\<close>

section \<open>Methods\<close>

datatype 'k timed_call =
    Timed_destructor | Timed_copy | Timed_terminate | Timed_requeue | Timed_set 'k int
  | Timed_deleteKey 'k int | Timed_getEvent | Timed_toString | Timed_getSummary

datatype cache_return =
    C_nothing | C_bool bool | C_list "qval list" | C_hash "qhash option" | C_string string
  | C_wait "int option" | C_exception string string

text \<open>
  \<^verbatim>\<open>TimedDataCacheBase::destructor\<close>, which only looks if the cache is terminated; the assertion,
  like all others, is there in a build with debugging.
\<close>

definition cache_destructor :: "'k timed_cache \<Rightarrow> unit result" where
  "cache_destructor c = assert_that (tc_term c)"

text \<open>
  The methods that both classes have; \<open>term_m\<close> is \<^verbatim>\<open>terminate\<close> of the C++ class and \<open>cls\<close> the
  name of the Qore class.  \<^verbatim>\<open>set\<close> is true when the value was not stored.
\<close>

primrec timed_method :: "string \<Rightarrow> ('k timed_cache \<Rightarrow> 'k timed_cache result) \<Rightarrow> 'k::linorder key_kind
    \<Rightarrow> qore_api \<Rightarrow> qval \<Rightarrow> int \<Rightarrow> 'k timed_call \<Rightarrow> 'k timed_cache \<Rightarrow> (cache_return \<times> 'k timed_cache) result" where
  "timed_method cls term_m kd api opts now Timed_destructor c =
     rbind (cache_destructor c) (\<lambda>_. Inr (C_nothing, c))"
| "timed_method cls term_m kd api opts now Timed_copy c =
     Inr (C_exception ''COPY-ERROR'' (cls @ '' objects may not be copied''), c)"
| "timed_method cls term_m kd api opts now Timed_terminate c = rbind (term_m c) (\<lambda>c'. Inr (C_nothing, c'))"
| "timed_method cls term_m kd api opts now Timed_requeue c = Inr (C_nothing, cache_requeue c)"
| "timed_method cls term_m kd api opts now (Timed_set k cid) c =
     rbind (cache_set api opts now k cid c) (\<lambda>(rc, c'). Inr (C_bool (rc \<noteq> 0), c'))"
| "timed_method cls term_m kd api opts now (Timed_deleteKey k cid) c =
     rbind (deleteKey k cid c) (\<lambda>c'. Inr (C_nothing, c'))"
| "timed_method cls term_m kd api opts now Timed_getEvent c =
     rbind (cache_attempt api kd (opts, now) c) (\<lambda>(a, c').
       Inr (case a of Waiting w \<Rightarrow> C_wait w | Finished h \<Rightarrow> C_hash h, c'))"
| "timed_method cls term_m kd api opts now Timed_toString c =
     rbind (cache_toString api kd c) (\<lambda>s. Inr (C_string s, c))"
| "timed_method cls term_m kd api opts now Timed_getSummary c = Inr (C_string (cache_getSummary kd c), c)"

text \<open>
  \<^verbatim>\<open>QoreStringNode::c_str\<close>: a key or an option name that is passed on as a C string ends at
  its first NUL.
\<close>

definition c_str :: "string \<Rightarrow> string" where
  "c_str s = takeWhile (\<lambda>c. c \<noteq> CHR 0x00) s"

definition sync_constructor :: "string \<Rightarrow> string timed_cache" where
  "sync_constructor delay = new_TimedDataCache (c_str delay) None"

definition sync_method :: "qore_api \<Rightarrow> qval \<Rightarrow> int \<Rightarrow> string timed_call \<Rightarrow> string timed_cache
    \<Rightarrow> (cache_return \<times> string timed_cache) result" where
  "sync_method api opts now m = timed_method ''TimedSyncCache'' sync_terminate string_kind api opts now (map_timed_call c_str m)"

definition workflow_constructor :: "string \<Rightarrow> string \<Rightarrow> int timed_cache" where
  "workflow_constructor mx delay = new_TimedDataCache (c_str delay) (Some (c_str mx))"

definition workflow_method :: "qore_api \<Rightarrow> qval \<Rightarrow> int \<Rightarrow> int timed_call \<Rightarrow> int timed_cache
    \<Rightarrow> (cache_return \<times> int timed_cache) result" where
  "workflow_method = timed_method ''TimedWorkflowCache'' cache_terminate int64_kind"

definition workflow_purgeClass :: "int \<Rightarrow> int timed_cache \<Rightarrow> (cache_return \<times> int timed_cache) result" where
  "workflow_purgeClass wfid c = rbind (purgeClass int64_kind wfid c) (\<lambda>(l, c'). Inr (C_list l, c'))"

datatype expiry_call =
    Expiry_copy | Expiry_queueOrder int int int | Expiry_getEvents "qhash option" int | Expiry_removeOrder int int
  | Expiry_getSummary | Expiry_getDetails

text \<open>\<^verbatim>\<open>removeOrder\<close> is declared to return nothing.\<close>

primrec expiry_method :: "qore_api \<Rightarrow> int \<Rightarrow> expiry_call \<Rightarrow> expiry_cache \<Rightarrow> (cache_return \<times> expiry_cache) result" where
  "expiry_method api now Expiry_copy c =
     Inr (C_exception ''COPY-ERROR'' ''OrderExpiryCache objects may not be copied'', c)"
| "expiry_method api now (Expiry_queueOrder wfid wfiid created) c =
     rbind (queueOrder wfid wfiid created c) (\<lambda>c'. Inr (C_nothing, c'))"
| "expiry_method api now (Expiry_getEvents wf_slas delay) c =
     (case getEvents api wf_slas delay now c of (h, c') \<Rightarrow> Inr (C_hash h, c'))"
| "expiry_method api now (Expiry_removeOrder wfid wfiid) c = Inr (C_nothing, snd (removeOrder wfid wfiid c))"
| "expiry_method api now Expiry_getSummary c = Inr (C_string (expiry_getSummary c), c)"
| "expiry_method api now Expiry_getDetails c = Inr (C_string (expiry_getDetails c), c)"

section \<open>The objects\<close>

text \<open>What a call has to do: the option hash is one, class identifiers fit 32 bits.\<close>

definition opts_ok :: "qval \<Rightarrow> bool" where
  "opts_ok opts = (case opts of QNothing \<Rightarrow> True | QHash h \<Rightarrow> True | _ \<Rightarrow> False)"

fun call_class_id :: "'k timed_call \<Rightarrow> int" where
  "call_class_id (Timed_set k cid) = cid"
| "call_class_id (Timed_deleteKey k cid) = cid"
| "call_class_id _ = 0"

inductive sync_object :: "string timed_cache \<Rightarrow> bool" where
  made: "sync_object (sync_constructor delay)"
| called: "sync_object c \<Longrightarrow> is_int32 (call_class_id m) \<Longrightarrow> sync_method api opts now m c = Inr (v, c') \<Longrightarrow> sync_object c'"

inductive workflow_object :: "int timed_cache \<Rightarrow> bool" where
  made: "workflow_object (workflow_constructor mx delay)"
| called: "workflow_object c \<Longrightarrow> is_int32 (call_class_id m) \<Longrightarrow> workflow_method api opts now m c = Inr (v, c') \<Longrightarrow>
    workflow_object c'"
| purged: "workflow_object c \<Longrightarrow> is_int32 wfid \<Longrightarrow> workflow_purgeClass wfid c = Inr (v, c') \<Longrightarrow> workflow_object c'"

lemma map_timed_call_simps [simp]:
  "call_class_id (map_timed_call f m) = call_class_id m"
  "map_timed_call f m = Timed_terminate \<longleftrightarrow> m = Timed_terminate"
  "map_timed_call f m = Timed_destructor \<longleftrightarrow> m = Timed_destructor"
  by (cases m; simp)+

lemma option_value: "opts_ok opts \<Longrightarrow> \<exists>n. tc_getOptionBigInt api opts nm = Inr n"
  by (auto simp: opts_ok_def tc_getOptionBigInt_def split: qval.splits)

lemma max_size_value: "opts_ok opts \<Longrightarrow> \<exists>n. max_size_of api opts c = Inr n"
  using option_value[of opts api "max_name c"] by (auto simp: max_size_of_def)

lemma max_size_read: "cache_set api opts now k cid c = Inr r \<Longrightarrow> \<exists>n. max_size_of api opts c = Inr n"
  by (auto simp: cache_set_def max_size_of_def)

lemma toString_value:
  assumes inv: "tc_inv c"
  shows "\<exists>s. cache_toString api kd c = Inr s"
proof -
  have classes: "\<exists>s. class_toString api kd (tc_cache c) km = Inr s" if "(cid, km) \<in> set (classmap c)" for cid km
  proof -
    have km: "map_of (classmap c) cid = Some km"
      using tc_inv_parts(1)[OF inv] that by (simp add: maps_ok_def om_get_in_set)
    have "\<exists>s. rfold (\<lambda>s x. rbind (deref (map_of (tc_cache c) (snd x))) (\<lambda>e.
       Inr (s @ (if s = [] then [] else '', '') @ ''{time='' @ formatDate api (ce_time e) @ '', ''
              @ addKeyValue kd e @ ''}''))) [] km = Inr s \<and> True"
    proof (rule rfold_progress[where P = "\<lambda>_. True"])
      fix x and u :: string assume x: "x \<in> set km"
      then obtain e where "(snd x, e) \<in> set (tc_cache c)" using class_nodes(3)[OF inv km, of "fst x" "snd x"] by auto
      then have e: "map_of (tc_cache c) (snd x) = Some e" by (simp add: tc_inv_parts(2)[OF inv])
      show "\<exists>u'. rbind (deref (map_of (tc_cache c) (snd x))) (\<lambda>e.
       Inr (u @ (if u = [] then [] else '', '') @ ''{time='' @ formatDate api (ce_time e) @ '', ''
              @ addKeyValue kd e @ ''}'')) = Inr u' \<and> True" by (simp add: e)
    qed simp
    then show ?thesis by (simp add: class_toString_def)
  qed
  have "\<exists>s. cache_toString api kd c = Inr s \<and> True"
    unfolding cache_toString_def
  proof (rule rfold_progress[where P = "\<lambda>_. True"])
    fix x and u :: string assume "x \<in> set (classmap c)"
    with classes[of "fst x" "snd x"] obtain t where t: "class_toString api kd (tc_cache c) (snd x) = Inr t" by auto
    show "\<exists>u'. rbind (class_toString api kd (tc_cache c) (snd x)) (\<lambda>t.
       Inr (u @ CHR 0x0A # ''classid: '' @ dec (fst x) @ '' size: '' @ dec_size (length (snd x)) @ '' ['' @ t @ '']'')) =
       Inr u' \<and> True" by (simp add: t)
  qed simp
  then show ?thesis by simp
qed

lemma tc_inv_signal [simp]: "tc_inv (tc_signal c) = tc_inv c" "tc_inv (c\<lparr>tc_term := b\<rparr>) = tc_inv c"
  by (simp_all add: tc_inv_def tc_lookup_def tc_signal_def)

text \<open>What every method that both classes have does to the invariant, and that it returns.\<close>

lemma timed_method_inv:
  assumes inv: "tc_inv c" and cid: "is_int32 (call_class_id m)"
    and r: "timed_method cls term_m kd api opts now m c = Inr (v, c')"
    and t: "\<And>c'. term_m c = Inr c' \<Longrightarrow> tc_inv c'"
  shows "tc_inv c'"
proof (cases m)
  case (Timed_set k i)
  with r obtain rc where s: "cache_set api opts now k i c = Inr (rc, c')" by auto
  from max_size_read[OF s] obtain n where n: "max_size_of api opts c = Inr n" by blast
  from cache_set_ok[OF inv _ n, of i now k] s cid Timed_set show ?thesis by auto
next
  case (Timed_deleteKey k i)
  with deleteKey_ok[OF inv, of i k] r cid show ?thesis by auto
next
  case Timed_getEvent
  with r obtain a where a: "cache_attempt api kd (opts, now) c = Inr (a, c')" by auto
  show ?thesis
  proof (cases "\<exists>n. tc_getOptionBigInt api opts (delay_name c) = Inr n")
    case True
    then obtain n where "tc_getOptionBigInt api opts (delay_name c) = Inr n" by blast
    from cache_attempt_ok[OF inv this, of kd now] a show ?thesis by auto
  next
    case False
    with a inv show ?thesis by (auto simp: cache_attempt_def split: if_splits list.split_asm)
  qed
next
  case Timed_requeue
  with r inv show ?thesis by (auto simp: cache_requeue_def)
qed (use inv r t in auto)

lemma timed_method_returns:
  assumes inv: "tc_inv c" and cid: "is_int32 (call_class_id m)" and o: "opts_ok opts"
    and t: "m = Timed_terminate \<Longrightarrow> \<exists>c'. term_m c = Inr c'" and d: "m = Timed_destructor \<Longrightarrow> tc_term c"
  shows "\<exists>v c'. timed_method cls term_m kd api opts now m c = Inr (v, c')"
proof (cases m)
  case (Timed_set k i)
  from max_size_value[OF o] obtain n where "max_size_of api opts c = Inr n" by blast
  from cache_set_ok[OF inv _ this, of i now k] cid Timed_set show ?thesis by auto
next
  case (Timed_deleteKey k i)
  with deleteKey_ok[OF inv, of i k] cid show ?thesis by auto
next
  case Timed_getEvent
  from option_value[OF o] obtain n where "tc_getOptionBigInt api opts (delay_name c) = Inr n" by blast
  from cache_attempt_ok[OF inv this, of kd now] Timed_getEvent show ?thesis by auto
next
  case Timed_toString
  with toString_value[OF inv] show ?thesis by auto
next
  case Timed_terminate
  with t show ?thesis by auto
next
  case Timed_destructor
  with d show ?thesis by (simp add: cache_destructor_def assert_that_def)
qed simp_all

lemma tc_inv_empty: "tc_inv (c\<lparr>tc_cache := [], classmap := [], tc_size := 0\<rparr>)"
  by (simp add: tc_inv_def maps_ok_def tc_lookup_def)

lemma terminate_laws:
  "\<exists>c'. sync_terminate c = Inr c'" "sync_terminate c = Inr c' \<Longrightarrow> tc_inv c'"
  "cache_terminate d = Inr d' \<Longrightarrow> tc_inv d \<Longrightarrow> tc_inv d'"
  "tc_inv d \<Longrightarrow> tc_abs d = [] \<Longrightarrow> \<exists>d'. cache_terminate d = Inr d'"
  using tc_inv_empty[of c] length_abs[of d]
  by (auto simp: sync_terminate_def cache_terminate_def terminateIntern_def assert_that_def split: if_splits)

lemma sync_object_inv: "sync_object c \<Longrightarrow> tc_inv c"
proof (induction rule: sync_object.induct)
  case (made delay)
  show ?case unfolding sync_constructor_def by (rule tc_inv_new)
next
  case (called c m api opts now v c')
  show ?case
    by (rule timed_method_inv[OF called.IH _ called.hyps(3)[unfolded sync_method_def]])
      (simp add: called.hyps(2), rule terminate_laws(2))
qed

lemma workflow_object_inv: "workflow_object c \<Longrightarrow> tc_inv c"
proof (induction rule: workflow_object.induct)
  case (made mx delay)
  show ?case unfolding workflow_constructor_def by (rule tc_inv_new)
next
  case (called c m api opts now v c')
  show ?case
    by (rule timed_method_inv[OF called.IH called.hyps(2) called.hyps(3)[unfolded workflow_method_def]])
      (erule terminate_laws(3), rule called.IH)
next
  case (purged c wfid v c')
  with purgeClass_ok[OF purged.IH purged.hyps(2), of int64_kind] show ?case
    by (auto simp: workflow_purgeClass_def)
qed

text \<open>
  C25.  No call of an object of class TimedSyncCache or TimedWorkflowCache fails an assertion
  or uses an iterator that is not valid, after any calls of its methods, when class identifiers fit 32 bits,
  the options are a hash and the object is terminated before it is destroyed; with one exception:
  TimedWorkflowCache::terminate needs an empty cache.
\<close>

theorem cache_objects_safe:
  assumes "opts_ok opts"
  shows "(\<forall>c m. sync_object c \<and> is_int32 (call_class_id m) \<and> (m = Timed_destructor \<longrightarrow> tc_term c) \<longrightarrow>
      (\<exists>v c'. sync_method api opts now m c = Inr (v, c'))) \<and>
    (\<forall>c m. workflow_object c \<and> is_int32 (call_class_id m) \<and> (m = Timed_destructor \<longrightarrow> tc_term c) \<longrightarrow>
      (if m = Timed_terminate \<and> tc_abs c \<noteq> [] then workflow_method api opts now m c = Inl Assertion_failed
       else \<exists>v c'. workflow_method api opts now m c = Inr (v, c'))) \<and>
    (\<forall>c wfid. workflow_object c \<and> is_int32 wfid \<longrightarrow> (\<exists>v c'. workflow_purgeClass wfid c = Inr (v, c')))"
proof (intro conjI allI impI; (elim conjE)?)
  fix c :: "string timed_cache" and m :: "string timed_call"
  assume "sync_object c" "is_int32 (call_class_id m)" "m = Timed_destructor \<longrightarrow> tc_term c"
  then show "\<exists>v c'. sync_method api opts now m c = Inr (v, c')" unfolding sync_method_def
    by (intro timed_method_returns sync_object_inv assms terminate_laws(1)) auto
next
  fix c :: "int timed_cache" and m :: "int timed_call"
  assume a: "workflow_object c" "is_int32 (call_class_id m)" "m = Timed_destructor \<longrightarrow> tc_term c"
  show "if m = Timed_terminate \<and> tc_abs c \<noteq> [] then workflow_method api opts now m c = Inl Assertion_failed
    else \<exists>v c'. workflow_method api opts now m c = Inr (v, c')"
  proof (cases "m = Timed_terminate \<and> tc_abs c \<noteq> []")
    case True
    with length_abs[OF workflow_object_inv[OF a(1)]] have "tc_size c \<noteq> 0" by auto
    with True show ?thesis
      by (simp add: workflow_method_def cache_terminate_def terminateIntern_def assert_that_def)
  next
    case False
    with a show ?thesis unfolding workflow_method_def if_not_P[OF False]
      by (intro timed_method_returns workflow_object_inv assms terminate_laws(4)) auto
  qed
next
  fix c :: "int timed_cache" and wfid
  assume "workflow_object c" "is_int32 wfid"
  from purgeClass_ok[OF workflow_object_inv[OF this(1)] this(2), of int64_kind]
  show "\<exists>v c'. workflow_purgeClass wfid c = Inr (v, c')" by (auto simp: workflow_purgeClass_def)
qed

theorem cache_objects_safe_witness:
  "\<exists>c v c'. sync_object c \<and> length (tc_cache c) = 1 \<and> sync_method plain_api small_opts 200 Timed_terminate c = Inr (v, c')"
proof -
  have o: "opts_ok small_opts" by (simp add: opts_ok_def small_opts_def)
  note safe = cache_objects_safe[OF o, of plain_api]
  let ?c = "sync_constructor ''detach-delay''"
  have i: "is_int32 3" by (simp add: is_int32_def)
  let ?d = "\<lparr>tc_cache = [(0, \<lparr>ce_time = 100, keyvalue = ''a'', classid = 3\<rparr>)], classmap = [(3, [(''a'', 0)])], tc_next = 1,
    tc_term = False, tc_size = 1, tc_cond = [Signal], delay_name = ''detach-delay'', max_name = []\<rparr>"
  have "sync_method plain_api small_opts 100 (Timed_set ''a'' 3) ?c = Inr (C_bool False, ?d)"
    by (simp add: sync_method_def sync_constructor_def c_str_def new_TimedDataCache_def cache_set_def Let_def i cache_full_def
        list_push_def tc_signal_def)
  from sync_object.called[OF sync_object.made _ this] have d: "sync_object ?d" by (simp add: i)
  from safe[THEN conjunct1, rule_format, of ?d Timed_terminate] d i
  have "\<exists>v c'. sync_method plain_api small_opts 200 Timed_terminate ?d = Inr (v, c')" by (simp add: is_int32_def)
  with d show ?thesis by (intro exI[of _ ?d]) auto
qed

end
