(* ===== verification/Timed_Traces.thy ===== *)
theory Timed_Traces
  imports Cache_Bindings
begin

text \<open>
  A timed cache seen from outside: whatever methods are called in whatever order, the results are those of a
  plain list of values.
\<close>

section \<open>The texts\<close>
















section \<open>The plain list\<close>







section \<open>Sequences of calls\<close>








section \<open>The simulation\<close>


text \<open>Equal results, and the same relation afterwards.\<close>

definition agree :: "('s \<Rightarrow> 't \<Rightarrow> bool) \<Rightarrow> ('v \<times> 's) result \<Rightarrow> ('v \<times> 't) result \<Rightarrow> bool" where
  "agree R x y \<longleftrightarrow> (case x of
       Inl e \<Rightarrow> y = Inl e
     | Inr (v, s) \<Rightarrow> (\<exists>t. y = Inr (v, t) \<and> R s t))"

lemma agree_Inr [simp]: "agree R (Inr (v, s)) y \<longleftrightarrow> (\<exists>t. y = Inr (v, t) \<and> R s t)"
  by (simp add: agree_def)

lemma agree_Inl [simp]: "agree R (Inl e) y \<longleftrightarrow> y = Inl e"
  by (simp add: agree_def)



















end
