(* ===== verification/Performance_Cache.thy ===== *)
theory Performance_Cache
  imports Std_Containers "HOL-Library.List_Lexorder" "HOL-Library.Char_ord"
begin

text \<open>
  The performance caches, \<^verbatim>\<open>exec/PerformanceCache.h\<close> and
  \<^verbatim>\<open>exec/PerformanceCache.cpp\<close>: the data points of the last second, the
  history of the listeners, and the manager that shares one cache among all users of its name.

  The arithmetic on \<^verbatim>\<open>double\<close> is the parameter \<open>flops\<close>.  The clock is an
  argument.  The cache objects live in a heap of addresses with the reference count of
  \<^verbatim>\<open>AbstractPrivateData\<close>; the count of \<^verbatim>\<open>QoreReferenceCounter\<close> starts at
  one.  A listener queue is an address; what is pushed on the queues and the references to them that
  are given back are logs.  One operation is one critical section.
\<close>

section \<open>Data points\<close>

record 'd flops =
  f_zero :: 'd
  f_one :: 'd
  f_hour :: 'd
  f_of_int :: "int \<Rightarrow> 'd"
  f_add :: "'d \<Rightarrow> 'd \<Rightarrow> 'd"
  f_sub :: "'d \<Rightarrow> 'd \<Rightarrow> 'd"
  f_div :: "'d \<Rightarrow> 'd \<Rightarrow> 'd"
  f_less :: "'d \<Rightarrow> 'd \<Rightarrow> bool"

record data_point =
  dp_v :: int
  dp_t :: int

definition isSet :: "data_point \<Rightarrow> bool" where
  "isSet p = (dp_t p > 0)"

record 'd dp_list =
  dpl_list :: "data_point list"
  dpl_sum :: 'd

definition new_DataPointList :: "'d flops \<Rightarrow> 'd dp_list" where
  "new_DataPointList fl = \<lparr>dpl_list = [], dpl_sum = f_zero fl\<rparr>"

definition dpl_push :: "'d flops \<Rightarrow> data_point \<Rightarrow> 'd dp_list \<Rightarrow> 'd dp_list" where
  "dpl_push fl p l = \<lparr>dpl_list = dpl_list l @ [p], dpl_sum = f_add fl (dpl_sum l) (f_of_int fl (dp_v p))\<rparr>"

fun pop_points :: "'d flops \<Rightarrow> int \<Rightarrow> data_point list \<Rightarrow> 'd \<Rightarrow> 'd dp_list" where
  "pop_points fl t [] s = \<lparr>dpl_list = [], dpl_sum = s\<rparr>"
| "pop_points fl t (p # ps) s =
     (if dp_t p > t then \<lparr>dpl_list = p # ps, dpl_sum = s\<rparr>
      else
        let s' = f_sub fl s (f_of_int fl (dp_v p)) in
        pop_points fl t ps (if f_less fl s' (f_zero fl) then f_zero fl else s'))"

definition dpl_pop :: "'d flops \<Rightarrow> int \<Rightarrow> 'd dp_list \<Rightarrow> 'd dp_list" where
  "dpl_pop fl t l = pop_points fl t (dpl_list l) (dpl_sum l)"

definition getStart :: "'d dp_list \<Rightarrow> int" where
  "getStart l = (case dpl_list l of [] \<Rightarrow> -1 | p # ps \<Rightarrow> dp_t p)"

text \<open>The average and, through the reference parameter, the throughput per hour.\<close>

definition getAverage :: "'d flops \<Rightarrow> 'd dp_list \<Rightarrow> 'd \<times> 'd" where
  "getAverage fl l =
     (if dpl_list l = [] then (f_zero fl, f_zero fl)
      else let rv = f_div fl (dpl_sum l) (f_of_int fl (int (length (dpl_list l))))
           in (rv, f_div fl (f_hour fl) rv))"

section \<open>One cache\<close>

datatype 'd perf_event =
    History string "('d \<times> 'd) list"
  | Sample string 'd 'd

definition PERFCACHE_HIST_SIZE :: nat where
  "PERFCACHE_HIST_SIZE = 120"

record 'd perf_cache =
  l_onesec :: "'d dp_list"
  l_hist :: "('d \<times> 'd) list"
  mrc :: int
  refs :: int
  qlist :: "(nat \<times> int) list"
  q_next :: nat
  pc_index :: nat
  pc_name :: string
  pc_start :: int
  pc_sum :: 'd
  pc_count :: 'd
  pc_running :: bool

record 'd listeners =
  pushed :: "(int \<times> 'd perf_event) list"
  dereferenced :: "int list"

definition new_PerformanceCache :: "'d flops \<Rightarrow> string \<Rightarrow> int \<Rightarrow> 'd perf_cache" where
  "new_PerformanceCache fl name now = \<lparr>l_onesec = new_DataPointList fl, l_hist = [], mrc = 1, refs = 1,
     qlist = [], q_next = 0, pc_index = 0, pc_name = name, pc_start = now, pc_sum = f_zero fl,
     pc_count = f_zero fl, pc_running = True\<rparr>"

definition addListenerQueue :: "int \<Rightarrow> 'd perf_cache \<Rightarrow> 'd listeners \<Rightarrow> nat \<times> 'd perf_cache \<times> 'd listeners" where
  "addListenerQueue q c out =
     (let n = q_next c;
          c' = c\<lparr>qlist := qlist c @ [(n, q)], q_next := n + 1\<rparr>;
          out' = (if l_hist c \<noteq> [] then out\<lparr>pushed := pushed out @ [(q, History (pc_name c) (l_hist c))]\<rparr> else out)
      in (n, c', out'))"

text \<open>The iterator is the address of a list node, given by the caller.\<close>

definition removeListenerQueue :: "nat \<Rightarrow> 'd perf_cache \<Rightarrow> 'd listeners \<Rightarrow> ('d perf_cache \<times> 'd listeners) result" where
  "removeListenerQueue qi c out =
     rbind (deref (map_of (qlist c) qi)) (\<lambda>q.
       Inr (c\<lparr>qlist := filter (\<lambda>x. fst x \<noteq> qi) (qlist c)\<rparr>, out\<lparr>dereferenced := dereferenced out @ [q]\<rparr>))"

definition pc_stop :: "'d perf_cache \<Rightarrow> 'd listeners \<Rightarrow> 'd perf_cache \<times> 'd listeners" where
  "pc_stop c out =
     (c\<lparr>qlist := [], pc_running := False\<rparr>, out\<lparr>dereferenced := dereferenced out @ map snd (qlist c)\<rparr>)"

definition post :: "'d flops \<Rightarrow> int \<Rightarrow> int \<Rightarrow> 'd perf_cache \<Rightarrow> 'd perf_cache" where
  "post fl now v c =
     (if \<not> pc_running c then c
      else c\<lparr>l_onesec := dpl_push fl \<lparr>dp_v = v, dp_t = now\<rparr> (l_onesec c),
             pc_sum := f_add fl (pc_sum c) (f_of_int fl v),
             pc_count := f_add fl (pc_count c) (f_one fl)\<rparr>)"

text \<open>\<^verbatim>\<open>l_hist.push_back(..)\<close>, then \<^verbatim>\<open>pop_front\<close> if it is too long\<close>

definition push_hist :: "'a \<Rightarrow> 'a list \<Rightarrow> 'a list" where
  "push_hist x xs = (let ys = xs @ [x] in if length ys > PERFCACHE_HIST_SIZE then tl ys else ys)"

definition pc_pop :: "'d flops \<Rightarrow> int \<Rightarrow> 'd perf_cache \<Rightarrow> 'd listeners \<Rightarrow> 'd perf_cache \<times> 'd listeners" where
  "pc_pop fl now c out =
     (let co_onesec = now - 1;
          (c', out') =
            (if qlist c \<noteq> [] then
               let (avg, tp) = getAverage fl (l_onesec c) in
               (c\<lparr>l_hist := push_hist (avg, tp) (l_hist c)\<rparr>,
                out\<lparr>pushed := pushed out @ map (\<lambda>x. (snd x, Sample (pc_name c) avg tp)) (qlist c)\<rparr>)
             else (c, out))
      in (c'\<lparr>l_onesec := dpl_pop fl co_onesec (l_onesec c')\<rparr>, out'))"

definition mref :: "'d perf_cache \<Rightarrow> 'd perf_cache" where
  "mref c = c\<lparr>mrc := mrc c + 1\<rparr>"

definition mderef :: "'d perf_cache \<Rightarrow> bool \<times> 'd perf_cache" where
  "mderef c = (mrc c - 1 = 0, c\<lparr>mrc := mrc c - 1\<rparr>)"

section \<open>The manager\<close>

text \<open>
  An entry of the map is a node with a number of its own, which is what an iterator to it is, and
  the address of the cache.
\<close>

record 'd pc_manager =
  pcmap :: "(string, nat \<times> int) omap"
  pcm_next :: nat
  heap :: "int \<Rightarrow> 'd perf_cache option"
  outs :: "'d listeners"
  pcm_running :: bool
  pcm_stop :: bool
  cevent :: "notify list"
  cstop :: "notify list"

definition new_PerformanceCacheManager :: "'d pc_manager" where
  "new_PerformanceCacheManager = \<lparr>pcmap = [], pcm_next = 0, heap = Map.empty,
     outs = \<lparr>pushed = [], dereferenced = []\<rparr>, pcm_running = False, pcm_stop = False, cevent = [], cstop = []\<rparr>"

definition put_heap :: "int \<Rightarrow> 'd perf_cache \<Rightarrow> 'd pc_manager \<Rightarrow> 'd pc_manager" where
  "put_heap a c m = m\<lparr>heap := (heap m)(a \<mapsto> c)\<rparr>"

text \<open>The virtual destructor, run when the last reference is given back.\<close>

definition pc_deref :: "int \<Rightarrow> 'd pc_manager \<Rightarrow> 'd pc_manager result" where
  "pc_deref a m =
     rbind (deref (heap m a)) (\<lambda>c.
       if refs c = 1 then
         rbind (assert_that (qlist c = [])) (\<lambda>_. Inr (m\<lparr>heap := (heap m)(a := None)\<rparr>))
       else Inr (put_heap a (c\<lparr>refs := refs c - 1\<rparr>) m))"

definition pcm_start :: "bool \<Rightarrow> 'd pc_manager \<Rightarrow> (int \<times> 'd pc_manager) result" where
  "pcm_start thread_made m =
     rbind (assert_that (\<not> pcm_stop m)) (\<lambda>_.
     rbind (assert_that (\<not> pcm_running m)) (\<lambda>_.
       if thread_made then Inr (0, m\<lparr>pcm_running := True\<rparr>) else Inr (-1, m\<lparr>pcm_running := False\<rparr>)))"

text \<open>\<open>a\<close> is the address of the object in case one is made.\<close>

definition pcm_add :: "'d flops \<Rightarrow> int \<Rightarrow> int \<Rightarrow> string \<Rightarrow> 'd pc_manager \<Rightarrow> (int \<times> 'd pc_manager) result" where
  "pcm_add fl a now name m =
     (case map_of (pcmap m) name of
        None \<Rightarrow>
          let n = pcm_next m;
              c = (new_PerformanceCache fl name now)\<lparr>pc_index := n\<rparr>;
              m' = put_heap a (c\<lparr>refs := refs c + 1\<rparr>) (m\<lparr>pcmap := om_put name (n, a) (pcmap m), pcm_next := n + 1\<rparr>)
          in Inr (a, m')
      | Some (n, b) \<Rightarrow>
          rbind (deref (heap m b)) (\<lambda>c. Inr (b, put_heap b (mref (c\<lparr>refs := refs c + 1\<rparr>)) m)))"

definition pcmap_erase :: "nat \<Rightarrow> 'd pc_manager \<Rightarrow> 'd pc_manager result" where
  "pcmap_erase n m =
     rbind (deref (find (\<lambda>x. fst (snd x) = n) (pcmap m))) (\<lambda>x.
       Inr (m\<lparr>pcmap := om_del (fst x) (pcmap m)\<rparr>))"

definition pcm_del :: "int \<Rightarrow> 'd pc_manager \<Rightarrow> 'd pc_manager result" where
  "pcm_del a m =
     rbind (deref (heap m a)) (\<lambda>c.
       case mderef c of (zero, c1) \<Rightarrow>
         if zero then
           (case pc_stop c1 (outs m) of (c2, out) \<Rightarrow>
              rbind (pcmap_erase (pc_index c2) (put_heap a c2 (m\<lparr>outs := out\<rparr>))) (\<lambda>m'. pc_deref a m'))
         else Inr (put_heap a c1 m))"

text \<open>One turn of the background thread: every cache is popped at the time now.\<close>

definition pop_step :: "'d flops \<Rightarrow> int \<Rightarrow> 'd pc_manager \<Rightarrow> string \<times> nat \<times> int \<Rightarrow> 'd pc_manager result" where
  "pop_step fl now m x =
     rbind (deref (heap m (snd (snd x)))) (\<lambda>c.
       case pc_pop fl now c (outs m) of (c', out) \<Rightarrow> Inr (put_heap (snd (snd x)) c' (m\<lparr>outs := out\<rparr>)))"

definition pcm_turn :: "'d flops \<Rightarrow> int \<Rightarrow> 'd pc_manager \<Rightarrow> 'd pc_manager result" where
  "pcm_turn fl now m = (if pcm_stop m then Inr m else rfold (pop_step fl now) m (pcmap m))"

text \<open>The end of the background thread.\<close>

definition run_end :: "'d pc_manager \<Rightarrow> 'd pc_manager" where
  "run_end m = m\<lparr>pcm_running := False, cstop := cstop m @ [Signal]\<rparr>"

definition shutdown_step :: "'d pc_manager \<Rightarrow> string \<times> nat \<times> int \<Rightarrow> 'd pc_manager result" where
  "shutdown_step m x =
     rbind (deref (heap m (snd (snd x)))) (\<lambda>c.
       case pc_stop c (outs m) of (c', out) \<Rightarrow>
         pc_deref (snd (snd x)) (put_heap (snd (snd x)) c' (m\<lparr>outs := out\<rparr>)))"

text \<open>
  \<^verbatim>\<open>shutdown\<close> up to the wait for the background thread, which ends as the flag is set.
\<close>

definition pcm_shutdown :: "'d pc_manager \<Rightarrow> 'd pc_manager result" where
  "pcm_shutdown m =
     rbind (rfold shutdown_step (m\<lparr>pcm_stop := True\<rparr>) (pcmap m)) (\<lambda>m'.
       Inr (m'\<lparr>pcmap := [], cevent := cevent m' @ [Signal]\<rparr>))"

definition pcm_destructor :: "'d pc_manager \<Rightarrow> unit result" where
  "pcm_destructor m = assert_that (pcmap m = [])"

end
