(* ===== verification/Performance_Laws.thy ===== *)
theory Performance_Laws
  imports Performance_Cache
begin

text \<open>
  Laws of the performance caches: the window of data points with its running sum, the history of the
  listeners, and the users of the manager.
\<close>

section \<open>Exact sums\<close>

text \<open>
  The operations on \<^verbatim>\<open>double\<close> are exact on integers up to a bound, which is
  \<open>2 ^ 53\<close> for the IEEE format.
\<close>

definition exact_upto :: "int \<Rightarrow> 'd flops \<Rightarrow> bool" where
  "exact_upto N fl \<longleftrightarrow> f_zero fl = f_of_int fl 0 \<and>
     (\<forall>i j. 0 \<le> i \<and> 0 \<le> j \<and> i + j \<le> N \<longrightarrow> f_add fl (f_of_int fl i) (f_of_int fl j) = f_of_int fl (i + j)) \<and>
     (\<forall>i j. 0 \<le> j \<and> j \<le> i \<and> i \<le> N \<longrightarrow> f_sub fl (f_of_int fl i) (f_of_int fl j) = f_of_int fl (i - j)) \<and>
     (\<forall>i. 0 \<le> i \<and> i \<le> N \<longrightarrow> \<not> f_less fl (f_of_int fl i) (f_zero fl))"

lemma exact_parts:
  assumes "exact_upto N fl"
  shows "0 \<le> i \<Longrightarrow> i \<le> N \<Longrightarrow> \<not> f_less fl (f_of_int fl i) (f_zero fl)" "f_zero fl = f_of_int fl 0"
  using assms unfolding exact_upto_def by blast+

definition dp_total :: "data_point list \<Rightarrow> int" where
  "dp_total ps = sum_list (map dp_v ps)"

lemma dp_total_simps [simp]: "dp_total [] = 0" "dp_total (p # ps) = dp_v p + dp_total ps" "dp_total (ps @ qs) = dp_total ps + dp_total qs"
  by (simp_all add: dp_total_def)

lemma dp_total_nonneg: "\<forall>p\<in>set ps. 0 \<le> dp_v p \<Longrightarrow> 0 \<le> dp_total ps"
  by (induction ps) auto

text \<open>The points are in order of time, not negative, and their sum is the running sum.\<close>

definition window_ok :: "int \<Rightarrow> 'd flops \<Rightarrow> 'd dp_list \<Rightarrow> bool" where
  "window_ok N fl l \<longleftrightarrow> sorted (map dp_t (dpl_list l)) \<and> (\<forall>p\<in>set (dpl_list l). 0 \<le> dp_v p) \<and>
     dp_total (dpl_list l) \<le> N \<and> dpl_sum l = f_of_int fl (dp_total (dpl_list l))"

lemma window_new: "exact_upto N fl \<Longrightarrow> 0 \<le> N \<Longrightarrow> window_ok N fl (new_DataPointList fl)"
  by (simp add: window_ok_def new_DataPointList_def exact_upto_def)

lemma window_push:
  assumes "exact_upto N fl" "window_ok N fl l" "0 \<le> dp_v p" "dp_total (dpl_list l) + dp_v p \<le> N"
    and "\<forall>q\<in>set (dpl_list l). dp_t q \<le> dp_t p"
  shows "window_ok N fl (dpl_push fl p l)"
proof -
  note w = assms(2)[unfolded window_ok_def]
  have "0 \<le> dp_total (dpl_list l)" using w by (simp add: dp_total_nonneg)
  with assms w show ?thesis
    by (simp add: window_ok_def dpl_push_def sorted_append exact_upto_def)
qed

lemma pop_points_ok:
  assumes "exact_upto N fl" "sorted (map dp_t ps)" "\<forall>p\<in>set ps. 0 \<le> dp_v p" "dp_total ps \<le> N"
  shows "window_ok N fl (pop_points fl t ps (f_of_int fl (dp_total ps))) \<and>
    dpl_list (pop_points fl t ps (f_of_int fl (dp_total ps))) = filter (\<lambda>p. dp_t p > t) ps"
  using assms(2-4)
proof (induction ps)
  case Nil
  then show ?case by (simp add: window_ok_def)
next
  case (Cons p ps)
  have pos: "0 \<le> dp_total ps" using Cons.prems(2) by (simp add: dp_total_nonneg)
  show ?case
  proof (cases "dp_t p > t")
    case True
    with Cons.prems(1) have "filter (\<lambda>p. dp_t p > t) ps = ps" by (auto simp: filter_id_conv)
    with True Cons.prems show ?thesis by (simp add: window_ok_def)
  next
    case False
    have "f_sub fl (f_of_int fl (dp_v p + dp_total ps)) (f_of_int fl (dp_v p)) = f_of_int fl (dp_total ps)"
      using assms(1) Cons.prems(2,3) pos by (simp add: exact_upto_def)
    moreover have "\<not> f_less fl (f_of_int fl (dp_total ps)) (f_zero fl)"
      using exact_parts[OF assms(1)] Cons.prems(2,3) pos by simp
    ultimately show ?thesis
      using False Cons.IH Cons.prems by simp
  qed
qed

lemma window_pop:
  assumes "exact_upto N fl" "window_ok N fl l"
  shows "window_ok N fl (dpl_pop fl t l) \<and> dpl_list (dpl_pop fl t l) = filter (\<lambda>p. dp_t p > t) (dpl_list l)"
proof -
  note w = assms(2)[unfolded window_ok_def]
  have e: "dpl_pop fl t l = pop_points fl t (dpl_list l) (f_of_int fl (dp_total (dpl_list l)))"
    using w by (simp add: dpl_pop_def)
  show ?thesis unfolding e by (rule pop_points_ok[OF assms(1)]) (use w in simp_all)
qed

section \<open>A cache in use\<close>

datatype pc_op = Post int int | Pop int

text \<open>Each operation at its time: \<open>Post now v\<close> and \<open>Pop now\<close>.\<close>

fun pc_run :: "'d flops \<Rightarrow> pc_op list \<Rightarrow> 'd perf_cache \<times> 'd listeners \<Rightarrow> 'd perf_cache \<times> 'd listeners" where
  "pc_run fl [] s = s"
| "pc_run fl (Post now v # ops) s = pc_run fl ops (post fl now v (fst s), snd s)"
| "pc_run fl (Pop now # ops) s = pc_run fl ops (pc_pop fl now (fst s) (snd s))"

fun op_time :: "pc_op \<Rightarrow> int" where
  "op_time (Post now v) = now"
| "op_time (Pop now) = now"

text \<open>The values posted, and those still in the window after the operations.\<close>

fun posted :: "pc_op list \<Rightarrow> data_point list" where
  "posted [] = []"
| "posted (Post now v # ops) = \<lparr>dp_v = v, dp_t = now\<rparr> # posted ops"
| "posted (Pop now # ops) = posted ops"

fun in_window :: "pc_op list \<Rightarrow> data_point list \<Rightarrow> data_point list" where
  "in_window [] ps = ps"
| "in_window (Post now v # ops) ps = in_window ops (ps @ [\<lparr>dp_v = v, dp_t = now\<rparr>])"
| "in_window (Pop now # ops) ps = in_window ops (filter (\<lambda>p. dp_t p \<ge> now) ps)"

lemma pc_pop_onesec: "l_onesec (fst (pc_pop fl now c out)) = dpl_pop fl (now - 1) (l_onesec c)"
  by (simp add: pc_pop_def Let_def split: prod.split)

lemma pc_pop_fields [simp]:
  "qlist (fst (pc_pop fl now c out)) = qlist c" "pc_running (fst (pc_pop fl now c out)) = pc_running c"
  "pc_name (fst (pc_pop fl now c out)) = pc_name c" "refs (fst (pc_pop fl now c out)) = refs c"
  "mrc (fst (pc_pop fl now c out)) = mrc c" "pc_index (fst (pc_pop fl now c out)) = pc_index c"
  by (simp_all add: pc_pop_def Let_def split: prod.split)

lemma post_fields [simp]:
  "qlist (post fl now v c) = qlist c" "pc_running (post fl now v c) = pc_running c"
  "l_hist (post fl now v c) = l_hist c" "pc_name (post fl now v c) = pc_name c"
  by (simp_all add: post_def)

lemma dp_total_filter: "\<forall>p\<in>set ps. 0 \<le> dp_v p \<Longrightarrow> dp_total (filter P ps) \<le> dp_total ps"
  by (induction ps) auto

lemma run_window:
  assumes "exact_upto N fl" "pc_running c" "window_ok N fl (l_onesec c)"
    and "\<forall>p\<in>set (posted ops). 0 \<le> dp_v p" "dp_total (dpl_list (l_onesec c)) + dp_total (posted ops) \<le> N"
    and "sorted (map op_time ops)" "\<forall>p\<in>set (dpl_list (l_onesec c)). \<forall>x\<in>set ops. dp_t p \<le> op_time x"
  shows "window_ok N fl (l_onesec (fst (pc_run fl ops (c, out)))) \<and>
    dpl_list (l_onesec (fst (pc_run fl ops (c, out)))) = in_window ops (dpl_list (l_onesec c))"
  using assms(2-7)
proof (induction ops arbitrary: c out)
  case Nil
  then show ?case by simp
next
  case (Cons x ops)
  show ?case
  proof (cases x)
    case (Post now v)
    let ?p = "\<lparr>dp_v = v, dp_t = now\<rparr>"
    have pos: "0 \<le> dp_total (posted ops)" using Cons.prems(3) Post by (auto intro: dp_total_nonneg)
    have l: "l_onesec (post fl now v c) = dpl_push fl ?p (l_onesec c)"
      using Cons.prems(1) by (simp add: post_def)
    have w: "window_ok N fl (dpl_push fl ?p (l_onesec c))"
      by (rule window_push[OF assms(1) Cons.prems(2)]) (use Cons.prems(3-6) Post pos in auto)
    have d: "dpl_list (dpl_push fl ?p (l_onesec c)) = dpl_list (l_onesec c) @ [?p]"
      by (simp add: dpl_push_def)
    from Cons.IH[of "post fl now v c" out] Cons.prems Post w show ?thesis
      by (auto simp: l d)
  next
    case (Pop now)
    let ?c = "fst (pc_pop fl now c out)"
    from window_pop[OF assms(1) Cons.prems(2), of "now - 1"]
    have w: "window_ok N fl (l_onesec ?c)"
      and d: "dpl_list (l_onesec ?c) = filter (\<lambda>p. dp_t p \<ge> now) (dpl_list (l_onesec c))"
      by (auto simp: pc_pop_onesec intro: filter_cong)
    have nn: "\<forall>p\<in>set (dpl_list (l_onesec c)). 0 \<le> dp_v p" using Cons.prems(2) by (simp add: window_ok_def)
    from Cons.IH[of ?c "snd (pc_pop fl now c out)"] Cons.prems Pop w dp_total_filter[OF nn, of "\<lambda>p. dp_t p \<ge> now"]
    show ?thesis by (auto simp: d)
  qed
qed

lemma in_window_filter:
  assumes "sorted (map op_time ops)"
  shows "in_window ops ps = filter (\<lambda>p. \<forall>t. Pop t \<in> set ops \<longrightarrow> t \<le> dp_t p) ps @
    filter (\<lambda>p. \<forall>t. Pop t \<in> set ops \<longrightarrow> t \<le> dp_t p) (posted ops)"
  using assms
proof (induction ops arbitrary: ps)
  case Nil
  then show ?case by simp
next
  case (Cons x ops)
  have later: "\<forall>p\<in>set (posted ops). op_time x \<le> dp_t p"
  proof -
    have "\<exists>y\<in>set ops. op_time y = dp_t p" if "p \<in> set (posted ops)" for p
      using that by (induction ops rule: posted.induct) auto
    with Cons.prems show ?thesis by fastforce
  qed
  show ?case
  proof (cases x)
    case (Post now v)
    with Cons show ?thesis by simp
  next
    case (Pop now)
    have e: "filter (\<lambda>p. \<forall>t. Pop t \<in> set ops \<longrightarrow> t \<le> dp_t p) (posted ops) =
        filter (\<lambda>p. \<forall>t. Pop t \<in> set (x # ops) \<longrightarrow> t \<le> dp_t p) (posted ops)"
      using later Pop by (auto intro: filter_cong)
    have f: "filter (\<lambda>p. \<forall>t. Pop t \<in> set ops \<longrightarrow> t \<le> dp_t p) (filter (\<lambda>p. now \<le> dp_t p) ps) =
        filter (\<lambda>p. \<forall>t. Pop t \<in> set (x # ops) \<longrightarrow> t \<le> dp_t p) ps"
      unfolding filter_filter using Pop by (auto intro: filter_cong)
    from Cons.IH[of "filter (\<lambda>p. now \<le> dp_t p) ps"] Cons.prems show ?thesis
      unfolding e f by (simp add: Pop)
  qed
qed

lemma run_qlist: "qlist (fst (pc_run fl ops s)) = qlist (fst s) \<and> pc_name (fst (pc_run fl ops s)) = pc_name (fst s)"
  by (induction fl ops s rule: pc_run.induct) auto

section \<open>The history\<close>

definition last_n :: "nat \<Rightarrow> 'a list \<Rightarrow> 'a list" where
  "last_n n xs = drop (length xs - n) xs"

lemma length_last_n: "length (last_n n xs) \<le> n"
  by (simp add: last_n_def)

lemma push_last_n: "push_hist x (last_n PERFCACHE_HIST_SIZE xs) = last_n PERFCACHE_HIST_SIZE (xs @ [x])"
proof (cases "length xs < PERFCACHE_HIST_SIZE")
  case True
  then show ?thesis by (simp add: push_hist_def last_n_def Let_def)
next
  case False
  then have "length (last_n PERFCACHE_HIST_SIZE xs) = PERFCACHE_HIST_SIZE" by (simp add: last_n_def)
  moreover have "PERFCACHE_HIST_SIZE > 0" by (simp add: PERFCACHE_HIST_SIZE_def)
  ultimately have "push_hist x (last_n PERFCACHE_HIST_SIZE xs) = tl (last_n PERFCACHE_HIST_SIZE xs) @ [x]"
    by (cases "last_n PERFCACHE_HIST_SIZE xs") (auto simp: push_hist_def Let_def)
  also have "tl (last_n PERFCACHE_HIST_SIZE xs) = drop (length xs + 1 - PERFCACHE_HIST_SIZE) xs"
    using False by (simp add: last_n_def tl_drop Suc_diff_le drop_Suc)
  finally show ?thesis using False by (simp add: last_n_def PERFCACHE_HIST_SIZE_def)
qed

text \<open>The samples a queue was sent.\<close>

fun sample_of :: "int \<Rightarrow> int \<times> 'd perf_event \<Rightarrow> ('d \<times> 'd) list" where
  "sample_of q (q', Sample n avg tp) = (if q' = q then [(avg, tp)] else [])"
| "sample_of q (q', History n h) = []"

definition samples :: "int \<Rightarrow> 'd listeners \<Rightarrow> ('d \<times> 'd) list" where
  "samples q out = concat (map (sample_of q) (pushed out))"

lemma samples_once:
  assumes "distinct (map snd qs)" "q \<in> set (map snd qs)"
  shows "concat (map (sample_of q) (map (\<lambda>x. (snd x, Sample n avg tp)) qs)) = [(avg, tp)]"
  using assms
proof (induction qs)
  case Nil
  then show ?case by simp
next
  case (Cons x qs)
  have none: "concat (map (sample_of q) (map (\<lambda>x. (snd x, Sample n avg tp)) qs)) = []"
    if "q \<notin> set (map snd qs)" using that by (induction qs) auto
  show ?case using Cons none by (cases "snd x = q") auto
qed

lemma pop_history:
  assumes "distinct (map snd (qlist c))" "q \<in> set (map snd (qlist c))"
  shows "\<exists>x. l_hist (fst (pc_pop fl now c out)) = push_hist x (l_hist c) \<and>
    samples q (snd (pc_pop fl now c out)) = samples q out @ [x]"
proof -
  obtain avg tp where a: "getAverage fl (l_onesec c) = (avg, tp)" by (rule prod.exhaust)
  from assms(2) have "qlist c \<noteq> []" by auto
  with samples_once[OF assms, of "pc_name c" avg tp] show ?thesis
    by (intro exI[of _ "(avg, tp)"]) (simp add: pc_pop_def Let_def a samples_def)
qed

lemma run_history:
  assumes "distinct (map snd (qlist c))" "q \<in> set (map snd (qlist c))"
    and "l_hist c = last_n PERFCACHE_HIST_SIZE hs"
  shows "\<exists>xs. samples q (snd (pc_run fl ops (c, out))) = samples q out @ xs \<and>
    l_hist (fst (pc_run fl ops (c, out))) = last_n PERFCACHE_HIST_SIZE (hs @ xs)"
  using assms
proof (induction ops arbitrary: c out hs)
  case Nil
  then show ?case by simp
next
  case (Cons x ops)
  show ?case
  proof (cases x)
    case (Post now v)
    from Cons.IH[of "post fl now v c" hs out] Cons.prems Post show ?thesis by simp
  next
    case (Pop now)
    let ?c = "fst (pc_pop fl now c out)" and ?o = "snd (pc_pop fl now c out)"
    from pop_history[OF Cons.prems(1,2), of fl now out] obtain y where
      y: "l_hist ?c = push_hist y (l_hist c)" "samples q ?o = samples q out @ [y]" by blast
    have "l_hist ?c = last_n PERFCACHE_HIST_SIZE (hs @ [y])" using y(1) Cons.prems(3) push_last_n by metis
    from Cons.IH[OF _ _ this, of ?o] Cons.prems obtain xs where
      "samples q (snd (pc_run fl ops (?c, ?o))) = samples q ?o @ xs"
      "l_hist (fst (pc_run fl ops (?c, ?o))) = last_n PERFCACHE_HIST_SIZE ((hs @ [y]) @ xs)" by auto
    then show ?thesis by (intro exI[of _ "y # xs"]) (simp add: Pop y(2))
  qed
qed

end
