(* ===== verification/Performance_Manager.thy ===== *)
theory Performance_Manager
  imports Performance_Laws
begin

text \<open>
  Laws of the manager of performance caches: its invariant, and how many users each name has.
\<close>

definition entry_ok :: "'d pc_manager \<Rightarrow> string \<times> nat \<times> int \<Rightarrow> bool" where
  "entry_ok m x \<longleftrightarrow> fst (snd x) < pcm_next m \<and>
     (\<exists>c. heap m (snd (snd x)) = Some c \<and> pc_name c = fst x \<and> pc_index c = fst (snd x) \<and>
       mrc c \<ge> 1 \<and> refs c \<ge> 1)"

definition pcm_inv :: "'d pc_manager \<Rightarrow> bool" where
  "pcm_inv m \<longleftrightarrow> om_ok (pcmap m) \<and> distinct (map (\<lambda>x. fst (snd x)) (pcmap m)) \<and> (\<forall>x\<in>set (pcmap m). entry_ok m x)"

text \<open>The users of a name: the times it was added and not yet deleted.\<close>

definition pcm_users :: "'d pc_manager \<Rightarrow> string \<Rightarrow> int" where
  "pcm_users m name = (case map_of (pcmap m) name of None \<Rightarrow> 0
     | Some (n, a) \<Rightarrow> (case heap m a of None \<Rightarrow> 0 | Some c \<Rightarrow> mrc c))"

lemma pcm_inv_new: "pcm_inv new_PerformanceCacheManager"
  by (simp add: pcm_inv_def new_PerformanceCacheManager_def)

lemma pcm_inv_parts:
  assumes "pcm_inv m"
  shows "om_ok (pcmap m)" "distinct (map fst (pcmap m))" "distinct (map (\<lambda>x. fst (snd x)) (pcmap m))"
    "x \<in> set (pcmap m) \<Longrightarrow> entry_ok m x"
  using assms by (simp_all add: pcm_inv_def om_ok_def)

lemma found_entry:
  assumes "pcm_inv m" "map_of (pcmap m) name = Some (n, a)"
  obtains c where "(name, n, a) \<in> set (pcmap m)" "n < pcm_next m" "heap m a = Some c" "pc_name c = name"
    "pc_index c = n" "mrc c \<ge> 1" "refs c \<ge> 1"
proof -
  have i: "(name, n, a) \<in> set (pcmap m)" using assms(2) by (rule map_of_SomeD)
  from pcm_inv_parts(4)[OF assms(1) i] that[OF i] show ?thesis by (auto simp: entry_ok_def)
qed

lemma other_entry:
  assumes "pcm_inv m" "x \<in> set (pcmap m)" "y \<in> set (pcmap m)" "x \<noteq> y"
  shows "snd (snd x) \<noteq> snd (snd y)" "fst x \<noteq> fst y" "fst (snd x) \<noteq> fst (snd y)"
proof -
  note p = pcm_inv_parts[OF assms(1)]
  show "fst x \<noteq> fst y" using p(2) assms(2-4) by (metis eq_key_imp_eq_value prod.collapse)
  then show "snd (snd x) \<noteq> snd (snd y)"
    using p(4)[OF assms(2)] p(4)[OF assms(3)] by (auto simp: entry_ok_def)
  show "fst (snd x) \<noteq> fst (snd y)"
    using p(3) assms(2-4) by (auto simp: distinct_map inj_on_def)
qed

lemma put_heap_simps [simp]:
  "pcmap (put_heap a c m) = pcmap m" "pcm_next (put_heap a c m) = pcm_next m" "outs (put_heap a c m) = outs m"
  "heap (put_heap a c m) = (heap m)(a \<mapsto> c)"
  by (simp_all add: put_heap_def)

text \<open>An entry whose cache is replaced by one with the same name and index.\<close>

lemma inv_put_heap:
  assumes "pcm_inv m" "heap m a = Some c" "pc_name c' = pc_name c" "pc_index c' = pc_index c"
    and "mrc c' \<ge> 1" "refs c' \<ge> 1"
  shows "pcm_inv (put_heap a c' m)"
  using assms unfolding pcm_inv_def entry_ok_def by auto

lemma add_shares:
  assumes inv: "pcm_inv m" and new: "heap m a = None"
  shows "\<exists>b m' n. pcm_add fl a now name m = Inr (b, m') \<and> pcm_inv m' \<and>
    map_of (pcmap m') name = Some (n, b) \<and>
    pcm_users m' = (pcm_users m)(name := pcm_users m name + 1)"
proof (cases "map_of (pcmap m) name")
  case None
  let ?n = "pcm_next m"
  let ?c = "(new_PerformanceCache fl name now)\<lparr>pc_index := ?n, refs := 2\<rparr>"
  let ?m = "put_heap a ?c (m\<lparr>pcmap := om_put name (?n, a) (pcmap m), pcm_next := ?n + 1\<rparr>)"
  have e: "pcm_add fl a now name m = Inr (a, ?m)"
    by (simp add: pcm_add_def None new_PerformanceCache_def Let_def)
  note p = pcm_inv_parts[OF inv]
  have none: "\<And>v. (name, v) \<notin> set (pcmap m)" using None by (auto simp: map_of_eq_None_iff image_iff)
  have set: "set (om_put name (?n, a) (pcmap m)) = insert (name, ?n, a) (set (pcmap m))"
    using none by (auto simp: set_om_put_eq[OF p(1)])
  have old: "entry_ok ?m x" if "x \<in> set (pcmap m)" for x
    using p(4)[OF that] new by (auto simp: entry_ok_def)
  have fresh: "entry_ok ?m (name, ?n, a)"
    by (simp add: entry_ok_def new_PerformanceCache_def)
  have ids: "distinct (map (\<lambda>x. fst (snd x)) (om_put name (?n, a) (pcmap m)))"
  proof -
    have d: "distinct (om_put name (?n, a) (pcmap m))"
      using om_ok_put[OF p(1), of name "(?n, a)"] by (simp add: om_ok_def distinct_map)
    have "\<forall>x\<in>set (pcmap m). fst (snd x) < ?n" using p(4) by (auto simp: entry_ok_def)
    then have "?n \<notin> (\<lambda>x. fst (snd x)) ` (set (pcmap m) - {(name, ?n, a)})" by force
    then have "inj_on (\<lambda>x. fst (snd x)) (insert (name, ?n, a) (set (pcmap m)))"
      using p(3) by (simp add: inj_on_insert distinct_map)
    then show ?thesis using d by (simp add: distinct_map set)
  qed
  have i: "pcm_inv ?m"
    unfolding pcm_inv_def using p(1) ids old fresh set by auto
  have u: "pcm_users ?m = (pcm_users m)(name := pcm_users m name + 1)"
  proof
    fix k
    show "pcm_users ?m k = ((pcm_users m)(name := pcm_users m name + 1)) k"
    proof (cases "k = name")
      case True
      then show ?thesis by (simp add: pcm_users_def None new_PerformanceCache_def)
    next
      case False
      then show ?thesis
      proof (cases "map_of (pcmap m) k")
        case (Some x)
        obtain n b where x: "x = (n, b)" by (cases x)
        obtain c where "heap m b = Some c" by (rule found_entry[OF inv Some[unfolded x]])
        with new have "b \<noteq> a" by auto
        with False Some x show ?thesis by (simp add: pcm_users_def)
      qed (simp add: pcm_users_def)
    qed
  qed
  show ?thesis using e i u by (intro exI[of _ a] exI[of _ ?m] exI[of _ ?n]) simp
next
  case (Some x)
  obtain n b where x: "x = (n, b)" by (cases x)
  from found_entry[OF inv Some[unfolded x]] obtain c where c: "(name, n, b) \<in> set (pcmap m)" "heap m b = Some c"
    "pc_name c = name" "pc_index c = n" "mrc c \<ge> 1" "refs c \<ge> 1" by blast
  let ?m = "put_heap b (mref (c\<lparr>refs := refs c + 1\<rparr>)) m"
  have e: "pcm_add fl a now name m = Inr (b, ?m)" by (simp add: pcm_add_def Some x c(2))
  have i: "pcm_inv ?m" by (rule inv_put_heap[OF inv c(2)]) (use c in \<open>simp_all add: mref_def\<close>)
  have u: "pcm_users ?m = (pcm_users m)(name := pcm_users m name + 1)"
  proof
    fix k
    show "pcm_users ?m k = ((pcm_users m)(name := pcm_users m name + 1)) k"
    proof (cases "map_of (pcmap m) k")
      case None
      with Some show ?thesis by (auto simp: pcm_users_def)
    next
      case k: (Some y)
      have "k = name \<longleftrightarrow> snd y = b"
      proof
        show "k = name \<Longrightarrow> snd y = b" using k Some x by (cases y) simp
        show "k = name" if "snd y = b"
          using other_entry(1)[OF inv c(1), of "(k, y)"] map_of_SomeD[OF k] that by (cases "k = name") auto
      qed
      with k Some x c show ?thesis by (cases y) (auto simp: pcm_users_def mref_def)
    qed
  qed
  show ?thesis using e i u Some x by (intro exI[of _ b] exI[of _ ?m] exI[of _ n]) simp
qed

lemma find_entry:
  assumes inv: "pcm_inv m" and x: "(name, n, a) \<in> set (pcmap m)"
  shows "find (\<lambda>x. fst (snd x) = n) (pcmap m) = Some (name, n, a)"
proof -
  from x obtain y where y: "find (\<lambda>x. fst (snd x) = n) (pcmap m) = Some y"
    by (cases "find (\<lambda>x. fst (snd x) = n) (pcmap m)") (auto simp: find_None_iff)
  then have "y \<in> set (pcmap m)" "fst (snd y) = n" by (auto simp: find_Some_iff)
  with other_entry(3)[OF inv x, of y] y show ?thesis by (cases "y = (name, n, a)") auto
qed

lemma del_last:
  assumes inv: "pcm_inv m" and n: "map_of (pcmap m) name = Some (n, a)" and c: "heap m a = Some c" "mrc c = 1"
  shows "\<exists>m'. pcm_del a m = Inr m' \<and> pcmap m' = om_del name (pcmap m) \<and> pcm_next m' = pcm_next m \<and>
    (\<forall>b. b \<noteq> a \<longrightarrow> heap m' b = heap m b) \<and> heap m' a = (if refs c = 1 then None
      else Some (c\<lparr>mrc := 0, qlist := [], pc_running := False, refs := refs c - 1\<rparr>))"
proof -
  from found_entry[OF inv n] c obtain i: "(name, n, a) \<in> set (pcmap m)" "pc_index c = n" "refs c \<ge> 1" by auto
  let ?c = "c\<lparr>mrc := 0, qlist := [], pc_running := False\<rparr>"
  let ?out = "(outs m)\<lparr>dereferenced := dereferenced (outs m) @ map snd (qlist c)\<rparr>"
  let ?m = "put_heap a ?c (m\<lparr>outs := ?out\<rparr>)"
  have er: "pcmap_erase n ?m = Inr (?m\<lparr>pcmap := om_del name (pcmap m)\<rparr>)"
    using find_entry[OF inv i(1)] by (simp add: pcmap_erase_def)
  have "pcm_del a m = pc_deref a (?m\<lparr>pcmap := om_del name (pcmap m)\<rparr>)"
    by (simp add: pcm_del_def c mderef_def pc_stop_def i(2) er)
  then show ?thesis by (simp add: pc_deref_def put_heap_def)
qed

lemma del_shares:
  assumes inv: "pcm_inv m" and n: "map_of (pcmap m) name = Some (n, a)"
  shows "\<exists>m'. pcm_del a m = Inr m' \<and> pcm_inv m' \<and> pcm_users m' = (pcm_users m)(name := pcm_users m name - 1)"
proof -
  from found_entry[OF inv n] obtain c where c: "(name, n, a) \<in> set (pcmap m)" "heap m a = Some c"
    "pc_name c = name" "pc_index c = n" "mrc c \<ge> 1" "refs c \<ge> 1" by blast
  have other: "b \<noteq> a" if "map_of (pcmap m) k = Some (l, b)" "k \<noteq> name" for k l b
    using other_entry(1)[OF inv c(1) map_of_SomeD[OF that(1)]] that(2) by auto
  show ?thesis
  proof (cases "mrc c = 1")
    case True
    from del_last[OF inv n c(2) True] obtain m' where m': "pcm_del a m = Inr m'"
      "pcmap m' = om_del name (pcmap m)" "pcm_next m' = pcm_next m" "\<forall>b. b \<noteq> a \<longrightarrow> heap m' b = heap m b" by blast
    note p = pcm_inv_parts[OF inv]
    have "entry_ok m' x" if "x \<in> set (pcmap m)" "fst x \<noteq> name" for x
    proof -
      have "(name, n, a) \<noteq> x" using that(2) by auto
      from other_entry(1)[OF inv c(1) that(1) this] have "snd (snd x) \<noteq> a" by simp
      with p(4)[OF that(1)] m'(3,4) show ?thesis by (simp add: entry_ok_def)
    qed
    then have i: "pcm_inv m'"
      using p(1,3) by (auto simp: pcm_inv_def m'(2) om_del_def[symmetric] distinct_map_filter om_ok_del)
        (simp add: om_del_def distinct_map_filter)
    have "pcm_users m' k = ((pcm_users m)(name := pcm_users m name - 1)) k" for k
    proof (cases "k = name")
      case True
      then show ?thesis using n c \<open>mrc c = 1\<close> by (simp add: pcm_users_def m'(2))
    next
      case False
      then show ?thesis
        using other[of k] m'(4) by (auto simp: pcm_users_def m'(2) split: option.splits)
    qed
    with m'(1) i show ?thesis by blast
  next
    case False
    let ?m = "put_heap a (c\<lparr>mrc := mrc c - 1\<rparr>) m"
    have e: "pcm_del a m = Inr ?m" using False by (simp add: pcm_del_def c(2) mderef_def)
    have i: "pcm_inv ?m" by (rule inv_put_heap[OF inv c(2)]) (use c False in simp_all)
    have "pcm_users ?m k = ((pcm_users m)(name := pcm_users m name - 1)) k" for k
      using other[of k] n c(2) by (auto simp: pcm_users_def split: option.splits)
    with e i show ?thesis by blast
  qed
qed

section \<open>Shutting down\<close>

lemma shutdown_steps:
  assumes "distinct (map (\<lambda>x. snd (snd x)) xs)"
    and "\<forall>x\<in>set xs. \<exists>c. heap m (snd (snd x)) = Some c"
  shows "\<exists>m'. rfold shutdown_step m xs = Inr m' \<and>
    (\<forall>a. heap m' a = (if a \<in> (\<lambda>x. snd (snd x)) ` set xs then
      (case heap m a of None \<Rightarrow> None | Some c \<Rightarrow> if refs c = 1 then None
        else Some (c\<lparr>qlist := [], pc_running := False, refs := refs c - 1\<rparr>))
      else heap m a))"
  using assms
proof (induction xs arbitrary: m)
  case Nil
  then show ?case by simp
next
  case (Cons x xs)
  let ?a = "snd (snd x)"
  from Cons.prems(2) obtain c where c: "heap m ?a = Some c" by auto
  obtain m1 where m1: "shutdown_step m x = Inr m1"
    "heap m1 = (heap m)(?a := if refs c = 1 then None
      else Some (c\<lparr>qlist := [], pc_running := False, refs := refs c - 1\<rparr>))"
    by (cases "refs c = 1") (auto simp: shutdown_step_def c pc_stop_def pc_deref_def put_heap_def)
  have "\<exists>m'. rfold shutdown_step m1 xs = Inr m' \<and>
    (\<forall>a. heap m' a = (if a \<in> (\<lambda>x. snd (snd x)) ` set xs then
      (case heap m1 a of None \<Rightarrow> None | Some c \<Rightarrow> if refs c = 1 then None
        else Some (c\<lparr>qlist := [], pc_running := False, refs := refs c - 1\<rparr>))
      else heap m1 a))"
  proof (rule Cons.IH)
    show "distinct (map (\<lambda>x. snd (snd x)) xs)" using Cons.prems(1) by simp
    show "\<forall>x\<in>set xs. \<exists>c. heap m1 (snd (snd x)) = Some c"
    proof
      fix y assume y: "y \<in> set xs"
      then have "snd (snd y) \<in> set (map (\<lambda>x. snd (snd x)) xs)" by simp
      moreover have "?a \<notin> set (map (\<lambda>x. snd (snd x)) xs)" using Cons.prems(1) by simp
      ultimately have "snd (snd y) \<noteq> ?a" by metis
      with y(1) Cons.prems(2) show "\<exists>c. heap m1 (snd (snd y)) = Some c" by (simp add: m1(2))
    qed
  qed
  then obtain m' where m': "rfold shutdown_step m1 xs = Inr m'"
    "\<forall>a. heap m' a = (if a \<in> (\<lambda>x. snd (snd x)) ` set xs then
      (case heap m1 a of None \<Rightarrow> None | Some c \<Rightarrow> if refs c = 1 then None
        else Some (c\<lparr>qlist := [], pc_running := False, refs := refs c - 1\<rparr>))
      else heap m1 a)" by blast
  have fresh: "?a \<notin> (\<lambda>x. snd (snd x)) ` set xs" using Cons.prems(1) by auto
  show ?case
    using m' m1 fresh c by (intro exI[of _ m']) auto
qed

lemma map_addresses:
  assumes inv: "pcm_inv m"
  shows "distinct (map (\<lambda>x. snd (snd x)) (pcmap m))" "\<forall>x\<in>set (pcmap m). \<exists>c. heap m (snd (snd x)) = Some c"
proof -
  note p = pcm_inv_parts[OF inv]
  have "distinct (pcmap m)" using p(2) by (simp add: distinct_map)
  moreover have "inj_on (\<lambda>x. snd (snd x)) (set (pcmap m))"
    by (rule inj_onI) (use other_entry(1)[OF inv] in blast)
  ultimately show "distinct (map (\<lambda>x. snd (snd x)) (pcmap m))" by (simp add: distinct_map)
  show "\<forall>x\<in>set (pcmap m). \<exists>c. heap m (snd (snd x)) = Some c"
  proof
    fix x assume "x \<in> set (pcmap m)"
    from p(4)[OF this] show "\<exists>c. heap m (snd (snd x)) = Some c" by (auto simp: entry_ok_def)
  qed
qed

definition in_map :: "'d pc_manager \<Rightarrow> int \<Rightarrow> bool" where
  "in_map m a \<longleftrightarrow> a \<in> (\<lambda>x. snd (snd x)) ` set (pcmap m)"

lemma shutdown_step_next: "shutdown_step m x = Inr m' \<Longrightarrow> pcm_next m' = pcm_next m"
  by (auto simp: shutdown_step_def pc_stop_def pc_deref_def put_heap_def split: if_splits)

text \<open>After a shutdown the map is empty, and each cache that was in it has one reference less.\<close>

lemma shutdown_heap:
  assumes inv: "pcm_inv m"
  shows "\<exists>m'. pcm_shutdown m = Inr m' \<and> pcmap m' = [] \<and> pcm_next m' = pcm_next m \<and>
    (\<forall>a. heap m' a = (if in_map m a then
      (case heap m a of None \<Rightarrow> None | Some c \<Rightarrow> if refs c = 1 then None
        else Some (c\<lparr>qlist := [], pc_running := False, refs := refs c - 1\<rparr>))
      else heap m a))"
proof -
  let ?m = "m\<lparr>pcm_stop := True\<rparr>"
  have h: "\<forall>x\<in>set (pcmap m). \<exists>c. heap ?m (snd (snd x)) = Some c" using map_addresses(2)[OF inv] by simp
  from shutdown_steps[OF map_addresses(1)[OF inv] h] obtain m' where m': "rfold shutdown_step ?m (pcmap m) = Inr m'"
    "\<forall>a. heap m' a = (if in_map m a then
      (case heap ?m a of None \<Rightarrow> None | Some c \<Rightarrow> if refs c = 1 then None
        else Some (c\<lparr>qlist := [], pc_running := False, refs := refs c - 1\<rparr>))
      else heap ?m a)" unfolding in_map_def by blast
  have "pcm_next m' = pcm_next m"
    by (rule rfold_invariant[OF m'(1), where P = "\<lambda>u. pcm_next u = pcm_next m"])
      (simp_all add: shutdown_step_next)
  with m' show ?thesis
    by (intro exI[of _ "m'\<lparr>pcmap := [], cevent := cevent m' @ [Signal]\<rparr>"]) (simp add: pcm_shutdown_def)
qed

lemma shutdown_ok:
  assumes inv: "pcm_inv m"
  shows "\<exists>m'. pcm_shutdown m = Inr m' \<and> pcmap m' = [] \<and>
    (\<forall>name n a c. map_of (pcmap m) name = Some (n, a) \<longrightarrow> heap m a = Some c \<longrightarrow> refs c \<noteq> 1 \<longrightarrow>
      heap m' a = Some (c\<lparr>qlist := [], pc_running := False, refs := refs c - 1\<rparr>))"
proof -
  have "in_map m a" if "map_of (pcmap m) name = Some (n, a)" for name n a
    using map_of_SomeD[OF that] by (force simp: in_map_def)
  with shutdown_heap[OF inv] show ?thesis by force
qed

end
