(* ===== verification/Performance_Properties.thy ===== *)
theory Performance_Properties
  imports Performance_Manager
begin

text \<open>
  What the performance caches promise: exact averages over the window, a bounded history, and a manager
  that shares each cache among its users.
\<close>

text \<open>Integers as numbers, for the examples; they are exact without a bound.\<close>

definition int_flops :: "int flops" where
  "int_flops = \<lparr>f_zero = 0, f_one = 1, f_hour = 3600000000, f_of_int = (\<lambda>i. i), f_add = (+), f_sub = (-),
     f_div = (div), f_less = (<)\<rparr>"

lemma int_flops_exact: "exact_upto N int_flops"
  by (simp add: exact_upto_def int_flops_def)

definition no_listeners :: "'d listeners" where
  "no_listeners = \<lparr>pushed = [], dereferenced = []\<rparr>"

text \<open>
  C29.  The samples: when values have been posted to a new cache with some listeners and it has been
  popped from time to time, the next sample is sent to every listener, and carries the average, exact up to the
  final division, of just the values posted at or after the time of the last pop.  The values posted are not
  negative, the clock does not go back, and the numbers of type double are exact up to the sum of the values.
\<close>

theorem samples_average_window:
  assumes "exact_upto N fl" and "sorted (map op_time ops)"
    and "\<forall>p\<in>set (posted ops). 0 \<le> dp_v p" and "dp_total (posted ops) \<le> N"
    and "c0 = (new_PerformanceCache fl name start)\<lparr>qlist := ls\<rparr>" and "ls \<noteq> []"
    and "pc_run fl ops (c0, out0) = (c, out)"
    and "ps = filter (\<lambda>p. \<forall>t. Pop t \<in> set ops \<longrightarrow> t \<le> dp_t p) (posted ops)"
    and "avg = (if ps = [] then f_zero fl else f_div fl (f_of_int fl (dp_total ps)) (f_of_int fl (int (length ps))))"
  shows "pushed (snd (pc_pop fl now c out)) = pushed out @ map (\<lambda>x. (snd x, Sample name avg
      (if ps = [] then f_zero fl else f_div fl (f_hour fl) avg))) ls"
proof -
  have c0: "pc_running c0" "l_onesec c0 = new_DataPointList fl" "qlist c0 = ls" "pc_name c0 = name"
    by (simp_all add: assms(5) new_PerformanceCache_def)
  have "0 \<le> N" using assms(4) dp_total_nonneg[OF assms(3)] by simp
  note new = window_new[OF assms(1) this]
  have empty: "dpl_list (l_onesec c0) = []" by (simp add: c0(2) new_DataPointList_def)
  have w: "window_ok N fl (l_onesec c)" "dpl_list (l_onesec c) = ps"
    using run_window[OF assms(1) c0(1), of ops out0] new assms(2-4) in_window_filter[OF assms(2), of "[]"]
    by (simp_all add: assms(7,8) c0(2) new_DataPointList_def)
  have q: "qlist c = ls" "pc_name c = name"
    using run_qlist[of fl ops "(c0, out0)"] by (simp_all add: assms(7) c0)
  have "getAverage fl (l_onesec c) = (avg, if ps = [] then f_zero fl else f_div fl (f_hour fl) avg)"
    using w by (simp add: getAverage_def Let_def assms(9) window_ok_def)
  with q assms(6) show ?thesis by (simp add: pc_pop_def Let_def)
qed

theorem samples_average_window_witness:
  "pushed (snd (pc_pop int_flops 13 (fst (pc_run int_flops [Post 10 7, Pop 11, Post 11 4, Post 12 8]
      ((new_PerformanceCache int_flops ''w'' 9)\<lparr>qlist := [(0, 5)]\<rparr>, no_listeners)))
      (snd (pc_run int_flops [Post 10 7, Pop 11, Post 11 4, Post 12 8]
      ((new_PerformanceCache int_flops ''w'' 9)\<lparr>qlist := [(0, 5)]\<rparr>, no_listeners)))))
   = [(5, Sample ''w'' 7 514285714), (5, Sample ''w'' 6 600000000)]"
proof -
  let ?ops = "[Post 10 7, Pop 11, Post 11 4, Post 12 8]"
  let ?c = "(new_PerformanceCache int_flops ''w'' 9)\<lparr>qlist := [(0, 5)]\<rparr>"
  obtain c out where r: "pc_run int_flops ?ops (?c, no_listeners) = (c, out)" by (rule prod.exhaust)
  have h: "sorted (map op_time ?ops)" "\<forall>p\<in>set (posted ?ops). 0 \<le> dp_v p" "dp_total (posted ?ops) \<le> 100"
    by simp_all
  have out: "pushed out = [(5, Sample ''w'' 7 514285714)]"
    using arg_cong[OF r, of "\<lambda>x. pushed (snd x)"]
    by (simp add: post_def pc_pop_def getAverage_def dpl_push_def dpl_pop_def new_PerformanceCache_def
      new_DataPointList_def int_flops_def no_listeners_def push_hist_def PERFCACHE_HIST_SIZE_def Let_def)
  have ps: "filter (\<lambda>p. \<forall>t. Pop t \<in> set ?ops \<longrightarrow> t \<le> dp_t p) (posted ?ops) =
    [\<lparr>dp_v = 4, dp_t = 11\<rparr>, \<lparr>dp_v = 8, dp_t = 12\<rparr>]" by simp
  from samples_average_window[OF int_flops_exact h refl _ r ps[symmetric] refl, of 13]
  have "pushed (snd (pc_pop int_flops 13 c out)) =
      [(5, Sample ''w'' 7 514285714), (5, Sample ''w'' 6 600000000)]"
    by (simp add: out) (simp add: int_flops_def)
  then show ?thesis unfolding r fst_conv snd_conv .
qed

text \<open>
  C30.  The history of a cache whose listeners stay the same while it is posted to and popped, each of
  them a different queue and the history empty when they were there: it never has more than 120 entries, and it is
  the last 120 of the samples that each of these listeners was sent.  So a listener that is added afterwards, which
  is given the history, gets what the others got last.
\<close>

theorem history_is_last_samples:
  assumes "distinct (map snd (qlist c))" "q \<in> set (map snd (qlist c))" and "l_hist c = []"
    and "pc_run fl ops (c, out) = (c', out')"
  shows "length (l_hist c') \<le> 120 \<and>
    (\<exists>xs. samples q out' = samples q out @ xs \<and> l_hist c' = drop (length xs - 120) xs)"
proof -
  have "l_hist c = last_n PERFCACHE_HIST_SIZE []" by (simp add: assms(3) last_n_def)
  from run_history[OF assms(1,2) this, of fl ops out] obtain xs where xs: "samples q out' = samples q out @ xs"
    "l_hist c' = last_n PERFCACHE_HIST_SIZE xs" by (auto simp: assms(4))
  with length_last_n[of PERFCACHE_HIST_SIZE xs] show ?thesis
    by (auto simp: last_n_def PERFCACHE_HIST_SIZE_def)
qed

theorem history_is_last_samples_witness:
  "\<exists>c' out' xs. pc_run int_flops [Post 10 7, Pop 11, Pop 12]
      ((new_PerformanceCache int_flops ''w'' 9)\<lparr>qlist := [(0, 5)]\<rparr>, no_listeners) = (c', out') \<and>
    samples 5 out' = xs \<and> l_hist c' = drop (length xs - 120) xs"
proof -
  let ?c = "(new_PerformanceCache int_flops ''w'' 9)\<lparr>qlist := [(0, 5)]\<rparr>"
  obtain c out where r: "pc_run int_flops [Post 10 7, Pop 11, Pop 12] (?c, no_listeners) = (c, out)"
    by (rule prod.exhaust)
  have "samples 5 (no_listeners :: int listeners) = []" by (simp add: samples_def no_listeners_def)
  with history_is_last_samples[OF _ _ _ r, of 5]
  have "\<exists>xs. samples 5 out = xs \<and> l_hist c = drop (length xs - 120) xs" by (simp add: new_PerformanceCache_def)
  with r show ?thesis by blast
qed

text \<open>
  C28.  Sharing: adding a name gives the one cache of that name to one more user; deleting
  it takes one user away, and the cache leaves the manager with its last one; no other name is affected, and
  neither operation fails.
\<close>

theorem manager_shares_caches:
  assumes "pcm_inv m"
  shows "(heap m a = None \<longrightarrow> (\<exists>b m' n. pcm_add fl a now name m = Inr (b, m') \<and> pcm_inv m' \<and>
      map_of (pcmap m') name = Some (n, b) \<and> pcm_users m' = (pcm_users m)(name := pcm_users m name + 1))) \<and>
    (\<forall>n b. map_of (pcmap m) name = Some (n, b) \<longrightarrow> (\<exists>m'. pcm_del b m = Inr m' \<and> pcm_inv m' \<and>
      pcm_users m' = (pcm_users m)(name := pcm_users m name - 1)))"
  using add_shares[OF assms, of a fl now name] del_shares[OF assms] by auto

theorem manager_shares_caches_witness:
  "\<exists>b m' m''. pcm_add int_flops 1 10 ''w5'' new_PerformanceCacheManager = Inr (b, m') \<and> pcm_inv m' \<and>
    pcm_users m' ''w5'' = 1 \<and> pcm_users m' ''w6'' = 0 \<and>
    pcm_del b m' = Inr m'' \<and> pcm_inv m'' \<and> pcm_users m'' ''w5'' = 0"
proof -
  have "heap (new_PerformanceCacheManager :: int pc_manager) 1 = None"
    "pcm_users (new_PerformanceCacheManager :: int pc_manager) = (\<lambda>_. 0)"
    by (simp_all add: new_PerformanceCacheManager_def pcm_users_def fun_eq_iff)
  with manager_shares_caches[OF pcm_inv_new, of 1 int_flops 10 "''w5''"] obtain b m' n where
    add: "pcm_add int_flops 1 10 ''w5'' new_PerformanceCacheManager = Inr (b, m')" "pcm_inv m'"
      "map_of (pcmap m') ''w5'' = Some (n, b)" "pcm_users m' = (\<lambda>_. 0)(''w5'' := 1)" by auto
  from manager_shares_caches[OF add(2), of 1 int_flops 10 "''w5''"] add(3,4) obtain m'' where
    "pcm_del b m' = Inr m''" "pcm_inv m''" "pcm_users m'' ''w5'' = 0" by auto
  with add show ?thesis by auto
qed

text \<open>
  Deleting after a shutdown: shutdown clears the map of the manager; when the only user
  of a cache, which still has a reference to it, deletes it afterwards, the iterator kept in the cache is no
  longer valid.
\<close>

theorem deleted_after_shutdown:
  assumes "pcm_inv m" and "map_of (pcmap m) name = Some (n, a)" and "heap m a = Some c"
    and "refs c \<ge> 2" and "mrc c = 1"
  shows "\<exists>m'. pcm_shutdown m = Inr m' \<and> pcm_del a m' = Inl Undefined_behaviour"
proof -
  from shutdown_ok[OF assms(1)] obtain m' where m': "pcm_shutdown m = Inr m'" "pcmap m' = []"
    "refs c \<noteq> 1 \<longrightarrow> heap m' a = Some (c\<lparr>qlist := [], pc_running := False, refs := refs c - 1\<rparr>)"
    using assms(2,3) by blast
  with assms(4,5) show ?thesis
    by (simp add: pcm_del_def mderef_def pc_stop_def pcmap_erase_def put_heap_def)
qed

theorem deleted_after_shutdown_witness:
  "\<exists>b m m'. pcm_add int_flops 1 10 ''w5'' new_PerformanceCacheManager = Inr (b, m) \<and> pcm_shutdown m = Inr m' \<and>
    pcm_del b m' = Inl Undefined_behaviour"
proof -
  let ?c = "(new_PerformanceCache int_flops ''w5'' 10)\<lparr>pc_index := 0, refs := 2\<rparr>"
  let ?m = "put_heap 1 ?c (new_PerformanceCacheManager\<lparr>pcmap := [(''w5'', 0, 1)], pcm_next := 1\<rparr>)"
  have add: "pcm_add int_flops 1 10 ''w5'' new_PerformanceCacheManager = Inr (1, ?m)"
    by (simp add: pcm_add_def new_PerformanceCacheManager_def new_PerformanceCache_def Let_def)
  have new: "heap (new_PerformanceCacheManager :: int pc_manager) 1 = None"
    by (simp add: new_PerformanceCacheManager_def)
  from add_shares[OF pcm_inv_new new, of int_flops 10 "''w5''"] add have inv: "pcm_inv ?m" by auto
  have "map_of (pcmap ?m) ''w5'' = Some (0, 1)" "heap ?m 1 = Some ?c" "refs ?c \<ge> 2" "mrc ?c = 1"
    by (simp_all add: new_PerformanceCache_def)
  from deleted_after_shutdown[OF inv this] add show ?thesis by blast
qed

end
