(* ===== verification/Performance_Bindings.thy ===== *)
theory Performance_Bindings
  imports Performance_Properties
begin

text \<open>
  The Qore classes \<^verbatim>\<open>PerformanceCache\<close> and \<^verbatim>\<open>PerformanceCacheManager\<close>,
  \<^verbatim>\<open>exec/QC_PerformanceCache.qpp\<close> and \<^verbatim>\<open>exec/QC_PerformanceCacheManager.qpp\<close>, and the
  states that a manager and the Qore objects of its caches reach.
\<close>

section \<open>Methods\<close>

text \<open>
  The maximum size of a queue is \<open>getMax\<close>, -1 for a queue without one; a result is a value or the
  description of an exception.
\<close>

definition queue_error :: "int \<Rightarrow> string \<times> string" where
  "queue_error mx = (''QUEUE-ERROR'', ''the Queue object passed as a maximum size of '' @ dec mx @ '' entr''
     @ (if mx = 1 then ''y'' else ''ies'') @ '', which could cause internal I/O to freeze in the PerformanceCache object if used; use a Queue object with no maximum size for event monitoring'')"

text \<open>
  The reference to the queue that comes with the argument goes to the cache, or is given back.  The
  value is the address of the list node.
\<close>

definition cache_addListenerQueue :: "(int \<Rightarrow> int) \<Rightarrow> int \<Rightarrow> 'd perf_cache \<Rightarrow> 'd listeners
    \<Rightarrow> ((string \<times> string) + nat) \<times> 'd perf_cache \<times> 'd listeners" where
  "cache_addListenerQueue getMax queue c out =
     (if getMax queue \<noteq> -1 then
        (Inl (queue_error (getMax queue)), c, out\<lparr>dereferenced := dereferenced out @ [queue]\<rparr>)
      else case addListenerQueue queue c out of (qi, c', out') \<Rightarrow> (Inr qi, c', out'))"

text \<open>The integer is taken for the address of a list node.\<close>

definition cache_removeListenerQueue :: "nat \<Rightarrow> 'd perf_cache \<Rightarrow> 'd listeners
    \<Rightarrow> ('d perf_cache \<times> 'd listeners) result" where
  "cache_removeListenerQueue q c out = removeListenerQueue q c out"

definition cache_post :: "'d flops \<Rightarrow> int \<Rightarrow> int \<Rightarrow> 'd perf_cache \<Rightarrow> 'd perf_cache" where
  "cache_post fl now v c = post fl now v c"

definition cache_copy :: "string \<times> string" where
  "cache_copy = (''PERFORMANCECACHE-COPY-ERROR'', ''PerformanceCache::copy() is not implemented'')"

definition manager_copy :: "string \<times> string" where
  "manager_copy = (''PERFORMANCECACHEMANAGER-COPY-ERROR'', ''PerformanceCacheManager::copy() is not implemented'')"

text \<open>The constructor makes no object when the thread could not be made.\<close>

definition manager_constructor :: "bool \<Rightarrow> 'd pc_manager option result" where
  "manager_constructor thread_made =
     rbind (pcm_start thread_made new_PerformanceCacheManager) (\<lambda>(rc, m).
       Inr (if rc \<noteq> 0 then None else Some m))"

text \<open>The destructor of the object: a shutdown, and the destructor of the class with the last reference.\<close>

definition manager_destructor :: "'d pc_manager \<Rightarrow> 'd pc_manager result" where
  "manager_destructor m = rbind (pcm_shutdown m) (\<lambda>m'. rbind (pcm_destructor m') (\<lambda>_. Inr m'))"

section \<open>The manager and its objects\<close>

text \<open>
  \<open>held\<close> counts the Qore objects of a cache.  Every call is made on an object: the program has a reference
  to the cache.
\<close>

record 'd perf_world =
  manager :: "'d pc_manager"
  held :: "int \<Rightarrow> nat"

inductive perf_step :: "(int \<Rightarrow> int) \<Rightarrow> 'd flops \<Rightarrow> 'd perf_world \<Rightarrow> 'd perf_world \<Rightarrow> bool" for getMax fl where
  add: "heap (manager z) a = None \<Longrightarrow> pcm_add fl a now name (manager z) = Inr (b, m') \<Longrightarrow>
    perf_step getMax fl z \<lparr>manager = m', held = (held z)(b := Suc (held z b))\<rparr>"
| del: "held z a > 0 \<Longrightarrow> pcm_del a (manager z) = Inr m' \<Longrightarrow> perf_step getMax fl z (z\<lparr>manager := m'\<rparr>)"
| listen: "held z a > 0 \<Longrightarrow> heap (manager z) a = Some c \<Longrightarrow>
    cache_addListenerQueue getMax q c (outs (manager z)) = (v, c', out) \<Longrightarrow>
    perf_step getMax fl z (z\<lparr>manager := put_heap a c' (manager z\<lparr>outs := out\<rparr>)\<rparr>)"
| unlisten: "held z a > 0 \<Longrightarrow> heap (manager z) a = Some c \<Longrightarrow>
    cache_removeListenerQueue n c (outs (manager z)) = Inr (c', out) \<Longrightarrow>
    perf_step getMax fl z (z\<lparr>manager := put_heap a c' (manager z\<lparr>outs := out\<rparr>)\<rparr>)"
| post: "held z a > 0 \<Longrightarrow> heap (manager z) a = Some c \<Longrightarrow>
    perf_step getMax fl z (z\<lparr>manager := put_heap a (cache_post fl now v c) (manager z)\<rparr>)"
| release: "held z a > 0 \<Longrightarrow> pc_deref a (manager z) = Inr m' \<Longrightarrow>
    perf_step getMax fl z \<lparr>manager = m', held = (held z)(a := held z a - 1)\<rparr>"
| turn: "pcm_turn fl now (manager z) = Inr m' \<Longrightarrow> perf_step getMax fl z (z\<lparr>manager := m'\<rparr>)"
| shutdown: "pcm_shutdown (manager z) = Inr m' \<Longrightarrow> perf_step getMax fl z (z\<lparr>manager := m'\<rparr>)"

inductive perf_reachable :: "(int \<Rightarrow> int) \<Rightarrow> 'd flops \<Rightarrow> 'd perf_world \<Rightarrow> bool" for getMax fl where
  start: "manager_constructor True = Inr (Some m) \<Longrightarrow> perf_reachable getMax fl \<lparr>manager = m, held = \<lambda>_. 0\<rparr>"
| step: "perf_reachable getMax fl z \<Longrightarrow> perf_step getMax fl z z' \<Longrightarrow> perf_reachable getMax fl z'"

text \<open>
  A cache is refs_counted right: its references are those of its objects and that of the map.  Indices
  belong to one cache each.
\<close>

definition refs_counted :: "(int \<Rightarrow> nat) \<Rightarrow> 'd pc_manager \<Rightarrow> int \<Rightarrow> 'd perf_cache \<Rightarrow> bool" where
  "refs_counted h m a c \<longleftrightarrow> refs c = int (h a) + (if in_map m a then 1 else 0) \<and> 1 \<le> refs c"

definition unbounded_listeners :: "(int \<Rightarrow> int) \<Rightarrow> 'd perf_cache \<Rightarrow> bool" where
  "unbounded_listeners getMax c \<longleftrightarrow> (\<forall>q\<in>snd ` set (qlist c). getMax q = -1)"

definition world_ok :: "(int \<Rightarrow> int) \<Rightarrow> 'd pc_manager \<Rightarrow> (int \<Rightarrow> nat) \<Rightarrow> bool" where
  "world_ok getMax m h \<longleftrightarrow> pcm_inv m \<and> (\<forall>a. h a > 0 \<longrightarrow> heap m a \<noteq> None) \<and>
     (\<forall>a c. heap m a = Some c \<longrightarrow> refs_counted h m a c \<and> unbounded_listeners getMax c \<and> pc_index c < pcm_next m) \<and>
     (\<forall>a b c d. heap m a = Some c \<longrightarrow> heap m b = Some d \<longrightarrow> pc_index c = pc_index d \<longrightarrow> a = b)"

lemma in_map_simps [simp]:
  "in_map (put_heap a c m) b = in_map m b" "in_map (m\<lparr>heap := h\<rparr>) b = in_map m b"
  "in_map (m\<lparr>outs := out\<rparr>) b = in_map m b"
  by (simp_all add: in_map_def)

lemma in_map_entry:
  assumes "pcm_inv m" "in_map m a"
  obtains name n c where "(name, n, a) \<in> set (pcmap m)" "map_of (pcmap m) name = Some (n, a)" "heap m a = Some c"
    "pc_name c = name" "pc_index c = n" "mrc c \<ge> 1"
proof -
  from assms(2) obtain x where x: "x \<in> set (pcmap m)" "snd (snd x) = a" by (auto simp: in_map_def)
  obtain name n where xe: "x = (name, n, a)" using x(2) by (cases x) auto
  from pcm_inv_parts(4)[OF assms(1) x(1)] x that[of name n] map_of_is_SomeI[OF pcm_inv_parts(2)[OF assms(1)], of name "(n, a)"]
  show ?thesis by (auto simp: entry_ok_def xe)
qed

lemma world_ok_parts:
  assumes "world_ok getMax m h"
  shows "pcm_inv m" "h a > 0 \<Longrightarrow> heap m a \<noteq> None"
    "heap m a = Some c \<Longrightarrow> refs_counted h m a c \<and> unbounded_listeners getMax c \<and> pc_index c < pcm_next m"
    "heap m a = Some c \<Longrightarrow> heap m b = Some d \<Longrightarrow> pc_index c = pc_index d \<Longrightarrow> a = b"
  using assms unfolding world_ok_def by blast+

lemma world_okI:
  assumes "pcm_inv m" "\<And>a. h a > 0 \<Longrightarrow> heap m a \<noteq> None"
    "\<And>a c. heap m a = Some c \<Longrightarrow> refs_counted h m a c \<and> unbounded_listeners getMax c \<and> pc_index c < pcm_next m"
    "\<And>a b c d. heap m a = Some c \<Longrightarrow> heap m b = Some d \<Longrightarrow> pc_index c = pc_index d \<Longrightarrow> a = b"
  shows "world_ok getMax m h"
  using assms unfolding world_ok_def by blast

lemma world_ok_update:
  assumes z: "world_ok getMax m h" and c: "heap m a = Some c"
    and same: "pc_name c' = pc_name c" "pc_index c' = pc_index c"
    and ok: "in_map m a \<Longrightarrow> mrc c' \<ge> 1" "refs_counted h' m a c'" "unbounded_listeners getMax c'"
    and h: "\<And>b. b \<noteq> a \<Longrightarrow> h' b = h b" and m': "m' = put_heap a c' (m\<lparr>outs := out\<rparr>)"
  shows "world_ok getMax m' h'"
proof (rule world_okI)
  note w = world_ok_parts[OF z]
  have m'_simps: "pcmap m' = pcmap m" "pcm_next m' = pcm_next m" "heap m' = (heap m)(a \<mapsto> c')"
    by (simp_all add: m' put_heap_def)
  have "entry_ok m' x" if x: "x \<in> set (pcmap m)" for x
  proof (cases "snd (snd x) = a")
    case True
    with x have "in_map m a" by (auto simp: in_map_def)
    with ok(1,2) pcm_inv_parts(4)[OF w(1) x] c same True show ?thesis
      by (auto simp: entry_ok_def m'_simps refs_counted_def)
  next
    case False
    with pcm_inv_parts(4)[OF w(1) x] show ?thesis by (simp add: entry_ok_def m'_simps)
  qed
  then show "pcm_inv m'" using pcm_inv_parts(1,3)[OF w(1)] by (simp add: pcm_inv_def m'_simps)
  show "heap m' b \<noteq> None" if "h' b > 0" for b
    using w(2)[of b] h[of b] that by (cases "b = a") (simp_all add: m'_simps)
  show "refs_counted h' m' b d \<and> unbounded_listeners getMax d \<and> pc_index d < pcm_next m'" if d: "heap m' b = Some d" for b d
  proof (cases "b = a")
    case True
    with d have "d = c'" by (simp add: m'_simps)
    with True ok(2,3) w(3)[OF c] same show ?thesis by (simp add: refs_counted_def in_map_def m'_simps)
  next
    case False
    with d have "heap m b = Some d" by (simp add: m'_simps)
    from w(3)[OF this] h[OF False] show ?thesis by (simp add: refs_counted_def in_map_def m'_simps)
  qed
  show "b = d" if e: "heap m' b = Some e" "heap m' d = Some f" "pc_index e = pc_index f" for b d e f
  proof -
    have index: "\<exists>e'. heap m x = Some e' \<and> pc_index e' = pc_index y" if "heap m' x = Some y" for x y
      using that c same by (cases "x = a") (auto simp: m'_simps)
    from index[OF e(1)] index[OF e(2)] e(3) w(4) show ?thesis by metis
  qed
qed

lemma same_outs [simp]: "m\<lparr>outs := outs m\<rparr> = m"
  by simp

lemma refs_counted_update [simp]:
  "refs_counted h (put_heap b d m) a c = refs_counted h m a c" "refs_counted h (m\<lparr>outs := out\<rparr>) a c = refs_counted h m a c"
  by (simp_all add: refs_counted_def)

lemma in_map_mrc: "pcm_inv m \<Longrightarrow> in_map m a \<Longrightarrow> heap m a = Some c \<Longrightarrow> mrc c \<ge> 1"
  by (erule (1) in_map_entry) simp

lemma pcm_add_ok:
  assumes z: "world_ok getMax m h" and new: "heap m a = None" and r: "pcm_add fl a now name m = Inr (b, m')"
  shows "world_ok getMax m' (h(b := Suc (h b)))"
proof (cases "map_of (pcmap m) name")
  case (Some x)
  obtain n b' where x: "x = (n, b')" by (cases x)
  from found_entry[OF world_ok_parts(1)[OF z] Some[unfolded x]] obtain c where
    c: "heap m b' = Some c" "mrc c \<ge> 1" by blast
  with r Some x have m': "b' = b" "m' = put_heap b (mref (c\<lparr>refs := refs c + 1\<rparr>)) (m\<lparr>outs := outs m\<rparr>)"
    by (auto simp: pcm_add_def)
  from world_ok_parts(3)[OF z c(1)[unfolded m'(1)]] c(2) show ?thesis
    by (intro world_ok_update[OF z c(1)[unfolded m'(1)] _ _ _ _ _ _ m'(2)])
      (auto simp: mref_def refs_counted_def unbounded_listeners_def)
next
  case None
  note w = world_ok_parts[OF z]
  let ?c = "(new_PerformanceCache fl name now)\<lparr>pc_index := pcm_next m, refs := 2\<rparr>"
  from r None have m': "b = a"
    "m' = put_heap a ?c (m\<lparr>pcmap := om_put name (pcm_next m, a) (pcmap m), pcm_next := pcm_next m + 1\<rparr>)"
    by (auto simp: pcm_add_def new_PerformanceCache_def Let_def)
  have none: "h a = 0" using w(2)[of a] new by (cases "h a") auto
  have map: "in_map m' d \<longleftrightarrow> d = a \<or> in_map m d" for d
  proof -
    have "\<And>v. (name, v) \<notin> set (pcmap m)" using None by (auto simp: map_of_eq_None_iff image_iff)
    then have "set (om_put name (pcm_next m, a) (pcmap m)) = insert (name, pcm_next m, a) (set (pcmap m))"
      by (auto simp: set_om_put_eq[OF pcm_inv_parts(1)[OF w(1)]])
    then show ?thesis by (simp add: in_map_def m'(2))
  qed
  have fresh: "\<not> in_map m a" using in_map_entry[OF w(1), of a] new by auto
  have caches: "refs_counted (h(a := Suc (h a))) m' d c \<and> unbounded_listeners getMax c \<and> pc_index c < pcm_next m' \<and>
      (d = a \<longrightarrow> pc_index c = pcm_next m) \<and> (d \<noteq> a \<longrightarrow> heap m d = Some c)" if "heap m' d = Some c" for d c
  proof (cases "d = a")
    case True
    with that none map show ?thesis
      by (auto simp: refs_counted_def m'(2) unbounded_listeners_def new_PerformanceCache_def)
  next
    case False
    with that have d: "heap m d = Some c" by (simp add: m'(2))
    from w(3)[OF d] False d map[of d] show ?thesis by (simp add: refs_counted_def m'(2))
  qed
  show ?thesis unfolding m'(1)
  proof (rule world_okI)
    from add_shares[OF w(1) new, of fl now name] r show "pcm_inv m'" by auto
    show "heap m' d \<noteq> None" if "(h(a := Suc (h a))) d > 0" for d
      using that w(2)[of d] by (cases "d = a") (simp_all add: m'(2))
    show "refs_counted (h(a := Suc (h a))) m' d c \<and> unbounded_listeners getMax c \<and> pc_index c < pcm_next m'"
      if "heap m' d = Some c" for d c using caches[OF that] by blast
    show "d = e" if de: "heap m' d = Some c" "heap m' e = Some f" "pc_index c = pc_index f" for d e c f
    proof -
      have index: "(x = a \<and> pc_index y = pcm_next m) \<or> (heap m x = Some y \<and> pc_index y < pcm_next m)"
        if "heap m' x = Some y" for x y using caches[OF that] w(3)[of x y] by (cases "x = a") simp_all
      from index[OF de(1)] index[OF de(2)] de(3) show ?thesis by (elim disjE conjE) (simp_all add: w(4))
    qed
  qed
qed

lemma pc_deref_ok:
  assumes z: "world_ok getMax m h" and a: "h a > 0" and r: "pc_deref a m = Inr m'"
  shows "world_ok getMax m' (h(a := h a - 1))"
proof -
  note w = world_ok_parts[OF z]
  from r obtain c where c: "heap m a = Some c" by (auto simp: pc_deref_def deref_def split: option.split_asm)
  note wc = w(3)[OF c]
  show ?thesis
  proof (cases "refs c = 1")
    case False
    with r c have m': "m' = put_heap a (c\<lparr>refs := refs c - 1\<rparr>) (m\<lparr>outs := outs m\<rparr>)" by (simp add: pc_deref_def)
    from wc a False in_map_mrc[OF w(1) _ c] show ?thesis
      by (intro world_ok_update[OF z c _ _ _ _ _ _ m']) (auto simp: refs_counted_def unbounded_listeners_def)
  next
    case True
    with r c have m': "m' = m\<lparr>heap := (heap m)(a := None)\<rparr>" by (auto simp: pc_deref_def)
    from True wc a have free: "\<not> in_map m a" "h a = 1" by (auto simp: refs_counted_def split: if_splits)
    show ?thesis
    proof (rule world_okI)
      show "pcm_inv m'" using w(1) free(1) by (auto simp: pcm_inv_def entry_ok_def m' in_map_def)
      show "heap m' b \<noteq> None" if "(h(a := h a - 1)) b > 0" for b
        using that w(2)[of b] free by (cases "b = a") (simp_all add: m')
      show "refs_counted (h(a := h a - 1)) m' b d \<and> unbounded_listeners getMax d \<and> pc_index d < pcm_next m'"
        if "heap m' b = Some d" for b d
      proof -
        from that have b: "b \<noteq> a" "heap m b = Some d" by (auto simp: m' split: if_splits)
        from w(3)[OF b(2)] b(1) show ?thesis by (simp add: refs_counted_def m')
      qed
      show "b = d" if "heap m' b = Some e" "heap m' d = Some f" "pc_index e = pc_index f" for b d e f
        by (rule w(4)[of b e d f]) (use that in \<open>auto simp: m' split: if_splits\<close>)
    qed
  qed
qed

lemma pcm_del_ok:
  assumes z: "world_ok getMax m h" and a: "h a > 0" and r: "pcm_del a m = Inr m'"
  shows "world_ok getMax m' h"
proof -
  note w = world_ok_parts[OF z]
  from r obtain c where c: "heap m a = Some c" by (auto simp: pcm_del_def deref_def split: option.split_asm)
  note wc = w(3)[OF c]
  show ?thesis
  proof (cases "mrc c = 1")
    case False
    with r c have m': "m' = put_heap a (c\<lparr>mrc := mrc c - 1\<rparr>) (m\<lparr>outs := outs m\<rparr>)"
      by (simp add: pcm_del_def mderef_def)
    from wc False in_map_mrc[OF w(1) _ c] show ?thesis
      by (intro world_ok_update[OF z c _ _ _ _ _ _ m']) (auto simp: refs_counted_def unbounded_listeners_def)
  next
    case True
    from r True c obtain x where "find (\<lambda>x. fst (snd x) = pc_index c) (pcmap m) = Some x"
      by (auto simp: pcm_del_def mderef_def pc_stop_def pcmap_erase_def deref_def split: option.split_asm)
    then have x: "x \<in> set (pcmap m)" "fst (snd x) = pc_index c" by (auto simp: find_Some_iff)
    from pcm_inv_parts(4)[OF w(1) x(1)] x(2) w(4)[OF c] have "snd (snd x) = a" by (auto simp: entry_ok_def)
    with x(1) have "in_map m a" by (auto simp: in_map_def)
    then obtain name n where n: "(name, n, a) \<in> set (pcmap m)" "map_of (pcmap m) name = Some (n, a)"
      using in_map_entry[OF w(1)] by metis
    from wc a \<open>in_map m a\<close> have "refs c \<noteq> 1" by (simp add: refs_counted_def)
    with del_last[OF w(1) n(2) c True] r have m': "pcmap m' = om_del name (pcmap m)" "pcm_next m' = pcm_next m"
      "\<And>b. b \<noteq> a \<Longrightarrow> heap m' b = heap m b"
      "heap m' a = Some (c\<lparr>mrc := 0, qlist := [], pc_running := False, refs := refs c - 1\<rparr>)" by auto
    have map: "in_map m' d \<longleftrightarrow> d \<noteq> a \<and> in_map m d" for d
    proof -
      have other: "fst x \<noteq> name \<longleftrightarrow> snd (snd x) \<noteq> a" if "x \<in> set (pcmap m)" for x
        using other_entry(1,2)[OF w(1) that n(1)] by (cases "x = (name, n, a)") simp_all
      have "set (pcmap m') = {x \<in> set (pcmap m). fst x \<noteq> name}" by (auto simp: m'(1) om_del_def)
      also have "\<dots> = {x \<in> set (pcmap m). snd (snd x) \<noteq> a}" using other by blast
      finally show ?thesis unfolding in_map_def by blast
    qed
    have caches: "refs_counted h m' b d \<and> unbounded_listeners getMax d \<and> pc_index d < pcm_next m' \<and>
        (\<exists>e. heap m b = Some e \<and> pc_index e = pc_index d)" if d: "heap m' b = Some d" for b d
    proof (cases "b = a")
      case True
      with d have "d = c\<lparr>mrc := 0, qlist := [], pc_running := False, refs := refs c - 1\<rparr>" by (simp add: m'(4))
      with True wc a c map[of a] \<open>in_map m a\<close> show ?thesis
        by (simp add: refs_counted_def unbounded_listeners_def m'(2))
    next
      case False
      with d have e: "heap m b = Some d" by (simp add: m'(3))
      from w(3)[OF e] False e map[of b] show ?thesis by (simp add: refs_counted_def m'(2))
    qed
    show ?thesis
    proof (rule world_okI)
      from del_shares[OF w(1) n(2)] r show "pcm_inv m'" by auto
      show "heap m' b \<noteq> None" if "h b > 0" for b
        using w(2)[OF that] by (cases "b = a") (simp_all add: m'(3,4))
      show "refs_counted h m' b d \<and> unbounded_listeners getMax d \<and> pc_index d < pcm_next m'"
        if "heap m' b = Some d" for b d using caches[OF that] by blast
      show "b = d" if "heap m' b = Some e" "heap m' d = Some f" "pc_index e = pc_index f" for b d e f
        using caches[OF that(1)] caches[OF that(2)] that(3) w(4) by metis
    qed
  qed
qed

lemma pcm_turn_ok:
  assumes z: "world_ok getMax m h" and r: "pcm_turn fl now m = Inr m'"
  shows "world_ok getMax m' h"
proof -
  have pop: "world_ok getMax v h" if u: "world_ok getMax u h" and v: "pop_step fl now u x = Inr v" for u v x
  proof -
    let ?a = "snd (snd x)"
    from v obtain c where c: "heap u ?a = Some c" by (auto simp: pop_step_def deref_def split: option.split_asm)
    obtain c' out where p: "pc_pop fl now c (outs u) = (c', out)" by (cases "pc_pop fl now c (outs u)")
    from v c p have v': "v = put_heap ?a c' (u\<lparr>outs := out\<rparr>)" by (simp add: pop_step_def)
    from p have same: "refs c' = refs c \<and> mrc c' = mrc c \<and> qlist c' = qlist c \<and> pc_name c' = pc_name c \<and>
        pc_index c' = pc_index c"
      by (auto simp: pc_pop_def Let_def split: if_splits prod.splits)
    from world_ok_parts(3)[OF u c] same in_map_mrc[OF world_ok_parts(1)[OF u] _ c] show ?thesis
      by (intro world_ok_update[OF u c _ _ _ _ _ _ v']) (simp_all add: refs_counted_def unbounded_listeners_def)
  qed
  show ?thesis
  proof (cases "pcm_stop m")
    case True
    with z r show ?thesis by (simp add: pcm_turn_def)
  next
    case False
    with r have f: "rfold (pop_step fl now) m (pcmap m) = Inr m'" by (simp add: pcm_turn_def)
    show ?thesis by (rule rfold_invariant[OF f, where P = "\<lambda>u. world_ok getMax u h"]) (fact z, rule pop)
  qed
qed

lemma pcm_shutdown_ok:
  assumes z: "world_ok getMax m h" and r: "pcm_shutdown m = Inr m'"
  shows "world_ok getMax m' h"
proof -
  note w = world_ok_parts[OF z]
  from shutdown_heap[OF w(1)] r have m': "pcmap m' = []" "pcm_next m' = pcm_next m"
    "\<And>a. heap m' a = (if in_map m a then
      (case heap m a of None \<Rightarrow> None | Some c \<Rightarrow> if refs c = 1 then None
        else Some (c\<lparr>qlist := [], pc_running := False, refs := refs c - 1\<rparr>))
      else heap m a)" by auto
  have none: "\<not> in_map m' a" for a by (simp add: in_map_def m'(1))
  have caches: "refs_counted h m' a c \<and> unbounded_listeners getMax c \<and> pc_index c < pcm_next m' \<and>
      (\<exists>d. heap m a = Some d \<and> pc_index d = pc_index c)" if c: "heap m' a = Some c" for a c
  proof (cases "in_map m a")
    case True
    with c obtain d where d: "heap m a = Some d" "refs d \<noteq> 1"
      "c = d\<lparr>qlist := [], pc_running := False, refs := refs d - 1\<rparr>"
      by (auto simp: m'(3) split: option.split_asm if_splits)
    from w(3)[OF d(1)] True none[of a] d show ?thesis
      by (simp add: refs_counted_def unbounded_listeners_def m'(2))
  next
    case False
    with c have d: "heap m a = Some c" by (simp add: m'(3))
    from w(3)[OF d] False none[of a] d show ?thesis by (simp add: refs_counted_def m'(2))
  qed
  show ?thesis
  proof (rule world_okI)
    show "pcm_inv m'" by (simp add: pcm_inv_def m'(1))
    show "heap m' a \<noteq> None" if "h a > 0" for a
    proof -
      from w(2)[OF that] obtain c where c: "heap m a = Some c" by blast
      from w(3)[OF c] that show ?thesis by (auto simp: m'(3) c refs_counted_def)
    qed
    show "refs_counted h m' a c \<and> unbounded_listeners getMax c \<and> pc_index c < pcm_next m'"
      if "heap m' a = Some c" for a c using caches[OF that] by blast
    show "a = b" if "heap m' a = Some c" "heap m' b = Some d" "pc_index c = pc_index d" for a b c d
      using caches[OF that(1)] caches[OF that(2)] that(3) w(4) by metis
  qed
qed

lemma perf_step_ok:
  assumes step: "perf_step getMax fl z z'" and z: "world_ok getMax (manager z) (held z)"
  shows "world_ok getMax (manager z') (held z')"
  using step
proof cases
  case (add a now name b m')
  from pcm_add_ok[OF z add(2,3)] add(1) show ?thesis by simp
next
  case (del a m')
  from pcm_del_ok[OF z del(2,3)] del(1) show ?thesis by simp
next
  case (listen a c q v c' out)
  note c = world_ok_parts(3)[OF z listen(3)] in_map_mrc[OF world_ok_parts(1)[OF z] _ listen(3)]
  from listen(4) have "refs c' = refs c \<and> mrc c' = mrc c \<and> pc_name c' = pc_name c \<and> pc_index c' = pc_index c \<and>
      (qlist c' = qlist c \<or> qlist c' = qlist c @ [(q_next c, q)] \<and> getMax q = -1)"
    by (auto simp: cache_addListenerQueue_def addListenerQueue_def Let_def split: if_splits)
  with c have "world_ok getMax (put_heap a c' (manager z\<lparr>outs := out\<rparr>)) (held z)"
    by (intro world_ok_update[OF z listen(3) _ _ _ _ _ _ refl]) (auto simp: refs_counted_def unbounded_listeners_def)
  with listen(1) show ?thesis by simp
next
  case (unlisten a c n c' out)
  note c = world_ok_parts(3)[OF z unlisten(3)] in_map_mrc[OF world_ok_parts(1)[OF z] _ unlisten(3)]
  from unlisten(4) have "refs c' = refs c \<and> mrc c' = mrc c \<and> pc_name c' = pc_name c \<and> pc_index c' = pc_index c \<and>
      set (qlist c') \<subseteq> set (qlist c)"
    by (auto simp: cache_removeListenerQueue_def removeListenerQueue_def)
  with c have "world_ok getMax (put_heap a c' (manager z\<lparr>outs := out\<rparr>)) (held z)"
    by (intro world_ok_update[OF z unlisten(3) _ _ _ _ _ _ refl]) (auto simp: refs_counted_def unbounded_listeners_def)
  with unlisten(1) show ?thesis by simp
next
  case (post a c now v)
  note c = world_ok_parts(3)[OF z post(3)] in_map_mrc[OF world_ok_parts(1)[OF z] _ post(3)]
  have "world_ok getMax (put_heap a (cache_post fl now v c) (manager z\<lparr>outs := outs (manager z)\<rparr>)) (held z)"
    using c by (intro world_ok_update[OF z post(3) _ _ _ _ _ _ refl])
      (auto simp: refs_counted_def unbounded_listeners_def cache_post_def post_def)
  with post(1) show ?thesis by simp
next
  case (release a m')
  from pc_deref_ok[OF z release(2,3)] release(1) show ?thesis by simp
next
  case (turn now m')
  from pcm_turn_ok[OF z turn(2)] turn(1) show ?thesis by simp
next
  case (shutdown m')
  from pcm_shutdown_ok[OF z shutdown(2)] shutdown(1) show ?thesis by simp
qed

lemma perf_reachable_ok:
  assumes "perf_reachable getMax fl z"
  shows "world_ok getMax (manager z) (held z)"
  using assms
proof (induction rule: perf_reachable.induct)
  case (start m)
  then have m: "m = new_PerformanceCacheManager\<lparr>pcm_running := True\<rparr>"
    by (simp add: manager_constructor_def pcm_start_def new_PerformanceCacheManager_def)
  show ?case
    by (rule world_okI) (simp_all add: m new_PerformanceCacheManager_def pcm_inv_def)
next
  case (step z z')
  from step.hyps(2) step.IH show ?case by (rule perf_step_ok)
qed

text \<open>
  C27.  In every state that a manager and the objects of its caches reach, a cache is in memory exactly as
  long as it is referenced: its count is the number of its objects and one for its entry of the map, no object
  and no entry refers to a cache that is gone; every queue that listens to it is one without a maximum size, so
  that no push can block; and the destructor of the manager succeeds.
\<close>

theorem cache_references_counted:
  assumes "perf_reachable getMax fl z"
  shows "(\<forall>a c. heap (manager z) a = Some c \<longrightarrow>
      refs c = int (held z a) + (if in_map (manager z) a then 1 else 0) \<and> 1 \<le> refs c \<and>
      (\<forall>q\<in>snd ` set (qlist c). getMax q = -1)) \<and>
    (\<forall>a. held z a > 0 \<or> in_map (manager z) a \<longrightarrow> heap (manager z) a \<noteq> None) \<and>
    (\<exists>m'. manager_destructor (manager z) = Inr m')"
proof -
  note w = world_ok_parts[OF perf_reachable_ok[OF assms]]
  obtain m' where "pcm_shutdown (manager z) = Inr m'" "pcmap m' = []" using shutdown_ok[OF w(1)] by blast
  then have "manager_destructor (manager z) = Inr m'" by (simp add: manager_destructor_def pcm_destructor_def)
  moreover have "heap (manager z) a \<noteq> None" if "in_map (manager z) a" for a
    using in_map_entry[OF w(1) that] by auto
  moreover have "refs c = int (held z a) + (if in_map (manager z) a then 1 else 0) \<and> 1 \<le> refs c \<and>
      (\<forall>q\<in>snd ` set (qlist c). getMax q = -1)" if "heap (manager z) a = Some c" for a c
    using w(3)[OF that] by (simp add: refs_counted_def unbounded_listeners_def)
  ultimately show ?thesis using w(2) by blast
qed

text \<open>A cache with one object and one queue; a queue with a maximum size is refused.\<close>

theorem cache_references_counted_witness:
  "\<exists>z c. perf_reachable (\<lambda>q. if q = 7 then -1 else 5) int_flops z \<and> heap (manager z) 1 = Some c \<and>
     refs c = 2 \<and> held z 1 = 1 \<and> snd ` set (qlist c) = {7}"
proof -
  let ?g = "\<lambda>q. if q = 7 then -1 else (5 :: int)"
  let ?m0 = "new_PerformanceCacheManager\<lparr>pcm_running := True\<rparr> :: int pc_manager"
  let ?z0 = "\<lparr>manager = ?m0, held = \<lambda>_. 0\<rparr>"
  have 0: "perf_reachable ?g int_flops ?z0"
    by (rule perf_reachable.start) (simp add: manager_constructor_def pcm_start_def new_PerformanceCacheManager_def)
  let ?c = "(new_PerformanceCache int_flops ''w5'' 10)\<lparr>pc_index := 0, refs := 2\<rparr>"
  let ?m1 = "put_heap 1 ?c (?m0\<lparr>pcmap := [(''w5'', 0, 1)], pcm_next := 1\<rparr>)"
  have "pcm_add int_flops 1 10 ''w5'' (manager ?z0) = Inr (1, ?m1)"
    by (simp add: pcm_add_def new_PerformanceCacheManager_def new_PerformanceCache_def Let_def)
  then have "perf_step ?g int_flops ?z0 \<lparr>manager = ?m1, held = (\<lambda>_. 0)(1 := Suc 0)\<rparr>" (is "perf_step _ _ _ ?z1")
    using perf_step.add[of ?z0 1 int_flops 10 "''w5''" 1 ?m1 ?g] by (simp add: new_PerformanceCacheManager_def)
  then have 1: "perf_reachable ?g int_flops ?z1" by (rule perf_reachable.step[OF 0])
  obtain v c out where l: "cache_addListenerQueue ?g 7 ?c (outs (manager ?z1)) = (v, c, out)"
    by (cases "cache_addListenerQueue ?g 7 ?c (outs (manager ?z1))")
  then have c: "qlist c = [(0, 7)]" "refs c = 2"
    by (auto simp: cache_addListenerQueue_def addListenerQueue_def Let_def new_PerformanceCache_def)
  from perf_step.listen[OF _ _ l, of 1] have
    2: "perf_reachable ?g int_flops (?z1\<lparr>manager := put_heap 1 c (manager ?z1\<lparr>outs := out\<rparr>)\<rparr>)" (is "perf_reachable _ _ ?z2")
    by (intro perf_reachable.step[OF 1]) simp
  have h: "heap (manager ?z2) 1 = Some c" "held ?z2 1 = 1" by simp_all
  from cache_references_counted[OF 2] h(1) have "refs c = int (held ?z2 1) + (if in_map (manager ?z2) 1 then 1 else 0)"
    by blast
  with 2 h c show ?thesis by (intro exI[of _ ?z2] exI[of _ c]) simp
qed

text \<open>
  \<^verbatim>\<open>addListenerQueue\<close> does not look if the cache is stopped: a queue that is added
  to a stopped cache is never given back, and the last reference to the cache cannot be.
\<close>

lemma listener_after_stop:
  assumes "pc_stop c out = (c1, out1)" and "cache_addListenerQueue getMax q c1 out1 = (v, c2, out2)"
    and "getMax q = -1" and "heap m a = Some c2" and "refs c2 = 1"
  shows "pc_deref a m = Inl Assertion_failed"
  using assms by (auto simp: pc_stop_def cache_addListenerQueue_def addListenerQueue_def Let_def pc_deref_def assert_that_def)

end
