(* ===== verification/Startup_Options.thy ===== *)
theory Startup_Options
  imports Qorus_Prelude "HOL-Library.Word"
begin

text \<open>
  The options that the programs read before they create any Qore code,
  \<^verbatim>\<open>exec/qorus_lib.cpp\<close>: trimming, the debugging options, the location of
  the option file and \<^verbatim>\<open>qorus_parse_options\<close>.

  What the code reads from outside is the parameter \<open>host\<close>: the environment, the files
  (\<^verbatim>\<open>QoreFile\<close>: \<open>None\<close> if the file cannot be opened, else its lines), and
  the functions of the Qore library on strings.  \<open>host_strings\<close> states what is documented for
  \<^verbatim>\<open>QoreString::trim\<close> and \<^verbatim>\<open>QoreString::find\<close>; which characters
  \<^verbatim>\<open>QoreString::trim\<close> takes for white space is left open, as long as the blank is one of them
  and all of them are white space for the C library or the null character.  The directory separator is that
  of Unix.
\<close>

unbundle bit_operations_syntax

section \<open>The host\<close>

datatype po_flag = PO_REQUIRE_OUR | PO_NEW_STYLE | PO_REQUIRE_PROTOTYPES | PO_STRICT_ARGS | PO_REQUIRE_TYPES
  | PO_ALLOW_WEAK_REFERENCES | PO_NO_DEBUGGING | PO_NO_CHILD_PO_RESTRICTIONS | PO_ALLOW_INJECTION
  | PO_ALLOW_DEBUGGER

record host =
  parse_bool :: "string \<Rightarrow> bool"
  str_trim :: "string \<Rightarrow> string"
  str_find :: "char \<Rightarrow> string \<Rightarrow> int"
  str_dirname :: "string \<Rightarrow> string"
  env_value :: "string \<Rightarrow> string option"
  file_lines :: "string \<Rightarrow> string list option"
  po_value :: "po_flag \<Rightarrow> 64 word"

definition po_bits :: "host \<Rightarrow> po_flag list \<Rightarrow> 64 word" where
  "po_bits h fs = foldl (OR) 0 (map (po_value h) fs)"

section \<open>Strings of the C library\<close>

definition isspace :: "char \<Rightarrow> bool" where
  "isspace c = (c = CHR '' '' \<or> (of_char c :: nat) \<in> {9..13})"

text \<open>\<^verbatim>\<open>strchr\<close>, moved on past the character found.\<close>

fun after_char :: "char \<Rightarrow> string \<Rightarrow> string option" where
  "after_char c [] = None"
| "after_char c (x # s) = (if x = c then Some s else after_char c s)"

text \<open>\<^verbatim>\<open>!strncmp(s, lit, n)\<close> where \<open>n\<close> is the length of the literal.\<close>

definition begins :: "string \<Rightarrow> string \<Rightarrow> bool" where
  "begins lit s = (take (length lit) s = lit)"

text \<open>\<^verbatim>\<open>s.find(p) != std::string::npos\<close>\<close>

fun contains :: "string \<Rightarrow> string \<Rightarrow> bool" where
  "contains p [] = (p = [])"
| "contains p (x # s) = (begins p (x # s) \<or> contains p s)"

definition ltrim :: "string \<Rightarrow> string" where
  "ltrim s = dropWhile isspace s"

definition rtrim :: "string \<Rightarrow> string" where
  "rtrim s = rev (dropWhile isspace (rev s))"

definition trim :: "string \<Rightarrow> string" where
  "trim s = rtrim (ltrim s)"

fun first_offset :: "char \<Rightarrow> string \<Rightarrow> int" where
  "first_offset c [] = -1"
| "first_offset c (x # s) =
     (if x = c then 0 else let i = first_offset c s in if i < 0 then -1 else i + 1)"

definition trim_chars :: "(char \<Rightarrow> bool) \<Rightarrow> string \<Rightarrow> string" where
  "trim_chars ws s = rev (dropWhile ws (rev (dropWhile ws s)))"

definition white_space :: "(char \<Rightarrow> bool) \<Rightarrow> bool" where
  "white_space ws \<longleftrightarrow> ws CHR '' '' \<and> (\<forall>c. ws c \<longrightarrow> isspace c \<or> c = CHR 0x00)"

definition host_strings :: "host \<Rightarrow> bool" where
  "host_strings h \<longleftrightarrow> (\<exists>ws. white_space ws \<and> str_trim h = trim_chars ws) \<and> str_find h = first_offset"

section \<open>Options\<close>

record qorus_dbg =
  internals :: bool
  messages :: bool
  config_items :: bool

definition setDefines :: "qorus_dbg \<Rightarrow> string list" where
  "setDefines d =
     (if internals d then [''QorusDebugInternals''] else []) @
     (if messages d then [''QorusDebugMessages''] else []) @
     (if config_items d then [''QorusDebugConfigItems''] else [])"

text \<open>
  The variables of \<^verbatim>\<open>main\<close> that options change; a program with more of them
  extends this record.  An entry of the option map is a function of the value and the variables.
\<close>

record boot_vars =
  po :: "64 word"

type_synonym 'a opt_map = "(string \<times> (string \<Rightarrow> 'a boot_vars_scheme \<Rightarrow> 'a boot_vars_scheme)) list"

text \<open>The loop over the command line.\<close>

fun option_file_arg :: "string list \<Rightarrow> string \<Rightarrow> string" where
  "option_file_arg [] f = f"
| "option_file_arg (a # as) f =
     (case after_char CHR ''='' a of
        None \<Rightarrow> option_file_arg as f
      | Some p \<Rightarrow> option_file_arg as (if begins ''option-file'' a then p else f))"

definition option_file :: "host \<Rightarrow> string list \<Rightarrow> string" where
  "option_file h argv =
     (let f = option_file_arg (tl argv) [] in
      if f = [] then
        (case env_value h ''OMQ_DIR'' of
           None \<Rightarrow> []
         | Some val \<Rightarrow> if val = ''LSB'' then ''/etc/qorus/options'' else val @ ''/'' @ ''etc'' @ ''/'' @ ''options'')
      else f)"

text \<open>One line of the option file: the name and the value of the option, if it is one.\<close>

definition read_option :: "host \<Rightarrow> string \<Rightarrow> (string \<times> string) option" where
  "read_option h line =
     (let val = str_trim h line in
      if val = [] \<or> hd val = CHR ''#'' then None
      else
        let i0 = str_find h CHR '':'' val;
            i = (if i0 < 0 then str_find h CHR ''='' val else i0) in
        if i < 0 then None
        else Some (str_trim h (take (nat i) val), trim (drop (nat i + 1) val)))"

definition apply_option :: "'a opt_map \<Rightarrow> string \<times> string \<Rightarrow> qorus_dbg \<times> 'a boot_vars_scheme
    \<Rightarrow> qorus_dbg \<times> 'a boot_vars_scheme" where
  "apply_option opt_map = (\<lambda>(val, optval) (d, v).
     if val = ''qorus.debug-qorus-internals'' then
       (if optval = ''false'' then (d\<lparr>internals := False\<rparr>, v)
        else
          let d1 = d\<lparr>internals := True\<rparr>;
              d2 = (if contains ''msg'' optval then d1\<lparr>messages := True\<rparr> else d1);
              d3 = (if contains ''cfgitems'' optval then d2\<lparr>config_items := True\<rparr> else d2)
          in (d3, v))
     else
       (case map_of opt_map val of
          None \<Rightarrow> (d, v)
        | Some f \<Rightarrow> (d, f optval v)))"

definition parse_lines :: "host \<Rightarrow> 'a opt_map \<Rightarrow> string list \<Rightarrow> qorus_dbg \<times> 'a boot_vars_scheme
    \<Rightarrow> qorus_dbg \<times> 'a boot_vars_scheme" where
  "parse_lines h opt_map lines r =
     foldl (\<lambda>r line. case read_option h line of None \<Rightarrow> r | Some x \<Rightarrow> apply_option opt_map x r) r lines"

text \<open>
  \<^verbatim>\<open>qorus_parse_options\<close> in a build without \<^verbatim>\<open>DEBUG\<close>.
\<close>

definition qorus_parse_options :: "host \<Rightarrow> string list \<Rightarrow> 'a opt_map \<Rightarrow> 'a boot_vars_scheme
    \<Rightarrow> qorus_dbg \<times> 'a boot_vars_scheme" where
  "qorus_parse_options h argv opt_map v0 =
     (let r0 = (\<lparr>internals = False, messages = False, config_items = False\<rparr>, v0);
          f = option_file h argv;
          r = (if f = [] then r0
               else case file_lines h f of None \<Rightarrow> r0 | Some lines \<Rightarrow> parse_lines h opt_map lines r0)
      in if internals (fst r) then r
         else (fst r, (snd r)\<lparr>po := po (snd r) OR po_value h PO_NO_DEBUGGING\<rparr>))"

section \<open>Laws of trimming and splitting\<close>

lemma trim_is_chars: "trim = trim_chars isspace"
  by (simp add: fun_eq_iff trim_def ltrim_def rtrim_def trim_chars_def)

lemma trim_blanks:
  assumes "list_all ws b" "list_all ws b'"
  shows "trim_chars ws (b @ s @ b') = trim_chars ws s"
proof -
  have l: "dropWhile ws (b @ t) = dropWhile ws t" for t
    using assms(1) by (induction b) auto
  have r: "dropWhile ws (rev b' @ t) = dropWhile ws t" for t
    using assms(2) by (induction b' arbitrary: t) (auto simp: list_all_append)
  show ?thesis
  proof (cases "dropWhile ws s")
    case Nil
    then have "\<forall>c\<in>set s. ws c" by simp
    then have "\<forall>c\<in>set (s @ b'). ws c" using assms(2) by (auto simp: list_all_iff)
    then have "dropWhile ws (s @ b') = []" by (simp only: dropWhile_eq_Nil_conv)
    with Nil show ?thesis by (simp only: trim_chars_def l)
  next
    case (Cons x t)
    then have "\<exists>c\<in>set s. \<not> ws c" by (metis dropWhile_eq_Nil_conv list.distinct(1))
    then have "dropWhile ws (s @ b') = dropWhile ws s @ b'" by (auto simp: dropWhile_append1)
    then show ?thesis by (simp add: trim_chars_def l r)
  qed
qed

lemma trim_Nil [simp]: "trim [] = []"
  by (simp add: trim_def ltrim_def rtrim_def)

lemma trimmed_hd: "trim s = s \<Longrightarrow> s \<noteq> [] \<Longrightarrow> \<not> isspace (hd s)"
proof -
  assume t: "trim s = s" "s \<noteq> []"
  have len: "length (trim s) \<le> length (dropWhile isspace s)"
    unfolding trim_def ltrim_def rtrim_def length_rev
    by (rule order_trans[OF length_dropWhile_le]) simp
  show "\<not> isspace (hd s)"
  proof
    assume "isspace (hd s)"
    then have "length (dropWhile isspace s) < length s"
      using t(2) by (cases s) (auto simp: length_dropWhile_le le_imp_less_Suc)
    with len t(1) show False by simp
  qed
qed

lemma trimmed_last: "trim s = s \<Longrightarrow> s \<noteq> [] \<Longrightarrow> \<not> isspace (last s)"
proof -
  assume t: "trim s = s" "s \<noteq> []"
  have l: "ltrim s = s" using trimmed_hd[OF t] t(2) by (cases s) (auto simp: ltrim_def)
  with t(1) have r: "dropWhile isspace (rev s) = rev s"
    by (metis rev_rev_ident rtrim_def trim_def)
  show "\<not> isspace (last s)"
  proof
    assume "isspace (last s)"
    with t(2) have "length (dropWhile isspace (rev s)) < length (rev s)"
      by (cases "rev s") (auto simp: length_dropWhile_le le_imp_less_Suc hd_rev[symmetric])
    with r show False by simp
  qed
qed

lemma trim_whole:
  assumes "s \<noteq> []" "\<not> ws (hd s)" "\<not> ws (last s)"
  shows "trim_chars ws s = s"
proof -
  have "rev s \<noteq> []" "\<not> ws (hd (rev s))" using assms by (simp_all add: hd_rev)
  then have "dropWhile ws (rev s) = rev s" by (cases "rev s") auto
  moreover have "dropWhile ws s = s" using assms by (cases s) auto
  ultimately show ?thesis by (simp add: trim_chars_def)
qed

lemma trimmed_chars:
  assumes "white_space ws" "trim s = s" "CHR 0x00 \<notin> set s"
  shows "trim_chars ws s = s"
proof (cases "s = []")
  case True
  then show ?thesis by (simp add: trim_chars_def)
next
  case False
  from trimmed_hd[OF assms(2) False] trimmed_last[OF assms(2) False] have "\<not> ws (hd s)" "\<not> ws (last s)"
    using assms(1,3) hd_in_set[OF False] last_in_set[OF False] unfolding white_space_def by metis+
  with False show ?thesis by (rule trim_whole)
qed

lemma first_offset_absent: "c \<notin> set s \<Longrightarrow> first_offset c s = -1"
  by (induction s) (auto simp: Let_def)

lemma first_offset_split: "c \<notin> set s \<Longrightarrow> first_offset c (s @ c # t) = int (length s)"
  by (induction s) (auto simp: Let_def)

lemma isspace_simps [simp]: "isspace CHR '' ''" "\<not> isspace CHR '':''" "\<not> isspace CHR ''=''"
  by (simp_all add: isspace_def)

text \<open>A line that has a name, a separator and a value, with blanks around them.\<close>

definition separates :: "char \<Rightarrow> string \<Rightarrow> bool" where
  "separates c v \<longleftrightarrow> c = CHR '':'' \<or> c = CHR ''='' \<and> CHR '':'' \<notin> set v"

definition good_name :: "string \<Rightarrow> bool" where
  "good_name k \<longleftrightarrow> k \<noteq> [] \<and> trim k = k \<and> CHR 0x00 \<notin> set k \<and> hd k \<noteq> CHR ''#'' \<and> CHR '':'' \<notin> set k \<and> CHR ''='' \<notin> set k"

lemma separator_found:
  assumes "host_strings h" "separates c v" "CHR '':'' \<notin> set k" "CHR ''='' \<notin> set k"
  shows "(let i0 = str_find h CHR '':'' (k @ c # v) in
    if i0 < 0 then str_find h CHR ''='' (k @ c # v) else i0) = int (length k)"
  using assms(2)
  by (auto simp: separates_def host_strings_def[THEN iffD1, OF assms(1)] Let_def assms(3,4)
    first_offset_split first_offset_absent)

lemma read_split:
  assumes h: "host_strings h" and ws: "str_trim h = trim_chars ws" and line: "trim_chars ws line = k @ c # v"
    and k: "k = [] \<or> hd k \<noteq> CHR ''#''"
    and c: "separates c v" "CHR '':'' \<notin> set k" "CHR ''='' \<notin> set k"
  shows "read_option h line = Some (trim_chars ws k, trim v)"
proof -
  have start: "\<not> (k @ c # v = [] \<or> hd (k @ c # v) = CHR ''#'')"
    using k c(1) by (cases k) (auto simp: separates_def)
  note i = separator_found[OF h c]
  show ?thesis
    unfolding read_option_def ws line Let_def i[unfolded Let_def] if_not_P[OF start] by simp
qed

lemma read_option_line:
  assumes h: "host_strings h" and k: "good_name k" and v: "trim v = v" "CHR 0x00 \<notin> set v" and c: "separates c v"
    and b: "set (b0 @ b1 @ b2 @ b3) \<subseteq> {CHR '' ''}"
  shows "read_option h (b0 @ k @ b1 @ c # b2 @ v @ b3) = Some (k, v)"
proof -
  from h obtain ws where ws: "white_space ws" "str_trim h = trim_chars ws" by (auto simp: host_strings_def)
  note k = k[unfolded good_name_def]
  have blank: "list_all ws b" "list_all isspace b" if "set b \<subseteq> {CHR '' ''}" for b
    using that ws(1) by (auto simp: list_all_iff white_space_def)
  have tk: "trim_chars ws k = k" by (rule trimmed_chars) (use ws(1) k in simp_all)
  have nc: "\<not> ws c" using c ws(1) by (auto simp: separates_def white_space_def)
  have ends: "\<not> ws (hd s)" "\<not> ws (last s)" if "s \<noteq> []" "trim s = s" "CHR 0x00 \<notin> set s" for s
    using trimmed_hd[OF that(2,1)] trimmed_last[OF that(2,1)] hd_in_set[OF that(1)] last_in_set[OF that(1)] that(3) ws(1)
    unfolding white_space_def by metis+
  let ?v = "if v = [] then [] else b2 @ v"
  let ?s = "(k @ b1) @ c # ?v"
  have last: "?s \<noteq> []" "\<not> ws (hd ?s)" "\<not> ws (last ?s)"
    using k ends(1)[of k] ends(2)[of v] v nc by simp_all
  have "trim_chars ws (b0 @ ?s @ (if v = [] then b2 @ b3 else b3)) = ?s"
    using trim_blanks[of ws b0 "if v = [] then b2 @ b3 else b3" ?s] trim_whole[OF last] blank b by simp
  then have line: "trim_chars ws (b0 @ k @ b1 @ c # b2 @ v @ b3) = ?s" by (cases "v = []") simp_all
  have sep: "separates c ?v" and names: "CHR '':'' \<notin> set (k @ b1)" "CHR ''='' \<notin> set (k @ b1)"
    and start: "k @ b1 = [] \<or> hd (k @ b1) \<noteq> CHR ''#''"
    using c k b by (auto simp: separates_def)
  have parts: "trim_chars ws (k @ b1) = k" "trim ?v = v"
    using trim_blanks[of ws "[]" b1 k] trim_blanks[of isspace b2 "[]" v] b v(1) tk blank
    by (auto simp: trim_is_chars)
  show ?thesis using read_split[OF h ws(2) line start sep names] unfolding parts .
qed

end
