(* ===== verification/Boot_Lists.thy ===== *)
theory Boot_Lists
  imports Main
begin

text \<open>
  The lists that the eight programs are started with, as the \<^verbatim>\<open>*_main.cpp\<close> files
  have them: the modules each needs (\<^verbatim>\<open>req_modules\<close>), and its Qore source
  files, in the order of the calls of the generated loader functions
  \<^verbatim>\<open>qorus_<name>\<close> in \<^verbatim>\<open>main\<close>.
\<close>

definition qorus_modules :: "string list" where
  "qorus_modules =
     [''yaml'', ''json'', ''process'', ''zmq'', ''Util'', ''SqlUtil'', ''uuid'', ''sysconf'', ''Logger'',
      ''FsUtil'', ''reflection'', ''Qorize'']"

definition qorus_sources :: "string list" where
  "qorus_sources =
     [''q'', ''qorus'', ''qorus_common_master_core_client'', ''qorus_version'', ''AbstractLogger'',
      ''AbstractQorusClient'', ''AbstractQorusClientProcess'', ''AbstractQorusClusterApi'',
      ''AbstractQorusExternProcess'', ''AbstractQorusInterfaceProcess'', ''AbstractQorusInternProcess'',
      ''AbstractQorusProcess'', ''LogPipeWrapper'', ''ConfFileFromTemplate'', ''NetworkKeyHelper'',
      ''PrometheusProcess'', ''GrafanaProcess'', ''QdspProcess'', ''QjobProcess'', ''QorusCoreProcess'',
      ''QorusOptionsBase'', ''QorusProcessManager'', ''QorusSharedApi'', ''QsvcProcess'', ''QwfProcess'',
      ''QorusPassiveMasterProcess'', ''QorusMasterClient'', ''QorusMasterCoreQsvcCommon'',
      ''QorusCommonLib'', ''QorusRestartableTransaction'', ''cpc_api'', ''cpc_core_api'', ''cpc_dsp_api'',
      ''cpc_job_api'', ''cpc_master_api'', ''cpc_svc_api'', ''cpc_wf_api'']"

definition core_modules :: "string list" where
  "core_modules =
     [''json'', ''process'', ''reflection'', ''ssh2'', ''sysconf'', ''uuid'', ''xml'', ''yaml'', ''zmq'',
      ''AwsRestClient'', ''BulkSqlUtil'', ''ConnectionProvider'', ''CsvUtil'', ''DataStreamClient'',
      ''DataStreamRequestHandler'', ''DataStreamUtil'', ''DbDataProvider'', ''DebugUtil'',
      ''DebugProgramControl'', ''DebugHandler'', ''FileLocationHandler'', ''FsUtil'', ''HttpServer'',
      ''HttpServerUtil'', ''JsonRpcConnection'', ''JsonRpcHandler'', ''Logger'', ''MailMessage'',
      ''Mapper'', ''Mime'', ''MysqlSqlUtil'', ''RestHandler'', ''OracleSqlUtil'', ''PgsqlSqlUtil'',
      ''Pop3Client'', ''Qorize'', ''Qyaml'', ''RestClient'', ''SalesforceRestClient'',
      ''Sap4HanaRestClient'', ''SewioRestClient'', ''SewioWebSocketClient'', ''SmtpClient'',
      ''SoapClient'', ''SoapHandler'', ''SqlUtil'', ''Ssh2Connections'', ''Swagger'', ''TableMapper'',
      ''TelnetClient'', ''Util'', ''WebDavHandler'', ''WebSocketClient'', ''WebSocketHandler'',
      ''WebSocketUtil'', ''WebUtil'', ''WSDL'', ''XmlRpcConnection'', ''XmlRpcHandler'', ''YamlRpcClient'',
      ''YamlRpcHandler'', ''ZeyosRestClient'']"

definition core_sources_1 :: "string list" where
  "core_sources_1 =
     [''LoggerController'', ''qorus_core'', ''qorus_system'', ''qorus_shared_system'',
      ''qorus_wf_core_system'', ''qorus_svc_core_system'', ''AsyncQueueManager'', ''ControlBase'',
      ''Control'', ''FtpServer'', ''AbstractFtpHandler'', ''RemoteFtpHandler'',
      ''AbstractServiceHttpHandler'', ''InstanceData'', ''QorusOptionsBase'', ''QorusOptions'', ''misc'',
      ''qorus_common_master_core_client'', ''qorus'', ''qorus_logger'', ''qorus_version'',
      ''qorus_common_server_api'', ''qorus_job_core_system'', ''Orders'', ''OrderData'',
      ''OrderInstanceNotes'', ''SegmentManagerBase'', ''SegmentManager'', ''WorkflowUniqueKeyHelper'',
      ''WFEntry'', ''WFEntryCache'', ''StepDataHelper'', ''TempDataHelper'', ''DynamicDataHelper'',
      ''SensitiveDataHelper'', ''ServiceManager'', ''AbstractQorusService'', ''AbstractQorusCoreService'',
      ''LocalQorusService'', ''RemoteQorusService'', ''RemoteServiceRestHandler'',
      ''RemoteServiceSoapHandler'', ''RemoteServiceWebSocketHandler'', ''Service'',
      ''RemoteServiceStream'', ''AbstractServiceResource'', ''SoapServiceResource'',
      ''HttpUserServiceResource'', ''FtpServiceResource'', ''AbstractHttpServiceResourceBase'',
      ''AbstractHttpServiceResource'', ''HttpListenerServiceResource'',
      ''HttpSoapListenerServiceResource'', ''HttpGlobalHandlerServiceResource'',
      ''QorusUiExtensionResource'', ''QorusStreamHandlerResource'', ''ServiceTemplateManager'',
      ''ErrorStreamHandler'', ''ServiceResourceHelper'', ''ServiceThreadContextHelper'',
      ''QorusSystemUiExtensionHandler'', ''DefaultQorusRBACAuthenticator'', ''ServiceResources'',
      ''RemoteRestStreamRequestHandler'', ''RemoteHandlerBase'', ''RemoteHttpRequestHandler'',
      ''RemoteExtensionHandler'', ''RemoteServiceAuthenticator'', ''RemoteRestSchemaValidator'',
      ''RemoteSoapServiceAuthenticator'', ''RemoteFtpServiceAuthenticator'',
      ''RemotePersistentDataHelper'', ''QorusAbstractApiManager'', ''QorusHttpApiManagementHandler'',
      ''QorusSwaggerApiManager'', ''QorusSoapApiManager'', ''QorusRestApiManagementHandler'',
      ''AbstractServiceEventObserver'', ''ServiceEventMethodObserver'', ''ServiceEventFsmObserver'',
      ''Session'', ''ServerSessionBase'', ''CoreServerSession'', ''AbstractWorkflowExecutionInstance'',
      ''AbstractCoreWorkflowExecutionInstance'', ''RemoteWorkflowExecutionInstance'',
      ''WorkflowExecutionInstance'', ''CoreWorkflowExecutionInstance'', ''ClusterWorkflowRestartState'',
      ''ThreadLocalData'', ''Map'', ''Workflow'', ''AbstractWorkflowQueue'', ''WorkflowQueueBase'',
      ''WorkflowQueue'', ''RemoteWorkflowQueue'', ''QorusRestApiHandlerPublic'', ''QorusRestApiHandler'',
      ''QorusRestApiHandlerV2'', ''QorusRestApiHandlerV3'', ''QorusRestApiHandlerV4'',
      ''QorusRestApiHandlerV5'', ''QorusRestApiHandlerV6'', ''QorusRestApiHandlerV7'',
      ''QorusCreatorRestApiHandler'', ''GrafanaReverseProxy'', ''CommonInterfaceBase'',
      ''ObserverPattern'', ''QorusLocalRestHelper'', ''RBAC'', ''SQLInterface'', ''ServerSQLInterface'',
      ''QorusEventManager'', ''SyncEventManager'', ''QorusSystemRestHelperBase'',
      ''QorusSystemAPIHelperBase'', ''QorusMethodGateHelper'', ''QorusServiceHelper'',
      ''QorusRemoteServiceHelper'', ''QorusSystemAPI'', ''AbstractQorusJob'']"

definition core_sources_2 :: "string list" where
  "core_sources_2 =
     [''AbstractQorusCoreJob'', ''LocalQorusJob'', ''Job'', ''RemoteQorusJob'', ''JobManager'',
      ''CronTimer'', ''JobApi'', ''QorusJob'', ''AuditLocal'', ''Audit'', ''ErrorManager'',
      ''ServerErrorManager'', ''AlertManager'', ''Connections'', ''ConnectionsServer'', ''Mappers'',
      ''QorusMappers'', ''ServerMapperContainer'', ''OmqMap'', ''QorusMapManagerBase'',
      ''QorusMapManager'', ''AtomicClassActionHelper'', ''Streams'', ''AbstractDatasourceManager'',
      ''DatasourceManager'', ''Props'', ''QorusHttpServer'', ''QorusWebDavHandler'', ''QorusDebugLogger'',
      ''QorusDebugProgramSource'', ''QorusDebugHandler'', ''WorkflowStatusData'',
      ''AbstractSegmentWorkflowData'', ''AbstractCoreSegmentWorkflowData'', ''LocalSegmentWorkflowData'',
      ''SegmentWorkflowData'', ''RemoteSegmentWorkflowData'', ''QorusUserConnections'', ''RemoteMonitor'',
      ''DatasourceConnection'', ''ConnectionDependencyManager'', ''ActionReason'', ''CodeActionReason'',
      ''WorkflowOrderStats'', ''SchemaSnapshots'', ''QorusConfigurationItemProvider'', ''FSA'',
      ''ProcessFSA'', ''RemoteDevelopmentHandler'', ''DeployProcessFSA'', ''DeleteProcessFSA'',
      ''ReleaseProcessFSA'', ''TestProcessFSA'', ''QoreTestProcessFSA'', ''PythonTestProcessFSA'',
      ''JavaTestProcessFSA'', ''JavaCompileProcessFSA'', ''QoreSchemaProcessFSA'', ''DeployRestClass'',
      ''DeleteRestClass'', ''ReleaseRestClass'', ''TestRestClass'', ''RemoteDevelopmentRestClass'',
      ''MetricsRestClass'', ''FileUploadProcessFSA'', ''RemoteDevelopment'',
      ''RemoteDevelopmentOptionHelper'', ''InterfaceContextHelper'', ''QorusCommonInterface'',
      ''QorusClientServer'', ''QorusDataProviderTypeHelper'', ''QorusRawRemoteFileRequestHandler'',
      ''QorusRemoteWebSocketHandler'', ''QorusCreatorWebSocketHandler'', ''Fsm'', ''QorusFsmHandler'',
      ''QorusPipelineFactory'', ''UserApi'', ''MapperApi'', ''ServiceApi'', ''QorusService'',
      ''QorusPluginService'', ''QorusSystemService'', ''WorkflowApi'', ''QorusWorkflow'',
      ''QorusStepBase'', ''QorusAsyncStepBase'', ''QorusEventStepBase'', ''QorusSubworkflowStepBase'',
      ''QorusAsyncArrayStep'', ''QorusAsyncStep'', ''QorusEventArrayStep'', ''QorusEventStep'',
      ''QorusNormalArrayStep'', ''QorusNormalStep'', ''QorusSubworkflowArrayStep'',
      ''QorusSubworkflowStep'', ''AbstractQorusDistributedProcess'', ''AbstractQorusClusterApi'',
      ''QorusMasterClient'', ''QdspClient'', ''QwfClient'', ''QsvcClient'', ''QjobClient'',
      ''AbstractLogger'', ''NetworkKeyHelper'', ''QorusSharedApi'', ''cpc_api'', ''cpc_dsp_api'',
      ''cpc_wf_api'', ''cpc_svc_api'', ''cpc_job_api'', ''cpc_master_api'', ''cpc_core_api'',
      ''AbstractQorusClientProcess'', ''AbstractQorusClient'', ''QorusMasterCoreQsvcCommon'',
      ''QorusIndependentProcess'', ''QorusCommonLib'', ''QorusRestartableTransaction'',
      ''QorusParametrizedAuthenticator'']"

definition core_sources :: "string list" where
  "core_sources = core_sources_1 @ core_sources_2"

definition core_optional_modules :: "string list" where
  "core_optional_modules = [''openldap'']"

definition qwf_modules :: "string list" where
  "qwf_modules =
     [''zmq'', ''uuid'', ''xml'', ''yaml'', ''json'', ''process'', ''reflection'', ''Util'', ''Mapper'',
      ''TableMapper'', ''SqlUtil'', ''YamlRpcClient'', ''DataStreamUtil'', ''DataStreamClient'',
      ''TelnetClient'', ''WebSocketClient'', ''Ssh2Connections'', ''XmlRpcConnection'',
      ''JsonRpcConnection'', ''SoapClient'', ''SmtpClient'', ''Pop3Client'', ''RestClient'', ''Swagger'',
      ''Sap4HanaRestClient'', ''SewioRestClient'', ''SewioWebSocketClient'', ''AwsRestClient'',
      ''SalesforceRestClient'', ''BulkSqlUtil'', ''Logger'', ''CsvUtil'', ''FsUtil'', ''DebugUtil'',
      ''DebugProgramControl'', ''ZeyosRestClient'', ''Qorize'', ''DbDataProvider'', ''FileLocationHandler'']"

definition qwf_sources :: "string list" where
  "qwf_sources =
     [''ThreadLocalData'', ''Map'', ''qwf'', ''QorusInterfaceProcess'', ''QorusDebugLogger'',
      ''QorusDebugProgramSource'', ''AbstractQorusDistributedProcessWithDebugProgramControl'',
      ''AbstractQorusDistributedProcess'', ''AbstractQorusClusterApi'', ''AbstractQorusClientProcess'',
      ''AbstractQorusClient'', ''QorusMasterClient'', ''AbstractLogger'', ''QorusSharedApi'',
      ''QdspClient'', ''qorus_version'', ''cpc_api'', ''cpc_master_api'', ''cpc_core_api'', ''cpc_wf_api'',
      ''cpc_dsp_api'', ''AbstractDatasourceManager'', ''ClientDatasourceManager'', ''QorusClusterOptions'',
      ''Workflow'', ''AbstractWorkflowQueue'', ''WorkflowQueueBase'', ''ClusterWorkflowQueue'',
      ''Mappers'', ''QorusMappers'', ''ServerMapperContainer'', ''OmqMap'', ''QorusMapManagerBase'',
      ''QorusMapManagerClient'', ''SQLInterface'', ''ServerSQLInterface'', ''Audit'', ''AuditRemote'',
      ''ControlBase'', ''ClusterControl'', ''SegmentManagerBase'', ''ClusterSegmentManager'', ''WFEntry'',
      ''WFEntryCache'', ''StepDataHelper'', ''TempDataHelper'', ''DynamicDataHelper'',
      ''SensitiveDataHelper'', ''OrderData'', ''OrderInstanceNotes'',
      ''AbstractWorkflowExecutionInstance'', ''WorkflowExecutionInstance'',
      ''ClusterWorkflowExecutionInstance'', ''InstanceData'', ''WorkflowUniqueKeyHelper'',
      ''QorusSystemRestHelperBase'', ''QorusSystemAPIHelperBase'', ''QorusMethodGateHelper'',
      ''QorusServiceHelper'', ''QorusRemoteServiceHelper'', ''Connections'',
      ''AbstractSegmentWorkflowData'', ''LocalSegmentWorkflowData'', ''ClusterSegmentWorkflowData'',
      ''QorusCoreSubsystemClientBase'', ''QorusLogWebSocketHandlerClient'', ''QorusUserConnectionsClient'',
      ''ServerConnectionsClient'', ''RemoteMonitorClient'', ''QorusControlClient'', ''Streams'',
      ''Session'', ''ServerSessionBase'', ''QwfServerSession'', ''ActionReason'', ''CodeActionReason'',
      ''NetworkKeyHelper'', ''UserApi'', ''MapperApi'', ''WorkflowApi'',
      ''QorusConfigurationItemProvider'', ''QorusWorkflow'', ''QorusStepBase'', ''QorusAsyncStepBase'',
      ''QorusEventStepBase'', ''QorusSubworkflowStepBase'', ''QorusAsyncArrayStep'', ''QorusAsyncStep'',
      ''QorusEventArrayStep'', ''QorusEventStep'', ''QorusNormalArrayStep'', ''QorusNormalStep'',
      ''QorusSubworkflowArrayStep'', ''QorusSubworkflowStep'', ''QorusCommonInterface'',
      ''QorusClientServer'', ''QorusDataProviderTypeHelper'', ''CommonInterfaceBase'', ''ObserverPattern'',
      ''QorusLocalRestHelper'', ''InterfaceContextHelper'', ''ClusterServiceManagerClient'',
      ''QorusCommonLib'', ''QorusRestartableTransaction'', ''Fsm'', ''QorusFsmHandler'',
      ''QorusPipelineFactory'', ''qorus'', ''qorus_shared_system'', ''qorus_wf_core_system'',
      ''qorus_wf_system'', ''misc'', ''qorus_common_master_core_client'',
      ''qorus_cluster_common_server_api'']"

definition qsvc_modules :: "string list" where
  "qsvc_modules =
     [''zmq'', ''uuid'', ''xml'', ''yaml'', ''json'', ''process'', ''reflection'', ''sysconf'', ''Util'',
      ''Mapper'', ''TableMapper'', ''SqlUtil'', ''YamlRpcClient'', ''RestHandler'', ''SoapHandler'',
      ''DataStreamUtil'', ''DataStreamClient'', ''DataStreamRequestHandler'', ''TelnetClient'',
      ''WebSocketClient'', ''WebSocketHandler'', ''Ssh2Connections'', ''XmlRpcConnection'',
      ''JsonRpcConnection'', ''SoapClient'', ''SmtpClient'', ''Pop3Client'', ''RestClient'', ''Swagger'',
      ''Sap4HanaRestClient'', ''SewioRestClient'', ''SewioWebSocketClient'', ''AwsRestClient'',
      ''SalesforceRestClient'', ''BulkSqlUtil'', ''WebUtil'', ''Logger'', ''CsvUtil'', ''FsUtil'',
      ''DebugUtil'', ''DebugProgramControl'', ''ZeyosRestClient'', ''Qorize'', ''DbDataProvider'',
      ''FileLocationHandler'']"

definition qsvc_sources :: "string list" where
  "qsvc_sources =
     [''ThreadLocalData'', ''Map'', ''qsvc'', ''QorusInterfaceProcess'',
      ''AbstractQorusDistributedProcess'', ''QorusDebugLogger'', ''QorusDebugProgramSource'',
      ''AbstractQorusDistributedProcessWithDebugProgramControl'', ''AbstractQorusClusterApi'',
      ''AbstractQorusClientProcess'', ''AbstractQorusClient'', ''QorusMasterClient'', ''AbstractLogger'',
      ''QdspClient'', ''qorus_version'', ''cpc_api'', ''cpc_master_api'', ''cpc_core_api'',
      ''cpc_svc_api'', ''cpc_dsp_api'', ''AbstractDatasourceManager'', ''ClientDatasourceManager'',
      ''QorusClusterOptions'', ''Mappers'', ''QorusMappers'', ''ServerMapperContainer'', ''OmqMap'',
      ''QorusMapManagerBase'', ''QorusMapManagerClient'', ''SQLInterface'', ''ServerSQLInterface'',
      ''Audit'', ''AuditRemote'', ''OrderData'', ''InstanceData'', ''QorusSystemRestHelperBase'',
      ''QorusSystemAPIHelperBase'', ''QorusMethodGateHelper'', ''QorusServiceHelper'',
      ''QorusRemoteServiceHelper'', ''Connections'', ''QorusCoreSubsystemClientBase'',
      ''QorusLogWebSocketHandlerClient'', ''QorusUserConnectionsClient'', ''ServerConnectionsClient'',
      ''RemoteMonitorClient'', ''QorusControlClient'', ''Streams'', ''ActionReason'', ''CodeActionReason'',
      ''NetworkKeyHelper'', ''QorusSharedApi'', ''AbstractFtpHandler'', ''qorus'', ''qorus_shared_system'',
      ''qorus_svc_core_system'', ''qorus_svc_system'', ''misc'', ''qorus_common_master_core_client'',
      ''qorus_cluster_common_server_api'', ''ClusterServiceManager'', ''AbstractQorusService'',
      ''LocalQorusService'', ''ClusterQorusService'', ''AbstractServiceResource'',
      ''ServiceThreadContextHelper'', ''ServiceTemplateManager'', ''DefaultQorusRBACAuthenticator'',
      ''AbstractServiceHttpHandler'', ''ServiceResources'', ''DummyListenerInterface'', ''UserApi'',
      ''MapperApi'', ''ServiceApi'', ''QorusService'', ''QorusConfigurationItemProvider'',
      ''QorusParametrizedAuthenticator'', ''QorusCommonInterface'', ''QorusClientServer'',
      ''QorusDataProviderTypeHelper'', ''CommonInterfaceBase'', ''ObserverPattern'',
      ''QorusLocalRestHelper'', ''InterfaceContextHelper'', ''QorusCommonLib'',
      ''QorusRestartableTransaction'', ''QorusAbstractApiManager'', ''QorusHttpApiManagementHandler'',
      ''QorusSwaggerApiManager'', ''QorusSoapApiManager'', ''QorusRestApiManagementHandler'',
      ''AbstractServiceEventObserver'', ''ServiceEventMethodObserver'', ''ServiceEventFsmObserver'',
      ''Fsm'', ''QorusFsmHandler'', ''QorusPipelineFactory'', ''QorusMasterCoreQsvcCommon'',
      ''QorusIndependentProcess'', ''QorusOptionsBase'']"

definition qjob_modules :: "string list" where
  "qjob_modules =
     [''zmq'', ''uuid'', ''xml'', ''yaml'', ''json'', ''process'', ''reflection'', ''Util'', ''Mapper'',
      ''TableMapper'', ''SqlUtil'', ''YamlRpcClient'', ''DataStreamUtil'', ''DataStreamClient'',
      ''TelnetClient'', ''WebSocketClient'', ''Ssh2Connections'', ''XmlRpcConnection'',
      ''JsonRpcConnection'', ''SoapClient'', ''SmtpClient'', ''Pop3Client'', ''RestClient'', ''Swagger'',
      ''Sap4HanaRestClient'', ''SewioRestClient'', ''SewioWebSocketClient'', ''AwsRestClient'',
      ''SalesforceRestClient'', ''BulkSqlUtil'', ''CsvUtil'', ''Logger'', ''FsUtil'', ''DebugUtil'',
      ''DebugProgramControl'', ''ZeyosRestClient'', ''Qorize'', ''DbDataProvider'', ''FileLocationHandler'']"

definition qjob_sources :: "string list" where
  "qjob_sources =
     [''ThreadLocalData'', ''Map'', ''qjob'', ''QorusInterfaceProcess'',
      ''AbstractQorusDistributedProcess'', ''QorusDebugLogger'', ''QorusDebugProgramSource'',
      ''AbstractQorusDistributedProcessWithDebugProgramControl'', ''AbstractQorusClusterApi'',
      ''AbstractQorusClientProcess'', ''AbstractQorusClient'', ''QorusMasterClient'', ''AbstractLogger'',
      ''QorusSharedApi'', ''QdspClient'', ''qorus_version'', ''cpc_api'', ''cpc_master_api'',
      ''cpc_core_api'', ''cpc_job_api'', ''cpc_dsp_api'', ''AbstractDatasourceManager'',
      ''ClientDatasourceManager'', ''QorusClusterOptions'', ''Mappers'', ''QorusMappers'',
      ''ServerMapperContainer'', ''OmqMap'', ''QorusMapManagerBase'', ''QorusMapManagerClient'',
      ''SQLInterface'', ''ServerSQLInterface'', ''Audit'', ''AuditRemote'', ''OrderData'',
      ''InstanceData'', ''QorusSystemRestHelperBase'', ''QorusSystemAPIHelperBase'',
      ''QorusMethodGateHelper'', ''QorusServiceHelper'', ''QorusRemoteServiceHelper'', ''Connections'',
      ''QorusCoreSubsystemClientBase'', ''QorusLogWebSocketHandlerClient'', ''QorusUserConnectionsClient'',
      ''ServerConnectionsClient'', ''RemoteMonitorClient'', ''QorusControlClient'', ''Streams'',
      ''Session'', ''ServerSessionBase'', ''QjobServerSession'', ''ActionReason'', ''CodeActionReason'',
      ''NetworkKeyHelper'', ''UserApi'', ''MapperApi'', ''QorusConfigurationItemProvider'',
      ''QorusCommonInterface'', ''QorusClientServer'', ''QorusDataProviderTypeHelper'',
      ''CommonInterfaceBase'', ''ObserverPattern'', ''ClusterServiceManagerClient'', ''QorusCommonLib'',
      ''QorusRestartableTransaction'', ''QorusFsmHandler'', ''Fsm'', ''QorusPipelineFactory'',
      ''QorusLocalRestHelper'', ''InterfaceContextHelper'', ''qorus'', ''qorus_shared_system'', ''misc'',
      ''qorus_common_master_core_client'', ''qorus_cluster_common_server_api'', ''AbstractQorusJob'',
      ''LocalQorusJob'', ''ClusterQorusJob'', ''CronTimer'', ''JobApi'', ''QorusJob'',
      ''qorus_job_core_system'', ''qorus_job_system'']"

definition qdsp_modules :: "string list" where
  "qdsp_modules =
     [''zmq'', ''uuid'', ''yaml'', ''process'', ''Util'', ''Logger'', ''reflection'', ''DebugUtil'',
      ''DebugProgramControl'']"

definition qdsp_sources :: "string list" where
  "qdsp_sources =
     [''qdsp'', ''AbstractQorusDistributedProcess'', ''AbstractQorusClusterApi'',
      ''AbstractQorusClientProcess'', ''AbstractQorusClient'', ''QorusMasterClient'', ''AbstractLogger'',
      ''QorusOracleDatasourcePool'', ''NetworkKeyHelper'', ''QorusSharedApi'',
      ''QorusCoreSubsystemClientBase'', ''QorusLogWebSocketHandlerClient'', ''qorus_version'', ''cpc_api'',
      ''cpc_master_api'', ''cpc_core_api'', ''cpc_dsp_api'']"

definition qctl_modules :: "string list" where
  "qctl_modules =
     [''zmq'', ''yaml'', ''Util'', ''SqlUtil'', ''process'', ''Logger'', ''reflection'']"

definition qctl_sources :: "string list" where
  "qctl_sources =
     [''qctl'', ''QorusOptionsBase'', ''AbstractLogger'', ''AbstractQorusClusterApi'',
      ''AbstractQorusClientProcess'', ''AbstractQorusClient'', ''QorusMasterClient'', ''NetworkKeyHelper'',
      ''QorusSharedApi'', ''ClientProcessBase'', ''QorusCommonLib'', ''QorusRestartableTransaction'',
      ''cpc_api'', ''cpc_master_api'', ''cpc_core_api'', ''cpc_dsp_api'', ''qorus'', ''qorus_version'',
      ''qorus_common_master_core_client'']"

definition bugreport_modules :: "string list" where
  "bugreport_modules =
     [''zmq'', ''yaml'', ''Util'', ''SqlUtil'', ''process'', ''Logger'', ''reflection'', ''FsUtil'']"

definition bugreport_sources :: "string list" where
  "bugreport_sources =
     [''qbugreport'', ''QorusOptionsBase'', ''AbstractLogger'', ''AbstractQorusClusterApi'',
      ''AbstractQorusClientProcess'', ''AbstractQorusClient'', ''QorusMasterClient'', ''NetworkKeyHelper'',
      ''QorusSharedApi'', ''ClientProcessBase'', ''QorusCommonLib'', ''cpc_api'', ''cpc_master_api'',
      ''cpc_core_api'', ''cpc_dsp_api'', ''qorus'', ''qorus_version'', ''qorus_common_master_core_client'']"

text \<open>No program has internal modules at present.\<close>

definition int_modules :: "string list" where
  "int_modules = []"

end
