(* ===== verification/Boot.thy ===== *)
theory Boot
  imports Startup_Options Boot_Lists
begin

text \<open>
  The steps of starting a program, which the eight \<^verbatim>\<open>main\<close> functions have in common.

  The Qore library is driven by calls; \<open>call\<close> has one constructor for each call that
  matters here, and the state of a starting process is the list of the calls made so far and
  whether the exception sink holds an exception.  What the library answers is the parameter
  \<open>qore_lib\<close>, which may depend on all calls made before: the error of
  \<^verbatim>\<open>MM.parseLoadModule\<close>, the symbols of the program, whether registering a
  module, loading a source file or \<^verbatim>\<open>parseCommit\<close> raises an exception, and whether the
  Qore code of the class ends the process with \<^verbatim>\<open>exit\<close>, while it is run or while
  \<^verbatim>\<open>main\<close> waits for its threads (\<open>exits\<close>, with the status it gives).

  A step either ends the process with an exit status or goes on.  The platform is Linux; the
  parts for Windows and macOS are left out.
\<close>

datatype call =
    Set_env string string
  | Add_module_dir string
  | Add_standard_dirs
  | Qore_init bool
  | Setup_argv
  | New_program "64 word"
  | Script_path string
  | Define string
  | Load_module string
  | Find_symbol string
  | Register_module string
  | Set_parse_options "64 word"
  | New_namespace string
  | Add_constant string
  | Add_functions
  | Add_constants
  | Add_class string
  | Add_namespace
  | Load_source string bool
  | Commit
  | Run_class string
  | Wait
  | Handle_exceptions
  | Cleanup
  | Error_message string

record qore_lib =
  lib_version :: "int \<times> int \<times> int"
  lib_version_string :: string
  load_error :: "call list \<Rightarrow> string \<Rightarrow> string option"
  symbol_found :: "string \<Rightarrow> bool"
  register_raises :: "call list \<Rightarrow> bool"
  source_raises :: "call list \<Rightarrow> bool"
  commit_raises :: "call list \<Rightarrow> bool"
  exits :: "call list \<Rightarrow> int option"

record boot_state =
  calls :: "call list"
  raised :: bool

type_synonym boot_end = "int \<times> boot_state"

type_synonym step = "boot_state \<Rightarrow> boot_end + boot_state"

definition add_call :: "call \<Rightarrow> boot_state \<Rightarrow> boot_state" where
  "add_call c st = st\<lparr>calls := calls st @ [c]\<rparr>"

definition do_call :: "call \<Rightarrow> step" where
  "do_call c st = Inr (add_call c st)"

text \<open>A \<^verbatim>\<open>return\<close> from \<^verbatim>\<open>main\<close> after \<^verbatim>\<open>qore_init\<close>.\<close>

definition leave :: "int \<Rightarrow> boot_state \<Rightarrow> boot_end" where
  "leave rc st = (rc, add_call Cleanup st)"

fun steps :: "step list \<Rightarrow> step" where
  "steps [] st = Inr st"
| "steps (f # fs) st = (case f st of Inl e \<Rightarrow> Inl e | Inr st' \<Rightarrow> steps fs st')"

definition set_defines :: "string list \<Rightarrow> step" where
  "set_defines names = steps (map (\<lambda>n. do_call (Define n)) names)"

section \<open>Before the Qore library is initialised\<close>

definition version_error :: "qore_lib \<Rightarrow> string \<Rightarrow> call" where
  "version_error lib need = Error_message (''ERROR: incompatible qore library: >= '' @ need @ '' required, got ''
     @ lib_version_string lib @ '' instead, cannot start Qorus'')"

definition check_version :: "qore_lib \<Rightarrow> step" where
  "check_version lib st =
     (case lib_version lib of (major, minor, sub) \<Rightarrow>
        if major = 0 \<and> (minor < 9 \<or> minor = 9 \<and> sub < 0) then
          Inl (1, add_call (version_error lib ''0.9'') st)
        else Inr st)"

definition qorus_setup_module_paths :: "host \<Rightarrow> string \<Rightarrow> step" where
  "qorus_setup_module_paths h argv0 =
     (let str = (case env_value h ''OMQ_DIR'' of None \<Rightarrow> str_dirname h argv0 @ ''/..'' | Some dir \<Rightarrow> dir) in
      steps [do_call (Set_env ''LANG'' ''C''), do_call (Set_env ''LC_ALL'' ''C''),
        do_call (Set_env ''LC_NUMERIC'' ''C''),
        do_call (Add_module_dir (str @ ''/lib/modules'')),
        do_call (Add_module_dir (str @ ''/qlib'')),
        do_call (Add_module_dir (str @ ''/user/modules''))])"

section \<open>Modules\<close>

definition quoted :: "string \<Rightarrow> string" where
  "quoted s = [CHR 0x27] @ s @ [CHR 0x27]"

definition my_load_mod :: "qore_lib \<Rightarrow> string \<Rightarrow> boot_state \<Rightarrow> int \<times> boot_state" where
  "my_load_mod lib name st =
     (let st' = add_call (Load_module name) st in
      case load_error lib (calls st) name of
        Some err \<Rightarrow> (1, add_call (Error_message
          (''ERROR: cannot load required module '' @ quoted name @ '': '' @ err)) st')
      | None \<Rightarrow> (0, st'))"

fun load_required :: "qore_lib \<Rightarrow> string list \<Rightarrow> step" where
  "load_required lib [] st = Inr st"
| "load_required lib (name # names) st =
     (case my_load_mod lib name st of
        (rc, st') \<Rightarrow> if rc \<noteq> 0 then Inl (leave 1 st') else load_required lib names st')"

definition load_optional :: "string list \<Rightarrow> step" where
  "load_optional names = steps (map (\<lambda>n. do_call (Load_module n)) names)"

definition load_oracle :: "qore_lib \<Rightarrow> step" where
  "load_oracle lib st =
     (let st1 = add_call (Load_module ''oracle'') st in
      case load_error lib (calls st) ''oracle'' of
        Some err \<Rightarrow> Inr (add_call (Define ''NO_ORACLE'') st1)
      | None \<Rightarrow>
          let st2 = add_call (Load_module ''OracleExtensions'') st1 in
          case load_error lib (calls st1) ''OracleExtensions'' of
            Some err \<Rightarrow> Inl (leave 1 (add_call (Error_message
              (''ERROR: cannot load required module '' @ quoted ''OracleExtensions'' @ '' (required when the ''
                @ quoted ''oracle'' @ '' module is present): '' @ err)) st2))
          | None \<Rightarrow> Inr st2)"

fun load_internal :: "qore_lib \<Rightarrow> string list \<Rightarrow> step" where
  "load_internal lib [] st = Inr st"
| "load_internal lib (name # names) st =
     (let sym = ''qorus_'' @ name;
          st1 = add_call (Find_symbol sym) st in
      if \<not> symbol_found lib sym then
        Inl (leave (-1) (add_call (Error_message
          (''Qorus link error; cannot find internal module symbol '' @ quoted sym)) st1))
      else
        let st2 = add_call (Register_module name) st1 in
        if register_raises lib (calls st1) then
          Inl (leave (-1) (add_call Handle_exceptions (st2\<lparr>raised := True\<rparr>)))
        else load_internal lib names st2)"

section \<open>The program itself\<close>

definition qorus_init_pgm :: step where
  "qorus_init_pgm = steps [do_call (Add_constant ''QorusRevision''), do_call (Add_constant ''QorusBuildHost''),
     do_call (Add_constant ''QorusBuildTime''), do_call (Add_constant ''QorusBuildUser'')]"

definition QORUS_PARSE_OPTIONS :: "host \<Rightarrow> 64 word" where
  "QORUS_PARSE_OPTIONS h = po_bits h
     [PO_REQUIRE_OUR, PO_NO_CHILD_PO_RESTRICTIONS, PO_ALLOW_INJECTION, PO_ALLOW_DEBUGGER]"

fun load_sources :: "qore_lib \<Rightarrow> bool \<Rightarrow> string list \<Rightarrow> step" where
  "load_sources lib dbg [] st = Inr st"
| "load_sources lib dbg (name # names) st =
     load_sources lib dbg names (add_call (Load_source name dbg)
       (st\<lparr>raised := raised st \<or> source_raises lib (calls st)\<rparr>))"

text \<open>
  From \<^verbatim>\<open>parseCommit\<close> to the end of \<^verbatim>\<open>main\<close>.  The Qore code that was
  started can end the process before \<^verbatim>\<open>main\<close> returns.
\<close>

definition wait_class :: "qore_lib \<Rightarrow> step" where
  "wait_class lib st =
     (let st' = add_call Wait st in case exits lib (calls st') of Some rc \<Rightarrow> Inl (rc, st') | None \<Rightarrow> Inr st')"

definition run_class :: "qore_lib \<Rightarrow> string \<Rightarrow> step" where
  "run_class lib cls st =
     (let st' = add_call (Run_class cls) st in
      case exits lib (calls st') of Some rc \<Rightarrow> Inl (rc, st') | None \<Rightarrow> wait_class lib st')"

definition finish :: "qore_lib \<Rightarrow> string \<Rightarrow> boot_state \<Rightarrow> boot_end" where
  "finish lib cls st =
     (let st1 = add_call Commit (st\<lparr>raised := raised st \<or> commit_raises lib (calls st)\<rparr>) in
      case (if \<not> raised st1 then run_class lib cls st1 else Inr (add_call Wait st1)) of
        Inl e \<Rightarrow> e
      | Inr st2 \<Rightarrow> leave 0 (add_call Handle_exceptions st2))"

definition run_main :: "qore_lib \<Rightarrow> string \<Rightarrow> step list \<Rightarrow> boot_end" where
  "run_main lib cls fs =
     (case steps fs \<lparr>calls = [], raised = False\<rparr> of Inl e \<Rightarrow> e | Inr st \<Rightarrow> finish lib cls st)"

end
