(* ===== verification/Boot_Programs.thy ===== *)
theory Boot_Programs
  imports Boot
begin

text \<open>
  The eight programs, one \<^verbatim>\<open>main\<close> each: \<^verbatim>\<open>qorus\<close> (the cluster
  master), \<^verbatim>\<open>qorus-core\<close>, the workflow, service, job and datasource processes and two
  tools.  Every \<^verbatim>\<open>main\<close> reads the options first and then makes its steps in order.

  Option handlers are C++ lambdas.  A variable captured by reference is a field of the
  variables; one captured by value is a copy of its own, made when the map is built: the handler of
  \<^verbatim>\<open>qdsp\<close> assigns to such a copy.
\<close>

text \<open>The calls that follow when the modules are loaded.\<close>

definition make_namespace :: "host \<Rightarrow> string \<Rightarrow> step" where
  "make_namespace h argv0 = steps [do_call (Set_parse_options (QORUS_PARSE_OPTIONS h)),
     do_call (New_namespace ''Qorus''), do_call (Script_path argv0), qorus_init_pgm,
     do_call Add_functions, do_call Add_constants]"

definition start_library :: "host \<Rightarrow> qore_lib \<Rightarrow> string \<Rightarrow> step list" where
  "start_library h lib argv0 = [check_version lib, qorus_setup_module_paths h argv0,
     do_call Add_standard_dirs, do_call (Qore_init False), do_call Setup_argv]"

definition server_po :: "host \<Rightarrow> 64 word" where
  "server_po h = po_bits h
     [PO_REQUIRE_OUR, PO_NEW_STYLE, PO_STRICT_ARGS, PO_REQUIRE_TYPES, PO_ALLOW_WEAK_REFERENCES]"

section \<open>The cluster master\<close>

definition qorus_main :: "host \<Rightarrow> qore_lib \<Rightarrow> string list \<Rightarrow> boot_end" where
  "qorus_main h lib argv =
     (let (qorus_dbg, v) = qorus_parse_options h argv [] \<lparr>po = po_bits h [PO_REQUIRE_OUR, PO_NEW_STYLE,
            PO_REQUIRE_PROTOTYPES, PO_STRICT_ARGS, PO_REQUIRE_TYPES, PO_ALLOW_WEAK_REFERENCES]\<rparr> in
      run_main lib ''QorusMaster'' (start_library h lib (hd argv) @
       [do_call (New_program (po v)), set_defines [''QorusServer'', ''NeedQorusLoggerCache''],
        set_defines (setDefines qorus_dbg), set_defines [''LINUX'', ''MEMORY_POLLING''],
        load_required lib qorus_modules, load_internal lib int_modules,
        make_namespace h (hd argv), do_call Add_namespace,
        load_sources lib (internals qorus_dbg) qorus_sources]))"

section \<open>The core server\<close>

record core_vars = boot_vars +
  has_compat_permissive_api :: bool
  compat_permissive_api :: bool
  has_minimum_tls_13 :: bool
  minimum_tls_13 :: bool
  printed :: "string list"

fun core_args :: "host \<Rightarrow> string list \<Rightarrow> core_vars \<Rightarrow> core_vars" where
  "core_args h [] v = v"
| "core_args h (a # as) v =
     core_args h as (case after_char CHR ''='' a of
        None \<Rightarrow> v
      | Some p \<Rightarrow>
          if begins ''compat-permissive-api'' a then
            v\<lparr>has_compat_permissive_api := True, compat_permissive_api := parse_bool h p\<rparr>
          else if begins ''minimum-tls-13'' a then
            v\<lparr>has_minimum_tls_13 := True, minimum_tls_13 := parse_bool h p\<rparr>
          else v)"

definition print_bool :: "bool \<Rightarrow> string" where
  "print_bool b = (if b then ''1'' else ''0'')"

definition core_opt_map :: "host \<Rightarrow> bool \<Rightarrow> bool
    \<Rightarrow> (string \<times> (string \<Rightarrow> core_vars \<Rightarrow> core_vars)) list" where
  "core_opt_map h has_compat has_tls =
     [(''qorus.compat-permissive-api'', \<lambda>val v.
         if \<not> has_compat then v\<lparr>compat_permissive_api := parse_bool h val\<rparr> else v),
      (''qorus.minimum-tls-13'', \<lambda>val v.
         let v' = v\<lparr>printed := printed v @ [''parsing '' @ val @ '': has: '' @ print_bool has_tls @ '' m: ''
               @ print_bool (parse_bool h val)]\<rparr>
         in if \<not> has_tls then v'\<lparr>minimum_tls_13 := parse_bool h val\<rparr> else v')]"

definition core_options :: "host \<Rightarrow> string list \<Rightarrow> qorus_dbg \<times> core_vars" where
  "core_options h argv =
     (let v = core_args h (tl argv) \<lparr>po = po_bits h
            [PO_REQUIRE_OUR, PO_NEW_STYLE, PO_REQUIRE_PROTOTYPES, PO_ALLOW_WEAK_REFERENCES],
            has_compat_permissive_api = False, compat_permissive_api = False,
            has_minimum_tls_13 = False, minimum_tls_13 = False, printed = []\<rparr>;
          (qorus_dbg, v') = qorus_parse_options h argv
            (core_opt_map h (has_compat_permissive_api v) (has_minimum_tls_13 v)) v
      in (qorus_dbg, if \<not> compat_permissive_api v'
            then v'\<lparr>po := po v' OR po_bits h [PO_STRICT_ARGS, PO_REQUIRE_TYPES]\<rparr> else v'))"

definition core_check_version :: "qore_lib \<Rightarrow> step" where
  "core_check_version lib st =
     (case lib_version lib of (major, minor, sub) \<Rightarrow>
        if major < 1 \<and> minor < 9 then Inl (1, add_call (version_error lib ''1.9'') st) else Inr st)"

definition core_main :: "host \<Rightarrow> qore_lib \<Rightarrow> string list \<Rightarrow> boot_end" where
  "core_main h lib argv =
     (let (qorus_dbg, v) = core_options h argv in
      run_main lib ''QorusApp'' [core_check_version lib, qorus_setup_module_paths h (hd argv),
        do_call Add_standard_dirs, do_call (Qore_init (minimum_tls_13 v)), do_call Setup_argv,
        do_call (New_program (po v)),
        set_defines [''QorusServer'', ''QorusCore'', ''QorusHasIxApis'', ''QorusHasAnyIxApi'', ''QorusHasWfApi'',
          ''QorusHasSvcApi'', ''QorusHasJobApi'', ''HasJobClass'', ''NeedQorusLoggerCache''],
        set_defines (setDefines qorus_dbg), set_defines [''LINUX'', ''MEMORY_POLLING''],
        load_optional core_optional_modules, load_required lib core_modules, load_oracle lib,
        load_internal lib int_modules, make_namespace h (hd argv),
        do_call (Add_class ''SegmentEventQueue''), do_call (Add_class ''PerformanceCache''),
        do_call (Add_class ''PerformanceCacheManager''), do_call (Add_class ''TimedWorkflowCache''),
        do_call (Add_class ''TimedSyncCache''), do_call (Add_class ''OrderExpiryCache''),
        do_call Add_namespace, load_sources lib (internals qorus_dbg) core_sources])"

section \<open>Workflow, service and job processes\<close>

text \<open>These set the path of the script before the modules are loaded.\<close>

definition add_code :: "host \<Rightarrow> step" where
  "add_code h = steps [do_call (Set_parse_options (QORUS_PARSE_OPTIONS h)),
     do_call (New_namespace ''Qorus''), qorus_init_pgm, do_call Add_functions, do_call Add_constants]"

definition qwf_main :: "host \<Rightarrow> qore_lib \<Rightarrow> string list \<Rightarrow> boot_end" where
  "qwf_main h lib argv =
     (let (qorus_dbg, v) = qorus_parse_options h argv [] \<lparr>po = server_po h\<rparr> in
      run_main lib ''QWf'' (start_library h lib (hd argv) @
       [do_call (New_program (po v)), do_call (Script_path (hd argv)),
        set_defines [''QorusServer'', ''QorusHasWfApi'', ''QorusHasAnyIxApi'', ''QorusClusterServer'',
          ''QorusQwfServer''],
        set_defines (setDefines qorus_dbg), load_required lib qwf_modules, load_oracle lib,
        load_internal lib int_modules, add_code h,
        do_call (Add_class ''SegmentEventQueue''), do_call (Add_class ''TimedWorkflowCache''),
        do_call Add_namespace, load_sources lib (internals qorus_dbg) qwf_sources]))"

definition qsvc_main :: "host \<Rightarrow> qore_lib \<Rightarrow> string list \<Rightarrow> boot_end" where
  "qsvc_main h lib argv =
     (let (qorus_dbg, v) = qorus_parse_options h argv [] \<lparr>po = server_po h\<rparr> in
      run_main lib ''QSvc'' (start_library h lib (hd argv) @
       [do_call (New_program (po v)), do_call (Script_path (hd argv)),
        set_defines [''QorusServer'', ''QorusClusterServer'', ''QorusQsvcServer'', ''QorusHasSvcApi'',
          ''QorusHasAnyIxApi''],
        set_defines [''LINUX'', ''MEMORY_POLLING''],
        set_defines (setDefines qorus_dbg), load_required lib qsvc_modules, load_oracle lib,
        load_internal lib int_modules, add_code h,
        do_call Add_namespace, load_sources lib (internals qorus_dbg) qsvc_sources]))"

definition qjob_main :: "host \<Rightarrow> qore_lib \<Rightarrow> string list \<Rightarrow> boot_end" where
  "qjob_main h lib argv =
     (let (qorus_dbg, v) = qorus_parse_options h argv [] \<lparr>po = server_po h\<rparr> in
      run_main lib ''QJob'' (start_library h lib (hd argv) @
       [do_call (New_program (po v)), do_call (Script_path (hd argv)),
        set_defines [''QorusServer'', ''QorusClusterServer'', ''QorusQjobServer'', ''QorusHasJobApi'',
          ''QorusHasAnyIxApi'', ''HasJobClass''],
        set_defines (setDefines qorus_dbg), load_required lib qjob_modules, load_oracle lib,
        load_internal lib int_modules, add_code h,
        do_call Add_namespace, load_sources lib (internals qorus_dbg) qjob_sources]))"

section \<open>The datasource process\<close>

record dsp_vars = boot_vars +
  captured_oracle_dsp :: bool

definition dsp_opt_map :: "host \<Rightarrow> (string \<times> (string \<Rightarrow> dsp_vars \<Rightarrow> dsp_vars)) list" where
  "dsp_opt_map h =
     [(''qorus.oracle-datasource-pool'', \<lambda>val v. v\<lparr>captured_oracle_dsp := parse_bool h val\<rparr>)]"

definition dsp_oracle :: "host \<Rightarrow> qore_lib \<Rightarrow> bool \<Rightarrow> step" where
  "dsp_oracle h lib oracle_dsp st =
     (if oracle_dsp \<and> (case env_value h ''CONNSTR'' of None \<Rightarrow> False | Some connstr \<Rightarrow> begins ''oracle:'' connstr)
      then
        (case my_load_mod lib ''oracle'' st of (rc1, st1) \<Rightarrow>
           if rc1 \<noteq> 0 then Inl (leave 1 st1)
           else (case my_load_mod lib ''OracleExtensions'' st1 of (rc2, st2) \<Rightarrow>
             if rc2 \<noteq> 0 then Inl (leave 1 st2) else Inr st2))
      else Inr (add_call (Define ''NO_ORACLE'') st))"

definition qdsp_main :: "host \<Rightarrow> qore_lib \<Rightarrow> string list \<Rightarrow> boot_end" where
  "qdsp_main h lib argv =
     (let oracle_dsp = False;
          (qorus_dbg, v) = qorus_parse_options h argv (dsp_opt_map h)
            \<lparr>po = server_po h, captured_oracle_dsp = oracle_dsp\<rparr> in
      run_main lib ''QDsp'' (start_library h lib (hd argv) @
       [do_call (New_program (po v)), do_call (Script_path (hd argv)),
        set_defines [''QdspServer'', ''QorusServer''], set_defines (setDefines qorus_dbg),
        load_required lib qdsp_modules, dsp_oracle h lib oracle_dsp, load_internal lib int_modules,
        do_call (Set_parse_options (QORUS_PARSE_OPTIONS h)), do_call (New_namespace ''Qorus''),
        do_call Add_functions, do_call Add_constants, do_call Add_namespace,
        load_sources lib (internals qorus_dbg) qdsp_sources]))"

section \<open>Tools\<close>

definition qctl_main :: "host \<Rightarrow> qore_lib \<Rightarrow> string list \<Rightarrow> boot_end" where
  "qctl_main h lib argv =
     (let (qorus_dbg, v) = qorus_parse_options h argv [] \<lparr>po = server_po h\<rparr> in
      run_main lib ''QCtl'' (start_library h lib (hd argv) @
       [do_call (New_program (po v)), do_call (Script_path (hd argv)), set_defines [''QCTL''],
        set_defines (setDefines qorus_dbg), load_required lib qctl_modules, load_internal lib int_modules,
        make_namespace h (hd argv), do_call Add_namespace,
        load_sources lib (internals qorus_dbg) qctl_sources]))"

definition bugreport_main :: "host \<Rightarrow> qore_lib \<Rightarrow> string list \<Rightarrow> boot_end" where
  "bugreport_main h lib argv =
     (let (qorus_dbg, v) = qorus_parse_options h argv [] \<lparr>po = server_po h\<rparr> in
      run_main lib ''QBugReport'' (start_library h lib (hd argv) @
       [do_call (New_program (po v)), do_call (Script_path (hd argv)), set_defines [''QBugReport''],
        set_defines (setDefines qorus_dbg), load_required lib bugreport_modules,
        load_internal lib int_modules, make_namespace h (hd argv), do_call Add_namespace,
        load_sources lib (internals qorus_dbg) bugreport_sources]))"

end
