(* ===== verification/Boot_Laws.thy ===== *)
theory Boot_Laws
  imports Boot_Programs
begin

text \<open>
  What the steps of a start-up do: a step that succeeds only adds calls, and only the last steps load
  source files and run a class; the modules that a program needs are loaded without an error when it
  gets that far.
\<close>

section \<open>Looking at the calls made\<close>

fun source_of :: "call \<Rightarrow> string list" where
  "source_of (Load_source s d) = [s]"
| "source_of c = []"

fun class_of :: "call \<Rightarrow> string list" where
  "class_of (Run_class s) = [s]"
| "class_of c = []"

definition loaded :: "boot_state \<Rightarrow> string list" where
  "loaded st = concat (map source_of (calls st))"

definition runs :: "boot_state \<Rightarrow> string list" where
  "runs st = concat (map class_of (calls st))"

text \<open>A module was loaded, and the library had no error for it at that point.\<close>

definition module_ok :: "qore_lib \<Rightarrow> boot_state \<Rightarrow> string \<Rightarrow> bool" where
  "module_ok lib st m \<longleftrightarrow>
     (\<exists>pre post. calls st = pre @ Load_module m # post \<and> load_error lib pre m = None)"

definition extends :: "boot_state \<Rightarrow> boot_state \<Rightarrow> bool" where
  "extends st st' \<longleftrightarrow> (\<exists>ds. calls st' = calls st @ ds)"

definition same_run :: "boot_state \<Rightarrow> boot_state \<Rightarrow> bool" where
  "same_run st st' \<longleftrightarrow> extends st st' \<and> runs st' = runs st \<and> loaded st' = loaded st"

lemma extends_refl [simp]: "extends st st"
  by (simp add: extends_def)

lemma extends_trans: "extends a b \<Longrightarrow> extends b c \<Longrightarrow> extends a c"
  by (auto simp: extends_def)

lemma same_run_refl [simp]: "same_run st st"
  by (simp add: same_run_def)

lemma same_run_trans: "same_run a b \<Longrightarrow> same_run b c \<Longrightarrow> same_run a c"
  by (auto simp: same_run_def intro: extends_trans)

lemma calls_add [simp]: "calls (add_call c st) = calls st @ [c]" "raised (add_call c st) = raised st"
  by (simp_all add: add_call_def)

lemma runs_add [simp]: "runs (add_call c st) = runs st @ class_of c"
  by (simp add: runs_def)

lemma loaded_add [simp]: "loaded (add_call c st) = loaded st @ source_of c"
  by (simp add: loaded_def)

lemma extends_add [simp]: "extends st (add_call c st)"
  by (simp add: extends_def)

lemma raised_simps [simp]:
  "runs (st\<lparr>raised := r\<rparr>) = runs st" "loaded (st\<lparr>raised := r\<rparr>) = loaded st"
  "extends st' (st\<lparr>raised := r\<rparr>) = extends st' st" "extends (st\<lparr>raised := r\<rparr>) st' = extends st st'"
  by (simp_all add: runs_def loaded_def extends_def)

lemma same_run_add [simp]: "class_of c = [] \<Longrightarrow> source_of c = [] \<Longrightarrow> same_run st (add_call c st)"
  by (simp add: same_run_def)

lemma module_ok_extends: "module_ok lib st m \<Longrightarrow> extends st st' \<Longrightarrow> module_ok lib st' m"
proof -
  assume "module_ok lib st m" "extends st st'"
  then obtain pre post ds where "calls st = pre @ Load_module m # post" "load_error lib pre m = None"
    "calls st' = calls st @ ds" by (auto simp: module_ok_def extends_def)
  then show ?thesis
    unfolding module_ok_def by (intro exI[of _ pre] conjI exI[of _ "post @ ds"]) simp_all
qed

section \<open>Steps\<close>

text \<open>
  A step that is not concerned with source files and classes: if it goes on it keeps both, and the
  exceptions; if it ends the process it does so with status 1.
\<close>

definition quiet :: "step \<Rightarrow> bool" where
  "quiet f \<longleftrightarrow> (\<forall>st. case f st of
     Inl (rc, st') \<Rightarrow> rc = 1 \<and> same_run st st'
   | Inr st' \<Rightarrow> same_run st st' \<and> raised st' = raised st)"

lemma quiet_do_call [simp]: "class_of c = [] \<Longrightarrow> source_of c = [] \<Longrightarrow> quiet (do_call c)"
  by (simp add: quiet_def do_call_def)

lemma quiet_steps [simp]: "(\<forall>f\<in>set fs. quiet f) \<Longrightarrow> quiet (steps fs)"
proof (induction fs)
  case Nil
  then show ?case by (simp add: quiet_def)
next
  case (Cons f fs)
  show ?case
    unfolding quiet_def
  proof
    fix st
    have f: "case f st of Inl (rc, st') \<Rightarrow> rc = 1 \<and> same_run st st'
        | Inr st' \<Rightarrow> same_run st st' \<and> raised st' = raised st"
      using Cons.prems by (simp add: quiet_def)
    show "case steps (f # fs) st of Inl (rc, st') \<Rightarrow> rc = 1 \<and> same_run st st'
        | Inr st' \<Rightarrow> same_run st st' \<and> raised st' = raised st"
    proof (cases "f st")
      case (Inl e)
      with f show ?thesis by simp
    next
      case (Inr st1)
      have "quiet (steps fs)" using Cons by simp
      then have "case steps fs st1 of Inl (rc, st') \<Rightarrow> rc = 1 \<and> same_run st1 st'
          | Inr st' \<Rightarrow> same_run st1 st' \<and> raised st' = raised st1" by (simp add: quiet_def)
      with Inr f show ?thesis
        by (auto split: sum.splits intro: same_run_trans[of st st1])
    qed
  qed
qed

lemma leave_simps [simp]: "fst (leave rc st) = rc" "snd (leave rc st) = add_call Cleanup st"
  by (simp_all add: leave_def)

lemma my_load_mod_cases:
  "(load_error lib (calls st) name = None \<and> my_load_mod lib name st = (0, add_call (Load_module name) st)) \<or>
   (\<exists>e. load_error lib (calls st) name \<noteq> None \<and>
     my_load_mod lib name st = (1, add_call (Error_message e) (add_call (Load_module name) st)))"
  by (auto simp: my_load_mod_def Let_def split: option.split)

lemma same_run_adds [simp]:
  "class_of c = [] \<Longrightarrow> source_of c = [] \<Longrightarrow> same_run st st' \<Longrightarrow> same_run st (add_call c st')"
  using same_run_trans same_run_add by blast

lemma quiet_set_defines [simp]: "quiet (set_defines names)"
  unfolding set_defines_def by (rule quiet_steps) auto

lemma quiet_optional [simp]: "quiet (load_optional names)"
  unfolding load_optional_def by (rule quiet_steps) auto

lemma quiet_checks [simp]: "quiet (check_version lib)" "quiet (core_check_version lib)"
  by (auto simp: quiet_def check_version_def core_check_version_def version_error_def split: prod.splits)

lemma quiet_paths [simp]: "quiet (qorus_setup_module_paths h a)"
  unfolding qorus_setup_module_paths_def Let_def by (rule quiet_steps) simp

lemma quiet_oracle [simp]: "quiet (load_oracle lib)"
  by (auto simp: quiet_def load_oracle_def leave_def Let_def split: option.splits)

lemma quiet_dsp_oracle [simp]: "quiet (dsp_oracle h lib b)"
  by (auto simp: quiet_def dsp_oracle_def my_load_mod_def leave_def Let_def split: option.splits)

lemma quiet_internal [simp]: "quiet (load_internal lib int_modules)"
  by (simp add: quiet_def int_modules_def)

lemma quiet_code [simp]: "quiet (add_code h)" "quiet (make_namespace h a)" "quiet qorus_init_pgm"
proof -
  show i: "quiet qorus_init_pgm" unfolding qorus_init_pgm_def by (rule quiet_steps) simp
  show "quiet (add_code h)" unfolding add_code_def by (rule quiet_steps) (simp add: i)
  show "quiet (make_namespace h a)" unfolding make_namespace_def by (rule quiet_steps) (simp add: i)
qed

lemma load_required_ok:
  "case load_required lib names st of
     Inl (rc, st') \<Rightarrow> rc = 1 \<and> same_run st st'
   | Inr st' \<Rightarrow> same_run st st' \<and> raised st' = raised st \<and> (\<forall>m\<in>set names. module_ok lib st' m)"
proof (induction names arbitrary: st)
  case Nil
  then show ?case by simp
next
  case (Cons name names)
  consider (ok) "load_error lib (calls st) name = None"
      "my_load_mod lib name st = (0, add_call (Load_module name) st)"
    | (bad) e where "my_load_mod lib name st = (1, add_call (Error_message e) (add_call (Load_module name) st))"
    using my_load_mod_cases[where lib = lib and st = st and name = name] by (elim disjE exE conjE) (rule that; assumption)+
  then show ?case
  proof cases
    case ok
    let ?st = "add_call (Load_module name) st"
    have m: "module_ok lib ?st name"
      unfolding module_ok_def by (rule exI[of _ "calls st"]) (simp add: ok(1))
    have same: "same_run st ?st" by simp
    show ?thesis
    proof (cases "load_required lib names ?st")
      case (Inl e)
      with Cons.IH[of ?st] ok(2) same show ?thesis
        by (auto intro: same_run_trans[of st ?st])
    next
      case (Inr st')
      with Cons.IH[of ?st] have i: "same_run ?st st'" "raised st' = raised st"
        "\<forall>m\<in>set names. module_ok lib st' m" by simp_all
      from i(1) have "extends ?st st'" by (simp add: same_run_def)
      from module_ok_extends[OF m this] same_run_trans[OF same i(1)] i Inr ok(2)
      show ?thesis by simp
    qed
  next
    case bad
    then show ?thesis by (simp add: leave_def)
  qed
qed

lemma quiet_required: "quiet (load_required lib names)"
  unfolding quiet_def
proof
  fix st
  from load_required_ok[where lib = lib and names = names and st = st]
  show "case load_required lib names st of Inl (rc, st') \<Rightarrow> rc = 1 \<and> same_run st st'
      | Inr st' \<Rightarrow> same_run st st' \<and> raised st' = raised st"
    by (cases "load_required lib names st") auto
qed

lemma load_sources_ok:
  "\<exists>st'. load_sources lib d names st = Inr st' \<and> extends st st' \<and> runs st' = runs st \<and>
    loaded st' = loaded st @ names"
proof (induction names arbitrary: st)
  case Nil
  then show ?case by simp
next
  case (Cons name names)
  let ?st = "add_call (Load_source name d) (st\<lparr>raised := raised st \<or> source_raises lib (calls st)\<rparr>)"
  from Cons.IH[of ?st] obtain st' where i: "load_sources lib d names ?st = Inr st'" "extends ?st st'"
    "runs st' = runs ?st" "loaded st' = loaded ?st @ names" by blast
  have "extends st ?st" by (simp add: extends_def)
  from i extends_trans[OF this i(2)] show ?case by simp
qed

lemma steps_append: "steps (fs @ gs) st = (case steps fs st of Inl e \<Rightarrow> Inl e | Inr st' \<Rightarrow> steps gs st')"
  by (induction fs arbitrary: st) (auto split: sum.split)

section \<open>The whole start-up\<close>

text \<open>
  The outcome of a program of class \<open>cls\<close> that needs the modules \<open>reqs\<close> and has
  the source files \<open>srcs\<close>.
\<close>

text \<open>
  The status of the process after the class was run: the one with which its code ended the process, or 0
  when \<^verbatim>\<open>main\<close> came to its end.
\<close>

definition class_status :: "qore_lib \<Rightarrow> int \<Rightarrow> boot_state \<Rightarrow> bool" where
  "class_status lib rc st \<longleftrightarrow> exits lib (calls st) = Some rc \<and> last (calls st) \<noteq> Cleanup \<or>
     rc = 0 \<and> last (calls st) = Cleanup"

definition outcome_ok :: "qore_lib \<Rightarrow> string \<Rightarrow> string list \<Rightarrow> string list \<Rightarrow> boot_end \<Rightarrow> bool" where
  "outcome_ok lib cls reqs srcs r \<longleftrightarrow> (case r of (rc, st) \<Rightarrow>
     (rc = 1 \<and> runs st = [] \<and> loaded st = []) \<or>
     ((\<forall>m\<in>set reqs. module_ok lib st m) \<and> loaded st = srcs \<and>
       (if raised st then rc = 0 \<and> runs st = []
        else runs st = [cls] \<and> class_status lib rc st)))"

text \<open>Waiting and ending add only calls that are neither source files nor classes.\<close>

lemma finish_ok:
  assumes "runs st = []"
  shows "\<exists>rc st'. finish lib cls st = (rc, st') \<and> extends st st' \<and> loaded st' = loaded st \<and>
    (if raised st' then rc = 0 \<and> runs st' = [] else runs st' = [cls] \<and> class_status lib rc st')"
proof -
  let ?st1 = "add_call Commit (st\<lparr>raised := raised st \<or> commit_raises lib (calls st)\<rparr>)"
  let ?st2 = "add_call (Run_class cls) ?st1"
  have e: "extends st (add_call c st')" if "extends st st'" for c st'
    using that by (rule extends_trans) simp
  have 1: "extends st ?st1" "loaded ?st1 = loaded st" "runs ?st1 = []"
    using assms by (simp_all add: e)
  then have 2: "extends st ?st2" "loaded ?st2 = loaded st" "runs ?st2 = [cls]" by (simp_all add: e)
  consider (bad) "raised ?st1" | (exit) rc where "\<not> raised ?st1" "exits lib (calls ?st2) = Some rc"
    | (wait) rc where "\<not> raised ?st1" "exits lib (calls ?st2) = None" "exits lib (calls (add_call Wait ?st2)) = Some rc"
    | (return) "\<not> raised ?st1" "exits lib (calls ?st2) = None" "exits lib (calls (add_call Wait ?st2)) = None"
    by (metis not_None_eq)
  then show ?thesis
  proof cases
    case bad
    with 1 show ?thesis by (auto simp: finish_def Let_def leave_def e)
  next
    case exit
    with 2 show ?thesis by (auto simp: finish_def Let_def run_class_def class_status_def)
  next
    case wait
    with 2 show ?thesis by (auto simp: finish_def Let_def run_class_def wait_class_def class_status_def e)
  next
    case return
    with 2 show ?thesis
      by (auto simp: finish_def Let_def run_class_def wait_class_def class_status_def leave_def e)
  qed
qed

lemma run_main_ok:
  assumes "\<forall>f\<in>set fs. quiet f" "\<forall>g\<in>set gs. quiet g"
  shows "outcome_ok lib cls reqs srcs
    (run_main lib cls (fs @ load_required lib reqs # gs @ [load_sources lib d srcs]))"
proof -
  let ?s0 = "\<lparr>calls = [], raised = False\<rparr>"
  have empty: "runs ?s0 = []" "loaded ?s0 = []" by (simp_all add: runs_def loaded_def)
  have qf: "quiet (steps fs)" and qg: "quiet (steps gs)" using assms by simp_all
  show ?thesis
  proof (cases "steps fs ?s0")
    case (Inl e)
    with qf[unfolded quiet_def, THEN spec, of ?s0] empty show ?thesis
      by (auto simp: run_main_def steps_append outcome_ok_def same_run_def split: prod.splits)
  next
    case (Inr s1)
    with qf[unfolded quiet_def, THEN spec, of ?s0] empty have e1: "runs s1 = []" "loaded s1 = []"
      by (simp_all add: same_run_def)
    show ?thesis
    proof (cases "load_required lib reqs s1")
      case Inl2: (Inl e)
      with load_required_ok[where lib = lib and names = reqs and st = s1] Inr e1 show ?thesis
        by (auto simp: run_main_def steps_append outcome_ok_def same_run_def split: prod.splits)
    next
      case Inr2: (Inr s2)
      with load_required_ok[where lib = lib and names = reqs and st = s1] e1 have e2: "runs s2 = []" "loaded s2 = []"
        "\<forall>m\<in>set reqs. module_ok lib s2 m" by (simp_all add: same_run_def)
      show ?thesis
      proof (cases "steps gs s2")
        case Inl3: (Inl e)
        with qg[unfolded quiet_def, THEN spec, of s2] Inr Inr2 e2 show ?thesis
          by (auto simp: run_main_def steps_append outcome_ok_def same_run_def split: prod.splits)
      next
        case Inr3: (Inr s3)
        with qg[unfolded quiet_def, THEN spec, of s2] e2 have e3: "runs s3 = []" "loaded s3 = []"
          "extends s2 s3" by (simp_all add: same_run_def)
        obtain s4 where s4: "load_sources lib d srcs s3 = Inr s4" "extends s3 s4" "runs s4 = []"
          "loaded s4 = srcs" using load_sources_ok[of lib d srcs s3] e3 by auto
        have r: "run_main lib cls (fs @ load_required lib reqs # gs @ [load_sources lib d srcs]) = finish lib cls s4"
          by (simp add: run_main_def steps_append Inr Inr2 Inr3 s4(1))
        obtain rc s5 where s5: "finish lib cls s4 = (rc, s5)" "extends s4 s5" "loaded s5 = srcs"
          "if raised s5 then rc = 0 \<and> runs s5 = [] else runs s5 = [cls] \<and> class_status lib rc s5"
          using finish_ok[OF s4(3), of lib cls] s4(4) by auto
        have "extends s2 s5" by (rule extends_trans[OF extends_trans[OF e3(3) s4(2)] s5(2)])
        with e2(3) have "\<forall>m\<in>set reqs. module_ok lib s5 m" by (blast intro: module_ok_extends)
        with s5 show ?thesis unfolding r by (simp add: outcome_ok_def)
      qed
    qed
  qed
qed

end
