(* ===== verification/Boot_Properties.thy ===== *)
theory Boot_Properties
  imports Boot_Laws
begin

text \<open>
  Properties of the start-up of the eight programs: reading the option file and the outcome of
  \<^verbatim>\<open>main\<close>.
\<close>

section \<open>The option file\<close>

text \<open>A host for the examples: its strings are as documented, its option file is given.\<close>

definition plain_host :: "string list \<Rightarrow> host" where
  "plain_host lines = \<lparr>parse_bool = (\<lambda>s. s = ''true''), str_trim = trim, str_find = first_offset,
     str_dirname = (\<lambda>s. ''.''), env_value = (\<lambda>v. if v = ''OMQ_DIR'' then Some ''/opt'' else None),
     file_lines = (\<lambda>f. if f = ''/opt/etc/options'' then Some lines else None), po_value = (\<lambda>_. 0)\<rparr>"

lemma plain_host_strings [simp]: "host_strings (plain_host lines)"
  by (auto simp: host_strings_def plain_host_def trim_is_chars white_space_def isspace_def intro!: exI[of _ isspace])

text \<open>An option as a line of the file: its name, the separator, a blank and its value.\<close>

definition print_option :: "string \<times> char \<times> string \<Rightarrow> string" where
  "print_option = (\<lambda>(k, c, v). k @ c # '' '' @ v)"

definition good_option :: "string \<times> char \<times> string \<Rightarrow> bool" where
  "good_option = (\<lambda>(k, c, v). good_name k \<and> trim v = v \<and> CHR 0x00 \<notin> set v \<and> separates c v)"

lemma read_print:
  assumes "host_strings h" "good_option x"
  shows "read_option h (print_option x) = Some (fst x, snd (snd x))"
proof (cases x)
  case (fields k c v)
  with assms(2) have x: "good_name k" "trim v = v" "CHR 0x00 \<notin> set v" "separates c v" by (simp_all add: good_option_def)
  from read_option_line[OF assms(1) x, of "[]" "[]" "'' ''" "[]"] show ?thesis
    by (simp add: fields print_option_def)
qed

text \<open>
  C32.  Reading the option file: the lines printed from a list of options are read back as these
  options, which take effect in the order of the file.  The options are those that a line can hold: the name is
  not empty, does not begin with a hash sign and has neither a colon nor an equals sign in it; name and value
  have no white space at their ends and no null character; and the value has no colon if it is separated by an
  equals sign, as such a line is split at the colon.
\<close>

theorem option_file_round_trip:
  assumes "host_strings h" and "\<forall>x\<in>set opts. good_option x"
  shows "map (read_option h) (map print_option opts) = map (\<lambda>x. Some (fst x, snd (snd x))) opts \<and>
    parse_lines h m (map print_option opts) r = foldl (\<lambda>r x. apply_option m (fst x, snd (snd x)) r) r opts"
  using assms(2)
  by (induction opts arbitrary: r) (simp_all add: parse_lines_def read_print[OF assms(1)])

theorem option_file_round_trip_witness:
  "fst (parse_lines (plain_host []) ([] :: unit opt_map)
      [''qorus.debug-qorus-internals: msg'', ''qorus.x= 1'']
      (\<lparr>internals = False, messages = False, config_items = False\<rparr>, \<lparr>po = 0\<rparr>)) =
    \<lparr>internals = True, messages = True, config_items = False\<rparr>"
proof -
  let ?o = "[(''qorus.debug-qorus-internals'', CHR '':'', ''msg''), (''qorus.x'', CHR ''='', ''1'')]"
  have g: "\<forall>x\<in>set ?o. good_option x"
    by (simp add: good_option_def good_name_def separates_def trim_def ltrim_def rtrim_def isspace_def)
  have p: "map print_option ?o = [''qorus.debug-qorus-internals: msg'', ''qorus.x= 1'']"
    by (simp add: print_option_def)
  from option_file_round_trip[OF plain_host_strings[of "[]"] g, of "[] :: unit opt_map"
      "(\<lparr>internals = False, messages = False, config_items = False\<rparr>, \<lparr>po = 0\<rparr>)"]
  show ?thesis unfolding p by (simp add: apply_option_def begins_def)
qed

section \<open>Options of the core server on the command line\<close>

lemma core_args_append: "core_args h (as @ bs) v = core_args h bs (core_args h as v)"
  by (induction as arbitrary: v) simp_all

lemma core_args_keep:
  assumes "\<forall>b\<in>set bs. \<not> begins ''minimum-tls-13'' b"
  shows "has_minimum_tls_13 (core_args h bs v) = has_minimum_tls_13 v \<and>
    minimum_tls_13 (core_args h bs v) = minimum_tls_13 v"
  using assms by (induction bs arbitrary: v) (auto split: option.split)

lemma apply_keeps:
  "minimum_tls_13 (snd (apply_option (core_opt_map h c True) x (d, v))) = minimum_tls_13 v"
  by (cases x) (simp add: apply_option_def core_opt_map_def Let_def)

lemma parse_lines_keep:
  "minimum_tls_13 (snd (parse_lines h (core_opt_map h c True) lines r)) = minimum_tls_13 (snd r)"
  unfolding parse_lines_def
proof (induction lines arbitrary: r)
  case Nil
  then show ?case by simp
next
  case (Cons l lines)
  have "minimum_tls_13 (snd (case read_option h l of None \<Rightarrow> r
      | Some x \<Rightarrow> apply_option (core_opt_map h c True) x r)) = minimum_tls_13 (snd r)"
    using apply_keeps by (cases r) (auto split: option.split)
  with Cons.IH show ?case by simp
qed

lemma parse_options_keep:
  "minimum_tls_13 (snd (qorus_parse_options h argv (core_opt_map h c True) v)) = minimum_tls_13 v"
  by (simp add: qorus_parse_options_def Let_def parse_lines_keep split: option.split)

text \<open>
  The command line comes first: if the core server is started with minimum-tls-13, the
  last value given there is the one the library is initialised with, whatever the option file says.
\<close>

theorem command_line_wins:
  assumes "argv = a # as @ (''minimum-tls-13='' @ x) # bs"
    and "\<forall>b\<in>set bs. \<not> begins ''minimum-tls-13'' b"
  shows "minimum_tls_13 (snd (core_options h argv)) = parse_bool h x"
proof -
  let ?init = "\<lparr>po = po_bits h [PO_REQUIRE_OUR, PO_NEW_STYLE, PO_REQUIRE_PROTOTYPES, PO_ALLOW_WEAK_REFERENCES],
    has_compat_permissive_api = False, compat_permissive_api = False, has_minimum_tls_13 = False,
    minimum_tls_13 = False, printed = []\<rparr>"
  let ?v = "core_args h (tl argv) ?init"
  let ?w = "core_args h as ?init"
  have "?v = core_args h bs (?w\<lparr>has_minimum_tls_13 := True, minimum_tls_13 := parse_bool h x\<rparr>)"
    by (simp add: assms(1) core_args_append begins_def)
  with core_args_keep[OF assms(2)] have v: "has_minimum_tls_13 ?v" "minimum_tls_13 ?v = parse_bool h x" by simp_all
  let ?r = "qorus_parse_options h argv (core_opt_map h (has_compat_permissive_api ?v) True) ?v"
  have "minimum_tls_13 (snd (core_options h argv)) = minimum_tls_13 (snd ?r)"
    using v(1) by (simp add: core_options_def Let_def split_def)
  with v(2) parse_options_keep show ?thesis by simp
qed

theorem command_line_wins_witness:
  "minimum_tls_13 (snd (core_options (plain_host [''qorus.minimum-tls-13: false''])
    [''qorus-core'', ''minimum-tls-13=true'', ''daemon-mode=false'']))"
proof -
  have "\<forall>b\<in>set [''daemon-mode=false'']. \<not> begins ''minimum-tls-13'' b" by (simp add: begins_def)
  from command_line_wins[OF _ this, of _ "''qorus-core''" "[]" "''true''"] show ?thesis
    by (simp add: plain_host_def)
qed

section \<open>The outcome of a start-up\<close>

type_synonym main_function = "host \<Rightarrow> qore_lib \<Rightarrow> string list \<Rightarrow> boot_end"

definition programs :: "(string \<times> string list \<times> string list \<times> main_function) list" where
  "programs =
     [(''QorusMaster'', qorus_modules, qorus_sources, qorus_main),
      (''QorusApp'', core_modules, core_sources, core_main),
      (''QWf'', qwf_modules, qwf_sources, qwf_main),
      (''QSvc'', qsvc_modules, qsvc_sources, qsvc_main),
      (''QJob'', qjob_modules, qjob_sources, qjob_main),
      (''QDsp'', qdsp_modules, qdsp_sources, qdsp_main),
      (''QCtl'', qctl_modules, qctl_sources, qctl_main),
      (''QBugReport'', bugreport_modules, bugreport_sources, bugreport_main)]"

text \<open>A list of steps of this form, put together step by step.\<close>

definition ends_with_sources :: "qore_lib \<Rightarrow> string list \<Rightarrow> step list \<Rightarrow> bool" where
  "ends_with_sources lib srcs xs \<longleftrightarrow> (\<exists>gs d. xs = gs @ [load_sources lib d srcs] \<and> (\<forall>g\<in>set gs. quiet g))"

definition boot_plan :: "qore_lib \<Rightarrow> string list \<Rightarrow> string list \<Rightarrow> step list \<Rightarrow> bool" where
  "boot_plan lib reqs srcs xs \<longleftrightarrow>
     (\<exists>fs ys. xs = fs @ load_required lib reqs # ys \<and> (\<forall>f\<in>set fs. quiet f) \<and> ends_with_sources lib srcs ys)"

lemma sources_last: "ends_with_sources lib srcs [load_sources lib d srcs]"
  unfolding ends_with_sources_def by (intro exI[of _ "[]"] exI[of _ d]) simp

lemma sources_quiet: "quiet f \<Longrightarrow> ends_with_sources lib srcs xs \<Longrightarrow> ends_with_sources lib srcs (f # xs)"
  unfolding ends_with_sources_def by (metis append_Cons set_ConsD)

lemma plan_required: "ends_with_sources lib srcs xs \<Longrightarrow> boot_plan lib reqs srcs (load_required lib reqs # xs)"
  unfolding boot_plan_def by (intro exI[of _ "[]"] exI[of _ xs]) simp

lemma plan_quiet: "quiet f \<Longrightarrow> boot_plan lib reqs srcs xs \<Longrightarrow> boot_plan lib reqs srcs (f # xs)"
  unfolding boot_plan_def by (metis append_Cons set_ConsD)

lemma plan_outcome: "boot_plan lib reqs srcs xs \<Longrightarrow> outcome_ok lib cls reqs srcs (run_main lib cls xs)"
  unfolding boot_plan_def ends_with_sources_def by (auto intro: run_main_ok)

lemmas plan_steps = sources_last plan_required sources_quiet plan_quiet

lemma outcome_servers:
  "outcome_ok lib ''QorusMaster'' qorus_modules qorus_sources (qorus_main h lib argv)"
  "outcome_ok lib ''QorusApp'' core_modules core_sources (core_main h lib argv)"
  "outcome_ok lib ''QWf'' qwf_modules qwf_sources (qwf_main h lib argv)"
  "outcome_ok lib ''QSvc'' qsvc_modules qsvc_sources (qsvc_main h lib argv)"
  "outcome_ok lib ''QJob'' qjob_modules qjob_sources (qjob_main h lib argv)"
  "outcome_ok lib ''QDsp'' qdsp_modules qdsp_sources (qdsp_main h lib argv)"
  unfolding qorus_main_def core_main_def qwf_main_def qsvc_main_def qjob_main_def qdsp_main_def Let_def
    start_library_def append.simps
  by (simp_all only: split_def, (rule plan_outcome, (rule plan_steps | simp)+)+)

lemma outcome_tools:
  "outcome_ok lib ''QCtl'' qctl_modules qctl_sources (qctl_main h lib argv)"
  "outcome_ok lib ''QBugReport'' bugreport_modules bugreport_sources (bugreport_main h lib argv)"
  unfolding qctl_main_def bugreport_main_def Let_def start_library_def append.simps
  by (simp_all only: split_def, (rule plan_outcome, (rule plan_steps | simp)+)+)

text \<open>
  C31.  The outcome of main, up to the code of the class that it runs.  Either the status is 1, no source
  file was loaded and the class was not run; or every module that the program needs was loaded without an
  error and all of its source files were loaded, in order.  In the second case, if a source file or parseCommit
  raised an exception, the class was not run and the status is 0 all the same; otherwise the class was run once,
  and the status is the one with which its Qore code ended the process (the library answers which, if any), or
  0 when that code and its threads came to an end and main cleaned up.
\<close>

theorem boot_outcome:
  assumes "(cls, reqs, srcs, main) \<in> set programs" and "main h lib argv = (rc, st)"
  shows "(rc = 1 \<and> runs st = [] \<and> loaded st = []) \<or>
    ((\<forall>m\<in>set reqs. module_ok lib st m) \<and> loaded st = srcs \<and>
      (if raised st then rc = 0 \<and> runs st = []
       else runs st = [cls] \<and> (exits lib (calls st) = Some rc \<and> last (calls st) \<noteq> Cleanup \<or>
         rc = 0 \<and> last (calls st) = Cleanup)))"
proof -
  have "outcome_ok lib cls reqs srcs (main h lib argv)"
    using assms(1) outcome_servers outcome_tools by (auto simp: programs_def)
  with assms(2) show ?thesis by (cases "raised st") (simp_all add: outcome_ok_def class_status_def)
qed

text \<open>A library in which every module can be loaded; committing raises an exception if \<open>bad\<close>, and the class
  that is run ends the process with status 3.\<close>

definition plain_lib :: "bool \<Rightarrow> qore_lib" where
  "plain_lib bad = \<lparr>lib_version = (1, 9, 0), lib_version_string = ''1.9.0'', load_error = (\<lambda>_ _. None),
     symbol_found = (\<lambda>_. True), register_raises = (\<lambda>_. False), source_raises = (\<lambda>_. False),
     commit_raises = (\<lambda>_. bad), exits = (\<lambda>cs. if last cs = Wait then Some 3 else None)\<rparr>"

lemma load_required_plain:
  "\<exists>st'. load_required (plain_lib bad) names st = Inr st'"
  by (induction names arbitrary: st) (simp_all add: my_load_mod_def plain_lib_def)

lemma steps_go:
  "steps (do_call c # fs) st = steps fs (add_call c st)"
  by (simp add: do_call_def)

lemma steps_total:
  assumes "\<And>f st. f \<in> set fs \<Longrightarrow> \<exists>st'. f st = Inr st'"
  shows "\<exists>st'. steps fs st = Inr st'"
  using assms
proof (induction fs arbitrary: st)
  case Nil
  then show ?case by simp
next
  case (Cons f fs)
  from Cons.prems[of f st] obtain st1 where "f st = Inr st1" by auto
  with Cons.IH[of st1] Cons.prems show ?case by auto
qed

lemma steps_calls: "\<exists>st'. steps (map do_call cs) st = Inr st'"
  by (rule steps_total) (auto simp: do_call_def)

lemma plain_total:
  "\<exists>st'. do_call c st = Inr st'" "\<exists>st'. set_defines ns st = Inr st'"
  "\<exists>st'. check_version (plain_lib bad) st = Inr st'" "\<exists>st'. qorus_setup_module_paths h a st = Inr st'"
  "\<exists>st'. load_oracle (plain_lib bad) st = Inr st'" "\<exists>st'. load_internal lib int_modules st = Inr st'"
  "\<exists>st'. add_code h st = Inr st'" "\<exists>st'. load_sources lib d srcs st = Inr st'"
proof -
  have c: "\<exists>st'. do_call c st = Inr st'" for c st by (simp add: do_call_def)
  then show "\<exists>st'. do_call c st = Inr st'" .
  show "\<exists>st'. set_defines ns st = Inr st'" unfolding set_defines_def by (rule steps_total) (auto simp: c)
  show "\<exists>st'. check_version (plain_lib bad) st = Inr st'" by (simp add: check_version_def plain_lib_def)
  show "\<exists>st'. qorus_setup_module_paths h a st = Inr st'"
    unfolding qorus_setup_module_paths_def Let_def by (rule steps_total) (auto simp: c)
  show "\<exists>st'. load_oracle (plain_lib bad) st = Inr st'" by (simp add: load_oracle_def plain_lib_def)
  show "\<exists>st'. load_internal lib int_modules st = Inr st'" by (simp add: int_modules_def)
  have i: "\<exists>st'. qorus_init_pgm st = Inr st'" for st
    unfolding qorus_init_pgm_def by (rule steps_total) (auto simp: c)
  show "\<exists>st'. add_code h st = Inr st'" unfolding add_code_def by (rule steps_total) (auto simp: c i)
  show "\<exists>st'. load_sources lib d srcs st = Inr st'" using load_sources_ok[of lib d srcs st] by blast
qed

lemma qwf_starts:
  "\<exists>st. qwf_main h (plain_lib bad) argv = (if raised st then 0 else 3, st) \<and> (bad \<longrightarrow> raised st)"
proof -
  obtain d v where p: "qorus_parse_options h argv [] \<lparr>po = server_po h\<rparr> = (d, v)"
    by (cases "qorus_parse_options h argv [] \<lparr>po = server_po h\<rparr>")
  obtain fs where fs: "qwf_main h (plain_lib bad) argv = run_main (plain_lib bad) ''QWf'' fs"
    and total: "\<And>f st. f \<in> set fs \<Longrightarrow> \<exists>st'. f st = Inr st'"
  proof
    show "qwf_main h (plain_lib bad) argv = run_main (plain_lib bad) ''QWf'' (start_library h (plain_lib bad) (hd argv) @
       [do_call (New_program (po v)), do_call (Script_path (hd argv)),
        set_defines [''QorusServer'', ''QorusHasWfApi'', ''QorusHasAnyIxApi'', ''QorusClusterServer'',
          ''QorusQwfServer''],
        set_defines (setDefines d), load_required (plain_lib bad) qwf_modules, load_oracle (plain_lib bad),
        load_internal (plain_lib bad) int_modules, add_code h,
        do_call (Add_class ''SegmentEventQueue''), do_call (Add_class ''TimedWorkflowCache''),
        do_call Add_namespace, load_sources (plain_lib bad) (internals d) qwf_sources])"
      by (simp only: qwf_main_def Let_def p prod.case)
  qed (auto simp: start_library_def plain_total load_required_plain)
  have "\<exists>st. steps fs \<lparr>calls = [], raised = False\<rparr> = Inr st" by (rule steps_total) (rule total)
  then obtain st where st: "steps fs \<lparr>calls = [], raised = False\<rparr> = Inr st" by blast
  have c: "commit_raises (plain_lib bad) = (\<lambda>_. bad)"
    "exits (plain_lib bad) = (\<lambda>cs. if last cs = Wait then Some 3 else None)" by (simp_all add: plain_lib_def)
  show ?thesis
  proof (cases "raised st \<or> bad")
    case True
    then show ?thesis by (auto simp: fs run_main_def st finish_def leave_def Let_def c)
  next
    case False
    then show ?thesis unfolding fs run_main_def st sum.case finish_def Let_def run_class_def wait_class_def c
      by simp
  qed
qed

theorem boot_outcome_witness:
  "\<exists>st. qwf_main (plain_host []) (plain_lib True) [''qwf''] = (0, st) \<and> raised st \<and> runs st = [] \<and>
    loaded st = qwf_sources"
proof -
  from qwf_starts[of "plain_host []" True "[''qwf'']"]
  obtain st where st: "qwf_main (plain_host []) (plain_lib True) [''qwf''] = (0, st)" "raised st" by auto
  have "(''QWf'', qwf_modules, qwf_sources, qwf_main) \<in> set programs" by (simp add: programs_def)
  from boot_outcome[OF this st(1)] st show ?thesis by simp
qed

section \<open>The Oracle pool of the datasource process\<close>

definition keeps :: "(boot_state \<Rightarrow> bool) \<Rightarrow> step \<Rightarrow> bool" where
  "keeps P f \<longleftrightarrow> (\<forall>st. P st \<longrightarrow> (case f st of Inl (rc, st') \<Rightarrow> P st' | Inr st' \<Rightarrow> P st'))"

lemma keeps_steps: "\<forall>f\<in>set fs. keeps P f \<Longrightarrow> keeps P (steps fs)"
proof (induction fs)
  case Nil
  then show ?case by (simp add: keeps_def)
next
  case (Cons f fs)
  then have k: "keeps P f" "keeps P (steps fs)" by simp_all
  show ?case
    unfolding keeps_def
  proof (intro allI impI)
    fix st assume p: "P st"
    show "case steps (f # fs) st of Inl (rc, st') \<Rightarrow> P st' | Inr st' \<Rightarrow> P st'"
    proof (cases "f st")
      case (Inl e)
      with k(1)[unfolded keeps_def, THEN spec, THEN mp, OF p] show ?thesis by simp
    next
      case (Inr s1)
      with k(1)[unfolded keeps_def, THEN spec, THEN mp, OF p] have "P s1" by simp
      with Inr k(2)[unfolded keeps_def, THEN spec, THEN mp, of s1] show ?thesis by simp
    qed
  qed
qed

definition no_oracle :: "boot_state \<Rightarrow> bool" where
  "no_oracle st \<longleftrightarrow> Load_module ''oracle'' \<notin> set (calls st)"

definition oracle_off :: "boot_state \<Rightarrow> bool" where
  "oracle_off st \<longleftrightarrow> Define ''NO_ORACLE'' \<in> set (calls st)"

lemma flags_add [simp]:
  "no_oracle (add_call c st) \<longleftrightarrow> no_oracle st \<and> c \<noteq> Load_module ''oracle''"
  "oracle_off (add_call c st) \<longleftrightarrow> oracle_off st \<or> c = Define ''NO_ORACLE''"
  "no_oracle (st\<lparr>raised := b\<rparr>) = no_oracle st" "oracle_off (st\<lparr>raised := b\<rparr>) = oracle_off st"
  by (auto simp: no_oracle_def oracle_off_def)

lemma keeps_call [simp]:
  "c \<noteq> Load_module ''oracle'' \<Longrightarrow> keeps no_oracle (do_call c)" "keeps oracle_off (do_call c)"
  by (simp_all add: keeps_def do_call_def)

lemma keeps_defines [simp]: "keeps no_oracle (set_defines ns)" "keeps oracle_off (set_defines ns)"
  unfolding set_defines_def by (auto intro!: keeps_steps)

lemma keeps_check [simp]: "keeps no_oracle (check_version lib)" "keeps oracle_off (check_version lib)"
  by (auto simp: keeps_def check_version_def version_error_def split: prod.splits)

lemma keeps_paths [simp]: "keeps no_oracle (qorus_setup_module_paths h a)"
  unfolding qorus_setup_module_paths_def Let_def by (auto intro!: keeps_steps)

lemma keeps_internal [simp]: "keeps no_oracle (load_internal lib int_modules)" "keeps oracle_off (load_internal lib int_modules)"
  by (simp_all add: keeps_def int_modules_def)

lemma keeps_required:
  "''oracle'' \<notin> set names \<Longrightarrow> keeps no_oracle (load_required lib names)"
  unfolding keeps_def
proof (intro allI impI)
  fix st assume "''oracle'' \<notin> set names" "no_oracle st"
  then show "case load_required lib names st of Inl (rc, st') \<Rightarrow> no_oracle st' | Inr st' \<Rightarrow> no_oracle st'"
  proof (induction names arbitrary: st)
    case Nil
    then show ?case by simp
  next
    case (Cons m ms)
    from my_load_mod_cases[where lib = lib and st = st and name = m] Cons show ?case
      by (auto simp: leave_def)
  qed
qed

lemma keeps_sources: "keeps no_oracle (load_sources lib d names)" "keeps oracle_off (load_sources lib d names)"
proof -
  have "no_oracle st \<Longrightarrow> \<exists>st'. load_sources lib d names st = Inr st' \<and> no_oracle st'" for st
    by (induction names arbitrary: st) simp_all
  then show "keeps no_oracle (load_sources lib d names)" by (force simp: keeps_def)
  have "oracle_off st \<Longrightarrow> \<exists>st'. load_sources lib d names st = Inr st' \<and> oracle_off st'" for st
    by (induction names arbitrary: st) simp_all
  then show "keeps oracle_off (load_sources lib d names)" by (force simp: keeps_def)
qed

lemma keeps_main:
  assumes "keeps P (steps fs)" "P s0" "(case steps fs s0 of Inl e \<Rightarrow> e | Inr st \<Rightarrow> finish lib cls st) = (rc, st)"
    and "\<And>st. P st \<Longrightarrow> P (snd (finish lib cls st))"
  shows "P st"
proof (cases "steps fs s0")
  case (Inl e)
  with assms(1)[unfolded keeps_def, THEN spec, THEN mp, OF assms(2)] assms(3) show ?thesis by simp
next
  case (Inr s1)
  with assms(1)[unfolded keeps_def, THEN spec, THEN mp, OF assms(2)] have "P s1" by simp
  from assms(4)[OF this] assms(3) Inr show ?thesis by simp
qed

lemma finish_flags:
  "no_oracle st \<Longrightarrow> no_oracle (snd (finish lib cls st))" "oracle_off st \<Longrightarrow> oracle_off (snd (finish lib cls st))"
  by (auto simp: finish_def run_class_def wait_class_def leave_def Let_def split: option.splits)

text \<open>
  The Oracle pool of qdsp: whatever the option file says, the datasource process never loads
  the oracle module, and defines NO_ORACLE whenever it gets as far as its source files; the option handler
  assigns to a copy of the variable that the program tests.
\<close>

theorem qdsp_never_uses_oracle:
  assumes "qdsp_main h lib argv = (rc, st)"
  shows "Load_module ''oracle'' \<notin> set (calls st) \<and>
    (rc = 0 \<longrightarrow> Define ''NO_ORACLE'' \<in> set (calls st))"
proof -
  obtain d v where p: "qorus_parse_options h argv (dsp_opt_map h)
      \<lparr>po = server_po h, captured_oracle_dsp = False\<rparr> = (d, v)"
    by (cases "qorus_parse_options h argv (dsp_opt_map h) \<lparr>po = server_po h, captured_oracle_dsp = False\<rparr>")
  let ?s0 = "\<lparr>calls = [], raised = False\<rparr>"
  let ?fs = "start_library h lib (hd argv) @ [do_call (New_program (po v)), do_call (Script_path (hd argv)),
     set_defines [''QdspServer'', ''QorusServer''], set_defines (setDefines d), load_required lib qdsp_modules]"
  let ?gs = "[load_internal lib int_modules, do_call (Set_parse_options (QORUS_PARSE_OPTIONS h)),
     do_call (New_namespace ''Qorus''), do_call Add_functions, do_call Add_constants, do_call Add_namespace,
     load_sources lib (internals d) qdsp_sources]"
  have f: "dsp_oracle h lib False = do_call (Define ''NO_ORACLE'')"
    by (simp add: dsp_oracle_def do_call_def fun_eq_iff)
  have main: "run_main lib ''QDsp'' (?fs @ do_call (Define ''NO_ORACLE'') # ?gs) = (rc, st)"
    using assms by (simp add: qdsp_main_def p f)
  have req: "keeps no_oracle (load_required lib qdsp_modules)"
    by (rule keeps_required) (simp add: qdsp_modules_def)
  have k: "keeps no_oracle (steps (?fs @ do_call (Define ''NO_ORACLE'') # ?gs))"
    by (rule keeps_steps) (simp add: start_library_def req keeps_sources)
  have "no_oracle ?s0" by (simp add: no_oracle_def)
  from keeps_main[OF k this main[unfolded run_main_def] finish_flags(1)] have "no_oracle st" .
  moreover have "oracle_off st" if "rc = 0"
  proof (cases "steps ?fs ?s0")
    case (Inl e)
    have "quiet (load_required lib qdsp_modules)"
      by (rule quiet_required)
    then have "quiet (steps ?fs)" by (intro quiet_steps) (simp add: start_library_def)
    from this[unfolded quiet_def, THEN spec, of ?s0] Inl have "fst e = 1" by (cases e) simp
    moreover have "run_main lib ''QDsp'' (?fs @ do_call (Define ''NO_ORACLE'') # ?gs) = e"
      by (simp only: run_main_def steps_append[of ?fs] Inl sum.case)
    ultimately show ?thesis using main that by simp
  next
    case (Inr s1)
    have k: "keeps oracle_off (steps ?gs)" by (rule keeps_steps) (simp add: keeps_sources)
    have off: "oracle_off (add_call (Define ''NO_ORACLE'') s1)" by simp
    have "run_main lib ''QDsp'' (?fs @ do_call (Define ''NO_ORACLE'') # ?gs) =
        (case steps ?gs (add_call (Define ''NO_ORACLE'') s1) of Inl e \<Rightarrow> e | Inr st \<Rightarrow> finish lib ''QDsp'' st)"
      by (simp only: run_main_def steps_append[of ?fs] Inr sum.case steps_go)
    from keeps_main[OF k off main[unfolded this] finish_flags(2)] show ?thesis .
  qed
  ultimately show ?thesis by (simp add: no_oracle_def oracle_off_def)
qed

theorem qdsp_never_uses_oracle_witness:
  "\<exists>rc st. qdsp_main (plain_host [''qorus.oracle-datasource-pool: true'']) (plain_lib False) [''qdsp''] = (rc, st) \<and>
    Load_module ''oracle'' \<notin> set (calls st)"
proof -
  obtain rc st where r: "qdsp_main (plain_host [''qorus.oracle-datasource-pool: true'']) (plain_lib False) [''qdsp'']
    = (rc, st)" by (rule prod.exhaust)
  from qdsp_never_uses_oracle[OF r] r show ?thesis by blast
qed

end
