(* ===== verification/Omq_Lib.thy ===== *)
theory Omq_Lib
  imports Parent_Info "HOL-Library.Word"
begin

text \<open>
  The functions of \<^verbatim>\<open>exec/ql_omqlib.qpp\<close>: the search of a sorted list and the limits of the
  operating system.
\<close>

section \<open>Search of a sorted list\<close>

text \<open>
  The search of a sorted list in \<^verbatim>\<open>exec/ql_omqlib.qpp\<close>, with which cron schedules
  are evaluated.  The third parameter is a reference; the model returns what is assigned to it.  The
  values of the list are narrowed to a 32-bit \<^verbatim>\<open>int\<close>.
\<close>

text \<open>\<open>ref_ok\<close> says if the reference can be assigned to; if not, nothing is returned.\<close>

fun omq_inlist_sorted :: "bool \<Rightarrow> int \<Rightarrow> qval list \<Rightarrow> (qval \<times> int option) result" where
  "omq_inlist_sorted ref_ok i [] = Inr (QBool False, None)"
| "omq_inlist_sorted ref_ok i (QInt n # l) =
     (let bi = to_int32 n in
      if bi = i then Inr (QBool True, None)
      else if bi > i then
        (if ref_ok then Inr (QBool False, Some bi) else Inr (QNothing, None))
      else omq_inlist_sorted ref_ok i l)"
| "omq_inlist_sorted ref_ok i (n # l) = Inl Assertion_failed"

text \<open>
  C33.  The search of a sorted list agrees with its specification when the values of the list
  fit 32 bits: it says if the value is in the list, and otherwise assigns the least greater one, if there
  is one.
\<close>

theorem inlist_sorted_spec:
  assumes "sorted l" and "\<forall>x\<in>set l. is_int32 x"
  shows "omq_inlist_sorted True i (map QInt l) = Inr (QBool (i \<in> set l),
    if i \<in> set l \<or> (\<forall>x\<in>set l. x < i) then None else Some (Min {x \<in> set l. i < x}))"
  using assms
proof (induction l)
  case Nil
  then show ?case by simp
next
  case (Cons n l)
  have n: "to_int32 n = n" using Cons.prems(2) by (simp add: to_int32_id)
  consider "n = i" | "i < n" | "n < i" by linarith
  then show ?case
  proof cases
    case 1
    with n show ?thesis by (simp add: Let_def)
  next
    case 2
    have "Min {x \<in> set (n # l). i < x} = n"
      by (rule Min_eqI) (use Cons.prems(1) 2 in auto)
    with 2 Cons.prems(1) show ?thesis by (auto simp: n)
  next
    case 3
    have "{x \<in> set (n # l). i < x} = {x \<in> set l. i < x}" using 3 by auto
    with 3 Cons show ?thesis by (auto simp: n)
  qed
qed

theorem inlist_sorted_spec_witness:
  "omq_inlist_sorted True 17 (map QInt [0, 15, 30, 45]) = Inr (QBool False, Some 30)"
proof -
  have "\<forall>x\<in>set [0, 15, 30, 45 :: int]. is_int32 x" by (simp add: is_int32_def)
  moreover have "{x \<in> set [0, 15, 30, 45]. 17 < x} = {30, 45 :: int}" by auto
  moreover have "sorted [0, 15, 30, 45 :: int]" by simp
  ultimately show ?thesis using inlist_sorted_spec[of "[0, 15, 30, 45]" 17]
    by (simp del: omq_inlist_sorted.simps)
qed

text \<open>Values that do not fit 32 bits are taken for others.\<close>

lemma inlist_wide_value: "omq_inlist_sorted r 5 [QInt 4294967301] = Inr (QBool True, None)"
  by (simp add: to_int32_def signed_take_bit_def)

section \<open>Limits of the operating system\<close>

text \<open>
  A limit has 64 bits without a sign; Qore integers have 64 bits and a sign, and the number of a
  resource is narrowed to an \<^verbatim>\<open>int\<close>.  The two calls of the system are the parameter
  \<open>rlimit_host\<close>; their error is the value of \<^verbatim>\<open>errno\<close>.
\<close>

record rlimit =
  rlim_cur :: "64 word"
  rlim_max :: "64 word"

record 'h rlimit_host =
  host_getrlimit :: "int \<Rightarrow> 'h \<Rightarrow> int + rlimit"
  host_setrlimit :: "int \<Rightarrow> rlimit \<Rightarrow> 'h \<Rightarrow> int + 'h"

text \<open>\<^verbatim>\<open>raiseErrnoException(err, errno, desc)\<close>\<close>

datatype errno_exception = Errno_exception string int string

definition RLIMIT_NOFILE :: int where
  "RLIMIT_NOFILE = 7"

definition RLIMIT_NPROC :: int where
  "RLIMIT_NPROC = 6"

definition get_limit_soft_nofile :: "'h rlimit_host \<Rightarrow> 'h \<Rightarrow> errno_exception + int" where
  "get_limit_soft_nofile H h = (case host_getrlimit H RLIMIT_NOFILE h of
     Inl errno \<Rightarrow> Inl (Errno_exception ''GET-LIMIT-ERROR'' errno ''getrlimit(RLIMIT_NOFILE) error'')
   | Inr rl \<Rightarrow> Inr (sint (rlim_cur rl)))"

definition get_limit_soft_nproc :: "'h rlimit_host \<Rightarrow> 'h \<Rightarrow> errno_exception + int" where
  "get_limit_soft_nproc H h = (case host_getrlimit H RLIMIT_NPROC h of
     Inl errno \<Rightarrow> Inl (Errno_exception ''GET-LIMIT-ERROR'' errno ''getrlimit(RLIMIT_NPROC) error'')
   | Inr rl \<Rightarrow> Inr (sint (rlim_cur rl)))"

definition getrlimit_soft :: "'h rlimit_host \<Rightarrow> int \<Rightarrow> 'h \<Rightarrow> errno_exception + int" where
  "getrlimit_soft H resource h = (case host_getrlimit H (to_int32 resource) h of
     Inl errno \<Rightarrow> Inl (Errno_exception ''GET-LIMIT-ERROR'' errno ''getrlimit() error'')
   | Inr rl \<Rightarrow> Inr (sint (rlim_cur rl)))"

definition getrlimit_hard :: "'h rlimit_host \<Rightarrow> int \<Rightarrow> 'h \<Rightarrow> errno_exception + int" where
  "getrlimit_hard H resource h = (case host_getrlimit H (to_int32 resource) h of
     Inl errno \<Rightarrow> Inl (Errno_exception ''GET-LIMIT-ERROR'' errno ''getrlimit() error'')
   | Inr rl \<Rightarrow> Inr (sint (rlim_max rl)))"

text \<open>The optional argument \<open>hard\<close> is 0 when it is not given.\<close>

definition setrlimit :: "'h rlimit_host \<Rightarrow> int \<Rightarrow> int \<Rightarrow> int option \<Rightarrow> 'h \<Rightarrow> errno_exception + 'h" where
  "setrlimit H resource soft hard_arg h =
     (let hard = (case hard_arg of None \<Rightarrow> 0 | Some x \<Rightarrow> x);
          rl = \<lparr>rlim_cur = word_of_int soft, rlim_max = word_of_int (if hard \<noteq> 0 then hard else soft)\<rparr>
      in case host_setrlimit H (to_int32 resource) rl h of
           Inl errno \<Rightarrow> Inl (Errno_exception ''SET-LIMIT-ERROR'' errno ''setrlimit() error'')
         | Inr h' \<Rightarrow> Inr h')"

text \<open>What is documented for the two calls: a limit that has been set is the one that is read.\<close>

definition stores_limits :: "'h rlimit_host \<Rightarrow> bool" where
  "stores_limits H \<longleftrightarrow> (\<forall>r rl h h'. host_setrlimit H r rl h = Inr h' \<longrightarrow> host_getrlimit H r h' = Inr rl)"

definition is_int64 :: "int \<Rightarrow> bool" where
  "is_int64 i \<longleftrightarrow> - (2 ^ 63) \<le> i \<and> i < 2 ^ 63"

lemma sint_of_int64: "is_int64 i \<Longrightarrow> sint (word_of_int i :: 64 word) = i"
  unfolding is_int64_def by (simp add: sint_sbintrunc' signed_take_bit_int_eq_self)

lemma set_then_get:
  assumes "stores_limits H" "setrlimit H r soft hard_arg h = Inr h'"
  shows "host_getrlimit H (to_int32 r) h' = Inr \<lparr>rlim_cur = word_of_int soft,
     rlim_max = word_of_int (case hard_arg of None \<Rightarrow> soft | Some x \<Rightarrow> if x \<noteq> 0 then x else soft)\<rparr>"
  using assms by (auto simp: setrlimit_def stores_limits_def Let_def split: sum.split_asm option.split)

text \<open>
  C34.  The limits that have been set are the ones that are read, the 64-bit integers of Qore passing
  through the unsigned type of the system unchanged; the hard limit is the soft one when it is not
  given, and also when it is given as zero.
\<close>

theorem limits_round_trip:
  assumes "stores_limits H" and "setrlimit H r soft hard_arg h = Inr h'"
    and "is_int64 soft" and "\<forall>x\<in>set_option hard_arg. is_int64 x"
  shows "getrlimit_soft H r h' = Inr soft \<and>
    getrlimit_hard H r h' = Inr (if hard_arg = None \<or> hard_arg = Some 0 then soft else the hard_arg) \<and>
    (to_int32 r = RLIMIT_NOFILE \<longrightarrow> get_limit_soft_nofile H h' = Inr soft) \<and>
    (to_int32 r = RLIMIT_NPROC \<longrightarrow> get_limit_soft_nproc H h' = Inr soft)"
proof -
  note get = set_then_get[OF assms(1,2)]
  have "to_int32 r = RLIMIT_NOFILE \<Longrightarrow> get_limit_soft_nofile H h' = Inr soft"
    "to_int32 r = RLIMIT_NPROC \<Longrightarrow> get_limit_soft_nproc H h' = Inr soft"
    using get assms(3) by (simp_all add: get_limit_soft_nofile_def get_limit_soft_nproc_def sint_of_int64)
  with assms(3,4) show ?thesis
    by (auto simp: getrlimit_soft_def getrlimit_hard_def get sint_of_int64 split: option.split)
qed

text \<open>A system that refuses a soft limit above the hard one with \<^verbatim>\<open>EINVAL\<close>.\<close>

definition table_host :: "(int \<Rightarrow> rlimit) rlimit_host" where
  "table_host = \<lparr>host_getrlimit = (\<lambda>r h. Inr (h r)),
     host_setrlimit = (\<lambda>r rl h. if rlim_max rl < rlim_cur rl then Inl 22 else Inr (h(r := rl)))\<rparr>"

theorem limits_round_trip_witness:
  "\<exists>h'. setrlimit table_host 4294967303 1024 (Some (-1)) (\<lambda>_. \<lparr>rlim_cur = 0, rlim_max = 0\<rparr>) = Inr h' \<and>
     getrlimit_soft table_host 7 h' = Inr 1024 \<and> getrlimit_hard table_host 4294967303 h' = Inr (-1) \<and>
     get_limit_soft_nofile table_host h' = Inr 1024"
proof -
  let ?h = "\<lambda>_. \<lparr>rlim_cur = 0, rlim_max = 0\<rparr> :: rlimit"
  have r: "to_int32 4294967303 = 7" by (simp add: to_int32_def signed_take_bit_def)
  have h: "stores_limits table_host" by (simp add: stores_limits_def table_host_def)
  have i: "is_int64 1024" "is_int64 (-1)" by (simp_all add: is_int64_def)
  obtain h' where s: "setrlimit table_host 4294967303 1024 (Some (-1)) ?h = Inr h'"
    by (simp add: setrlimit_def table_host_def Let_def)
  from limits_round_trip[OF h s] i have "getrlimit_soft table_host 4294967303 h' = Inr 1024 \<and>
    getrlimit_hard table_host 4294967303 h' = Inr (-1) \<and> get_limit_soft_nofile table_host h' = Inr 1024"
    by (simp add: r RLIMIT_NOFILE_def)
  with s show ?thesis by (auto simp: getrlimit_soft_def r is_int32_def)
qed

end
