(* ===== verification/Fast_Locks.thy ===== *)
theory Fast_Locks
  imports Qorus_Prelude
begin

text \<open>
  The locks of \<^verbatim>\<open>exec/QC_FastLock.h\<close> and \<^verbatim>\<open>exec/QC_AutoFastLock.h\<close>: an
  \<^verbatim>\<open>AutoFastLock\<close> takes a lock when it is made, has a flag that says if it holds the lock, and
  gives the lock back at the end of its life.

  A \<^verbatim>\<open>FastLock\<close> adds nothing to \<^verbatim>\<open>QoreThreadLock\<close>, the mutex of the Qore library, which is
  the parameter \<open>thread_lock\<close>: \<open>tl_lock\<close> has no value for a thread that is blocked.
\<close>

section \<open>The lock\<close>

record 'l thread_lock =
  tl_lock :: "nat \<Rightarrow> 'l \<Rightarrow> 'l option"
  tl_unlock :: "nat \<Rightarrow> 'l \<Rightarrow> 'l result"
  tl_trylock :: "nat \<Rightarrow> 'l \<Rightarrow> int \<times> 'l"
  tl_owner :: "'l \<Rightarrow> nat option"

text \<open>
  What is documented for the mutex: a thread gets it when no thread has it; \<^verbatim>\<open>trylock\<close> returns 0 when it
  got the lock; it is given back by the thread that has it, and otherwise the behaviour is undefined.
\<close>

definition is_mutex :: "'l thread_lock \<Rightarrow> bool" where
  "is_mutex L \<longleftrightarrow>
     (\<forall>t l. case tl_lock L t l of None \<Rightarrow> tl_owner L l \<noteq> None
        | Some l' \<Rightarrow> tl_owner L l = None \<and> tl_owner L l' = Some t) \<and>
     (\<forall>t l. case tl_unlock L t l of Inl e \<Rightarrow> tl_owner L l \<noteq> Some t
        | Inr l' \<Rightarrow> tl_owner L l = Some t \<and> tl_owner L l' = None) \<and>
     (\<forall>t l. case tl_trylock L t l of (rc, l') \<Rightarrow>
        if rc = 0 then tl_owner L l = None \<and> tl_owner L l' = Some t
        else tl_owner L l \<noteq> None \<and> tl_owner L l' = tl_owner L l)"

text \<open>The flag of the object; the thread is the one that makes the call.\<close>

record auto_lock =
  locked :: bool

definition new_AutoFastLock :: "'l thread_lock \<Rightarrow> nat \<Rightarrow> 'l \<Rightarrow> (auto_lock \<times> 'l) option" where
  "new_AutoFastLock L t l = map_option (\<lambda>l'. (\<lparr>locked = True\<rparr>, l')) (tl_lock L t l)"

definition auto_lock_lock :: "'l thread_lock \<Rightarrow> nat \<Rightarrow> auto_lock \<Rightarrow> 'l \<Rightarrow> (auto_lock \<times> 'l) option" where
  "auto_lock_lock L t g l = map_option (\<lambda>l'. (g\<lparr>locked := True\<rparr>, l')) (tl_lock L t l)"

definition auto_lock_unlock :: "'l thread_lock \<Rightarrow> nat \<Rightarrow> auto_lock \<Rightarrow> 'l \<Rightarrow> (auto_lock \<times> 'l) result" where
  "auto_lock_unlock L t g l = rbind (tl_unlock L t l) (\<lambda>l'. Inr (g\<lparr>locked := False\<rparr>, l'))"

definition auto_lock_trylock :: "'l thread_lock \<Rightarrow> nat \<Rightarrow> auto_lock \<Rightarrow> 'l \<Rightarrow> int \<times> auto_lock \<times> 'l" where
  "auto_lock_trylock L t g l = (case tl_trylock L t l of (rc, l') \<Rightarrow>
     (rc, if rc = 0 then g\<lparr>locked := True\<rparr> else g, l'))"

definition auto_lock_destructor :: "'l thread_lock \<Rightarrow> nat \<Rightarrow> auto_lock \<Rightarrow> 'l \<Rightarrow> 'l result" where
  "auto_lock_destructor L t g l = (if locked g then tl_unlock L t l else Inr l)"

text \<open>
  \<^verbatim>\<open>deref\<close>: with the last reference to the object the reference it holds to the lock is given back; the
  counts are those of the object and of the lock.
\<close>

definition auto_lock_deref :: "nat \<Rightarrow> nat \<Rightarrow> (nat \<times> nat) result" where
  "auto_lock_deref refs lock_refs =
     (if refs = 0 then Inl Undefined_behaviour
      else if refs = 1 then rbind (assert_that (lock_refs > 0)) (\<lambda>_. Inr (0, lock_refs - 1))
      else Inr (refs - 1, lock_refs))"

section \<open>Threads with locks\<close>

text \<open>
  Several threads, each with at most one \<^verbatim>\<open>AutoFastLock\<close> of the same lock; a thread that is blocked makes
  no step, and the object of a thread is gone after its destructor.
\<close>

record 'l lock_system =
  the_lock :: 'l
  objects :: "nat \<Rightarrow> auto_lock option"

inductive lock_step :: "'l thread_lock \<Rightarrow> 'l lock_system \<Rightarrow> 'l lock_system \<Rightarrow> bool" for L where
  make: "objects z t = None \<Longrightarrow> new_AutoFastLock L t (the_lock z) = Some (g, l) \<Longrightarrow>
    lock_step L z \<lparr>the_lock = l, objects = (objects z)(t := Some g)\<rparr>"
| lock: "objects z t = Some g \<Longrightarrow> auto_lock_lock L t g (the_lock z) = Some (g', l) \<Longrightarrow>
    lock_step L z \<lparr>the_lock = l, objects = (objects z)(t := Some g')\<rparr>"
| unlock: "objects z t = Some g \<Longrightarrow> auto_lock_unlock L t g (the_lock z) = Inr (g', l) \<Longrightarrow>
    lock_step L z \<lparr>the_lock = l, objects = (objects z)(t := Some g')\<rparr>"
| trylock: "objects z t = Some g \<Longrightarrow> auto_lock_trylock L t g (the_lock z) = (rc, g', l) \<Longrightarrow>
    lock_step L z \<lparr>the_lock = l, objects = (objects z)(t := Some g')\<rparr>"
| destroy: "objects z t = Some g \<Longrightarrow> auto_lock_destructor L t g (the_lock z) = Inr l \<Longrightarrow>
    lock_step L z \<lparr>the_lock = l, objects = (objects z)(t := None)\<rparr>"

inductive lock_reachable :: "'l thread_lock \<Rightarrow> 'l \<Rightarrow> 'l lock_system \<Rightarrow> bool" for L l0 where
  start: "lock_reachable L l0 \<lparr>the_lock = l0, objects = Map.empty\<rparr>"
| step: "lock_reachable L l0 z \<Longrightarrow> lock_step L z z' \<Longrightarrow> lock_reachable L l0 z'"

definition says_locked :: "'l lock_system \<Rightarrow> nat \<Rightarrow> bool" where
  "says_locked z t = (case objects z t of None \<Rightarrow> False | Some g \<Rightarrow> locked g)"

lemma says_locked_update [simp]:
  "says_locked \<lparr>the_lock = l, objects = f(t := x)\<rparr> u =
     (if u = t then (case x of None \<Rightarrow> False | Some g \<Rightarrow> locked g) else (case f u of None \<Rightarrow> False | Some g \<Rightarrow> locked g))"
  by (simp add: says_locked_def)

lemma mutex_laws:
  assumes "is_mutex L"
  shows "tl_lock L t l = Some l' \<Longrightarrow> tl_owner L l = None \<and> tl_owner L l' = Some t"
    "tl_lock L t l = None \<Longrightarrow> tl_owner L l \<noteq> None"
    "tl_unlock L t l = Inr l' \<Longrightarrow> tl_owner L l = Some t \<and> tl_owner L l' = None"
    "tl_unlock L t l = Inl e \<Longrightarrow> tl_owner L l \<noteq> Some t"
    "tl_trylock L t l = (rc, l') \<Longrightarrow> rc = 0 \<Longrightarrow> tl_owner L l = None \<and> tl_owner L l' = Some t"
    "tl_trylock L t l = (rc, l') \<Longrightarrow> rc \<noteq> 0 \<Longrightarrow> tl_owner L l' = tl_owner L l"
proof -
  have m: "case tl_lock L t l of None \<Rightarrow> tl_owner L l \<noteq> None
      | Some l' \<Rightarrow> tl_owner L l = None \<and> tl_owner L l' = Some t"
    "case tl_unlock L t l of Inl e \<Rightarrow> tl_owner L l \<noteq> Some t
      | Inr l' \<Rightarrow> tl_owner L l = Some t \<and> tl_owner L l' = None"
    "case tl_trylock L t l of (rc, l') \<Rightarrow> if rc = 0 then tl_owner L l = None \<and> tl_owner L l' = Some t
      else tl_owner L l \<noteq> None \<and> tl_owner L l' = tl_owner L l"
    using assms by (simp_all add: is_mutex_def)
  from m(1) show "tl_lock L t l = Some l' \<Longrightarrow> tl_owner L l = None \<and> tl_owner L l' = Some t"
    "tl_lock L t l = None \<Longrightarrow> tl_owner L l \<noteq> None" by simp_all
  from m(2) show "tl_unlock L t l = Inr l' \<Longrightarrow> tl_owner L l = Some t \<and> tl_owner L l' = None"
    "tl_unlock L t l = Inl e \<Longrightarrow> tl_owner L l \<noteq> Some t" by simp_all
  from m(3) show "tl_trylock L t l = (rc, l') \<Longrightarrow> rc = 0 \<Longrightarrow> tl_owner L l = None \<and> tl_owner L l' = Some t"
    "tl_trylock L t l = (rc, l') \<Longrightarrow> rc \<noteq> 0 \<Longrightarrow> tl_owner L l' = tl_owner L l" by simp_all
qed

lemma lock_step_flag:
  assumes L: "is_mutex L" and z: "\<And>t. says_locked z t \<longleftrightarrow> tl_owner L (the_lock z) = Some t"
    and step: "lock_step L z z'"
  shows "says_locked z' t \<longleftrightarrow> tl_owner L (the_lock z') = Some t"
proof -
  note flag = z[unfolded says_locked_def]
  from step show ?thesis
  proof cases
    case (make t g l)
    with mutex_laws(1)[OF L] flag show ?thesis by (auto simp: new_AutoFastLock_def)
  next
    case (lock t g g' l)
    with mutex_laws(1)[OF L] flag show ?thesis by (auto simp: auto_lock_lock_def)
  next
    case (unlock t g g' l)
    with mutex_laws(3)[OF L] flag show ?thesis by (auto simp: auto_lock_unlock_def)
  next
    case (trylock u g rc g' l)
    then have l: "tl_trylock L u (the_lock z) = (rc, l)" "g' = (if rc = 0 then g\<lparr>locked := True\<rparr> else g)"
      by (auto simp: auto_lock_trylock_def split: prod.split_asm)
    show ?thesis
    proof (cases "rc = 0")
      case True
      with mutex_laws(5)[OF L l(1)] trylock l flag[of t] flag[of u] show ?thesis by auto
    next
      case False
      with mutex_laws(6)[OF L l(1)] trylock l flag[of t] flag[of u] show ?thesis by auto
    qed
  next
    case (destroy u g l)
    show ?thesis
    proof (cases "locked g")
      case True
      with destroy have "tl_unlock L u (the_lock z) = Inr l" by (simp add: auto_lock_destructor_def)
      with mutex_laws(3)[OF L this] destroy flag[of t] flag[of u] show ?thesis by auto
    next
      case False
      with destroy flag[of t] flag[of u] show ?thesis by (auto simp: auto_lock_destructor_def)
    qed
  qed
qed

text \<open>
  C35.  In every state of threads that use one AutoFastLock each on the same lock, the object of a
  thread says that it holds the lock exactly when the thread has it; so at most one says so, the
  destructor of every object succeeds, and after it the thread has not got the lock.
\<close>

theorem auto_lock_flag:
  assumes "is_mutex L" and "tl_owner L l0 = None" and "lock_reachable L l0 z"
  shows "(\<forall>t. says_locked z t \<longleftrightarrow> tl_owner L (the_lock z) = Some t) \<and>
    (\<forall>t g. objects z t = Some g \<longrightarrow> (\<exists>l. auto_lock_destructor L t g (the_lock z) = Inr l \<and> tl_owner L l \<noteq> Some t))"
proof -
  from assms(3) have flag: "says_locked z t \<longleftrightarrow> tl_owner L (the_lock z) = Some t" for t
  proof (induction arbitrary: t rule: lock_reachable.induct)
    case start
    then show ?case by (simp add: says_locked_def assms(2))
  next
    case (step z z')
    from step.IH step.hyps(2) show ?case by (rule lock_step_flag[OF assms(1)])
  qed
  have "\<exists>l. auto_lock_destructor L t g (the_lock z) = Inr l \<and> tl_owner L l \<noteq> Some t"
    if "objects z t = Some g" for t g
  proof (cases "locked g")
    case True
    with flag[of t] that have "tl_owner L (the_lock z) = Some t" by (simp add: says_locked_def)
    with mutex_laws(3,4)[OF assms(1)] obtain l where "tl_unlock L t (the_lock z) = Inr l" "tl_owner L l = None"
      by (cases "tl_unlock L t (the_lock z)") blast+
    with True show ?thesis by (simp add: auto_lock_destructor_def)
  next
    case False
    with flag[of t] that show ?thesis by (simp add: auto_lock_destructor_def says_locked_def)
  qed
  with flag show ?thesis by blast
qed

text \<open>A mutex whose state is the thread that has it.\<close>

definition owner_lock :: "nat option thread_lock" where
  "owner_lock = \<lparr>tl_lock = (\<lambda>t l. if l = None then Some (Some t) else None),
     tl_unlock = (\<lambda>t l. if l = Some t then Inr None else Inl Undefined_behaviour),
     tl_trylock = (\<lambda>t l. if l = None then (0, Some t) else (1, l)), tl_owner = (\<lambda>l. l)\<rparr>"

theorem auto_lock_flag_witness:
  "\<exists>z. lock_reachable owner_lock None z \<and> says_locked z 1 \<and> \<not> says_locked z 2 \<and> objects z 2 \<noteq> None"
proof -
  let ?z = "\<lambda>l f. \<lparr>the_lock = l, objects = f\<rparr> :: nat option lock_system"
  let ?on = "\<lparr>locked = True\<rparr>" and ?off = "\<lparr>locked = False\<rparr>"
  have L: "is_mutex owner_lock" "tl_owner owner_lock None = None" by (simp_all add: is_mutex_def owner_lock_def)
  have 1: "lock_step owner_lock (?z None Map.empty) (?z (Some 2) [2 \<mapsto> ?on])"
    using lock_step.make[of "?z None Map.empty" 2 owner_lock ?on "Some 2"]
    by (simp add: new_AutoFastLock_def owner_lock_def)
  have 2: "lock_step owner_lock (?z (Some 2) [2 \<mapsto> ?on]) (?z None ([2 \<mapsto> ?on](2 \<mapsto> ?off)))"
    using lock_step.unlock[of "?z (Some 2) [2 \<mapsto> ?on]" 2 ?on owner_lock ?off None]
    by (simp add: auto_lock_unlock_def owner_lock_def)
  have 3: "lock_step owner_lock (?z None ([2 \<mapsto> ?on](2 \<mapsto> ?off))) (?z (Some 1) ([2 \<mapsto> ?on](2 \<mapsto> ?off, 1 \<mapsto> ?on)))"
    using lock_step.make[of "?z None ([2 \<mapsto> ?on](2 \<mapsto> ?off))" 1 owner_lock ?on "Some 1"]
    by (simp add: new_AutoFastLock_def owner_lock_def)
  have z: "lock_reachable owner_lock None (?z (Some 1) ([2 \<mapsto> ?on](2 \<mapsto> ?off, 1 \<mapsto> ?on)))"
    by (rule lock_reachable.step[OF lock_reachable.step[OF lock_reachable.step[OF lock_reachable.start 1] 2] 3])
  from auto_lock_flag[OF L z] have "says_locked (?z (Some 1) ([2 \<mapsto> ?on](2 \<mapsto> ?off, 1 \<mapsto> ?on))) 1 \<and>
    \<not> says_locked (?z (Some 1) ([2 \<mapsto> ?on](2 \<mapsto> ?off, 1 \<mapsto> ?on))) 2"
    by (simp add: owner_lock_def)
  with z show ?thesis by (intro exI conjI) auto
qed

end
