(* ===== verification/Spec2Isabelle.thy ===== *)
theory Spec2Isabelle
  imports Primary_Conservation Retry_Properties Lost_Wakeups Segment_Waiting Segment_Drain Segment_Bindings Timed_Traces
    Performance_Properties Performance_Bindings Boot_Properties Omq_Lib Fast_Locks
begin

text \<open>
  The C++ part of the Qorus Integration Engine, \<^verbatim>\<open>src/exec\<close>: the classes that the
  server, which is written in Qore, is built on, and the programs that start it.

  \<^bold>\<open>The parts and how they interact.\<close>  Workflow orders enter a
  \<^verbatim>\<open>SegmentEventQueue\<close>, one for each workflow. Its primary queue holds new orders, ready by
  priority or scheduled for a time; each segment has a back end queue of workflow, asynchronous or
  subworkflow events; three retry queues hold the workflow instances that wait to be retried. Threads take
  events out with blocking calls, and a reference count for each workflow instance keeps segments in
  progress and retries apart. Around it are the caches of workflow data that wait to be detached or
  synchronised (\<^verbatim>\<open>TimedDataCacheBase\<close>), the cache of orders that wait to exceed their
  service level (\<^verbatim>\<open>OrderExpiryCache\<close>) and the performance caches with their manager.
  Eight programs read their options, load modules and sources and run the class of the server.

  \<^bold>\<open>The theories.\<close>
  \<^item> \<^theory_text>\<open>Qorus_Prelude\<close>, \<^theory_text>\<open>Std_Containers\<close>: outcomes of
    C++ code, the standard containers, condition variables and wait loops, narrowing and printing of
    integers; \<^theory_text>\<open>Parent_Info\<close>: Qore values and the parent data of an entry, with its round
    trip through a hash.
  \<^item> \<^theory_text>\<open>Primary_Queue\<close> models \<^verbatim>\<open>class PrimaryQueue\<close> of
    \<^verbatim>\<open>SegmentEventQueue.h\<close>. \<^theory_text>\<open>Primary_Laws\<close> has its invariant and
    the abstract schedule (\<open>order_spec\<close>: a list of ready orders in delivery order and one of
    scheduled orders) that its operations implement, \<^theory_text>\<open>Primary_Changes\<close> the operations
    that change an order, \<^theory_text>\<open>Primary_Clients\<close> the interface \<open>order_buffer\<close>;
    \<^theory_text>\<open>Primary_Properties\<close> the properties; \<^theory_text>\<open>Primary_Conservation\<close>
    keeps a log of the orders over any sequence of operations and shows that none is lost.
  \<^item> \<^theory_text>\<open>Backend_Queues\<close> models the back end entries and queues;
    \<^theory_text>\<open>Backend_Laws\<close>, \<^theory_text>\<open>Backend_Clients\<close> (interface
    \<open>backend_adder\<close>) and \<^theory_text>\<open>Backend_Merge\<close> (interface
    \<open>backend_merger\<close>) show that the look-up maps index exactly the queued entries and what adding
    and merging do to the content, for all three kinds of queue.
  \<^item> \<^theory_text>\<open>Retry_Queue\<close>, \<^theory_text>\<open>Retry_Laws\<close>: the retry queues.
  \<^item> \<^theory_text>\<open>Segment_Queue\<close> and \<^theory_text>\<open>Segment_Events\<close> model
    \<^verbatim>\<open>class SegmentEventQueue\<close>, every operation with its guards;
    \<^theory_text>\<open>Segment_Laws\<close> has the invariant of the whole queue and the operations that queue
    events, \<^theory_text>\<open>Segment_Delivery\<close> (interface \<open>backend_server\<close>) and
    \<^theory_text>\<open>Retry_Delivery\<close> those that deliver them. \<^theory_text>\<open>Segment_Work\<close> reads
    the work that is queued out of a state (\<open>pending\<close>; interface \<open>work_server\<close>), and
    \<^theory_text>\<open>Segment_Merge\<close> has what merging two objects does. Any number of threads work on one
    queue: \<^theory_text>\<open>Segment_System\<close> has the calls that take nothing out of the back end and add
    nothing to it (\<open>seg_update\<close>), \<^theory_text>\<open>Segment_Feed\<close> those that add work
    (\<open>seg_feed\<close>), \<^theory_text>\<open>Segment_Threads\<close> the step relation \<open>seg_step\<close> and
    \<open>reachable_inv\<close>, the invariant of the reachable states. The relation has every operation of the
    class, three of them with a condition, because without it they break the look-up maps: a scheduled order is
    not removed; an order whose priority is changed or that is removed and that is not in the primary queue has
    an identifier that is not the time of a back end event; and an object is merged into another when it has no
    retries and the two have no events of the same segment, workflow instance and status. The object that was merged
    into another does not take steps after that.
    \<^theory_text>\<open>Segment_Conservation\<close> keeps a log of the work that was queued and delivered and
    shows that none is lost. \<^theory_text>\<open>Segment_Notices\<close> says what a condition variable
    makes of the notifications (\<open>wakes\<close>) and which ones each critical section has to send
    (\<open>alerts\<close>; interface \<open>waiting_server\<close>, the three kinds of back end queue); with
    them \<^theory_text>\<open>Segment_Wakeups\<close> adds the threads asleep and notified on each segment to the
    system (\<open>cond_step\<close>) and shows that no wake-up is lost, and \<^theory_text>\<open>Segment_Waiting\<close>
    that the calls of a stopped connection end, while \<^theory_text>\<open>Lost_Wakeups\<close>
    has lost ones of the primary queue and of the retry queues. \<^theory_text>\<open>Segment_Drain\<close> has consecutive deliveries
    to one segment. The other properties are in \<^theory_text>\<open>Segment_Properties\<close>,
    \<^theory_text>\<open>Retry_Properties\<close> and, for the reachable states, in this theory.
    \<^theory_text>\<open>Segment_Bindings\<close> models the methods of the Qore class,
    \<^verbatim>\<open>QC_SegmentEventQueue.qpp\<close>, with their narrowing of integers, and shows which calls
    return and that each is a step of the threads.
  \<^item> \<^theory_text>\<open>Timed_Cache\<close> models \<^verbatim>\<open>CacheEntryBase.h\<close>,
    \<^verbatim>\<open>TimedDataCacheBase.h\<close> and \<^verbatim>\<open>QC_TimedSyncCache.h\<close> for both kinds
    of key; \<^theory_text>\<open>Timed_Laws\<close> relates the list and the two-level map to the list of the
    stored values, \<^theory_text>\<open>Timed_Clients\<close> has the interface \<open>keyed_queue\<close> and
    the properties.
  \<^item> \<^theory_text>\<open>Order_Expiry\<close> models \<^verbatim>\<open>QC_OrderExpiryCache.h\<close>.
    \<^theory_text>\<open>Cache_Bindings\<close> models the methods of the Qore classes of these caches and shows
    which calls succeed in the states their objects reach; \<^theory_text>\<open>Timed_Traces\<close> shows
    that any sequence of calls of a timed cache returns what a plain list of values does.
  \<^item> \<^theory_text>\<open>Performance_Cache\<close> models \<^verbatim>\<open>PerformanceCache.h\<close> and
    \<^verbatim>\<open>PerformanceCache.cpp\<close>; \<^theory_text>\<open>Performance_Laws\<close> has the window of
    data points and the history, \<^theory_text>\<open>Performance_Manager\<close> the users of the manager,
    \<^theory_text>\<open>Performance_Properties\<close> the properties. \<^theory_text>\<open>Performance_Bindings\<close>
    models the Qore classes and lets a program work on a manager and the objects of its caches
    (\<open>perf_step\<close>): reference counts are exact.
  \<^item> \<^theory_text>\<open>Startup_Options\<close> models \<^verbatim>\<open>qorus_lib.cpp\<close>;
    \<^theory_text>\<open>Boot_Lists\<close>, \<^theory_text>\<open>Boot\<close> and
    \<^theory_text>\<open>Boot_Programs\<close> the eight \<^verbatim>\<open>main\<close> functions as sequences of
    their calls of the Qore library; \<^theory_text>\<open>Boot_Laws\<close> and
    \<^theory_text>\<open>Boot_Properties\<close> the outcome of a start-up.
  \<^item> \<^theory_text>\<open>Omq_Lib\<close> models the functions of \<^verbatim>\<open>ql_omqlib.qpp\<close>: the
    search of a sorted list and the limits of the system, over the two system calls as the parameter
    \<open>rlimit_host\<close>. \<^theory_text>\<open>Fast_Locks\<close> models \<^verbatim>\<open>QC_AutoFastLock.h\<close>
    over the mutex of the Qore library (\<open>thread_lock\<close>, with its documented behaviour
    \<open>is_mutex\<close>) and lets threads work with it.

  \<^bold>\<open>Conventions.\<close>  A failed \<^verbatim>\<open>assert\<close> is
  \<open>Inl Assertion_failed\<close>, the use of an invalid iterator or pointer
  \<open>Inl Undefined_behaviour\<close>. One critical section is one transition. The clock, the address of a
  new object and what the Qore library answers (conversions of values in \<open>qore_api\<close>, the host in
  \<open>host\<close>, modules and sources in \<open>qore_lib\<close>, arithmetic on \<^verbatim>\<open>double\<close> in
  \<open>flops\<close>) are arguments. Notifications are appended to a log. 64-bit integers and counters are
  HOL integers: identifiers, seconds and counts do not overflow; where the code narrows to 32 bits, the
  model does. Parse options are 64-bit words.

  \<^bold>\<open>Bounds.\<close>  A blocking call is given the list of its rounds, each with its time and what
  the other threads do while it sleeps (\<open>wait_loop\<close>); running out of rounds means that it still
  sleeps, and the properties about waiting say when it does not. All other loops are recursion over the
  containers. The sums of the performance caches are exact as long as they do not exceed the bound up to
  which the arithmetic is, which is \<open>2 ^ 53\<close> for the IEEE format.

  \<^bold>\<open>Not modelled.\<close>  The reference counts of the objects that the Qore library passes to a
  method; that the constructor of the Qore class \<^verbatim>\<open>PerformanceCache\<close> stores its data under
  the identifier of another class; the declarations of generated functions and of the class identifiers;
  the code for Windows and macOS; debug output; the part of the system that is written in Qore, the build
  files and the documentation.
\<close>

section \<open>Threads around one queue\<close>

text \<open>
  C5.  Exclusion: in every reachable state a workflow instance whose retry has been taken and not
  released is held by that one thread alone; its reference count is -1 in that case, and otherwise the
  number of segments that threads have taken and not released.
\<close>

theorem retry_excludes_segments:
  assumes "reachable z"
  shows "ss_retrying z w \<le> 1 \<and> (ss_retrying z w = 1 \<longrightarrow> ss_held z w = 0) \<and>
    seg_refs w (ss_queue z) = (if ss_retrying z w > 0 then Some (-1)
      else if ss_held z w = 0 then None else Some (int (ss_held z w)))"
  using reachable_inv[OF assms] by (simp add: sys_inv_def refs_agree_def)

text \<open>A reachable state with a segment taken: a thread grabs workflow 7.\<close>

definition grabbed :: seg_system where
  "grabbed = initial_system\<lparr>ss_queue := put_refs 7 1 new_SegmentEventQueue, ss_held := (\<lambda>_. 0)(7 := 1)\<rparr>"

lemma grabbed_reachable: "reachable grabbed"
proof -
  have "grab_segment_inc 7 (ss_queue initial_system) = Inr (False, put_refs 7 1 new_SegmentEventQueue)"
    by (simp add: grab_segment_inc_def initial_system_def seg_refs_def new_SegmentEventQueue_def)
  from seg_step.quiet[OF quiet_step.grab[OF this]] have "seg_step initial_system grabbed"
    by (simp add: grabbed_def initial_system_def)
  with reachable.init show ?thesis by (rule reachable.step)
qed

theorem retry_excludes_segments_witness:
  "ss_held grabbed 7 = 1 \<and> ss_retrying grabbed 7 = 0 \<and> seg_refs 7 (ss_queue grabbed) = Some 1"
  using retry_excludes_segments[OF grabbed_reachable, of 7] by (simp add: grabbed_def initial_system_def)

text \<open>
  C15.  Releasing never fails: in every reachable state, a thread that releases a segment it
  has taken, or a retry it has taken, meets none of the assertions, and the counts are those of the state
  before without this one.
\<close>

theorem releases_succeed:
  assumes "reachable z"
  shows "(ss_held z w > 0 \<longrightarrow> (\<exists>s'. release_segment w (ss_queue z) = Inr s' \<and>
      seg_refs w s' = (if ss_held z w = 1 then None else Some (int (ss_held z w) - 1)))) \<and>
    (ss_retrying z w > 0 \<longrightarrow> (\<exists>s'. release_retry_segment w (ss_queue z) = Inr s' \<and> seg_refs w s' = None))"
proof (intro conjI impI)
  from reachable_inv[OF assms] have inv: "seg_inv (ss_queue z)"
    "refs_agree (ss_queue z) (ss_held z) (ss_retrying z)" by (simp_all add: sys_inv_def)
  show "\<exists>s'. release_segment w (ss_queue z) = Inr s' \<and>
      seg_refs w s' = (if ss_held z w = 1 then None else Some (int (ss_held z w) - 1))" if "ss_held z w > 0"
    using release_segment_ok[OF inv(1), of w] refs_agree_held[OF inv(2) that] that by auto
  show "\<exists>s'. release_retry_segment w (ss_queue z) = Inr s' \<and> seg_refs w s' = None" if "ss_retrying z w > 0"
    using release_retry_segment_ok[OF inv(1), of w] refs_agree_retrying[OF inv(2) that] by auto
qed

theorem releases_succeed_witness:
  "\<exists>s'. release_segment 7 (ss_queue grabbed) = Inr s' \<and> seg_refs 7 s' = None"
  using releases_succeed[OF grabbed_reachable, of 7] by (simp add: grabbed_def initial_system_def)

text \<open>
  A reachable state in which workflow 7 waits to be retried at 310, a thread sleeps on that retry since 100, and
  workflow 8 is scheduled for 20.
\<close>

definition sleeping_queue :: seg_queue where
  "sleeping_queue = new_SegmentEventQueue\<lparr>sq_retry := (one_entry 1 10)\<lparr>marker_set := [1]\<rparr>, retry_waiting := 1\<rparr>"

definition sleeping :: seg_system where
  "sleeping = initial_system\<lparr>ss_queue := sleeping_queue, ss_sleep := [Wait_trigger Retry_src 1 210000]\<rparr>"

lemma sleeping_reachable: "reachable sleeping"
proof -
  have "retry_attempt plain_api 1 (plain_config, 100) (new_SegmentEventQueue\<lparr>sq_retry := one_entry 1 10\<rparr>) =
      Inr (Waiting (Wait_trigger Retry_src 1 210000), sleeping_queue)"
    by (simp add: retry_attempt_def conn_stopped_def new_SegmentEventQueue_def new_RetryQueue_def one_entry_def
      retry_search_def first_free_def seg_busy_def seg_refs_def later_search_def retry_choice_def mark_entry_def
      src_queue_def put_src_def put_retry_def sleeping_queue_def insort_insert_key_def)
  with reachable.step[OF one_retry_reachable seg_step.quiet[OF quiet_step.sleep_retry]] show ?thesis
    by (fastforce simp: sleeping_def initial_system_def)
qed

definition scheduled :: seg_system where
  "scheduled = sleeping\<lparr>ss_queue := sleeping_queue\<lparr>sq_primary := new_PrimaryQueue\<lparr>psq := [(0, 20, order_of 8)],
     psmap := [8 \<mapsto> 0], pq_next := 1\<rparr>\<rparr>\<rparr>"

lemma scheduled_reachable: "reachable scheduled"
proof -
  have "queue_primary_event plain_api 10 8 500 None (Some 20) sleeping_queue = Inr (ss_queue scheduled)"
    by (simp add: queue_primary_event_def primary_add_def opt_parent_info_def addToScheduled_def sleeping_queue_def
      scheduled_def order_of_def new_SegmentEventQueue_def new_PrimaryQueue_def)
  then have "quiet_step sleeping scheduled"
    using quiet_step.update[OF seg_update.primary, of plain_api 10 8 500 None "Some 20" sleeping]
    by (simp add: sleeping_def scheduled_def)
  from reachable.step[OF sleeping_reachable seg_step.quiet[OF this]] show ?thesis .
qed

text \<open>
  C16.  No retry is marked for ever: in every state that the threads can reach, the threads counted as
  waiting for retries are those asleep, and every marked entry is one on which a thread sleeps with a time-out.
  Two objects can be merged in any state, also with retries: the count of both is unchanged, no entry of the one
  merged into is marked any more, and the other has the marks it had.
\<close>

theorem marked_retries_have_sleepers:
  assumes "reachable z"
  shows "retry_waiting (ss_queue z) = int (length (ss_sleep z)) \<and>
    (\<forall>r a. a \<in> set (marker_set (src_queue r (ss_queue z))) \<longrightarrow> (\<exists>ms. Wait_trigger r a ms \<in> set (ss_sleep z))) \<and>
    (case merge_all (ss_queue z) t of
       Inl e \<Rightarrow> True
     | Inr (s', t') \<Rightarrow> retry_waiting s' = retry_waiting (ss_queue z) \<and> (\<forall>r. marker_set (src_queue r s') = []) \<and>
         retry_waiting t' = retry_waiting t \<and> (\<forall>r. marker_set (src_queue r t') = marker_set (src_queue r t)))"
  using reachable_inv[OF assms] merge_all_retries[of "ss_queue z" t] by (simp add: sys_inv_def marks_agree_def)

theorem marked_retries_have_sleepers_witness:
  "reachable sleeping \<and> 1 \<in> set (marker_set (src_queue Retry_src (ss_queue sleeping))) \<and>
   retry_waiting (ss_queue sleeping) = 1 \<and> (\<exists>ms. Wait_trigger Retry_src 1 ms \<in> set (ss_sleep sleeping))"
proof -
  have "1 \<in> set (marker_set (src_queue Retry_src (ss_queue sleeping)))"
    by (simp add: sleeping_def sleeping_queue_def src_queue_def)
  moreover note marked = marked_retries_have_sleepers[OF sleeping_reachable, of new_SegmentEventQueue]
  from marked[THEN conjunct1] have "retry_waiting (ss_queue sleeping) = 1" by (simp add: sleeping_def)
  moreover note marked[THEN conjunct2, THEN conjunct1, rule_format, OF calculation(1)]
  ultimately show ?thesis using sleeping_reachable by blast
qed

text \<open>
  C9.  The invariant of the queue: in every state that the threads can reach, the look-up maps of the
  primary queue, of every back end queue and of the three retry queues index exactly their entries, at most
  one per key, every queue is in its order, and the reference counts are -1 or positive.  The threads can call
  every operation of the class, with these exceptions: an order that is scheduled is not removed; an order whose
  priority is changed or that is removed, and that is not in the primary queue, has an identifier that is not
  the time of a back end event; and another object is merged into this one only when it has no retries and the two
  have no events of the same segment, workflow instance and status.  The first exception is needed: removing a
  scheduled order succeeds and breaks the invariant.
\<close>

theorem reachable_seg_inv:
  assumes "reachable z"
  shows "seg_inv (ss_queue z) \<and>
    (psmap (sq_primary (ss_queue z)) w \<noteq> None \<longrightarrow>
       (\<exists>s'. removeWorkflowOrder w prio (ss_queue z) = Inr s' \<and> \<not> seg_inv s'))"
  using reachable_inv[OF assms] removal_breaks[of "ss_queue z" w prio] by (auto simp: sys_inv_def)

theorem reachable_seg_inv_witness:
  "reachable scheduled \<and> rq_nodes (sq_retry (ss_queue scheduled)) \<noteq> [] \<and>
   psq (sq_primary (ss_queue scheduled)) \<noteq> [] \<and> seg_inv (ss_queue scheduled) \<and>
   (\<exists>s'. removeWorkflowOrder 8 500 (ss_queue scheduled) = Inr s' \<and> \<not> seg_inv s')"
proof -
  have "psmap (sq_primary (ss_queue scheduled)) 8 \<noteq> None" "psq (sq_primary (ss_queue scheduled)) \<noteq> []"
    "rq_nodes (sq_retry (ss_queue scheduled)) \<noteq> []"
    by (simp_all add: scheduled_def sleeping_def sleeping_queue_def one_entry_def)
  with reachable_seg_inv[OF scheduled_reachable, of 8 500] scheduled_reachable show ?thesis by blast
qed

end
